(* ===== verification/Prelude.thy ===== *)
theory Prelude
  imports Complex_Main "HOL-Library.Word"
begin

text \<open>
  Shared vocabulary of the development: the machine integers of the Rust sources with
  their saturating, checked and wrapping operations, results as sums with the \<open>?\<close>
  operator, grid positions, and the generic lemmas the component theories rely on.

  Unsigned integers (\<open>u8\<close>, \<open>u32\<close>, \<open>u64\<close>) are words. Signed integers (\<open>i32\<close>, \<open>i64\<close>) are
  \<open>int\<close>; where the code may leave the width, the wrap-around of a release build is written
  out with \<open>wrap_i32\<close> and \<open>wrap_i64\<close> (a debug build panics at exactly these places).
\<close>

section \<open>Machine integers\<close>

type_synonym u8 = "8 word"
type_synonym u32 = "32 word"
type_synonym u64 = "64 word"
type_synonym pos = "int \<times> int \<times> int"

named_theorems machine_arith
  \<open>facts that move comparisons and arithmetic on words to the natural numbers\<close>

lemmas word_order_nat [machine_arith] = word_less_nat_alt word_le_nat_alt

definition sat_add :: "'a::len word \<Rightarrow> 'a word \<Rightarrow> 'a word" where
  "sat_add a b = (if unat a + unat b < 2 ^ LENGTH('a) then a + b else - 1)"

definition sat_sub :: "'a::len word \<Rightarrow> 'a word \<Rightarrow> 'a word" where
  "sat_sub a b = (if a < b then 0 else a - b)"

definition checked_add :: "'a::len word \<Rightarrow> 'a word \<Rightarrow> 'a word option" where
  "checked_add a b = (if unat a + unat b < 2 ^ LENGTH('a) then Some (a + b) else None)"

definition checked_sub :: "'a::len word \<Rightarrow> 'a word \<Rightarrow> 'a word option" where
  "checked_sub a b = (if b \<le> a then Some (a - b) else None)"

definition checked_mul :: "'a::len word \<Rightarrow> 'a word \<Rightarrow> 'a word option" where
  "checked_mul a b = (if unat a * unat b < 2 ^ LENGTH('a) then Some (a * b) else None)"

text \<open>\<open>u32::div_ceil\<close>; the code only divides by a value it has checked to be positive.\<close>

definition div_ceil :: "'a::len word \<Rightarrow> 'a word \<Rightarrow> 'a word" where
  "div_ceil a b = (if a mod b = 0 then a div b else a div b + 1)"

lemma unat_bound: "unat a < 2 ^ LENGTH('a)" for a :: "'a::len word"
  by (rule unsigned_less)

lemma unat_minus_one_word_pow: "unat (- 1 :: 'a::len word) = 2 ^ LENGTH('a) - 1"
  by (simp add: unsigned_minus_1_eq_mask mask_eq_exp_minus_1)

lemma unat_sat_add [machine_arith]:
  "unat (sat_add a b) = min (unat a + unat b) (2 ^ LENGTH('a) - 1)"
  for a b :: "'a::len word"
  by (auto simp: sat_add_def unat_minus_one_word_pow unat_word_ariths min_def)

lemma unat_sat_sub [machine_arith]: "unat (sat_sub a b) = unat a - unat b"
  by (auto simp: sat_sub_def word_less_nat_alt unat_sub word_le_nat_alt)

lemma unat_min [machine_arith]: "unat (min a b) = min (unat a) (unat b)"
  by (simp add: min_def word_le_nat_alt)

lemma unat_max [machine_arith]: "unat (max a b) = max (unat a) (unat b)"
  by (simp add: max_def word_le_nat_alt)

lemma checked_add_Some [machine_arith]:
  "checked_add a b = Some c \<longleftrightarrow> unat c = unat a + unat b"
  for a b c :: "'a::len word"
proof -
  have "unat c < 2 ^ LENGTH('a)" by (rule unat_bound)
  then show ?thesis
    by (auto simp: checked_add_def unat_word_ariths word_unat_eq_iff simp del: unsigned_less)
qed

lemma checked_sub_Some [machine_arith]:
  "checked_sub a b = Some c \<longleftrightarrow> unat b \<le> unat a \<and> unat c = unat a - unat b"
  by (auto simp: checked_sub_def word_le_nat_alt unat_sub word_unat_eq_iff)

lemma checked_mul_Some [machine_arith]:
  "checked_mul a b = Some c \<longleftrightarrow> unat c = unat a * unat b"
  for a b c :: "'a::len word"
proof -
  have "unat c < 2 ^ LENGTH('a)" by (rule unat_bound)
  then show ?thesis
    by (auto simp: checked_mul_def unat_word_ariths word_unat_eq_iff simp del: unsigned_less)
qed

lemma sat_add_mono: "a \<le> a' \<Longrightarrow> sat_add a b \<le> sat_add a' b"
  by (simp add: machine_arith)

lemma sat_add_mono2: "b \<le> b' \<Longrightarrow> sat_add a b \<le> sat_add a b'"
  by (simp add: machine_arith)

lemma sat_add_ge [simp]: "a \<le> sat_add a b"
proof -
  have "unat a \<le> 2 ^ LENGTH('a) - 1" using unat_bound [of a] by linarith
  then show ?thesis by (simp add: machine_arith)
qed

lemma sat_sub_le [simp]: "sat_sub a b \<le> a"
  by (simp add: machine_arith)

lemma unat_succ: "n \<noteq> - 1 \<Longrightarrow> unat (n + 1) = unat n + 1" for n :: "'a::len word"
proof -
  assume "n \<noteq> - 1"
  then have "unat n \<noteq> 2 ^ LENGTH('a) - 1"
    by (metis unat_minus_one_word_pow word_unat_eq_iff)
  then have "unat n + 1 < 2 ^ LENGTH('a)" using unat_bound [of n] by linarith
  then show ?thesis by (simp add: unat_word_ariths)
qed

lemma less_succ: "n \<noteq> - 1 \<Longrightarrow> n < n + 1" for n :: "'a::len word"
  by (simp add: word_less_nat_alt unat_succ)

lemma unat_div_ceil [machine_arith]:
  "unat (div_ceil a b) = (if unat a mod unat b = 0 then unat a div unat b else unat a div unat b + 1)"
  if "b \<noteq> 0" for a b :: "'a::len word"
proof (cases "a mod b = 0")
  case True
  then have "unat a mod unat b = 0" by (metis unat_mod_distrib unsigned_0)
  with True show ?thesis by (simp add: div_ceil_def unat_div_distrib)
next
  case False
  then have m: "unat a mod unat b \<noteq> 0" by (metis unat_mod_distrib unsigned_0 word_unat_eq_iff)
  have "a div b \<noteq> - 1"
  proof
    assume "a div b = - 1"
    then have "unat a div unat b = 2 ^ LENGTH('a) - 1"
      by (metis unat_div_distrib unat_minus_one_word_pow)
    moreover have "unat a div unat b \<le> unat a" by (rule div_le_dividend)
    moreover have "unat a < 2 ^ LENGTH('a)" by (rule unat_bound)
    ultimately have "unat a div unat b = unat a" and "unat a > 0 \<or> unat a = 0" by linarith+
    then have "unat a = 0 \<or> unat b = 1" by (metis div_eq_dividend_iff gr0I)
    with m show False by auto
  qed
  with False m show ?thesis by (simp add: div_ceil_def unat_succ unat_div_distrib)
qed

lemma unat_div_nat [machine_arith]: "unat (a div b) = unat a div unat b" for a b :: "'a::len word"
  by (rule unat_div_distrib)

lemma word_mod_0_nat: "(a mod b = 0) = (unat a mod unat b = 0)" for a b :: "'a::len word"
  unfolding word_unat_eq_iff unat_mod_distrib unsigned_0 ..

text \<open>Conversions between widths: \<open>u64::from\<close> and \<open>u32::try_from\<close>.\<close>

definition u64_of :: "u32 \<Rightarrow> u64" where
  "u64_of x = ucast x"

definition u32_try_of :: "u64 \<Rightarrow> u32 option" where
  "u32_try_of x = (if unat x < 2 ^ 32 then Some (ucast x) else None)"

lemma unat_u64_of [machine_arith]: "unat (u64_of x) = unat x"
proof -
  have "unat x < 2 ^ 32" using unat_bound [of x] by simp
  then show ?thesis by (simp add: u64_of_def unsigned_ucast_eq take_bit_nat_eq_self)
qed

lemma u32_try_of_Some [machine_arith]: "u32_try_of x = Some y \<longleftrightarrow> unat y = unat x"
proof -
  have "unat y < 2 ^ 32" using unat_bound [of y] by simp
  moreover have "unat x < 2 ^ 32 \<Longrightarrow> unat (ucast x :: u32) = unat x"
    by (simp add: unsigned_ucast_eq take_bit_nat_eq_self)
  ultimately show ?thesis by (auto simp: u32_try_of_def word_unat_eq_iff)
qed

section \<open>Signed integers\<close>

definition wrap_i32 :: "int \<Rightarrow> int" where
  "wrap_i32 x = (x + 2 ^ 31) mod 2 ^ 32 - 2 ^ 31"

definition wrap_i64 :: "int \<Rightarrow> int" where
  "wrap_i64 x = (x + 2 ^ 63) mod 2 ^ 64 - 2 ^ 63"

definition in_i32 :: "int \<Rightarrow> bool" where
  "in_i32 x \<longleftrightarrow> - (2 ^ 31) \<le> x \<and> x < 2 ^ 31"

definition in_i64 :: "int \<Rightarrow> bool" where
  "in_i64 x \<longleftrightarrow> - (2 ^ 63) \<le> x \<and> x < 2 ^ 63"

lemma wrap_i32_id: "in_i32 x \<Longrightarrow> wrap_i32 x = x"
  by (simp add: wrap_i32_def in_i32_def)

lemma wrap_i64_id: "in_i64 x \<Longrightarrow> wrap_i64 x = x"
  by (simp add: wrap_i64_def in_i64_def)

lemma wrap_i32_range: "in_i32 (wrap_i32 x)"
  by (simp add: wrap_i32_def in_i32_def)

lemma wrap_i64_range: "in_i64 (wrap_i64 x)"
  by (simp add: wrap_i64_def in_i64_def)

definition checked_sub_i64 :: "int \<Rightarrow> int \<Rightarrow> int option" where
  "checked_sub_i64 a b = (if in_i64 (a - b) then Some (a - b) else None)"

definition checked_add_i32 :: "int \<Rightarrow> int \<Rightarrow> int option" where
  "checked_add_i32 a b = (if in_i32 (a + b) then Some (a + b) else None)"

section \<open>Results\<close>

text \<open>\<open>Result<T, E>\<close> is \<open>'e + 'a\<close> with the error on the left; \<open>and_then\<close> is the \<open>?\<close>
  operator, \<open>ok_or\<close> and \<open>ensure\<close> the usual early returns.\<close>

definition and_then :: "'e + 'a \<Rightarrow> ('a \<Rightarrow> 'e + 'b) \<Rightarrow> 'e + 'b" where
  "and_then r f = (case r of Inl e \<Rightarrow> Inl e | Inr x \<Rightarrow> f x)"

definition ok_or :: "'e \<Rightarrow> 'a option \<Rightarrow> 'e + 'a" where
  "ok_or e x = (case x of None \<Rightarrow> Inl e | Some y \<Rightarrow> Inr y)"

definition ensure :: "bool \<Rightarrow> 'e \<Rightarrow> 'e + unit" where
  "ensure c e = (if c then Inr () else Inl e)"

text \<open>\<open>map_err\<close>, which \<open>?\<close> also applies through the \<open>From\<close> instances of an error type.\<close>

fun map_err :: "('e \<Rightarrow> 'f) \<Rightarrow> 'e + 'a \<Rightarrow> 'f + 'a" where
  "map_err f (Inl e) = Inl (f e)"
| "map_err f (Inr x) = Inr x"

lemma map_err_Inr: "map_err f r = Inr x \<longleftrightarrow> r = Inr x"
  by (cases r) simp_all

lemma and_then_simps [simp]:
  "and_then (Inl e) f = Inl e" "and_then (Inr x) f = f x"
  by (simp_all add: and_then_def)

lemma ok_or_simps [simp]: "ok_or e None = Inl e" "ok_or e (Some x) = Inr x"
  by (simp_all add: ok_or_def)

lemma ensure_simps [simp]: "ensure True e = Inr ()" "ensure False e = Inl e"
  by (simp_all add: ensure_def)

lemma and_then_Inr: "and_then r f = Inr y \<longleftrightarrow> (\<exists>x. r = Inr x \<and> f x = Inr y)"
  by (cases r) simp_all

lemma and_then_Inl:
  "and_then r f = Inl e \<longleftrightarrow> r = Inl e \<or> (\<exists>x. r = Inr x \<and> f x = Inl e)"
  by (cases r) simp_all

lemma ok_or_Inr: "ok_or e x = Inr y \<longleftrightarrow> x = Some y"
  by (cases x) simp_all

lemma ok_or_Inl: "ok_or e x = Inl e' \<longleftrightarrow> x = None \<and> e' = e"
  by (cases x) auto

lemma ensure_Inr: "ensure c e = Inr u \<longleftrightarrow> c"
  by (simp add: ensure_def)

lemma ensure_Inl: "ensure c e = Inl e' \<longleftrightarrow> \<not> c \<and> e' = e"
  by (auto simp: ensure_def)

lemmas result_iffs = and_then_Inr and_then_Inl ok_or_Inr ok_or_Inl ensure_Inr ensure_Inl

section \<open>Handlers\<close>

text \<open>
  A method on \<open>&mut self\<close> that returns a \<open>Result\<close> maps the state to the result and the new
  state, which an error does not roll back. \<open>attempt\<close> is \<open>?\<close> after a call that may have
  changed the state, \<open>require\<close> is \<open>?\<close> after one that cannot.
\<close>

type_synonym ('e, 'a, 's) outcome = "('e + 'a) \<times> 's"

definition attempt ::
  "('e, 'x, 's) outcome \<Rightarrow> ('x \<Rightarrow> 's \<Rightarrow> ('e, 'a, 's) outcome) \<Rightarrow> ('e, 'a, 's) outcome" where
  "attempt m k = (case m of (Inl e, s) \<Rightarrow> (Inl e, s) | (Inr x, s) \<Rightarrow> k x s)"

definition require :: "'e + 'x \<Rightarrow> 's \<Rightarrow> ('x \<Rightarrow> ('e, 'a, 's) outcome) \<Rightarrow> ('e, 'a, 's) outcome" where
  "require r s k = (case r of Inl e \<Rightarrow> (Inl e, s) | Inr x \<Rightarrow> k x)"

lemma attempt_simps [simp]:
  "attempt (Inl e, s) k = (Inl e, s)" "attempt (Inr x, s) k = k x s"
  by (simp_all add: attempt_def)

lemma require_simps [simp]:
  "require (Inl e) s k = (Inl e, s)" "require (Inr x) s k = k x"
  by (simp_all add: require_def)

lemma attempt_eq:
  "attempt m k = (r, s') \<longleftrightarrow>
     (\<exists>e. m = (Inl e, s') \<and> r = Inl e) \<or> (\<exists>x s. m = (Inr x, s) \<and> k x s = (r, s'))"
  by (cases m; cases "fst m") auto

lemma require_eq:
  "require q s k = (r, s') \<longleftrightarrow>
     (\<exists>e. q = Inl e \<and> r = Inl e \<and> s' = s) \<or> (\<exists>x. q = Inr x \<and> k x = (r, s'))"
  by (cases q) auto

lemmas handler_iffs = attempt_eq require_eq

section \<open>Byte strings\<close>

text \<open>A Rust \<open>&str\<close> is its UTF-8 bytes; a \<open>char\<close> is one byte.\<close>

definition byte :: "char \<Rightarrow> nat" where
  "byte c = of_char c"

definition is_ascii_alphanumeric :: "char \<Rightarrow> bool" where
  "is_ascii_alphanumeric c \<longleftrightarrow>
     48 \<le> byte c \<and> byte c \<le> 57 \<or> 65 \<le> byte c \<and> byte c \<le> 90 \<or> 97 \<le> byte c \<and> byte c \<le> 122"

definition to_ascii_lowercase :: "char \<Rightarrow> char" where
  "to_ascii_lowercase c = (if 65 \<le> byte c \<and> byte c \<le> 90 then char_of (byte c + 32) else c)"

lemma byte_char_of: "n < 256 \<Longrightarrow> byte (char_of n) = n"
  by (simp add: byte_def)

text \<open>The decimal text of a number.\<close>

definition digit :: "nat \<Rightarrow> char" where
  "digit n = char_of (48 + n)"

fun show_nat :: "nat \<Rightarrow> string" where
  "show_nat n = (if n < 10 then [digit n] else show_nat (n div 10) @ [digit (n mod 10)])"

declare show_nat.simps [simp del]

end
