(* ===== verification/Actors.thy ===== *)
theory Actors
  imports Prelude
begin

text \<open>
  The actor registry of \<open>runtime/actors\<close> and the world-entry service of \<open>runtime/world\<close>.
  A \<open>HashMap<u64, Actor>\<close> is a finite map, the process-wide \<open>NEXT_ACTOR_ID\<close> counter is
  passed explicitly. The locale \<open>actor_store\<close> is the interface combat and the enemy
  controllers use: look an actor up, damage it, move it.
\<close>

section \<open>Data\<close>

datatype actor_kind = Player | Enemy

record actor =
  actor_id :: u64
  kind :: actor_kind
  archetype :: string
  position :: pos
  health :: u32
  max_health :: u32

type_synonym registry = "u64 \<Rightarrow> actor option"

definition empty_registry :: registry where
  "empty_registry = Map.empty"

section \<open>Operations\<close>

text \<open>\<open>fetch_add(1)\<close> returns the old counter and wraps at \<open>2^64\<close>.\<close>

definition allocate_actor_id :: "u64 \<Rightarrow> u64 \<times> u64" where
  "allocate_actor_id next_id = (next_id, next_id + 1)"

definition insert_actor :: "actor \<Rightarrow> registry \<Rightarrow> registry" where
  "insert_actor a reg = reg(actor_id a \<mapsto> a)"

definition spawn ::
  "actor_kind \<Rightarrow> string \<Rightarrow> pos \<Rightarrow> u32 \<Rightarrow> u64 \<Rightarrow> registry \<Rightarrow> actor \<times> u64 \<times> registry" where
  "spawn k arch p hp next_id reg =
     (let (i, next_id') = allocate_actor_id next_id;
          a = \<lparr>actor_id = i, kind = k, archetype = arch, position = p,
               health = hp, max_health = hp\<rparr>
      in (a, next_id', insert_actor a reg))"

definition get_actor :: "registry \<Rightarrow> u64 \<Rightarrow> actor option" where
  "get_actor reg i = reg i"

definition update_position :: "u64 \<Rightarrow> pos \<Rightarrow> registry \<Rightarrow> actor option \<times> registry" where
  "update_position i p reg =
     (case reg i of
        None \<Rightarrow> (None, reg)
      | Some a \<Rightarrow> (let a' = a\<lparr>position := p\<rparr> in (Some a', reg(i \<mapsto> a'))))"

definition destroy :: "u64 \<Rightarrow> registry \<Rightarrow> actor option \<times> registry" where
  "destroy i reg = (reg i, reg(i := None))"

definition apply_damage :: "u64 \<Rightarrow> u32 \<Rightarrow> registry \<Rightarrow> actor option \<times> registry" where
  "apply_damage i d reg =
     (case reg i of
        None \<Rightarrow> (None, reg)
      | Some a \<Rightarrow> (let a' = a\<lparr>health := sat_sub (health a) d\<rparr> in (Some a', reg(i \<mapsto> a'))))"

text \<open>
  \<open>WorldService::join\<close>: a fresh player actor at the origin of the hub. Its \<open>f32\<close>
  coordinates are all zero, which the rationals represent exactly.
\<close>

record player_actor =
  player_actor_id :: u64
  character_id :: string
  world_id :: string
  entry_position :: "rat \<times> rat \<times> rat"

definition join_world :: "string \<Rightarrow> u64 \<Rightarrow> player_actor \<times> u64" where
  "join_world character next_id =
     (let (i, next_id') = allocate_actor_id next_id
      in (\<lparr>player_actor_id = i, character_id = character, world_id = ''relay-hub'',
           entry_position = (0, 0, 0)\<rparr>, next_id'))"

section \<open>Distances\<close>

text \<open>
  Both combat and the controllers add three squared \<open>i64\<close> differences. Each square and
  each sum is an \<open>i64\<close> operation, written here with the wrap-around of a release build.
\<close>

fun squared_distance :: "pos \<Rightarrow> pos \<Rightarrow> int" where
  "squared_distance (x, y, z) (x', y', z') =
     wrap_i64 (wrap_i64 (wrap_i64 ((x - x')\<^sup>2) + wrap_i64 ((y - y')\<^sup>2)) + wrap_i64 ((z - z')\<^sup>2))"

fun near_origin :: "pos \<Rightarrow> bool" where
  "near_origin (x, y, z) \<longleftrightarrow> \<bar>x\<bar> \<le> 2 ^ 28 \<and> \<bar>y\<bar> \<le> 2 ^ 28 \<and> \<bar>z\<bar> \<le> 2 ^ 28"

lemma square_bound: "\<bar>a\<bar> \<le> 2 ^ 28 \<Longrightarrow> \<bar>b\<bar> \<le> 2 ^ 28 \<Longrightarrow> (a - b)\<^sup>2 \<le> 2 ^ 58" for a b :: int
proof -
  assume "\<bar>a\<bar> \<le> 2 ^ 28" and "\<bar>b\<bar> \<le> 2 ^ 28"
  then have "\<bar>a - b\<bar> \<le> 2 ^ 29" by simp
  then have "\<bar>a - b\<bar>\<^sup>2 \<le> (2 ^ 29)\<^sup>2" by (rule power_mono) simp
  then show ?thesis by simp
qed

text \<open>Inside any map the game can build, the distance is the exact Euclidean one.\<close>

lemma squared_distance_exact:
  assumes "near_origin (x, y, z)" and "near_origin (x', y', z')"
  shows "squared_distance (x, y, z) (x', y', z') = (x - x')\<^sup>2 + (y - y')\<^sup>2 + (z - z')\<^sup>2"
proof -
  have fits: "in_i64 a \<and> in_i64 b \<and> in_i64 c \<and> in_i64 (a + b) \<and> in_i64 (a + b + c)"
    if "0 \<le> a" "a \<le> 2 ^ 58" "0 \<le> b" "b \<le> 2 ^ 58" "0 \<le> c" "c \<le> 2 ^ 58" for a b c
    using that by (simp add: in_i64_def)
  have "(x - x')\<^sup>2 \<le> 2 ^ 58" "(y - y')\<^sup>2 \<le> 2 ^ 58" "(z - z')\<^sup>2 \<le> 2 ^ 58"
    using assms square_bound [of x x'] square_bound [of y y'] square_bound [of z z'] by auto
  from fits [OF zero_le_power2 this(1) zero_le_power2 this(2) zero_le_power2 this(3)]
  show ?thesis by (simp add: wrap_i64_id)
qed

text \<open>At the ends of the coordinate range the squares leave \<open>i64\<close>: the farthest points are at a
  negative squared distance, inside every range.\<close>

lemma squared_distance_wraps: "squared_distance (- (2 ^ 31), 0, 0) (2 ^ 31 - 1, 0, 0) < 0"
  by (simp add: wrap_i64_def)

section \<open>The interface\<close>

text \<open>
  What a client may assume of a store of actors: damage takes health off the addressed
  actor with saturation, movement replaces its position, both report the updated actor,
  and every other actor is untouched.
\<close>

locale actor_store =
  fixes look :: "'s \<Rightarrow> u64 \<Rightarrow> actor option"
    and hurt :: "u64 \<Rightarrow> u32 \<Rightarrow> 's \<Rightarrow> actor option \<times> 's"
    and walk :: "u64 \<Rightarrow> pos \<Rightarrow> 's \<Rightarrow> actor option \<times> 's"
  assumes look_hurt: "look (snd (hurt i d s)) j =
      (if j = i then map_option (\<lambda>a. a\<lparr>health := sat_sub (health a) d\<rparr>) (look s i) else look s j)"
    and fst_hurt: "fst (hurt i d s) = map_option (\<lambda>a. a\<lparr>health := sat_sub (health a) d\<rparr>) (look s i)"
    and look_walk: "look (snd (walk i p s)) j =
      (if j = i then map_option (\<lambda>a. a\<lparr>position := p\<rparr>) (look s i) else look s j)"
    and fst_walk: "fst (walk i p s) = map_option (\<lambda>a. a\<lparr>position := p\<rparr>) (look s i)"
begin

lemma look_hurt_same: "look s i = Some a \<Longrightarrow>
    look (snd (hurt i d s)) i = Some (a\<lparr>health := sat_sub (health a) d\<rparr>)"
  by (simp add: look_hurt)

lemma look_hurt_other: "j \<noteq> i \<Longrightarrow> look (snd (hurt i d s)) j = look s j"
  by (simp add: look_hurt)

lemma hurt_reports: "hurt i d s = (r, s') \<Longrightarrow> r = look s' i"
  using fst_hurt [of i d s] look_hurt [of i d s i] by simp

lemma hurt_keeps_population: "(look (snd (hurt i d s)) j = None) = (look s j = None)"
  by (simp add: look_hurt)

lemma hurt_health_le:
  assumes "look s j = Some a" and "look (snd (hurt i d s)) j = Some b"
  shows "health b \<le> health a \<and> max_health b = max_health a \<and> kind b = kind a
    \<and> archetype b = archetype a \<and> position b = position a"
  using assms by (auto simp: look_hurt split: if_splits)

text \<open>Once an actor's health is zero no further damage brings it back.\<close>

lemma hurt_dead_stays_dead:
  assumes "look s j = Some a" and "health a = 0"
  shows "\<exists>b. look (snd (hurt i d s)) j = Some b \<and> health b = 0"
  using assms by (cases "j = i") (simp_all add: look_hurt word_unat_eq_iff unat_sat_sub)

text \<open>Splitting a hit into two does not matter, however far it overshoots.\<close>

lemma hurt_twice:
  "look (snd (hurt i d (snd (hurt i e s)))) j = look (snd (hurt i (sat_add d e) s)) j"
proof -
  have "sat_sub (sat_sub h e) d = sat_sub h (sat_add d e)" for h :: u32
    using unat_bound [of h] unfolding word_unat_eq_iff unat_sat_sub unat_sat_add min_def
    by (auto simp del: unsigned_less)
  then show ?thesis by (cases "look s i") (simp_all add: look_hurt)
qed

lemma walk_keeps_health:
  assumes "look s j = Some a"
  shows "\<exists>b. look (snd (walk i p s)) j = Some b \<and> health b = health a \<and> kind b = kind a
    \<and> archetype b = archetype a \<and> max_health b = max_health a"
  using assms by (auto simp: look_walk)

end

interpretation reg: actor_store get_actor apply_damage update_position
  by unfold_locales
    (simp_all add: get_actor_def apply_damage_def update_position_def Let_def split: option.split)

lemma apply_damage_None: "fst (apply_damage i d s) = None \<longleftrightarrow> get_actor s i = None"
  by (simp add: reg.fst_hurt)

section \<open>Well-formed registries\<close>

text \<open>Every actor is filed under its own identifier, which has been handed out already,
  and no actor has more health than its maximum.\<close>

definition registry_ok :: "u64 \<Rightarrow> registry \<Rightarrow> bool" where
  "registry_ok next_id reg \<longleftrightarrow>
     (\<forall>i a. reg i = Some a \<longrightarrow> actor_id a = i \<and> i < next_id \<and> health a \<le> max_health a)"

lemma registry_okD:
  "registry_ok n reg \<Longrightarrow> reg i = Some a \<Longrightarrow> actor_id a = i \<and> i < n \<and> health a \<le> max_health a"
  by (auto simp: registry_ok_def)

lemma registry_ok_empty: "registry_ok n empty_registry"
  by (simp add: registry_ok_def empty_registry_def)

lemma registry_ok_update_position:
  "registry_ok n reg \<Longrightarrow> registry_ok n (snd (update_position i p reg))"
  by (auto simp: registry_ok_def update_position_def Let_def split: option.split)

lemma registry_ok_destroy: "registry_ok n reg \<Longrightarrow> registry_ok n (snd (destroy i reg))"
  by (auto simp: registry_ok_def destroy_def)

lemma registry_ok_apply_damage:
  "registry_ok n reg \<Longrightarrow> registry_ok n (snd (apply_damage i d reg))"
  by (auto simp: registry_ok_def apply_damage_def Let_def
      split: option.split if_splits intro: order_trans [OF sat_sub_le])

lemma registry_ok_spawn:
  assumes "registry_ok n reg" and "n \<noteq> - 1" and "spawn k arch p hp n reg = (a, n', reg')"
  shows "registry_ok n' reg'"
  using assms less_succ [of n]
  by (fastforce simp: registry_ok_def spawn_def allocate_actor_id_def insert_actor_def Let_def
      split: if_splits)

datatype registry_op =
    Spawn actor_kind string pos u32
  | Move u64 pos
  | Destroy u64
  | Damage u64 u32

fun registry_step :: "registry_op \<Rightarrow> u64 \<times> registry \<Rightarrow> u64 \<times> registry" where
  "registry_step (Spawn k arch p hp) (n, reg) = snd (spawn k arch p hp n reg)"
| "registry_step (Move i p) (n, reg) = (n, snd (update_position i p reg))"
| "registry_step (Destroy i) (n, reg) = (n, snd (destroy i reg))"
| "registry_step (Damage i d) (n, reg) = (n, snd (apply_damage i d reg))"

definition registry_run :: "registry_op list \<Rightarrow> u64 \<times> registry \<Rightarrow> u64 \<times> registry" where
  "registry_run ops s = fold registry_step ops s"

lemma registry_run_simps [simp]:
  "registry_run [] s = s"
  "registry_run (op # ops) s = registry_run ops (registry_step op s)"
  by (simp_all add: registry_run_def)

lemma registry_step_ok:
  assumes "registry_ok n reg" and "n \<noteq> - 1" and "registry_step op (n, reg) = (n', reg')"
  shows "registry_ok n' reg' \<and> n \<le> n' \<and> unat n' \<le> unat n + 1"
proof (cases op)
  case (Spawn k arch p hp)
  obtain a m r where sp: "spawn k arch p hp n reg = (a, m, r)" by (metis prod_cases3)
  have "m = n + 1" using sp by (auto simp: spawn_def allocate_actor_id_def Let_def)
  moreover have "unat (n + 1) = unat n + 1"
    using assms(2) by (rule unat_succ)
  ultimately show ?thesis
    using Spawn sp assms registry_ok_spawn [OF assms(1,2) sp] less_succ [of n] by auto
qed (use assms in \<open>auto simp: registry_ok_update_position registry_ok_destroy registry_ok_apply_damage\<close>)

text \<open>
  C1 (invariant): starting from the empty registry and the counter's initial value 1,
  after any history of spawns, moves, destructions and hits that is shorter than the
  identifier space, every actor is filed under its own identifier, every identifier in
  use was handed out before (so the next spawn is fresh), and health never exceeds the
  maximum.
\<close>

theorem registry_history_ok:
  assumes "length ops < 2 ^ 64 - 2" and "registry_run ops (1, empty_registry) = (n, reg)"
  shows "registry_ok n reg \<and> reg n = None"
proof -
  have gen: "registry_ok n0 r0 \<Longrightarrow> unat n0 + length ops < 2 ^ 64 - 1 \<Longrightarrow>
    registry_run ops (n0, r0) = (n, reg) \<Longrightarrow> registry_ok n reg" for n0 r0
  proof (induction ops arbitrary: n0 r0)
    case (Cons op ops)
    obtain n1 r1 where st: "registry_step op (n0, r0) = (n1, r1)" by fastforce
    have "n0 \<noteq> - 1" using Cons.prems(2) by (auto simp: unat_minus_one_word_pow)
    from registry_step_ok [OF Cons.prems(1) this st] Cons.prems st Cons.IH [of n1 r1]
    show ?case by auto
  qed simp
  have "registry_ok n reg" by (rule gen [OF registry_ok_empty _ assms(2)]) (use assms(1) in simp)
  then show ?thesis by (auto simp: registry_ok_def split: option.split) (metis less_irrefl not_None_eq)
qed

theorem registry_history_ok_witness:
  "length [Spawn Enemy ''relay-drone'' (4, 0, 2) 100, Damage 1 40] < 2 ^ 64 - 2
   \<and> (\<exists>n reg. registry_run [Spawn Enemy ''relay-drone'' (4, 0, 2) 100, Damage 1 40]
        (1, empty_registry) = (n, reg) \<and> registry_ok n reg \<and> reg n = None)"
proof -
  let ?ops = "[Spawn Enemy ''relay-drone'' (4, 0, 2) 100, Damage 1 40]"
  obtain n reg where r: "registry_run ?ops (1, empty_registry) = (n, reg)" by fastforce
  have l: "length ?ops < 2 ^ 64 - 2" by simp
  show ?thesis using l r registry_history_ok [OF l r] by blast
qed

end
