(* ===== verification/Pacing.thy ===== *)
theory Pacing
  imports Prelude
begin

text \<open>
  The contract every hostile controller of \<open>runtime/ai\<close> keeps with the gateway that
  drives it. The gateway feeds events stamped with a monotonic clock, the controller
  answers each with at most one action. \<open>paced\<close>: two actions are never closer than a
  gap the first of them asks for, whatever is fed in between. \<open>telegraphed\<close>: a strike is always preceded by
  its own warning, at least the warning's lead time earlier. The laws are about one step;
  the lemmas are about whole runs and are proved once here.
\<close>

section \<open>Runs\<close>

text \<open>Feeding a list of events; the actions are collected with their time stamps.\<close>

fun run_brain ::
  "('e \<Rightarrow> 'b \<Rightarrow> 'b \<times> 'a option) \<Rightarrow> ('e \<Rightarrow> u64) \<Rightarrow> 'e list \<Rightarrow> 'b \<Rightarrow> 'b \<times> (u64 \<times> 'a) list" where
  "run_brain step time [] b = (b, [])"
| "run_brain step time (e # es) b =
     (case step e b of
        (b', r) \<Rightarrow>
          (case run_brain step time es b' of
             (b'', acts) \<Rightarrow>
               (b'', (case r of None \<Rightarrow> acts | Some a \<Rightarrow> (time e, a) # acts))))"

text \<open>An invariant of the step holds after a run, and what it says of an action of all of them.\<close>

lemma run_brain_invariant:
  assumes "run_brain step time es b = (b', acts)" and "P b"
    and "\<And>e b b' r. P b \<Longrightarrow> step e b = (b', r) \<Longrightarrow> P b' \<and> (\<forall>a. r = Some a \<longrightarrow> Q a)"
  shows "P b' \<and> (\<forall>(t, a) \<in> set acts. Q a)"
  using assms(1,2)
proof (induction es arbitrary: b acts)
  case (Cons e es)
  obtain b1 r where st: "step e b = (b1, r)" by (cases "step e b")
  obtain b2 as where rn: "run_brain step time es b1 = (b2, as)" by fastforce
  have "P b1" and Q: "\<forall>a. r = Some a \<longrightarrow> Q a" using assms(3) [OF Cons.prems(2) st] by blast+
  moreover have "b2 = b'" using Cons.prems(1) st rn by simp
  ultimately have "P b' \<and> (\<forall>(t, a) \<in> set as. Q a)" using Cons.IH [of b1 as] rn by simp
  then show ?case using Cons.prems(1) st rn Q by (auto split: option.splits)
qed simp

text \<open>The clock never runs backwards: each stamp is at least the one before it.\<close>

fun clocked :: "('e \<Rightarrow> u64) \<Rightarrow> u64 \<Rightarrow> 'e list \<Rightarrow> bool" where
  "clocked time c [] \<longleftrightarrow> True"
| "clocked time c (e # es) \<longleftrightarrow> c \<le> time e \<and> clocked time (time e) es"

text \<open>Every action keeps all later ones at least its own gap away.\<close>

fun spaced :: "('a \<Rightarrow> u64) \<Rightarrow> (u64 \<times> 'a) list \<Rightarrow> bool" where
  "spaced gap [] \<longleftrightarrow> True"
| "spaced gap ((t, a) # acts) \<longleftrightarrow>
     (\<forall>(u, _) \<in> set acts. sat_add t (gap a) \<le> u) \<and> spaced gap acts"

lemma spaced_nth:
  assumes "spaced gap acts" and "i < j" and "j < length acts"
  shows "sat_add (fst (acts ! i)) (gap (snd (acts ! i))) \<le> fst (acts ! j)"
  using assms
proof (induction acts arbitrary: i j)
  case (Cons b acts)
  obtain k where j: "j = Suc k" using Cons.prems(2) by (cases j) auto
  have k: "k < length acts" using Cons.prems(3) j by simp
  obtain t a where b: "b = (t, a)" by (cases b)
  show ?case
  proof (cases i)
    case 0
    have "acts ! k \<in> set acts" using k by simp
    moreover have "\<And>x. x \<in> set acts \<Longrightarrow> sat_add t (gap a) \<le> fst x" using Cons.prems(1) b by auto
    ultimately show ?thesis using b j 0 by simp
  next
    case (Suc m)
    then show ?thesis using Cons.IH [of m k] Cons.prems b j k by simp
  qed
qed simp

text \<open>
  \<open>announced\<close> reads an action list from left to right with the warning in force: a strike
  \<open>w\<close> needs the warning \<open>w\<close> of the action right before it, and enough time since.
\<close>

fun announced ::
  "('a \<Rightarrow> 'w option) \<Rightarrow> ('a \<Rightarrow> 'w option) \<Rightarrow> ('w \<Rightarrow> u64) \<Rightarrow> (u64 \<times> 'w) option
     \<Rightarrow> (u64 \<times> 'a) list \<Rightarrow> bool" where
  "announced warns strikes lead p [] \<longleftrightarrow> True"
| "announced warns strikes lead p ((t, a) # acts) \<longleftrightarrow>
     (\<forall>w. strikes a = Some w \<longrightarrow> (\<exists>t0. p = Some (t0, w) \<and> sat_add t0 (lead w) \<le> t)) \<and>
     announced warns strikes lead (map_option (Pair t) (warns a)) acts"

lemma announced_strike:
  assumes "announced warns strikes lead p acts" and "i < length acts"
    and "acts ! i = (t, a)" and "strikes a = Some w"
  shows "(i = 0 \<and> (\<exists>t0. p = Some (t0, w) \<and> sat_add t0 (lead w) \<le> t)) \<or>
    (\<exists>j t0 a0. i = Suc j \<and> acts ! j = (t0, a0) \<and> warns a0 = Some w \<and> sat_add t0 (lead w) \<le> t)"
  using assms
proof (induction acts arbitrary: p i)
  case (Cons b acts)
  obtain u c where b: "b = (u, c)" by (cases b)
  show ?case
  proof (cases i)
    case 0
    then show ?thesis using Cons.prems b by auto
  next
    case (Suc j)
    from Cons.IH [of "map_option (Pair u) (warns c)" j] Cons.prems b Suc
    show ?thesis by (cases j) auto
  qed
qed simp

section \<open>Runs with a clock of their own\<close>

text \<open>A controller that refuses events before its own clock, and everything else it rejects,
  without a change: its run is the run over the accepted events, and those are clocked.\<close>

lemma clocked_run:
  assumes "\<And>e b. step e b = (b, None) \<or> clock b \<le> time e \<and> clock (fst (step e b)) = time e"
  shows "\<exists>es'. clocked time (clock b) es' \<and> run_brain step time es' b = run_brain step time es b"
proof (induction es arbitrary: b)
  case (Cons e es)
  show ?case
  proof (cases "step e b = (b, None)")
    case True
    then show ?thesis using Cons.IH [of b] by (auto split: prod.split)
  next
    case False
    then have time: "clock b \<le> time e" "clock (fst (step e b)) = time e" using assms by blast+
    obtain es' where es': "clocked time (clock (fst (step e b))) es'"
        "run_brain step time es' (fst (step e b)) = run_brain step time es (fst (step e b))"
      using Cons.IH by blast
    then have "run_brain step time (e # es') b = run_brain step time (e # es) b"
      by (cases "step e b") simp
    moreover have "clocked time (clock b) (e # es')" using es'(1) time by simp
    ultimately show ?thesis by blast
  qed
qed (auto intro: exI [of _ "[]"])

text \<open>The state after a run is the fold of the state changes.\<close>

lemma run_brain_fold: "fst (run_brain step time es b) = fold (\<lambda>e b. fst (step e b)) es b"
proof (induction es arbitrary: b)
  case (Cons e es)
  show ?case using Cons [of "fst (step e b)"]
    by (cases "step e b"; cases "run_brain step time es (fst (step e b))") simp
qed simp

lemma run_brain_append:
  "run_brain step time (es @ fs) b =
    (case run_brain step time es b of (b', acts) \<Rightarrow>
       case run_brain step time fs b' of (b'', acts') \<Rightarrow> (b'', acts @ acts'))"
proof (induction es arbitrary: b)
  case (Cons e es)
  show ?case using Cons [of "fst (step e b)"]
    by (cases "step e b"; cases "run_brain step time es (fst (step e b))";
        cases "run_brain step time fs (fst (run_brain step time es (fst (step e b))))")
      (simp split: option.split)
qed (simp split: prod.split)

text \<open>Looking at some of the actions only.\<close>

definition watching :: "('a \<Rightarrow> bool) \<Rightarrow> ('e \<Rightarrow> 'b \<Rightarrow> 'b \<times> 'a option) \<Rightarrow> 'e \<Rightarrow> 'b \<Rightarrow> 'b \<times> 'a option" where
  "watching P step e b =
    (case step e b of
       (b', Some a) \<Rightarrow> (b', if P a then Some a else None)
     | (b', None) \<Rightarrow> (b', None))"

lemma run_brain_watching:
  "run_brain step time es b = (b', acts) \<Longrightarrow>
     run_brain (watching P step) time es b = (b', filter (\<lambda>(t, a). P a) acts)"
proof (induction es arbitrary: b b' acts)
  case (Cons e es)
  obtain b1 r where st: "step e b = (b1, r)" by (cases "step e b")
  obtain b2 as where rn: "run_brain step time es b1 = (b2, as)" by fastforce
  show ?case using Cons.IH [OF rn] Cons.prems st rn
    by (auto simp: watching_def split: option.splits)
qed simp

section \<open>The minimum gap\<close>

locale paced =
  fixes step :: "'e \<Rightarrow> 'b \<Rightarrow> 'b \<times> 'a option"
    and time :: "'e \<Rightarrow> u64"
    and sane :: "u64 \<Rightarrow> 'b \<Rightarrow> bool"
    and ready :: "'b \<Rightarrow> u64"
    and gap :: "'a \<Rightarrow> u64"
  assumes sane_step: "sane c b \<Longrightarrow> c \<le> time e \<Longrightarrow> step e b = (b', r) \<Longrightarrow> sane (time e) b'"
    and waits: "sane c b \<Longrightarrow> c \<le> time e \<Longrightarrow> step e b = (b', Some a) \<Longrightarrow> ready b \<le> time e"
    and rearms: "sane c b \<Longrightarrow> c \<le> time e \<Longrightarrow> step e b = (b', Some a) \<Longrightarrow>
        sat_add (time e) (gap a) \<le> ready b'"
    and never_hastens: "sane c b \<Longrightarrow> c \<le> time e \<Longrightarrow> step e b = (b', None) \<Longrightarrow> ready b \<le> ready b'"
begin

lemma actions_wait:
  assumes "sane c b" and "clocked time c es" and "run_brain step time es b = (b', acts)"
    and "(t, a) \<in> set acts"
  shows "ready b \<le> t"
  using assms
proof (induction es arbitrary: b b' c acts)
  case (Cons e es)
  obtain b1 r where st: "step e b = (b1, r)" by (cases "step e b")
  obtain b2 as where rn: "run_brain step time es b1 = (b2, as)" by fastforce
  have cl: "c \<le> time e" "clocked time (time e) es" using Cons.prems(2) by auto
  note sane' = sane_step [OF Cons.prems(1) cl(1) st]
  note IH = Cons.IH [OF sane' cl(2) rn]
  show ?case
  proof (cases r)
    case None
    then have "ready b \<le> ready b1" using never_hastens Cons.prems(1) cl(1) st by blast
    moreover have "(t, a) \<in> set as" using Cons.prems st rn None by auto
    ultimately show ?thesis using IH by (meson order_trans)
  next
    case (Some x)
    then have "ready b \<le> time e" and "sat_add (time e) (gap x) \<le> ready b1"
      using waits rearms Cons.prems(1) cl(1) st by blast+
    then have "ready b \<le> time e" and "time e \<le> ready b1" using sat_add_ge order_trans by blast+
    moreover have "t = time e \<or> (t, a) \<in> set as" using Cons.prems st rn Some by auto
    ultimately show ?thesis using IH by (meson order_trans)
  qed
qed simp

theorem actions_spaced:
  assumes "sane c b" and "clocked time c es" and "run_brain step time es b = (b', acts)"
  shows "spaced gap acts"
  using assms
proof (induction es arbitrary: b b' c acts)
  case (Cons e es)
  obtain b1 r where st: "step e b = (b1, r)" by (cases "step e b")
  obtain b2 as where rn: "run_brain step time es b1 = (b2, as)" by fastforce
  have cl: "c \<le> time e" "clocked time (time e) es" using Cons.prems(2) by auto
  note sane' = sane_step [OF Cons.prems(1) cl(1) st]
  have sp: "spaced gap as" by (rule Cons.IH [OF sane' cl(2) rn])
  show ?case
  proof (cases r)
    case None
    then show ?thesis using Cons.prems st rn sp by auto
  next
    case (Some x)
    then have "sat_add (time e) (gap x) \<le> ready b1" using rearms Cons.prems(1) cl(1) st by blast
    then have "\<forall>(u, _) \<in> set as. sat_add (time e) (gap x) \<le> u"
      using actions_wait [OF sane' cl(2) rn] by (auto intro: order_trans)
    then show ?thesis using Cons.prems st rn sp Some by auto
  qed
qed simp

end

section \<open>Warnings before strikes\<close>

text \<open>
  \<open>pending b\<close> is the warning in force, \<open>due b\<close> the time before which nothing happens.
  Events that answer nothing may only push \<open>due\<close> back while a warning is in force, and
  never change or drop the warning. \<open>sound\<close> is an invariant of the controller.
\<close>

locale telegraphed =
  fixes step :: "'e \<Rightarrow> 'b \<Rightarrow> 'b \<times> 'a option"
    and time :: "'e \<Rightarrow> u64"
    and sound :: "'b \<Rightarrow> bool"
    and pending :: "'b \<Rightarrow> 'w option"
    and due :: "'b \<Rightarrow> u64"
    and warns :: "'a \<Rightarrow> 'w option"
    and strikes :: "'a \<Rightarrow> 'w option"
    and lead :: "'w \<Rightarrow> u64"
  assumes sound_step: "sound b \<Longrightarrow> step e b = (b', r) \<Longrightarrow> sound b'"
    and warning: "sound b \<Longrightarrow> step e b = (b', Some a) \<Longrightarrow> pending b' = warns a"
    and warning_due: "sound b \<Longrightarrow> step e b = (b', Some a) \<Longrightarrow> warns a = Some w \<Longrightarrow>
        sat_add (time e) (lead w) \<le> due b'"
    and strike: "sound b \<Longrightarrow> step e b = (b', Some a) \<Longrightarrow> strikes a = Some w \<Longrightarrow>
        pending b = Some w \<and> due b \<le> time e"
    and quiet: "sound b \<Longrightarrow> step e b = (b', None) \<Longrightarrow>
        pending b' = pending b \<and> (pending b \<noteq> None \<longrightarrow> due b \<le> due b')"
begin

lemma strikes_announced:
  assumes "sound b" and "run_brain step time es b = (b', acts)"
    and "pending b = map_option snd p"
    and "\<And>t w. p = Some (t, w) \<Longrightarrow> sat_add t (lead w) \<le> due b"
  shows "announced warns strikes lead p acts"
  using assms
proof (induction es arbitrary: b b' p acts)
  case (Cons e es)
  obtain b1 r where st: "step e b = (b1, r)" by (cases "step e b")
  note sound' = sound_step [OF Cons.prems(1) st]
  obtain b2 as where rn: "run_brain step time es b1 = (b2, as)" by fastforce
  show ?case
  proof (cases r)
    case None
    then have q: "pending b1 = pending b" "pending b \<noteq> None \<longrightarrow> due b \<le> due b1"
      using quiet Cons.prems(1) st by blast+
    have "announced warns strikes lead p as"
      using Cons.IH [OF sound' rn, of p] Cons.prems(3,4) q by (cases p) (fastforce intro: order_trans)+
    then show ?thesis using Cons.prems(2) st rn None by auto
  next
    case (Some a)
    let ?p = "map_option (Pair (time e)) (warns a)"
    have "announced warns strikes lead ?p as"
      using Cons.IH [OF sound' rn, of ?p] warning [of b e b1 a] warning_due [of b e b1 a]
        Cons.prems(1) st Some
      by (cases "warns a") auto
    moreover have "\<exists>t0. p = Some (t0, w) \<and> sat_add t0 (lead w) \<le> time e" if "strikes a = Some w" for w
      using strike [of b e b1 a w] st Some that Cons.prems(1,3,4)
      by (cases p) (fastforce intro: order_trans)+
    ultimately show ?thesis using Cons.prems(2) st rn Some by auto
  qed
qed simp

end

end
