(* ===== verification/Combat.thy ===== *)
theory Combat
  imports Actors Pacing
begin

text \<open>
  \<open>runtime/combat\<close>: the authoritative basic attack with its guards and per-attacker
  cooldown (\<open>CombatRuntime::attack\<close>), and the offline analysis of a combat scenario
  (\<open>analyze_scenario\<close>) with its checked arithmetic.
\<close>

section \<open>Profiles and results\<close>

record attack_profile =
  damage :: u32
  attack_range :: int
  cooldown_ms :: u64

record damage_result =
  dealt :: u32
  remaining_health :: u32
  killed :: bool

record pressure_profile =
  pressure_damage :: u32
  initial_attacks :: u32
  accepted_hits_per_counterattack :: u32
  maximum_counterattacks :: u32

definition pressure_none :: pressure_profile where
  "pressure_none = \<lparr>pressure_damage = 0, initial_attacks = 0,
     accepted_hits_per_counterattack = 0, maximum_counterattacks = 0\<rparr>"

datatype combat_error = ActorNotFound | InvalidTarget | OutOfRange | CooldownActive

record combat_runtime =
  ready_at :: "u64 \<Rightarrow> u64 option"

definition new_combat :: combat_runtime where
  "new_combat = \<lparr>ready_at = Map.empty\<rparr>"

section \<open>The basic attack\<close>

text \<open>
  \<open>i64::from(profile.range).pow(2)\<close> cannot overflow; the distance may (see
  \<open>squared_distance\<close>). The cooldown is recorded before the damage is applied.
\<close>

definition attack ::
  "u64 \<Rightarrow> u64 \<Rightarrow> u64 \<Rightarrow> attack_profile \<Rightarrow> combat_runtime \<Rightarrow> registry
     \<Rightarrow> (combat_error + damage_result) \<times> combat_runtime \<times> registry" where
  "attack attacker_id target_id now_ms profile rt actors =
     (case get_actor actors attacker_id of None \<Rightarrow> (Inl ActorNotFound, rt, actors) | Some attacker \<Rightarrow>
     (case get_actor actors target_id of None \<Rightarrow> (Inl ActorNotFound, rt, actors) | Some target \<Rightarrow>
       if kind attacker \<noteq> Player \<or> health attacker = 0 \<or> kind target \<noteq> Enemy \<or> health target = 0
       then (Inl InvalidTarget, rt, actors)
       else if squared_distance (position attacker) (position target) > (attack_range profile)\<^sup>2
       then (Inl OutOfRange, rt, actors)
       else if (case ready_at rt attacker_id of None \<Rightarrow> False | Some r \<Rightarrow> now_ms < r)
       then (Inl CooldownActive, rt, actors)
       else
         (let rt' = rt\<lparr>ready_at := (ready_at rt)(attacker_id \<mapsto> sat_add now_ms (cooldown_ms profile))\<rparr>
          in case apply_damage target_id (damage profile) actors of
               (None, actors') \<Rightarrow> (Inl ActorNotFound, rt', actors')
             | (Some hit, actors') \<Rightarrow>
                 (Inr \<lparr>dealt = damage profile, remaining_health = health hit,
                       killed = (health hit = 0)\<rparr>, rt', actors'))))"

text \<open>The guards of a basic attack, in one predicate.\<close>

definition can_attack ::
  "u64 \<Rightarrow> u64 \<Rightarrow> u64 \<Rightarrow> attack_profile \<Rightarrow> combat_runtime \<Rightarrow> registry \<Rightarrow> bool" where
  "can_attack a t now p rt reg \<longleftrightarrow>
     (\<exists>x y. get_actor reg a = Some x \<and> get_actor reg t = Some y \<and>
        kind x = Player \<and> health x \<noteq> 0 \<and> kind y = Enemy \<and> health y \<noteq> 0 \<and>
        squared_distance (position x) (position y) \<le> (attack_range p)\<^sup>2) \<and>
     (\<forall>r. ready_at rt a = Some r \<longrightarrow> r \<le> now)"

lemma attack_accepted:
  assumes "get_actor reg a = Some x" and "get_actor reg t = Some y" and "kind x = Player"
    and "health x \<noteq> 0" and "kind y = Enemy" and "health y \<noteq> 0"
    and "squared_distance (position x) (position y) \<le> (attack_range p)\<^sup>2"
    and "\<And>r. ready_at rt a = Some r \<Longrightarrow> r \<le> now"
  shows "attack a t now p rt reg =
    (Inr \<lparr>dealt = damage p, remaining_health = sat_sub (health y) (damage p),
          killed = (sat_sub (health y) (damage p) = 0)\<rparr>,
     rt\<lparr>ready_at := (ready_at rt)(a \<mapsto> sat_add now (cooldown_ms p))\<rparr>,
     snd (apply_damage t (damage p) reg))"
proof -
  have "fst (apply_damage t (damage p) reg) = Some (y\<lparr>health := sat_sub (health y) (damage p)\<rparr>)"
    using assms(2) by (simp add: reg.fst_hurt)
  then obtain reg' where "apply_damage t (damage p) reg =
      (Some (y\<lparr>health := sat_sub (health y) (damage p)\<rparr>), reg')"
    by (cases "apply_damage t (damage p) reg") auto
  moreover have "\<not> (case ready_at rt a of None \<Rightarrow> False | Some r \<Rightarrow> now < r)"
    using assms(8) by (cases "ready_at rt a") auto
  ultimately show ?thesis using assms(1-7) by (simp add: attack_def Let_def)
qed

lemma attack_rejected:
  assumes "\<not> can_attack a t now p rt reg"
  shows "\<exists>e. attack a t now p rt reg = (Inl e, rt, reg)"
  using assms
  by (auto simp: attack_def can_attack_def not_less not_le split: option.splits)

lemma attack_Inr:
  assumes "attack a t now p rt reg = (Inr d, rt', reg')"
  shows "can_attack a t now p rt reg \<and>
    rt' = rt\<lparr>ready_at := (ready_at rt)(a \<mapsto> sat_add now (cooldown_ms p))\<rparr> \<and>
    reg' = snd (apply_damage t (damage p) reg)"
proof -
  have c: "can_attack a t now p rt reg"
    using attack_rejected [of a t now p rt reg] assms by (cases "can_attack a t now p rt reg") auto
  then obtain x y where xy: "get_actor reg a = Some x" "get_actor reg t = Some y" "kind x = Player"
    "health x \<noteq> 0" "kind y = Enemy" "health y \<noteq> 0"
    "squared_distance (position x) (position y) \<le> (attack_range p)\<^sup>2"
    "\<And>r. ready_at rt a = Some r \<Longrightarrow> r \<le> now"
    by (auto simp: can_attack_def)
  from attack_accepted [OF xy] assms c show ?thesis by simp
qed

lemma attack_Inl:
  assumes "attack a t now p rt reg = (Inl e, rt', reg')"
  shows "rt' = rt \<and> reg' = reg \<and> \<not> can_attack a t now p rt reg"
proof -
  have "\<not> can_attack a t now p rt reg"
  proof
    assume "can_attack a t now p rt reg"
    then obtain x y where xy: "get_actor reg a = Some x" "get_actor reg t = Some y" "kind x = Player"
      "health x \<noteq> 0" "kind y = Enemy" "health y \<noteq> 0"
      "squared_distance (position x) (position y) \<le> (attack_range p)\<^sup>2"
      "\<And>r. ready_at rt a = Some r \<Longrightarrow> r \<le> now"
      by (auto simp: can_attack_def)
    from attack_accepted [OF xy] assms show False by simp
  qed
  then show ?thesis using attack_rejected [of a t now p rt reg] assms by auto
qed

text \<open>
  A basic attack succeeds exactly when attacker and target exist, are a
  living player and a living enemy, the target is within the squared range and the
  attacker's cooldown has run out. A rejected attack changes nothing. An accepted one
  reports the damage and the saturated remaining health, arms the attacker's cooldown,
  takes the damage off the target and leaves every other actor as it was.
\<close>

theorem attack_correct:
  "case attack a t now p rt reg of
     (Inl e, rt', reg') \<Rightarrow> \<not> can_attack a t now p rt reg \<and> rt' = rt \<and> reg' = reg
   | (Inr d, rt', reg') \<Rightarrow> can_attack a t now p rt reg \<and>
       ready_at rt' = (ready_at rt)(a \<mapsto> sat_add now (cooldown_ms p)) \<and>
       (\<exists>y. get_actor reg t = Some y \<and>
          reg' = reg(t \<mapsto> y\<lparr>health := sat_sub (health y) (damage p)\<rparr>) \<and>
          dealt d = damage p \<and> remaining_health d = sat_sub (health y) (damage p) \<and>
          (killed d = (health y \<le> damage p)))"
proof (cases "can_attack a t now p rt reg")
  case False
  then show ?thesis using attack_rejected [OF False] by auto
next
  case True
  then obtain x y where xy: "get_actor reg a = Some x" "get_actor reg t = Some y" "kind x = Player"
    "health x \<noteq> 0" "kind y = Enemy" "health y \<noteq> 0"
    "squared_distance (position x) (position y) \<le> (attack_range p)\<^sup>2"
    "\<And>r. ready_at rt a = Some r \<Longrightarrow> r \<le> now"
    by (auto simp: can_attack_def)
  have "(sat_sub h d = 0) = (h \<le> d)" for h d :: u32
    by (auto simp: word_unat_eq_iff machine_arith)
  then show ?thesis
    using True xy(2) by (simp add: attack_accepted [OF xy] apply_damage_def get_actor_def Let_def)
qed

section \<open>Cooldowns over whole histories\<close>

text \<open>
  A history interleaves attack attempts of any actors with anything else that happens to
  the registry. Watching one attacker, its accepted attacks are the actions of a brain in
  the sense of \<open>paced\<close>, with the cooldown of the profile it fired as the gap.
\<close>

datatype combat_event =
    Swing u64 u64 u64 attack_profile
  | World u64 registry_op

fun combat_time :: "combat_event \<Rightarrow> u64" where
  "combat_time (Swing now a t p) = now"
| "combat_time (World now op) = now"

fun combat_step ::
  "u64 \<Rightarrow> combat_event \<Rightarrow> combat_runtime \<times> u64 \<times> registry
     \<Rightarrow> (combat_runtime \<times> u64 \<times> registry) \<times> attack_profile option" where
  "combat_step watched (Swing now a t p) (rt, n, reg) =
     (case attack a t now p rt reg of
        (res, rt', reg') \<Rightarrow>
          ((rt', n, reg'), (case res of Inl _ \<Rightarrow> None | Inr _ \<Rightarrow> if a = watched then Some p else None)))"
| "combat_step watched (World now op) (rt, n, reg) = ((rt, registry_step op (n, reg)), None)"

definition combat_ready :: "u64 \<Rightarrow> combat_runtime \<times> u64 \<times> registry \<Rightarrow> u64" where
  "combat_ready watched s = (case ready_at (fst s) watched of None \<Rightarrow> 0 | Some r \<Rightarrow> r)"

lemma combat_step_Some:
  assumes "combat_step w e s = (s', Some p)"
  shows "combat_ready w s \<le> combat_time e \<and> combat_ready w s' = sat_add (combat_time e) (cooldown_ms p)"
proof -
  obtain rt n reg where s: "s = (rt, n, reg)" by (cases s)
  then obtain a t now p' where e: "e = Swing now a t p'" using assms by (cases e) auto
  obtain res rt' reg' where at: "attack a t now p' rt reg = (res, rt', reg')"
    by (metis prod_cases3)
  then obtain d where "res = Inr d" "a = w" "p = p'" "s' = (rt', n, reg')"
    using assms s e by (auto split: sum.splits if_splits)
  with attack_Inr [of a t now p' rt reg d rt' reg'] at e s show ?thesis
    by (auto simp: combat_ready_def can_attack_def split: option.split)
qed

lemma combat_step_None:
  assumes "combat_step w e s = (s', None)"
  shows "combat_ready w s' = combat_ready w s"
proof -
  obtain rt n reg where s: "s = (rt, n, reg)" by (cases s)
  show ?thesis
  proof (cases e)
    case (Swing now a t p)
    obtain res rt' reg' where at: "attack a t now p rt reg = (res, rt', reg')"
      by (metis prod_cases3)
    show ?thesis
    proof (cases res)
      case (Inl err)
      then show ?thesis using attack_Inl at assms Swing s by (fastforce simp: combat_ready_def)
    next
      case (Inr d)
      then show ?thesis using attack_Inr [of a t now p rt reg d rt' reg'] at assms Swing s
        by (auto simp: combat_ready_def split: if_splits)
    qed
  qed (use assms s in \<open>auto simp: combat_ready_def\<close>)
qed

interpretation cooldown: paced "combat_step w" combat_time "\<lambda>_ _. True" "combat_ready w" cooldown_ms
  for w
  by unfold_locales (auto dest: combat_step_Some combat_step_None)

text \<open>
  C2 (safety): on a monotonic clock, the cooldown is server-owned: whatever attacks, moves,
  spawns and hits are interleaved, and whichever weapons are switched in between, two
  accepted attacks of the same attacker are at least the first one's cooldown apart.
\<close>

theorem attack_cooldown_respected:
  assumes "clocked combat_time c es"
    and "run_brain (combat_step w) combat_time es s = (s', acts)"
    and "i < j" and "j < length acts"
  shows "sat_add (fst (acts ! i)) (cooldown_ms (snd (acts ! i))) \<le> fst (acts ! j)"
  using spaced_nth [OF cooldown.actions_spaced [OF TrueI assms(1,2)] assms(3,4)] .

definition rifle_profile :: attack_profile where
  "rifle_profile = \<lparr>damage = 40, attack_range = 6, cooldown_ms = 250\<rparr>"

definition sidearm_profile :: attack_profile where
  "sidearm_profile = \<lparr>damage = 25, attack_range = 8, cooldown_ms = 150\<rparr>"

definition duel :: "combat_runtime \<times> u64 \<times> registry" where
  "duel = (new_combat, 3,
     [1 \<mapsto> \<lparr>actor_id = 1, kind = Player, archetype = ''operator'', position = (0, 0, 0),
             health = 100, max_health = 100\<rparr>,
      2 \<mapsto> \<lparr>actor_id = 2, kind = Enemy, archetype = ''relay-drone'', position = (4, 0, 0),
             health = 100, max_health = 100\<rparr>])"

text \<open>The example of the source's own test: switching weapons does not reset the cooldown.\<close>

lemma duel_run:
  "snd (run_brain (combat_step 1) combat_time
     [Swing 1000 1 2 rifle_profile, Swing 1151 1 2 sidearm_profile, Swing 1250 1 2 sidearm_profile] duel) =
   [(1000, rifle_profile), (1250, sidearm_profile)]"
  by (simp add: duel_def new_combat_def rifle_profile_def sidearm_profile_def attack_def
      get_actor_def apply_damage_def wrap_i64_def sat_add_def sat_sub_def Let_def)

theorem attack_cooldown_respected_witness:
  "\<exists>s' acts. run_brain (combat_step 1) combat_time
       [Swing 1000 1 2 rifle_profile, Swing 1151 1 2 sidearm_profile, Swing 1250 1 2 sidearm_profile] duel = (s', acts) \<and>
     length acts = 2 \<and> sat_add (fst (acts ! 0)) (cooldown_ms (snd (acts ! 0))) \<le> fst (acts ! 1)"
proof -
  let ?es = "[Swing 1000 1 2 rifle_profile, Swing 1151 1 2 sidearm_profile, Swing 1250 1 2 sidearm_profile]"
  obtain s' acts where r: "run_brain (combat_step 1) combat_time ?es duel = (s', acts)" by fastforce
  then have acts: "acts = [(1000, rifle_profile), (1250, sidearm_profile)]" using duel_run by simp
  have "clocked combat_time 0 ?es" by simp
  from attack_cooldown_respected [OF this r, of 0 1] acts
  have "length acts = 2 \<and> sat_add (fst (acts ! 0)) (cooldown_ms (snd (acts ! 0))) \<le> fst (acts ! 1)" by simp
  with r show ?thesis by blast
qed

end
