(* ===== verification/Combat_Analysis.thy ===== *)
theory Combat_Analysis
  imports Combat
begin

text \<open>
  \<open>analyze_scenario\<close> of \<open>runtime/combat\<close>: timing, range, damage and pressure metrics of
  one scenario, with every checked operation an error branch. The lemmas read the result
  over the natural numbers and check it against the attack of theory \<open>Combat\<close>.
\<close>

section \<open>Scenario, metrics, errors\<close>

record combat_scenario =
  sc_attack :: attack_profile
  target_health :: u32
  target_distance_squared :: int
  attacker_count :: u32
  client_attack_interval_ms :: u64
  round_trip_ms :: u64
  pressure :: pressure_profile

record combat_metrics =
  required_hits :: u32
  required_volleys :: u32
  effective_attack_interval_ms :: u64
  theoretical_ttk_ms :: u64
  effective_ttk_ms :: u64
  overkill_damage :: u64
  damage_per_second_milli :: u64
  cooldown_duty_basis_points :: u64
  range_margin_squared :: int
  in_range :: bool
  expected_hostile_attacks :: u32
  expected_incoming_damage :: u64

datatype combat_analysis_error =
    ZeroDamage | NegativeRange | ZeroCooldown | ZeroTargetHealth | NegativeDistanceSquared
  | ZeroAttackers | InvalidPressure | ArithmeticOverflow

section \<open>The analysis\<close>

definition validate_scenario :: "combat_scenario \<Rightarrow> combat_analysis_error + unit" where
  "validate_scenario sc =
     (if damage (sc_attack sc) = 0 then Inl ZeroDamage
      else if attack_range (sc_attack sc) < 0 then Inl NegativeRange
      else if cooldown_ms (sc_attack sc) = 0 then Inl ZeroCooldown
      else if target_health sc = 0 then Inl ZeroTargetHealth
      else if target_distance_squared sc < 0 then Inl NegativeDistanceSquared
      else if attacker_count sc = 0 then Inl ZeroAttackers
      else if (0 < initial_attacks (pressure sc) \<or> 0 < maximum_counterattacks (pressure sc))
              \<and> pressure_damage (pressure sc) = 0 then Inl InvalidPressure
      else if 0 < maximum_counterattacks (pressure sc)
              \<and> accepted_hits_per_counterattack (pressure sc) = 0 then Inl InvalidPressure
      else Inr ())"

definition hostile_attacks_for_hits ::
  "u32 \<Rightarrow> pressure_profile \<Rightarrow> combat_analysis_error + u32" where
  "hostile_attacks_for_hits hits p =
     (let nonlethal_hits = sat_sub hits 1;
          counterattacks =
            (if maximum_counterattacks p = 0 then 0
             else min (nonlethal_hits div accepted_hits_per_counterattack p) (maximum_counterattacks p))
      in ok_or ArithmeticOverflow (checked_add (initial_attacks p) counterattacks))"

definition analyze_scenario :: "combat_scenario \<Rightarrow> combat_analysis_error + combat_metrics" where
  "analyze_scenario sc =
     and_then (validate_scenario sc) (\<lambda>_.
     let prof = sc_attack sc;
         hits = div_ceil (target_health sc) (damage prof);
         volleys = div_ceil hits (attacker_count sc)
     in and_then (ok_or ArithmeticOverflow (checked_mul (u64_of (sat_sub volleys 1)) (cooldown_ms prof))) (\<lambda>theoretical.
     let interval = max (max (cooldown_ms prof) (client_attack_interval_ms sc)) (round_trip_ms sc)
     in and_then (ok_or ArithmeticOverflow (checked_mul (u64_of (sat_sub volleys 1)) interval)) (\<lambda>effective.
        and_then (ok_or ArithmeticOverflow (checked_mul (u64_of hits) (u64_of (damage prof)))) (\<lambda>total.
        and_then (ok_or ArithmeticOverflow (checked_sub total (u64_of (target_health sc)))) (\<lambda>overkill.
        and_then (ok_or ArithmeticOverflow (checked_mul (u64_of (damage prof)) 1000000)) (\<lambda>dps_num.
        and_then (ok_or ArithmeticOverflow (checked_mul (cooldown_ms prof) 10000)) (\<lambda>duty_num.
     let range_squared = (attack_range prof)\<^sup>2
     in and_then (ok_or ArithmeticOverflow (checked_sub_i64 range_squared (target_distance_squared sc))) (\<lambda>margin.
        and_then (hostile_attacks_for_hits hits (pressure sc)) (\<lambda>hostile.
        and_then (ok_or ArithmeticOverflow (checked_mul (u64_of hostile) (u64_of (pressure_damage (pressure sc))))) (\<lambda>incoming.
          Inr \<lparr>required_hits = hits, required_volleys = volleys,
               effective_attack_interval_ms = interval, theoretical_ttk_ms = theoretical,
               effective_ttk_ms = effective, overkill_damage = overkill,
               damage_per_second_milli = dps_num div cooldown_ms prof,
               cooldown_duty_basis_points = duty_num div interval,
               range_margin_squared = margin, in_range = (0 \<le> margin),
               expected_hostile_attacks = hostile,
               expected_incoming_damage = incoming\<rparr>))))))))))"

lemma validate_scenario_Inr:
  "validate_scenario sc = Inr u \<longleftrightarrow>
     damage (sc_attack sc) \<noteq> 0 \<and> 0 \<le> attack_range (sc_attack sc) \<and> cooldown_ms (sc_attack sc) \<noteq> 0 \<and>
     target_health sc \<noteq> 0 \<and> 0 \<le> target_distance_squared sc \<and> attacker_count sc \<noteq> 0 \<and>
     (initial_attacks (pressure sc) = 0 \<and> maximum_counterattacks (pressure sc) = 0
        \<or> pressure_damage (pressure sc) \<noteq> 0) \<and>
     (maximum_counterattacks (pressure sc) = 0 \<or> accepted_hits_per_counterattack (pressure sc) \<noteq> 0)"
  by (auto simp: validate_scenario_def word_gt_0 split: if_splits)

lemma analyze_scenario_Inr:
  assumes "analyze_scenario sc = Inr m"
  shows "validate_scenario sc = Inr ()"
    and "required_hits m = div_ceil (target_health sc) (damage (sc_attack sc))"
    and "required_volleys m = div_ceil (required_hits m) (attacker_count sc)"
    and "effective_attack_interval_ms m =
      max (max (cooldown_ms (sc_attack sc)) (client_attack_interval_ms sc)) (round_trip_ms sc)"
    and "unat (theoretical_ttk_ms m) = (unat (required_volleys m) - 1) * unat (cooldown_ms (sc_attack sc))"
    and "unat (effective_ttk_ms m) =
      (unat (required_volleys m) - 1) * unat (effective_attack_interval_ms m)"
    and "unat (overkill_damage m) + unat (target_health sc) =
      unat (required_hits m) * unat (damage (sc_attack sc))"
    and "unat (damage_per_second_milli m) =
      unat (damage (sc_attack sc)) * 1000000 div unat (cooldown_ms (sc_attack sc))"
    and "unat (cooldown_duty_basis_points m) =
      unat (cooldown_ms (sc_attack sc)) * 10000 div unat (effective_attack_interval_ms m)"
    and "range_margin_squared m = (attack_range (sc_attack sc))\<^sup>2 - target_distance_squared sc"
    and "in_range m = (target_distance_squared sc \<le> (attack_range (sc_attack sc))\<^sup>2)"
    and "hostile_attacks_for_hits (required_hits m) (pressure sc) = Inr (expected_hostile_attacks m)"
    and "unat (expected_incoming_damage m) =
      unat (expected_hostile_attacks m) * unat (pressure_damage (pressure sc))"
  using assms
  by (auto simp: analyze_scenario_def Let_def result_iffs checked_sub_i64_def machine_arith
      split: if_splits)

section \<open>What the metrics mean\<close>

lemma hostile_attacks_nat:
  assumes "hostile_attacks_for_hits hits p = Inr n"
  shows "unat n = unat (initial_attacks p) +
    (if maximum_counterattacks p = 0 then 0
     else min ((unat hits - 1) div unat (accepted_hits_per_counterattack p)) (unat (maximum_counterattacks p)))"
  using assms by (auto simp: hostile_attacks_for_hits_def Let_def result_iffs machine_arith split: if_splits)

lemma ceil_bounds:
  "0 < d \<Longrightarrow> 0 < h \<Longrightarrow> k = (if h mod d = 0 then h div d else h div d + 1) \<Longrightarrow>
     0 < k \<and> (k - 1) * d < h \<and> h \<le> k * d" for h d k :: nat
proof -
  assume d: "0 < d" and h: "0 < h" and k: "k = (if h mod d = 0 then h div d else h div d + 1)"
  have hd: "h = d * (h div d) + h mod d" by simp
  show ?thesis
  proof (cases "h mod d = 0")
    case True
    then have "k * d = h" using hd k by (metis add.right_neutral mult.commute)
    then show ?thesis using d h by (cases k) auto
  next
    case False
    then have "d * (h div d) < h" and "h \<le> d + d * (h div d)"
      using hd mod_less_divisor [OF d, of h] by linarith+
    then show ?thesis using k False by (simp add: algebra_simps)
  qed
qed

lemma scenario_counts:
  assumes "analyze_scenario sc = Inr m"
  shows "(unat (required_hits m) - 1) * unat (damage (sc_attack sc)) < unat (target_health sc)"
    and "unat (target_health sc) \<le> unat (required_hits m) * unat (damage (sc_attack sc))"
    and "(unat (required_volleys m) - 1) * unat (attacker_count sc) < unat (required_hits m)"
    and "unat (required_hits m) \<le> unat (required_volleys m) * unat (attacker_count sc)"
    and "unat (overkill_damage m) < unat (damage (sc_attack sc))"
proof -
  note A = analyze_scenario_Inr [OF assms]
  let ?d = "unat (damage (sc_attack sc))" and ?h = "unat (target_health sc)"
    and ?n = "unat (attacker_count sc)" and ?k = "unat (required_hits m)"
    and ?v = "unat (required_volleys m)"
  have pos: "damage (sc_attack sc) \<noteq> 0" "attacker_count sc \<noteq> 0" "target_health sc \<noteq> 0"
    using A(1) by (simp_all add: validate_scenario_Inr)
  then have pos': "0 < ?d" "0 < ?n" "0 < ?h" by (simp_all add: unat_gt_0)
  have k: "0 < ?k \<and> (?k - 1) * ?d < ?h \<and> ?h \<le> ?k * ?d"
    by (rule ceil_bounds [OF pos'(1,3)]) (use A(2) pos(1) in \<open>simp add: machine_arith\<close>)
  have v: "0 < ?v \<and> (?v - 1) * ?n < ?k \<and> ?k \<le> ?v * ?n"
    by (rule ceil_bounds [OF pos'(2)]) (use A(3) pos(2) k in \<open>simp_all add: machine_arith\<close>)
  have "?k * ?d = (?k - 1) * ?d + ?d" using k by (cases ?k) auto
  then show "unat (overkill_damage m) < ?d" using A(7) k by linarith
  from k v show "(?k - 1) * ?d < ?h" "?h \<le> ?k * ?d" "(?v - 1) * ?n < ?k" "?k \<le> ?v * ?n" by auto
qed

text \<open>
  C3 (functional): every metric of a successful analysis is the exact result over the natural
  numbers. The hits are the least number that covers the target's health and the volleys the least
  number that covers the hits; the interval is the longest of cooldown, client interval and round
  trip; the theoretical and the effective time to defeat are one cooldown and one interval per
  volley after the first, so that the effective one is never shorter; the overkill is what the last
  hit exceeds and is less than one hit; damage per second and duty are the quotients rounded down;
  the target is in range exactly when its squared distance is at most the squared range; hostile
  attacks are the initial ones and the bounded counterattacks to the nonlethal hits, and hostile
  damage is their number times their damage.
\<close>

theorem analyze_scenario_sound:
  assumes "analyze_scenario sc = Inr m"
  shows "(unat (required_hits m) - 1) * unat (damage (sc_attack sc)) < unat (target_health sc)
       \<and> unat (target_health sc) \<le> unat (required_hits m) * unat (damage (sc_attack sc))
       \<and> (unat (required_volleys m) - 1) * unat (attacker_count sc) < unat (required_hits m)
       \<and> unat (required_hits m) \<le> unat (required_volleys m) * unat (attacker_count sc)
       \<and> effective_attack_interval_ms m =
           Max {cooldown_ms (sc_attack sc), client_attack_interval_ms sc, round_trip_ms sc}
       \<and> unat (theoretical_ttk_ms m) =
           (unat (required_volleys m) - 1) * unat (cooldown_ms (sc_attack sc))
       \<and> unat (effective_ttk_ms m) =
           (unat (required_volleys m) - 1) * unat (effective_attack_interval_ms m)
       \<and> theoretical_ttk_ms m \<le> effective_ttk_ms m
       \<and> unat (overkill_damage m) =
           unat (required_hits m) * unat (damage (sc_attack sc)) - unat (target_health sc)
       \<and> unat (overkill_damage m) < unat (damage (sc_attack sc))
       \<and> unat (damage_per_second_milli m) =
           unat (damage (sc_attack sc)) * 1000000 div unat (cooldown_ms (sc_attack sc))
       \<and> unat (cooldown_duty_basis_points m) =
           unat (cooldown_ms (sc_attack sc)) * 10000 div unat (effective_attack_interval_ms m)
       \<and> range_margin_squared m = (attack_range (sc_attack sc))\<^sup>2 - target_distance_squared sc
       \<and> in_range m = (target_distance_squared sc \<le> (attack_range (sc_attack sc))\<^sup>2)
       \<and> unat (expected_hostile_attacks m) = unat (initial_attacks (pressure sc)) +
           (if maximum_counterattacks (pressure sc) = 0 then 0
            else min ((unat (required_hits m) - 1) div
                        unat (accepted_hits_per_counterattack (pressure sc)))
                   (unat (maximum_counterattacks (pressure sc))))
       \<and> unat (expected_incoming_damage m) =
           unat (expected_hostile_attacks m) * unat (pressure_damage (pressure sc))"
proof -
  note A = analyze_scenario_Inr [OF assms] and C = scenario_counts [OF assms]
  have i: "effective_attack_interval_ms m =
      Max {cooldown_ms (sc_attack sc), client_attack_interval_ms sc, round_trip_ms sc}"
    by (simp add: A(4) max.assoc)
  have "cooldown_ms (sc_attack sc) \<le> effective_attack_interval_ms m" by (simp add: A(4) le_max_iff_disj)
  then have t: "theoretical_ttk_ms m \<le> effective_ttk_ms m" unfolding word_le_nat_alt A(5,6) by simp
  have o: "unat (overkill_damage m) =
      unat (required_hits m) * unat (damage (sc_attack sc)) - unat (target_health sc)"
    using A(7) by linarith
  show ?thesis
    by (intro conjI C i t o A(5,6) A(8-11) hostile_attacks_nat [OF A(12)] A(13))
qed

section \<open>The prediction against the attack\<close>

text \<open>\<open>barrage n\<close>: \<open>n\<close> attacks of one attacker, one every \<open>interval\<close> milliseconds.\<close>

fun barrage ::
  "u64 \<Rightarrow> u64 \<Rightarrow> attack_profile \<Rightarrow> u64 \<Rightarrow> u64 \<Rightarrow> nat \<Rightarrow> combat_runtime \<Rightarrow> registry
     \<Rightarrow> (combat_error + damage_result) list \<times> combat_runtime \<times> registry" where
  "barrage a t p start interval 0 rt reg = ([], rt, reg)"
| "barrage a t p start interval (Suc n) rt reg =
     (case barrage a t p start interval n rt reg of
        (rs, rt', reg') \<Rightarrow>
          (case attack a t (start + of_nat n * interval) p rt' reg' of
             (r, rt'', reg'') \<Rightarrow> (rs @ [r], rt'', reg'')))"

definition hit_result :: "nat \<Rightarrow> u32 \<Rightarrow> u32 \<Rightarrow> combat_error + damage_result" where
  "hit_result i h d = Inr \<lparr>dealt = d, remaining_health = of_nat (unat h - (i + 1) * unat d),
     killed = (unat h \<le> (i + 1) * unat d)\<rparr>"

lemma unat_of_nat_small: "n < 2 ^ LENGTH('a) \<Longrightarrow> unat (of_nat n :: 'a::len word) = n"
  by (simp add: unsigned_of_nat take_bit_nat_eq_self)

lemma unat_affine:
  "unat (s + of_nat k * i) = (unat s + k * unat i) mod 2 ^ LENGTH('a)" for s i :: "'a::len word"
  by (simp add: unat_word_ariths unsigned_of_nat take_bit_eq_mod mod_simps)

lemma barrage_state:
  assumes x: "get_actor reg a = Some x" "kind x = Player" "health x \<noteq> 0"
    and y: "get_actor reg t = Some y" "kind y = Enemy"
    and near: "squared_distance (position x) (position y) \<le> (attack_range p)\<^sup>2"
    and fresh: "\<And>r. ready_at rt a = Some r \<Longrightarrow> r \<le> start"
    and cd: "cooldown_ms p \<le> interval"
    and time: "unat start + n * unat interval < 2 ^ 64 + unat interval"
    and alive: "(n - 1) * unat (damage p) < unat (health y)"
  shows "\<exists>rt' reg'. barrage a t p start interval n rt reg =
      (map (\<lambda>i. hit_result i (health y) (damage p)) [0..<n], rt', reg') \<and>
    get_actor reg' a = Some x \<and>
    get_actor reg' t = Some (y\<lparr>health := of_nat (unat (health y) - n * unat (damage p))\<rparr>) \<and>
    (n = 0 \<longrightarrow> rt' = rt) \<and>
    (0 < n \<longrightarrow> ready_at rt' a = Some (sat_add (start + of_nat (n - 1) * interval) (cooldown_ms p)))"
  using time alive
proof (induction n)
  case 0
  then show ?case using x y by simp
next
  case (Suc n)
  have at: "a \<noteq> t" using x y by auto
  have "unat interval < 2 ^ 64" using unat_bound [of interval] by simp
  then have tm: "unat start + n * unat interval < 2 ^ 64" using Suc.prems(1) by simp
  have al: "n * unat (damage p) < unat (health y)" using Suc.prems(2) by simp
  have "(n - 1) * unat (damage p) < unat (health y)"
    using al by (meson diff_le_self le_less_trans mult_le_mono1)
  then obtain rt' reg' where IH: "barrage a t p start interval n rt reg =
      (map (\<lambda>i. hit_result i (health y) (damage p)) [0..<n], rt', reg')"
    "get_actor reg' a = Some x"
    "get_actor reg' t = Some (y\<lparr>health := of_nat (unat (health y) - n * unat (damage p))\<rparr>)"
    "n = 0 \<longrightarrow> rt' = rt"
    "0 < n \<longrightarrow> ready_at rt' a = Some (sat_add (start + of_nat (n - 1) * interval) (cooldown_ms p))"
    using Suc.IH tm by force
  let ?h = "of_nat (unat (health y) - n * unat (damage p)) :: u32"
    and ?now = "\<lambda>k. start + of_nat k * interval"
  have uh: "unat ?h = unat (health y) - n * unat (damage p)"
    using unat_bound [of "health y"] by (simp add: unat_of_nat_small)
  then have h0: "?h \<noteq> 0" using al by (auto simp: word_unat_eq_iff)
  have now: "unat (?now k) = unat start + k * unat interval" if "k \<le> n" for k
  proof -
    have "k * unat interval \<le> n * unat interval" using that by simp
    then have "unat start + k * unat interval < 2 ^ 64" using tm by linarith
    then show ?thesis by (simp add: unat_affine)
  qed
  have cool: "r \<le> ?now n" if "ready_at rt' a = Some r" for r
  proof (cases n)
    case 0
    then show ?thesis using that IH(4) fresh by auto
  next
    case (Suc k)
    then have "r = sat_add (?now k) (cooldown_ms p)" using that IH(5) by simp
    then show ?thesis using now [of k] now [of n] Suc cd by (simp add: machine_arith)
  qed
  have left: "sat_sub ?h (damage p) = of_nat (unat (health y) - Suc n * unat (damage p))"
    using unat_bound [of "health y"] uh
    by (simp add: word_unat_eq_iff machine_arith unat_of_nat_small)
  have kl: "(sat_sub ?h (damage p) = 0) = (unat (health y) \<le> (n + 1) * unat (damage p))"
    using uh by (simp add: word_unat_eq_iff machine_arith add.commute)
  let ?y = "y\<lparr>health := ?h\<rparr>"
  have step: "attack a t (?now n) p rt' reg' =
    (hit_result n (health y) (damage p),
     rt'\<lparr>ready_at := (ready_at rt')(a \<mapsto> sat_add (?now n) (cooldown_ms p))\<rparr>,
     snd (apply_damage t (damage p) reg'))"
    using attack_accepted [OF IH(2,3) x(2,3), of p rt' "?now n"] y near h0 cool kl left
    by (simp add: hit_result_def)
  have "get_actor (snd (apply_damage t (damage p) reg')) a = Some x"
    using at IH(2) by (simp add: reg.look_hurt)
  moreover have "get_actor (snd (apply_damage t (damage p) reg')) t =
      Some (y\<lparr>health := of_nat (unat (health y) - Suc n * unat (damage p))\<rparr>)"
    using IH(3) left by (simp add: reg.look_hurt)
  ultimately show ?case using IH(1) step by simp
qed

text \<open>
  The analysis predicts the runtime. Take a scenario it accepts for one
  attacker, a registry in which that attacker and the target meet it (both alive, the
  target with the scenario's health and within range, the attacker's cooldown idle), and
  let the attacker fire at the predicted effective interval. Then exactly the predicted
  number of hits defeats the target: every one of them is accepted, hit number i leaves the
  health minus i times the damage, and only the last one kills.
\<close>

theorem analysis_predicts_defeat:
  assumes an: "analyze_scenario sc = Inr m" and one: "attacker_count sc = 1"
    and x: "get_actor reg a = Some x" "kind x = Player" "health x \<noteq> 0"
    and y: "get_actor reg t = Some y" "kind y = Enemy" "health y = target_health sc"
    and dist: "squared_distance (position x) (position y) = target_distance_squared sc"
    and inr: "in_range m"
    and idle: "ready_at rt a = None"
    and fits: "unat start + unat (effective_ttk_ms m) < 2 ^ 64"
  shows "fst (barrage a t (sc_attack sc) start (effective_attack_interval_ms m)
             (unat (required_hits m)) rt reg) =
         map (\<lambda>i. hit_result i (target_health sc) (damage (sc_attack sc))) [0..<unat (required_hits m)]
       \<and> (\<forall>i < unat (required_hits m).
            (unat (target_health sc) \<le> (i + 1) * unat (damage (sc_attack sc)))
              = (i + 1 = unat (required_hits m)))"
proof -
  note A = analyze_scenario_Inr [OF an] and C = scenario_counts [OF an]
  let ?k = "unat (required_hits m)" and ?d = "unat (damage (sc_attack sc))"
    and ?p = "sc_attack sc" and ?i = "effective_attack_interval_ms m" and ?h = "target_health sc"
  have v: "required_volleys m = required_hits m"
    using A(3) one by (simp add: div_ceil_def word_unat_eq_iff unat_mod_distrib unat_div_distrib)
  note k = C(1,2)
  have "unat (effective_ttk_ms m) = (?k - 1) * unat ?i" using A(6) v by simp
  then have tm: "unat start + ?k * unat ?i < 2 ^ 64 + unat ?i"
    using fits by (cases ?k) simp_all
  have cd: "cooldown_ms ?p \<le> ?i" by (simp add: A(4) le_max_iff_disj)
  have near: "squared_distance (position x) (position y) \<le> (attack_range ?p)\<^sup>2"
    using inr A(11) dist by simp
  have "fst (barrage a t ?p start ?i ?k rt reg) = map (\<lambda>i. hit_result i ?h (damage ?p)) [0..<?k]"
    using barrage_state [OF x y(1,2) near _ cd tm, of rt] idle k(1) y(3) by force
  moreover have "(unat ?h \<le> (i + 1) * ?d) = (i + 1 = ?k)" if "i < ?k" for i
  proof (cases "i + 1 = ?k")
    case True
    show ?thesis unfolding True using k(2) by simp
  next
    case False
    then have "(i + 1) * ?d \<le> (?k - 1) * ?d" using that by (intro mult_le_mono1) simp
    then show ?thesis using k(1) False by linarith
  qed
  ultimately show ?thesis by blast
qed

definition rifle_vs_warden :: combat_scenario where
  "rifle_vs_warden = \<lparr>sc_attack = rifle_profile, target_health = 120, target_distance_squared = 4,
     attacker_count = 1, client_attack_interval_ms = 260, round_trip_ms = 0, pressure = pressure_none\<rparr>"

text \<open>The baseline of the source's own test: three hits in 520 ms.\<close>

lemma rifle_vs_warden_metrics:
  "analyze_scenario rifle_vs_warden = Inr
     \<lparr>required_hits = 3, required_volleys = 3, effective_attack_interval_ms = 260,
      theoretical_ttk_ms = 500, effective_ttk_ms = 520, overkill_damage = 0,
      damage_per_second_milli = 160000, cooldown_duty_basis_points = 9615,
      range_margin_squared = 32, in_range = True, expected_hostile_attacks = 0,
      expected_incoming_damage = 0\<rparr>"
  by (simp add: rifle_vs_warden_def rifle_profile_def pressure_none_def analyze_scenario_def
      validate_scenario_def hostile_attacks_for_hits_def Let_def div_ceil_def sat_sub_def
      checked_mul_def checked_sub_def checked_add_def checked_sub_i64_def in_i64_def u64_of_def)

theorem analyze_scenario_sound_witness:
  "\<exists>m. analyze_scenario rifle_vs_warden = Inr m \<and> unat (theoretical_ttk_ms m) = 500 \<and>
     unat (effective_ttk_ms m) = 520 \<and> unat (overkill_damage m) < unat (damage rifle_profile)"
  using analyze_scenario_sound [OF rifle_vs_warden_metrics] rifle_vs_warden_metrics
  by (simp add: rifle_vs_warden_def rifle_profile_def)

definition warden_duel :: registry where
  "warden_duel =
     [1 \<mapsto> \<lparr>actor_id = 1, kind = Player, archetype = ''operator'', position = (0, 0, 0),
             health = 100, max_health = 100\<rparr>,
      2 \<mapsto> \<lparr>actor_id = 2, kind = Enemy, archetype = ''warden'', position = (2, 0, 0),
             health = 120, max_health = 120\<rparr>]"

theorem analysis_predicts_defeat_witness:
  "fst (barrage 1 2 rifle_profile 1000 260 3 new_combat warden_duel) =
     map (\<lambda>i. hit_result i 120 40) [0..<3]"
  using analysis_predicts_defeat [OF rifle_vs_warden_metrics,
      of warden_duel 1 "the (warden_duel 1)" 2 "the (warden_duel 2)" new_combat 1000]
  by (simp add: rifle_vs_warden_def warden_duel_def get_actor_def new_combat_def wrap_i64_def
      rifle_profile_def)

end
