(* ===== verification/Controller.thy ===== *)
theory Controller
  imports Combat_Analysis
begin

text \<open>
  The base enemy controller \<open>AiController\<close> of \<open>runtime/ai/src/lib.rs\<close>: the
  Idle/Detect/Chase/Attack state machine, its bounded pressure (initial attacks and
  counterattacks) and the Arc Warden's repositioning. The registry is threaded through
  explicitly.
\<close>

section \<open>State and events\<close>

definition detection_range :: int where "detection_range = 12"

definition attack_reach :: int where "attack_reach = 2"

definition relay_drone_pressure_profile :: pressure_profile where
  "relay_drone_pressure_profile = \<lparr>pressure_damage = 10, initial_attacks = 1,
     accepted_hits_per_counterattack = 0, maximum_counterattacks = 0\<rparr>"

definition warden_pressure_profile :: pressure_profile where
  "warden_pressure_profile = \<lparr>pressure_damage = 15, initial_attacks = 0,
     accepted_hits_per_counterattack = 2, maximum_counterattacks = 2\<rparr>"

datatype ai_state = AiIdle | AiDetect | AiChase | AiAttack | AiDead

datatype ai_event =
    StateChanged ai_state
  | Moved u64 pos
  | Attacked (attacked_source: u64) (attacked_target: u64) (attacked_damage: u32)
      (attacked_remaining: u32) (attacked_killed: bool)

record ai_controller =
  ai_state :: ai_state
  ai_pressure :: pressure_profile
  initial_done :: u32
  accepted_hits :: u32
  counterattacks :: u32

definition new_controller :: "pressure_profile \<Rightarrow> ai_controller" where
  "new_controller p = \<lparr>ai_state = AiIdle, ai_pressure = p, initial_done = 0,
     accepted_hits = 0, counterattacks = 0\<rparr>"

definition pressure_ready :: "ai_controller \<Rightarrow> bool" where
  "pressure_ready c \<longleftrightarrow>
     ai_state c = AiAttack \<and> initial_attacks (ai_pressure c) \<le> initial_done c"

section \<open>Operations\<close>

definition attack_target ::
  "u64 \<Rightarrow> u64 \<Rightarrow> ai_controller \<Rightarrow> registry \<Rightarrow> ai_event option \<times> registry" where
  "attack_target enemy_id player_id c actors =
     (case get_actor actors enemy_id of None \<Rightarrow> (None, actors) | Some enemy \<Rightarrow>
     (case get_actor actors player_id of None \<Rightarrow> (None, actors) | Some player \<Rightarrow>
       if kind enemy \<noteq> Enemy \<or> health enemy = 0 \<or> kind player \<noteq> Player \<or> health player = 0
       then (None, actors)
       else
         (case apply_damage player_id (pressure_damage (ai_pressure c)) actors of
            (None, actors') \<Rightarrow> (None, actors')
          | (Some hit, actors') \<Rightarrow>
              (Some (Attacked enemy_id player_id (pressure_damage (ai_pressure c))
                      (health hit) (health hit = 0)), actors'))))"

text \<open>\<open>*coordinate += (target - *coordinate).signum()\<close> on \<open>i32\<close>.\<close>

definition chase_coordinate :: "int \<Rightarrow> int \<Rightarrow> int" where
  "chase_coordinate c t = wrap_i32 (c + sgn (wrap_i32 (t - c)))"

fun chase_position :: "pos \<Rightarrow> pos \<Rightarrow> pos" where
  "chase_position (x, y, z) (tx, ty, tz) =
     (chase_coordinate x tx, chase_coordinate y ty, chase_coordinate z tz)"

definition ai_tick ::
  "u64 \<Rightarrow> u64 \<Rightarrow> ai_controller \<Rightarrow> registry \<Rightarrow> ai_event list \<times> ai_controller \<times> registry" where
  "ai_tick enemy_id player_id c actors =
     (case get_actor actors enemy_id of
        None \<Rightarrow> ([StateChanged AiDead], c\<lparr>ai_state := AiDead\<rparr>, actors)
      | Some enemy \<Rightarrow>
     (case get_actor actors player_id of
        None \<Rightarrow> ([], c, actors)
      | Some player \<Rightarrow>
       (let d = squared_distance (position enemy) (position player) in
        case ai_state c of
          AiIdle \<Rightarrow>
            if d \<le> detection_range\<^sup>2
            then ([StateChanged AiDetect], c\<lparr>ai_state := AiDetect\<rparr>, actors)
            else ([], c, actors)
        | AiDetect \<Rightarrow> ([StateChanged AiChase], c\<lparr>ai_state := AiChase\<rparr>, actors)
        | AiChase \<Rightarrow>
            if d \<le> attack_reach\<^sup>2
            then ([StateChanged AiAttack], c\<lparr>ai_state := AiAttack\<rparr>, actors)
            else
              (let p = chase_position (position enemy) (position player)
               in ([Moved enemy_id p], c, snd (update_position enemy_id p actors)))
        | AiAttack \<Rightarrow>
            if initial_done c < initial_attacks (ai_pressure c)
            then
              (case attack_target enemy_id player_id (c\<lparr>initial_done := initial_done c + 1\<rparr>) actors of
                 (ev, actors') \<Rightarrow>
                   ((case ev of None \<Rightarrow> [] | Some e \<Rightarrow> [e]),
                    c\<lparr>initial_done := initial_done c + 1\<rparr>, actors'))
            else ([], c, actors)
        | AiDead \<Rightarrow> ([], c, actors))))"

text \<open>A counterattack is spent even when its target is gone (\<open>player_id?\<close> comes after).\<close>

definition accepted_hit ::
  "u64 \<Rightarrow> u64 option \<Rightarrow> ai_controller \<Rightarrow> registry \<Rightarrow> ai_event option \<times> ai_controller \<times> registry" where
  "accepted_hit enemy_id player_id c actors =
     (if ai_state c \<noteq> AiAttack then (None, c, actors)
      else
        (let c1 = c\<lparr>accepted_hits := sat_add (accepted_hits c) 1\<rparr>; p = ai_pressure c in
         if maximum_counterattacks p = 0 \<or> accepted_hits_per_counterattack p = 0
            \<or> maximum_counterattacks p \<le> counterattacks c1
            \<or> accepted_hits c1 mod accepted_hits_per_counterattack p \<noteq> 0
         then (None, c1, actors)
         else
           (let c2 = c1\<lparr>counterattacks := counterattacks c1 + 1\<rparr> in
            case player_id of
              None \<Rightarrow> (None, c2, actors)
            | Some pid \<Rightarrow>
                (case attack_target enemy_id pid c2 actors of (ev, actors') \<Rightarrow> (ev, c2, actors')))))"

definition reposition_arc_warden ::
  "u64 \<Rightarrow> u64 \<Rightarrow> ai_controller \<Rightarrow> registry \<Rightarrow> ai_event option \<times> registry" where
  "reposition_arc_warden enemy_id player_id c actors =
     (case get_actor actors enemy_id of None \<Rightarrow> (None, actors) | Some enemy \<Rightarrow>
     (case get_actor actors player_id of None \<Rightarrow> (None, actors) | Some player \<Rightarrow>
       if ai_state c \<noteq> AiAttack \<or> accepted_hits c = 0 \<or> kind enemy \<noteq> Enemy
          \<or> archetype enemy \<noteq> ''warden'' \<or> health enemy = 0 \<or> kind player \<noteq> Player \<or> health player = 0
       then (None, actors)
       else
         (let p = (if accepted_hits c mod 2 = 0 then (10, 0, 3) else (8, 0, - 3)) in
          if position enemy = p then (None, actors)
          else
            (case update_position enemy_id p actors of
               (None, actors') \<Rightarrow> (None, actors')
             | (Some _, actors') \<Rightarrow> (Some (Moved enemy_id p), actors')))))"

section \<open>Bounded pressure\<close>

text \<open>
  Everything that can happen to one controlled enemy: ticks and accepted hits with any
  target, repositioning, and arbitrary changes of the registry by the rest of the game.
\<close>

datatype controller_event =
    Tick u64
  | Hit "u64 option"
  | Reposition u64
  | Outside registry_op

fun controller_step ::
  "u64 \<Rightarrow> controller_event \<Rightarrow> ai_controller \<times> u64 \<times> registry
     \<Rightarrow> (ai_controller \<times> u64 \<times> registry) \<times> ai_event list" where
  "controller_step e (Tick p) (c, n, reg) =
     (case ai_tick e p c reg of (evs, c', reg') \<Rightarrow> ((c', n, reg'), evs))"
| "controller_step e (Hit p) (c, n, reg) =
     (case accepted_hit e p c reg of (ev, c', reg') \<Rightarrow>
        ((c', n, reg'), (case ev of None \<Rightarrow> [] | Some x \<Rightarrow> [x])))"
| "controller_step e (Reposition p) (c, n, reg) =
     (case reposition_arc_warden e p c reg of (ev, reg') \<Rightarrow>
        ((c, n, reg'), (case ev of None \<Rightarrow> [] | Some x \<Rightarrow> [x])))"
| "controller_step e (Outside op) (c, n, reg) = ((c, registry_step op (n, reg)), [])"

fun controller_run ::
  "u64 \<Rightarrow> controller_event list \<Rightarrow> ai_controller \<times> u64 \<times> registry
     \<Rightarrow> (ai_controller \<times> u64 \<times> registry) \<times> ai_event list" where
  "controller_run e [] s = (s, [])"
| "controller_run e (x # xs) s =
     (case controller_step e x s of (s', evs) \<Rightarrow>
        (case controller_run e xs s' of (s'', evs') \<Rightarrow> (s'', evs @ evs')))"

definition is_attack :: "ai_event \<Rightarrow> bool" where
  "is_attack e \<longleftrightarrow> (case e of Attacked _ _ _ _ _ \<Rightarrow> True | _ \<Rightarrow> False)"

definition attack_count :: "ai_event list \<Rightarrow> nat" where
  "attack_count evs = length (filter is_attack evs)"

lemma attack_count_simps [simp]:
  "attack_count [] = 0" "attack_count (evs @ evs') = attack_count evs + attack_count evs'"
  "attack_count [StateChanged s] = 0" "attack_count [Moved i p] = 0"
  by (simp_all add: attack_count_def is_attack_def)

lemma attack_count_single [simp]: "attack_count [e] \<le> Suc 0"
  by (simp add: attack_count_def)

text \<open>What an attack costs: the counters never exceed the profile.\<close>

definition pressure_spent :: "ai_controller \<Rightarrow> nat" where
  "pressure_spent c = unat (initial_done c) + unat (counterattacks c)"

definition controller_ok :: "ai_controller \<Rightarrow> bool" where
  "controller_ok c \<longleftrightarrow> initial_done c \<le> initial_attacks (ai_pressure c)
     \<and> counterattacks c \<le> maximum_counterattacks (ai_pressure c)"

lemma controller_ok_new: "controller_ok (new_controller p)"
  by (simp add: controller_ok_def new_controller_def)

lemma counter_step: "a < b \<Longrightarrow> unat (a + 1) = unat a + 1 \<and> a + 1 \<le> b" for a b :: u32
proof -
  assume "a < b"
  then have "a \<noteq> - 1" using word_order.extremum_strict by blast
  then show ?thesis using \<open>a < b\<close> by (simp add: unat_succ word_le_nat_alt word_less_nat_alt)
qed

lemma ai_tick_pressure:
  assumes "controller_ok c" and "ai_tick e p c reg = (evs, c', reg')"
  shows "controller_ok c' \<and> ai_pressure c' = ai_pressure c
    \<and> pressure_spent c + attack_count evs \<le> pressure_spent c'"
proof -
  have "attack_count (case ev of None \<Rightarrow> [] | Some e \<Rightarrow> [e]) \<le> 1" for ev
    by (cases ev) simp_all
  then show ?thesis
    using assms counter_step [of "initial_done c" "initial_attacks (ai_pressure c)"]
    by (auto simp: ai_tick_def controller_ok_def pressure_spent_def Let_def
        split: option.splits ai_state.splits if_splits prod.splits)
qed

lemma accepted_hit_pressure:
  assumes "controller_ok c" and "accepted_hit e p c reg = (ev, c', reg')"
  shows "controller_ok c' \<and> ai_pressure c' = ai_pressure c
    \<and> pressure_spent c + attack_count (case ev of None \<Rightarrow> [] | Some x \<Rightarrow> [x]) \<le> pressure_spent c'"
proof -
  have "attack_count (case ev of None \<Rightarrow> [] | Some e \<Rightarrow> [e]) \<le> 1" for ev
    by (cases ev) simp_all
  then show ?thesis
    using assms counter_step [of "counterattacks c" "maximum_counterattacks (ai_pressure c)"]
    by (auto simp: accepted_hit_def controller_ok_def pressure_spent_def Let_def not_le
        split: option.splits if_splits prod.splits)
qed

lemma reposition_no_attack:
  "reposition_arc_warden e p c reg = (ev, reg') \<Longrightarrow>
     attack_count (case ev of None \<Rightarrow> [] | Some x \<Rightarrow> [x]) = 0"
  by (auto simp: reposition_arc_warden_def Let_def split: option.splits if_splits prod.splits)

lemma controller_step_pressure:
  assumes "controller_ok c" and "controller_step e x (c, n, reg) = ((c', n', reg'), evs)"
  shows "controller_ok c' \<and> ai_pressure c' = ai_pressure c
    \<and> pressure_spent c + attack_count evs \<le> pressure_spent c'"
  using assms
  by (cases x) (auto dest: ai_tick_pressure accepted_hit_pressure reposition_no_attack split: prod.splits)

lemma controller_run_pressure:
  assumes "controller_ok c" and "controller_run e xs (c, n, reg) = ((c', n', reg'), evs)"
  shows "controller_ok c' \<and> ai_pressure c' = ai_pressure c
    \<and> pressure_spent c + attack_count evs \<le> pressure_spent c'"
  using assms
proof (induction xs arbitrary: c n reg evs)
  case (Cons x xs)
  obtain c1 n1 reg1 evs1 where st: "controller_step e x (c, n, reg) = ((c1, n1, reg1), evs1)"
    by (metis surj_pair)
  obtain evs2 where rn: "controller_run e xs (c1, n1, reg1) = ((c', n', reg'), evs2)"
    and "evs = evs1 @ evs2"
    using Cons.prems(2) st by (auto split: prod.splits)
  then show ?case
    using controller_step_pressure [OF Cons.prems(1) st] Cons.IH [OF _ rn] by auto
qed simp

text \<open>
  C4 (safety): the pressure of an encounter is bounded by its profile. Whatever sequence of
  ticks, accepted hits, repositionings and unrelated registry changes a fresh controller
  goes through, it attacks at most as often as its profile's initial attacks plus its
  maximum of counterattacks.
\<close>

theorem hostile_pressure_bounded:
  assumes "controller_run e xs (new_controller p, n, reg) = ((c', n', reg'), evs)"
  shows "attack_count evs \<le> unat (initial_attacks p) + unat (maximum_counterattacks p)"
proof -
  have "pressure_spent (new_controller p) = 0" "ai_pressure (new_controller p) = p"
    by (simp_all add: new_controller_def pressure_spent_def)
  then show ?thesis
    using controller_run_pressure [OF controller_ok_new assms]
    by (auto simp: controller_ok_def pressure_spent_def word_le_nat_alt)
qed

theorem hostile_pressure_bounded_witness:
  "\<exists>s evs. controller_run 2 [Tick 1, Tick 1, Tick 1, Hit (Some 1), Hit (Some 1)]
      (new_controller warden_pressure_profile, 3, warden_duel) = (s, evs) \<and> attack_count evs \<le> 2"
proof -
  let ?xs = "[Tick 1, Tick 1, Tick 1, Hit (Some 1), Hit (Some 1)]"
  obtain c' n' reg' evs where
    r: "controller_run 2 ?xs (new_controller warden_pressure_profile, 3, warden_duel) = ((c', n', reg'), evs)"
    by (metis surj_pair)
  from hostile_pressure_bounded [OF this] have "attack_count evs \<le> 2"
    by (simp add: warden_pressure_profile_def)
  with r show ?thesis by blast
qed

section \<open>The analysis predicts the pressure\<close>

text \<open>An engaged controller absorbs \<open>n\<close> accepted hits of one player.\<close>

fun absorb :: "u64 \<Rightarrow> u64 \<Rightarrow> nat \<Rightarrow> ai_controller \<Rightarrow> registry \<Rightarrow> ai_controller \<times> registry" where
  "absorb e p 0 c reg = (c, reg)"
| "absorb e p (Suc n) c reg =
     (case absorb e p n c reg of
        (c', reg') \<Rightarrow> (case accepted_hit e (Some p) c' reg' of (_, c'', reg'') \<Rightarrow> (c'', reg'')))"

definition counter_total :: "pressure_profile \<Rightarrow> nat \<Rightarrow> nat" where
  "counter_total p n =
     (if maximum_counterattacks p = 0 \<or> accepted_hits_per_counterattack p = 0 then 0
      else min (n div unat (accepted_hits_per_counterattack p)) (unat (maximum_counterattacks p)))"

lemma counter_total_Suc:
  "counter_total p (Suc n) = counter_total p n +
     (if maximum_counterattacks p = 0 \<or> accepted_hits_per_counterattack p = 0
         \<or> unat (maximum_counterattacks p) \<le> counter_total p n
         \<or> Suc n mod unat (accepted_hits_per_counterattack p) \<noteq> 0 then 0 else 1)"
  by (auto simp: counter_total_def div_Suc min_def)

lemma attack_target_health:
  assumes "get_actor reg e = Some x" "kind x = Enemy" "health x \<noteq> 0" "get_actor reg p = Some y"
    "kind y = Player" "attack_target e p c reg = (ev, reg')"
  shows "get_actor reg' p = Some (y\<lparr>health := sat_sub (health y) (pressure_damage (ai_pressure c))\<rparr>)"
    and "get_actor reg' e = Some x"
proof -
  have "e \<noteq> p" using assms by auto
  show "get_actor reg' p = Some (y\<lparr>health := sat_sub (health y) (pressure_damage (ai_pressure c))\<rparr>)"
  proof (cases "health y = 0")
    case True
    then have "sat_sub (health y) d = health y" for d by (simp add: word_unat_eq_iff machine_arith)
    then show ?thesis using assms True by (auto simp: attack_target_def)
  next
    case False
    then show ?thesis using assms
      by (auto simp: attack_target_def get_actor_def apply_damage_def Let_def split: option.splits prod.splits)
  qed
  show "get_actor reg' e = Some x"
    using assms \<open>e \<noteq> p\<close>
    by (auto simp: attack_target_def get_actor_def apply_damage_def Let_def
        split: option.splits prod.splits if_splits)
qed

lemma absorb_counts:
  assumes "ai_state c = AiAttack" and "accepted_hits c = 0" and "counterattacks c = 0"
    and "get_actor reg e = Some x" "kind x = Enemy" "health x \<noteq> 0"
    and "get_actor reg pl = Some y" "kind y = Player" and "n < 2 ^ 32"
    and "absorb e pl n c reg = (c', reg')"
  shows "ai_state c' = AiAttack \<and> ai_pressure c' = ai_pressure c \<and> initial_done c' = initial_done c
    \<and> unat (accepted_hits c') = n \<and> unat (counterattacks c') = counter_total (ai_pressure c) n
    \<and> get_actor reg' e = Some x
    \<and> get_actor reg' pl = Some (y\<lparr>health := of_nat (unat (health y)
          - counter_total (ai_pressure c) n * unat (pressure_damage (ai_pressure c)))\<rparr>)"
  using assms(9,10)
proof (induction n arbitrary: c' reg')
  case 0
  then show ?case using assms by (simp add: counter_total_def)
next
  case (Suc n)
  obtain c1 r1 where ab: "absorb e pl n c reg = (c1, r1)" by fastforce
  obtain ev where hit: "accepted_hit e (Some pl) c1 r1 = (ev, c', reg')"
    using Suc.prems(2) ab by (auto split: prod.splits)
  let ?p = "ai_pressure c" and ?d = "unat (pressure_damage (ai_pressure c))"
  let ?h = "\<lambda>k. of_nat (unat (health y) - k * ?d) :: u32"
  have IH: "ai_state c1 = AiAttack" "ai_pressure c1 = ?p" "initial_done c1 = initial_done c"
    "unat (accepted_hits c1) = n" "unat (counterattacks c1) = counter_total ?p n"
    "get_actor r1 e = Some x" "get_actor r1 pl = Some (y\<lparr>health := ?h (counter_total ?p n)\<rparr>)"
    using Suc.IH [OF _ ab] Suc.prems(1) by simp_all
  have acc: "unat (sat_add (accepted_hits c1) 1) = Suc n"
    using Suc.prems(1) IH(4) by (simp add: machine_arith)
  have small: "unat (?h k) = unat (health y) - k * ?d" for k
    using unat_bound [of "health y"] by (simp add: unat_of_nat_small)
  have modn: "(sat_add (accepted_hits c1) 1 mod k = 0) = (Suc n mod unat k = 0)" for k
    unfolding word_mod_0_nat acc ..
  let ?skip = "maximum_counterattacks ?p = 0 \<or> accepted_hits_per_counterattack ?p = 0
         \<or> unat (maximum_counterattacks ?p) \<le> counter_total ?p n
         \<or> Suc n mod unat (accepted_hits_per_counterattack ?p) \<noteq> 0"
  show ?case
  proof (cases ?skip)
    case True
    then have "accepted_hit e (Some pl) c1 r1 = (None, c1\<lparr>accepted_hits := sat_add (accepted_hits c1) 1\<rparr>, r1)"
      using IH modn by (simp add: accepted_hit_def Let_def word_le_nat_alt)
    then show ?thesis using hit IH acc True by (simp add: counter_total_Suc)
  next
    case False
    let ?c2 = "c1\<lparr>accepted_hits := sat_add (accepted_hits c1) 1, counterattacks := counterattacks c1 + 1\<rparr>"
    have at: "attack_target e pl ?c2 r1 = (ev, reg')" and c': "c' = ?c2"
      using hit False IH modn by (auto simp: accepted_hit_def Let_def word_le_nat_alt split: prod.splits)
    have cnt: "unat (counterattacks c1 + 1) = counter_total ?p n + 1"
      using False IH(5) counter_step [of "counterattacks c1" "maximum_counterattacks ?p"]
      by (simp add: word_less_nat_alt)
    note T = attack_target_health [OF IH(6) assms(5,6) IH(7) _ at]
    have "sat_sub (?h k) (pressure_damage ?p) = ?h (k + 1)" for k
      unfolding word_unat_eq_iff small unat_sat_sub by simp
    then show ?thesis using T IH c' acc cnt False assms(8) by (simp add: counter_total_Suc)
  qed
qed

text \<open>
  The hostile pressure the scenario analysis expects is the pressure the
  controller exerts. Start from an engaged controller that has spent its initial attacks
  and let it absorb all but the last (lethal) of the required hits of one player. Then the
  attacks it has spent are exactly the expected hostile attacks, and the player has lost
  exactly the counterattacks' share of the damage (down to zero health at the most).
\<close>

theorem analysis_predicts_pressure:
  assumes "hostile_attacks_for_hits hits (ai_pressure c) = Inr expected"
    and "maximum_counterattacks (ai_pressure c) = 0 \<or> accepted_hits_per_counterattack (ai_pressure c) \<noteq> 0"
    and "ai_state c = AiAttack" and "initial_done c = initial_attacks (ai_pressure c)"
    and "accepted_hits c = 0" and "counterattacks c = 0"
    and "get_actor reg e = Some x" "kind x = Enemy" "health x \<noteq> 0"
    and "get_actor reg pl = Some y" "kind y = Player"
    and "absorb e pl (unat hits - 1) c reg = (c', reg')"
  shows "pressure_spent c' = unat expected
    \<and> (\<exists>z. get_actor reg' pl = Some z \<and> unat (health z) = unat (health y)
          - (unat expected - unat (initial_attacks (ai_pressure c))) * unat (pressure_damage (ai_pressure c)))"
proof -
  have n: "unat hits - 1 < 2 ^ 32" using unat_bound [of hits] by simp
  note B = absorb_counts [OF assms(3,5,6,7,8,9,10,11) n assms(12)]
  have ex: "unat expected = unat (initial_attacks (ai_pressure c)) + counter_total (ai_pressure c) (unat hits - 1)"
    using hostile_attacks_nat [OF assms(1)] assms(2) by (auto simp: counter_total_def)
  have "unat (health y) - k < 2 ^ LENGTH(32)" for k using unat_bound [of "health y"] by simp
  then show ?thesis
    using B ex assms(4) by (simp add: pressure_spent_def unat_of_nat_small)
qed

definition engaged_warden :: ai_controller where
  "engaged_warden = (new_controller warden_pressure_profile)\<lparr>ai_state := AiAttack\<rparr>"

theorem analysis_predicts_pressure_witness:
  "\<exists>c' reg'. absorb 2 1 (unat (5 :: u32) - 1) engaged_warden warden_duel = (c', reg')
     \<and> pressure_spent c' = 2
     \<and> (\<exists>z. get_actor reg' 1 = Some z \<and> unat (health z) = 70)"
proof -
  obtain c' reg' where r: "absorb 2 1 (unat (5 :: u32) - 1) engaged_warden warden_duel = (c', reg')"
    by fastforce
  have h: "hostile_attacks_for_hits 5 (ai_pressure engaged_warden) = Inr 2"
    by (simp add: hostile_attacks_for_hits_def engaged_warden_def new_controller_def
        warden_pressure_profile_def Let_def sat_sub_def checked_add_def)
  show ?thesis
    using analysis_predicts_pressure [OF h, where e = 2 and pl = 1 and reg = warden_duel
        and x = "the (warden_duel 2)" and y = "the (warden_duel 1)" and c' = c' and reg' = reg'] r
    by (simp add: engaged_warden_def new_controller_def warden_pressure_profile_def
        warden_duel_def get_actor_def)
qed

section \<open>Engagement\<close>

text \<open>\<open>n\<close> ticks in a row, with the events they report.\<close>

fun ticks ::
  "u64 \<Rightarrow> u64 \<Rightarrow> nat \<Rightarrow> ai_controller \<Rightarrow> registry \<Rightarrow> ai_event list \<times> ai_controller \<times> registry" where
  "ticks e p 0 c reg = ([], c, reg)"
| "ticks e p (Suc n) c reg =
     (case ai_tick e p c reg of (evs, c', reg') \<Rightarrow>
        (case ticks e p n c' reg' of (evs', r) \<Rightarrow> (evs @ evs', r)))"

lemma ticks_add:
  "ticks e p (m + n) c reg =
     (case ticks e p m c reg of (evs, c', reg') \<Rightarrow>
        (case ticks e p n c' reg' of (evs', r) \<Rightarrow> (evs @ evs', r)))"
  by (induction m arbitrary: c reg) (auto split: prod.splits)

fun chebyshev :: "pos \<Rightarrow> pos \<Rightarrow> int" where
  "chebyshev (x, y, z) (x', y', z') = max \<bar>x' - x\<bar> (max \<bar>y' - y\<bar> \<bar>z' - z\<bar>)"

text \<open>Where \<open>n\<close> steps of one along every axis lead from \<open>c\<close> to \<open>t\<close>, without overshooting.\<close>

definition approach_axis :: "nat \<Rightarrow> int \<Rightarrow> int \<Rightarrow> int" where
  "approach_axis n c t = c + sgn (t - c) * min (int n) \<bar>t - c\<bar>"

fun approach :: "nat \<Rightarrow> pos \<Rightarrow> pos \<Rightarrow> pos" where
  "approach n (x, y, z) (x', y', z') =
     (approach_axis n x x', approach_axis n y y', approach_axis n z z')"

lemma chase_coordinate_near:
  assumes "\<bar>c\<bar> \<le> 2 ^ 28" and "\<bar>t\<bar> \<le> 2 ^ 28"
  shows "chase_coordinate c t = c + sgn (t - c)"
proof -
  have "in_i32 (t - c)" and "in_i32 (c + sgn (t - c))"
    using assms by (auto simp: in_i32_def sgn_if)
  then show ?thesis by (simp add: chase_coordinate_def wrap_i32_id)
qed

lemma approach_axis_step:
  "approach_axis (Suc n) c t = approach_axis n c t + sgn (t - approach_axis n c t)"
  by (cases "c < t"; cases "c = t") (auto simp: approach_axis_def sgn_if min_def)

lemma approach_axis_gap: "\<bar>t - approach_axis n c t\<bar> = max 0 (\<bar>t - c\<bar> - int n)"
  by (cases "c < t"; cases "c = t") (auto simp: approach_axis_def min_def max_def)

lemma approach_axis_between: "\<bar>c\<bar> \<le> b \<Longrightarrow> \<bar>t\<bar> \<le> b \<Longrightarrow> \<bar>approach_axis n c t\<bar> \<le> b"
  by (cases "c < t"; cases "c = t") (auto simp: approach_axis_def min_def)

lemma approach_0 [simp]: "approach 0 q r = q"
  by (cases q; cases r) (simp add: approach_axis_def)

lemma approach_near: "near_origin q \<Longrightarrow> near_origin r \<Longrightarrow> near_origin (approach n q r)"
  by (cases q; cases r) (simp add: approach_axis_between)

lemma chase_approaches:
  "near_origin q \<Longrightarrow> near_origin r \<Longrightarrow> chase_position (approach n q r) r = approach (Suc n) q r"
  by (cases q; cases r) (simp add: chase_coordinate_near approach_axis_between approach_axis_step)

lemma approach_gap: "chebyshev (approach n q r) r = max 0 (chebyshev q r - int n)"
  by (cases q; cases r) (simp add: approach_axis_gap max_def)

lemma chebyshev_of_distance:
  assumes "near_origin q" and "near_origin p"
  shows "squared_distance q p \<le> k\<^sup>2 \<Longrightarrow> 0 \<le> k \<Longrightarrow> chebyshev q p \<le> k"
    and "chebyshev q p \<le> 1 \<Longrightarrow> squared_distance q p \<le> 4"
proof -
  obtain x y z x' y' z' where qp: "q = (x, y, z)" "p = (x', y', z')" by (metis prod_cases3)
  have d: "squared_distance q p = (x - x')\<^sup>2 + (y - y')\<^sup>2 + (z - z')\<^sup>2"
    using assms qp squared_distance_exact by blast
  show "chebyshev q p \<le> k" if "squared_distance q p \<le> k\<^sup>2" "0 \<le> k"
  proof -
    have "0 \<le> (x - x')\<^sup>2" "0 \<le> (y - y')\<^sup>2" "0 \<le> (z - z')\<^sup>2" by simp_all
    then have "(x' - x)\<^sup>2 \<le> k\<^sup>2" "(y' - y)\<^sup>2 \<le> k\<^sup>2" "(z' - z)\<^sup>2 \<le> k\<^sup>2"
      using that d by (simp_all only: power2_commute [of x' x] power2_commute [of y' y]
          power2_commute [of z' z])
    then show ?thesis using that(2) qp by (simp add: power2_le_iff_abs_le)
  qed
  show "squared_distance q p \<le> 4" if "chebyshev q p \<le> 1"
  proof -
    have "\<bar>x - x'\<bar> \<le> 1" "\<bar>y - y'\<bar> \<le> 1" "\<bar>z - z'\<bar> \<le> 1" using that qp by auto
    then have "(x - x')\<^sup>2 \<le> 1" "(y - y')\<^sup>2 \<le> 1" "(z - z')\<^sup>2 \<le> 1"
      by (simp_all add: abs_square_le_1)
    then show ?thesis using d by simp
  qed
qed

text \<open>The registry of a duel between enemy \<open>e\<close> at \<open>q\<close> and player \<open>p\<close> at \<open>r\<close>.\<close>

definition facing_off :: "u64 \<Rightarrow> pos \<Rightarrow> u64 \<Rightarrow> pos \<Rightarrow> registry \<Rightarrow> bool" where
  "facing_off e q p r reg \<longleftrightarrow> e \<noteq> p \<and>
     (\<exists>x y. get_actor reg e = Some x \<and> position x = q \<and> get_actor reg p = Some y \<and> position y = r)"

lemma facing_off_move:
  "facing_off e q p r reg \<Longrightarrow> facing_off e q' p r (snd (update_position e q' reg))"
  by (auto simp: facing_off_def reg.look_walk)

lemma ai_tick_facing:
  assumes "facing_off e q p r reg"
  shows "ai_state c = AiIdle \<Longrightarrow> squared_distance q r \<le> 144 \<Longrightarrow>
      ai_tick e p c reg = ([StateChanged AiDetect], c\<lparr>ai_state := AiDetect\<rparr>, reg)"
    and "ai_state c = AiDetect \<Longrightarrow>
      ai_tick e p c reg = ([StateChanged AiChase], c\<lparr>ai_state := AiChase\<rparr>, reg)"
    and "ai_state c = AiChase \<Longrightarrow> squared_distance q r \<le> 4 \<Longrightarrow>
      ai_tick e p c reg = ([StateChanged AiAttack], c\<lparr>ai_state := AiAttack\<rparr>, reg)"
    and "ai_state c = AiChase \<Longrightarrow> 4 < squared_distance q r \<Longrightarrow>
      ai_tick e p c reg = ([Moved e (chase_position q r)], c, snd (update_position e (chase_position q r) reg))"
  using assms
  by (auto simp: ai_tick_def facing_off_def detection_range_def attack_reach_def Let_def)

lemma chase_runs:
  assumes "facing_off e q p r reg" and "near_origin q" and "near_origin r" and "ai_state c = AiChase"
    and "\<forall>j < k. 4 < squared_distance (approach j q r) r"
  shows "\<exists>reg'. ticks e p k c reg = (map (\<lambda>j. Moved e (approach (Suc j) q r)) [0..<k], c, reg') \<and>
    facing_off e (approach k q r) p r reg'"
  using assms(5)
proof (induction k)
  case 0
  then show ?case using assms(1) by simp
next
  case (Suc k)
  then obtain reg' where IH: "ticks e p k c reg = (map (\<lambda>j. Moved e (approach (Suc j) q r)) [0..<k], c, reg')"
    "facing_off e (approach k q r) p r reg'" by auto
  have "ai_tick e p c reg' = ([Moved e (approach (Suc k) q r)], c,
      snd (update_position e (approach (Suc k) q r) reg'))"
    using ai_tick_facing(4) [OF IH(2) assms(4)] Suc.prems chase_approaches [OF assms(2,3), of k] by simp
  then show ?case
    using ticks_add [of e p k 1 c reg] IH facing_off_move [OF IH(2)] by simp
qed

text \<open>The first step of the chase within reach comes one step before the largest gap is closed.\<close>

lemma reach_exists:
  assumes "near_origin q" and "near_origin r"
  obtains k where "k \<le> nat (chebyshev q r) - 1"
    and "\<forall>j < k. 4 < squared_distance (approach j q r) r" and "squared_distance (approach k q r) r \<le> 4"
proof -
  let ?P = "\<lambda>j. squared_distance (approach j q r) r \<le> 4" and ?n = "nat (chebyshev q r) - 1"
  have "chebyshev (approach ?n q r) r \<le> 1" by (simp add: approach_gap)
  then have n: "?P ?n"
    by (rule chebyshev_of_distance(2) [OF approach_near [OF assms] assms(2)])
  define k where "k = (LEAST j. ?P j)"
  have "k \<le> ?n" unfolding k_def using n by (rule Least_le)
  moreover have "4 < squared_distance (approach j q r) r" if "j < k" for j
    using not_less_Least [OF that [unfolded k_def]] by (simp only: not_le)
  moreover have "?P k" unfolding k_def using n by (rule LeastI)
  ultimately show ?thesis using that by blast
qed

lemma initial_attack_tick:
  assumes "facing_off e q p r reg" and "ai_state c = AiAttack"
  obtains evs reg' where "facing_off e q p r reg'"
    "ai_tick e p c reg = (evs,
       (if initial_done c < initial_attacks (ai_pressure c) then c\<lparr>initial_done := initial_done c + 1\<rparr> else c),
       reg')"
proof -
  obtain ev reg' where at: "attack_target e p (c\<lparr>initial_done := initial_done c + 1\<rparr>) reg = (ev, reg')"
    by fastforce
  have hit: "facing_off e q p r reg'"
    using at assms(1)
    by (auto simp: attack_target_def facing_off_def get_actor_def apply_damage_def Let_def
        split: option.splits if_splits prod.splits)
  show ?thesis
  proof (cases "initial_done c < initial_attacks (ai_pressure c)")
    case True
    then have "ai_tick e p c reg =
        ((case ev of None \<Rightarrow> [] | Some x \<Rightarrow> [x]), c\<lparr>initial_done := initial_done c + 1\<rparr>, reg')"
      using assms at by (auto simp: ai_tick_def facing_off_def Let_def)
    with True show ?thesis by (intro that [OF hit]) simp
  next
    case False
    then have "ai_tick e p c reg = ([], c, reg)"
      using assms by (auto simp: ai_tick_def facing_off_def Let_def)
    with False show ?thesis by (intro that [OF assms(1)]) simp
  qed
qed

lemma initial_attacks_spent:
  assumes "facing_off e q p r reg" and "ai_state c = AiAttack"
    and "initial_done c \<le> initial_attacks (ai_pressure c)"
  shows "pressure_ready (fst (snd (ticks e p n c reg))) \<longleftrightarrow>
    unat (initial_attacks (ai_pressure c)) \<le> unat (initial_done c) + n"
  using assms
proof (induction n arbitrary: c reg)
  case 0
  then show ?case by (simp add: pressure_ready_def word_le_nat_alt)
next
  case (Suc n)
  obtain evs reg' where t: "facing_off e q p r reg'" "ai_tick e p c reg = (evs,
       (if initial_done c < initial_attacks (ai_pressure c) then c\<lparr>initial_done := initial_done c + 1\<rparr> else c), reg')"
    by (rule initial_attack_tick [OF Suc.prems(1,2)])
  have inc: "unat (initial_done c + 1) = unat (initial_done c) + 1 \<and> initial_done c + 1 \<le> initial_attacks (ai_pressure c)"
    if "initial_done c < initial_attacks (ai_pressure c)" using counter_step [OF that] .
  show ?case
    using Suc.IH [OF t(1), of "c\<lparr>initial_done := initial_done c + 1\<rparr>"] Suc.IH [OF t(1), of c] Suc.prems t(2) inc
    by (auto simp: case_prod_beta word_le_nat_alt word_less_nat_alt split: if_splits)
qed

text \<open>
  C5 (liveness): a fresh controller whose enemy starts within the detection range of a player who
  stays put (both within \<open>2 ^ 28\<close> of the origin on every axis, where the 32-bit arithmetic is exact)
  detects the player in the first tick, starts the chase in the second and then moves one step along
  every axis per tick, never past the player's coordinate, until it is for the first time within
  reach. That takes \<open>k\<close> ticks, fewer than the largest distance along an axis; the next tick enters
  the attack, and from then on the controller is pressure-ready exactly after one tick per initial
  attack. Nothing else is reported on the way, and the registry ends with the enemy where the chase
  led it.
\<close>

theorem controller_engages:
  assumes "facing_off e q p r reg" and "near_origin q" and "near_origin r"
    and "squared_distance q r \<le> 144"
  shows "\<exists>k reg'. k \<le> nat (chebyshev q r) - 1 \<and> k < 12 \<and>
    (\<forall>j < k. 4 < squared_distance (approach j q r) r) \<and> squared_distance (approach k q r) r \<le> 4 \<and>
    ticks e p (3 + k) (new_controller prof) reg =
      ([StateChanged AiDetect, StateChanged AiChase] @
         map (\<lambda>j. Moved e (approach (Suc j) q r)) [0..<k] @ [StateChanged AiAttack],
       (new_controller prof)\<lparr>ai_state := AiAttack\<rparr>, reg') \<and>
    facing_off e (approach k q r) p r reg' \<and>
    (\<forall>n. pressure_ready (fst (snd (ticks e p (3 + k + n) (new_controller prof) reg))) \<longleftrightarrow>
       unat (initial_attacks prof) \<le> n)"
proof -
  let ?c = "new_controller prof"
  let ?chase = "?c\<lparr>ai_state := AiChase\<rparr>" and ?attack = "?c\<lparr>ai_state := AiAttack\<rparr>"
  obtain k where k: "k \<le> nat (chebyshev q r) - 1" "\<forall>j < k. 4 < squared_distance (approach j q r) r"
    "squared_distance (approach k q r) r \<le> 4" by (rule reach_exists [OF assms(2,3)])
  have "chebyshev q r \<le> 12" using chebyshev_of_distance(1) [OF assms(2,3), of 12] assms(4) by simp
  then have "k < 12" using k(1) by linarith
  obtain reg' where chase: "ticks e p k ?chase reg =
      (map (\<lambda>j. Moved e (approach (Suc j) q r)) [0..<k], ?chase, reg')"
    and reg': "facing_off e (approach k q r) p r reg'"
    using chase_runs [OF assms(1-3) _ k(2), of ?chase] by auto
  have "ticks e p 2 ?c reg = ([StateChanged AiDetect, StateChanged AiChase], ?chase, reg)"
    using ai_tick_facing(1) [OF assms(1), of ?c] ai_tick_facing(2) [OF assms(1), of "?c\<lparr>ai_state := AiDetect\<rparr>"]
      assms(4) by (simp add: numeral_2_eq_2 new_controller_def)
  moreover have "ticks e p 1 ?chase reg' = ([StateChanged AiAttack], ?attack, reg')"
    using ai_tick_facing(3) [OF reg', of ?chase] k(3) by simp
  ultimately have run: "ticks e p (2 + k + 1) ?c reg = ([StateChanged AiDetect, StateChanged AiChase] @
      map (\<lambda>j. Moved e (approach (Suc j) q r)) [0..<k] @ [StateChanged AiAttack], ?attack, reg')"
    using chase by (simp only: ticks_add prod.case append.assoc)
  have "pressure_ready (fst (snd (ticks e p (2 + k + 1 + n) ?c reg))) \<longleftrightarrow> unat (initial_attacks prof) \<le> n" for n
    using initial_attacks_spent [OF reg', of ?attack n] ticks_add [of e p "2 + k + 1" n ?c reg] run
    by (simp add: new_controller_def case_prod_beta)
  with run reg' k \<open>k < 12\<close> show ?thesis by (intro exI [of _ k] exI [of _ reg']) (simp add: numeral_3_eq_3)
qed

definition distant_duel :: registry where
  "distant_duel =
     [1 \<mapsto> \<lparr>actor_id = 1, kind = Player, archetype = ''operator'', position = (0, 0, 0),
             health = 100, max_health = 100\<rparr>,
      2 \<mapsto> \<lparr>actor_id = 2, kind = Enemy, archetype = ''relay_drone'', position = (6, 0, -3),
             health = 60, max_health = 60\<rparr>]"

theorem controller_engages_witness:
  "\<exists>k reg'. fst (ticks 2 1 (3 + k) (new_controller relay_drone_pressure_profile) distant_duel) =
       [StateChanged AiDetect, StateChanged AiChase] @
         map (\<lambda>j. Moved 2 (approach (Suc j) (6, 0, -3) (0, 0, 0))) [0..<k] @ [StateChanged AiAttack] \<and>
     0 < k \<and> k < 6 \<and> facing_off 2 (approach k (6, 0, -3) (0, 0, 0)) 1 (0, 0, 0) reg'"
proof -
  have "facing_off 2 (6, 0, -3) 1 (0, 0, 0) distant_duel"
    by (simp add: facing_off_def distant_duel_def get_actor_def)
  then obtain k reg' where k: "k \<le> nat (chebyshev (6, 0, -3) (0, 0, 0)) - 1"
    "squared_distance (approach k (6, 0, -3) (0, 0, 0)) (0, 0, 0) \<le> 4"
    "ticks 2 1 (3 + k) (new_controller relay_drone_pressure_profile) distant_duel =
      ([StateChanged AiDetect, StateChanged AiChase] @
         map (\<lambda>j. Moved 2 (approach (Suc j) (6, 0, -3) (0, 0, 0))) [0..<k] @ [StateChanged AiAttack],
       (new_controller relay_drone_pressure_profile)\<lparr>ai_state := AiAttack\<rparr>, reg')"
    "facing_off 2 (approach k (6, 0, -3) (0, 0, 0)) 1 (0, 0, 0) reg'"
    using controller_engages [of 2 "(6, 0, -3)" 1 "(0, 0, 0)" distant_duel relay_drone_pressure_profile]
    by (auto simp: wrap_i64_def)
  have "\<not> squared_distance (6, 0, -3) (0, 0, 0) \<le> 4" by (simp add: wrap_i64_def)
  then have "k \<noteq> 0" using k(2) by (metis approach_0)
  then show ?thesis using k by (intro exI [of _ k] exI [of _ reg']) simp
qed

end
