(* ===== verification/Lancer.thy ===== *)
theory Lancer
  imports Actors Pacing
begin

text \<open>
  \<open>runtime/ai/src/lancer.rs\<close>: a cardinal charge that is locked and announced before it
  can hurt anyone. The brain interprets both contracts of theory \<open>Pacing\<close>.
\<close>

section \<open>Constants and geometry\<close>

definition lancer_health :: u32 where "lancer_health = 200"

definition lancer_damage :: u32 where "lancer_damage = 18"

definition lancer_windup_ms :: u64 where "lancer_windup_ms = 1800"

definition lancer_recovery_ms :: u64 where "lancer_recovery_ms = 1400"

lemmas lancer_consts = lancer_health_def lancer_damage_def lancer_windup_ms_def lancer_recovery_ms_def

fun lancer_arena :: "pos \<Rightarrow> bool" where
  "lancer_arena (x, y, z) \<longleftrightarrow> y = 0 \<and> 2 \<le> x \<and> x \<le> 10 \<and> 5 \<le> z \<and> z \<le> 10"

fun charge_hits :: "pos \<Rightarrow> pos \<Rightarrow> pos \<Rightarrow> bool" where
  "charge_hits (ox, oy, oz) (tx, ty, tz) (px, py, pz) \<longleftrightarrow>
     lancer_arena (ox, oy, oz) \<and> lancer_arena (tx, ty, tz) \<and> lancer_arena (px, py, pz) \<and>
     (ox = tx \<and> px = ox \<and> min oz tz \<le> pz \<and> pz \<le> max oz tz
      \<or> oz = tz \<and> pz = oz \<and> min ox tx \<le> px \<and> px \<le> max ox tx)"

section \<open>The brain\<close>

datatype charge_action =
    Windup pos pos
  | Resolved pos pos u32

record glass_lancer =
  lancer_ready_at :: u64
  locked :: "(pos \<times> pos) option"

definition new_lancer :: glass_lancer where
  "new_lancer = \<lparr>lancer_ready_at = 700, locked = None\<rparr>"

definition lancer_confirm_at :: "u64 \<Rightarrow> glass_lancer \<Rightarrow> glass_lancer" where
  "lancer_confirm_at now b =
     (let interval = (if locked b \<noteq> None then lancer_windup_ms else lancer_recovery_ms)
      in b\<lparr>lancer_ready_at := max (lancer_ready_at b) (sat_add now interval)\<rparr>)"

text \<open>The dominant axis; the differences are of arena coordinates and cannot overflow.\<close>

fun charge_target :: "pos \<Rightarrow> pos \<Rightarrow> pos" where
  "charge_target (ex, ey, ez) (px, py, pz) =
     (if \<bar>pz - ez\<bar> \<le> \<bar>px - ex\<bar> then (px, ey, ez) else (ex, ey, pz))"

definition lancer_tick ::
  "u64 \<Rightarrow> pos \<Rightarrow> pos \<Rightarrow> glass_lancer \<Rightarrow> glass_lancer \<times> charge_action option" where
  "lancer_tick now enemy player b =
     (if now < lancer_ready_at b \<or> \<not> lancer_arena enemy \<or> \<not> lancer_arena player then (b, None)
      else
        (case locked b of
           Some (origin, target) \<Rightarrow>
             (b\<lparr>locked := None, lancer_ready_at := sat_add now lancer_recovery_ms\<rparr>,
              Some (Resolved origin target (if charge_hits origin target player then lancer_damage else 0)))
         | None \<Rightarrow>
             (let target = charge_target enemy player
              in (b\<lparr>locked := Some (enemy, target), lancer_ready_at := sat_add now lancer_windup_ms\<rparr>,
                  Some (Windup enemy target)))))"

section \<open>Contracts\<close>

datatype lancer_event =
    LancerTick u64 pos pos
  | LancerConfirm u64

fun lancer_time :: "lancer_event \<Rightarrow> u64" where
  "lancer_time (LancerTick now e p) = now"
| "lancer_time (LancerConfirm now) = now"

fun lancer_step :: "lancer_event \<Rightarrow> glass_lancer \<Rightarrow> glass_lancer \<times> charge_action option" where
  "lancer_step (LancerTick now e p) b = lancer_tick now e p b"
| "lancer_step (LancerConfirm now) b = (lancer_confirm_at now b, None)"

fun charge_gap :: "charge_action \<Rightarrow> u64" where
  "charge_gap (Windup p q) = lancer_windup_ms"
| "charge_gap (Resolved p q d) = lancer_recovery_ms"

fun charge_warns :: "charge_action \<Rightarrow> (pos \<times> pos) option" where
  "charge_warns (Windup p q) = Some (p, q)"
| "charge_warns (Resolved p q d) = None"

fun charge_strikes :: "charge_action \<Rightarrow> (pos \<times> pos) option" where
  "charge_strikes (Windup p q) = None"
| "charge_strikes (Resolved p q d) = Some (p, q)"

lemmas lancer_defs = lancer_tick_def lancer_confirm_at_def Let_def

interpretation lancer_pace: paced lancer_step lancer_time "\<lambda>_ _. True" lancer_ready_at charge_gap
proof unfold_locales
  fix e b b' a
  show "lancer_step e b = (b', Some a) \<Longrightarrow> lancer_ready_at b \<le> lancer_time e"
    by (cases e) (auto simp: lancer_defs split: option.splits if_splits)
  show "lancer_step e b = (b', Some a) \<Longrightarrow> sat_add (lancer_time e) (charge_gap a) \<le> lancer_ready_at b'"
    by (cases e) (auto simp: lancer_defs split: option.splits if_splits)
  show "lancer_step e b = (b', None) \<Longrightarrow> lancer_ready_at b \<le> lancer_ready_at b'"
    by (cases e) (auto simp: lancer_defs split: option.splits if_splits)
qed simp

interpretation lancer_sign: telegraphed lancer_step lancer_time "\<lambda>_. True" locked lancer_ready_at
  charge_warns charge_strikes "\<lambda>_. lancer_windup_ms"
proof unfold_locales
  fix e b b' a w
  show "lancer_step e b = (b', Some a) \<Longrightarrow> locked b' = charge_warns a"
    by (cases e) (auto simp: lancer_defs split: option.splits if_splits)
  show "lancer_step e b = (b', Some a) \<Longrightarrow> charge_warns a = Some w \<Longrightarrow>
      sat_add (lancer_time e) lancer_windup_ms \<le> lancer_ready_at b'"
    by (cases e) (auto simp: lancer_defs split: option.splits if_splits)
  show "lancer_step e b = (b', Some a) \<Longrightarrow> charge_strikes a = Some w \<Longrightarrow>
      locked b = Some w \<and> lancer_ready_at b \<le> lancer_time e"
    by (cases e) (auto simp: lancer_defs split: option.splits if_splits)
  show "lancer_step e b = (b', None) \<Longrightarrow>
      locked b' = locked b \<and> (locked b \<noteq> None \<longrightarrow> lancer_ready_at b \<le> lancer_ready_at b')"
    by (cases e) (auto simp: lancer_defs split: option.splits if_splits)
qed simp

text \<open>A locked charge runs along one axis, inside the arena.\<close>

definition charge_lane :: "pos \<times> pos \<Rightarrow> bool" where
  "charge_lane w \<longleftrightarrow> lancer_arena (fst w) \<and> lancer_arena (snd w) \<and>
     (fst (fst w) = fst (snd w) \<or> snd (snd (fst w)) = snd (snd (snd w)))"

lemma charge_target_lane:
  "lancer_arena e \<Longrightarrow> lancer_arena p \<Longrightarrow> charge_lane (e, charge_target e p)"
  by (cases e; cases p) (auto simp: charge_lane_def)

text \<open>The player stands on the lane when the charge is declared: it is aimed at them.\<close>

lemma charge_target_dominant:
  "charge_target (ex, ey, ez) (px, py, pz) = (tx, ty, tz) \<Longrightarrow>
     \<bar>px - tx\<bar> + \<bar>pz - tz\<bar> = min \<bar>px - ex\<bar> \<bar>pz - ez\<bar>"
  by (auto split: if_splits)

text \<open>
  C6 (safety): a lancer never strikes unannounced. On a monotonic clock, every resolved
  charge of a run from the initial state follows the windup of the very same origin and
  target, which was shown at least the full windup of 1800 ms earlier; the next windup
  comes no sooner than the 1400 ms recovery after a resolution.
\<close>

theorem lancer_charges_announced:
  assumes "clocked lancer_time c es"
    and "run_brain lancer_step lancer_time es new_lancer = (b', acts)"
  shows "announced charge_warns charge_strikes (\<lambda>_. 1800) None acts \<and> spaced charge_gap acts"
  using lancer_sign.strikes_announced [OF TrueI assms(2), of None]
    lancer_pace.actions_spaced [OF TrueI assms]
  by (simp add: new_lancer_def lancer_consts)

definition lancer_demo :: "lancer_event list" where
  "lancer_demo = [LancerTick 700 (9, 0, 8) (4, 0, 8), LancerConfirm 5000,
     LancerTick 5001 (9, 0, 8) (4, 0, 9), LancerTick 6800 (9, 0, 8) (4, 0, 9)]"

theorem lancer_charges_announced_witness:
  "announced charge_warns charge_strikes (\<lambda>_. 1800) None
     [(700, Windup (9, 0, 8) (4, 0, 8)), (6800, Resolved (9, 0, 8) (4, 0, 8) 0)]"
proof -
  have "snd (run_brain lancer_step lancer_time lancer_demo new_lancer) =
      [(700, Windup (9, 0, 8) (4, 0, 8)), (6800, Resolved (9, 0, 8) (4, 0, 8) 0)]"
    by (simp add: lancer_demo_def new_lancer_def lancer_defs lancer_consts sat_add_def)
  then obtain b' where "run_brain lancer_step lancer_time lancer_demo new_lancer =
      (b', [(700, Windup (9, 0, 8) (4, 0, 8)), (6800, Resolved (9, 0, 8) (4, 0, 8) 0)])"
    by (metis surjective_pairing)
  moreover have "clocked lancer_time 0 lancer_demo" by (simp add: lancer_demo_def)
  ultimately show ?thesis using lancer_charges_announced by blast
qed

end
