(* ===== verification/Bulwark.thy ===== *)
theory Bulwark
  imports Actors Pacing
begin

text \<open>
  \<open>runtime/ai/src/bulwark.rs\<close>: a guard that protects the forward quarter while braced,
  slams, and is exposed while it recovers. Its facing is locked per stance.
\<close>

section \<open>Facing\<close>

datatype facing = North | East | South | West

fun facing_vector :: "facing \<Rightarrow> int \<times> int" where
  "facing_vector North = (0, - 1)"
| "facing_vector East = (1, 0)"
| "facing_vector South = (0, 1)"
| "facing_vector West = (- 1, 0)"

definition facing_from_vector :: "int \<times> int \<Rightarrow> facing option" where
  "facing_from_vector v =
     (if v = (0, - 1) then Some North
      else if v = (1, 0) then Some East
      else if v = (0, 1) then Some South
      else if v = (- 1, 0) then Some West
      else None)"

text \<open>Differences of \<open>i32\<close> taken in \<open>i64\<close> do not overflow.\<close>

fun facing_toward :: "facing \<Rightarrow> pos \<Rightarrow> pos \<Rightarrow> facing" where
  "facing_toward self (ox, oy, oz) (tx, ty, tz) =
     (let dx = tx - ox; dz = tz - oz
      in if dx = 0 \<and> dz = 0 then self
         else if \<bar>dz\<bar> \<le> \<bar>dx\<bar> then (if 0 < dx then East else West)
         else if 0 < dz then South else North)"

fun facing_split :: "facing \<Rightarrow> int \<Rightarrow> int \<Rightarrow> int \<times> int" where
  "facing_split North dx dz = (- dz, dx)"
| "facing_split East dx dz = (dx, dz)"
| "facing_split South dx dz = (dz, dx)"
| "facing_split West dx dz = (- dx, dz)"

fun facing_protects :: "facing \<Rightarrow> pos \<Rightarrow> pos \<Rightarrow> bool" where
  "facing_protects self (ox, oy, oz) (ax, ay, az) \<longleftrightarrow>
     oy = ay \<and> (case facing_split self (ax - ox) (az - oz) of
        (forward, lateral) \<Rightarrow> 0 < forward \<and> \<bar>lateral\<bar> \<le> forward)"

lemma facing_vector_roundtrip: "facing_from_vector v = Some f \<longleftrightarrow> v = facing_vector f"
  by (cases f) (auto simp: facing_from_vector_def)

section \<open>The brain\<close>

definition bulwark_health :: u32 where "bulwark_health = 240"

definition bulwark_damage :: u32 where "bulwark_damage = 14"

definition bulwark_windup_ms :: u64 where "bulwark_windup_ms = 1600"

definition bulwark_recovery_ms :: u64 where "bulwark_recovery_ms = 1800"

lemmas bulwark_consts = bulwark_health_def bulwark_damage_def bulwark_windup_ms_def bulwark_recovery_ms_def

fun bulwark_arena :: "pos \<Rightarrow> bool" where
  "bulwark_arena (x, y, z) \<longleftrightarrow> y = 0 \<and> 5 \<le> x \<and> x \<le> 10 \<and> - 10 \<le> z \<and> z \<le> - 5"

datatype bulwark_action =
    Brace facing
  | Slam facing u32

record steel_bulwark =
  facing :: facing
  braced :: bool
  bulwark_ready_at :: u64

definition new_bulwark :: steel_bulwark where
  "new_bulwark = \<lparr>facing = West, braced = True, bulwark_ready_at = bulwark_windup_ms\<rparr>"

definition bulwark_blocks :: "steel_bulwark \<Rightarrow> pos \<Rightarrow> pos \<Rightarrow> bool" where
  "bulwark_blocks b origin attacker \<longleftrightarrow> braced b \<and> facing_protects (facing b) origin attacker"

definition bulwark_confirm_at :: "u64 \<Rightarrow> steel_bulwark \<Rightarrow> steel_bulwark" where
  "bulwark_confirm_at now b =
     (let interval = (if braced b then bulwark_windup_ms else bulwark_recovery_ms)
      in b\<lparr>bulwark_ready_at := max (bulwark_ready_at b) (sat_add now interval)\<rparr>)"

text \<open>\<open>dx * dx + dz * dz\<close> is an \<open>i32\<close> computation on two arena positions.\<close>

fun slam_hits :: "facing \<Rightarrow> pos \<Rightarrow> pos \<Rightarrow> bool" where
  "slam_hits f (ox, oy, oz) (px, py, pz) \<longleftrightarrow>
     bulwark_arena (ox, oy, oz) \<and> bulwark_arena (px, py, pz) \<and>
     facing_protects f (ox, oy, oz) (px, py, pz) \<and>
     (px - ox) * (px - ox) + (pz - oz) * (pz - oz) \<le> 4"

definition bulwark_tick ::
  "u64 \<Rightarrow> pos \<Rightarrow> pos \<Rightarrow> steel_bulwark \<Rightarrow> steel_bulwark \<times> bulwark_action option" where
  "bulwark_tick now origin player b =
     (if now < bulwark_ready_at b \<or> \<not> bulwark_arena origin \<or> \<not> bulwark_arena player then (b, None)
      else if braced b
      then (b\<lparr>braced := False, bulwark_ready_at := sat_add now bulwark_recovery_ms\<rparr>,
            Some (Slam (facing b) (if slam_hits (facing b) origin player then bulwark_damage else 0)))
      else
        (let f = facing_toward (facing b) origin player
         in (b\<lparr>facing := f, braced := True, bulwark_ready_at := sat_add now bulwark_windup_ms\<rparr>,
             Some (Brace f))))"

lemmas bulwark_defs = bulwark_tick_def bulwark_confirm_at_def Let_def

section \<open>Geometry\<close>

text \<open>
  Which attackers a guard covers. For an attacker that does not stand on
  the guard's own column, the covering facing is the one the guard turns to, and no other
  one, except that on a diagonal the facing along the other axis covers it as well; an
  attacker on another level is never covered.
\<close>

theorem facing_quarters:
  assumes "(ox, oz) \<noteq> (ax, az)"
  shows "facing_protects f (ox, oy, oz) (ax, ay, az) \<longleftrightarrow>
     oy = ay \<and>
     (f = facing_toward g (ox, oy, oz) (ax, ay, az) \<or>
      \<bar>ax - ox\<bar> = \<bar>az - oz\<bar> \<and> facing_vector f = (0, sgn (az - oz)))"
  using assms by (cases f) (auto simp: Let_def sgn_if abs_if split: if_splits)

theorem facing_quarters_witness:
  "facing_protects South (7, 0, - 8) (8, 0, - 6) \<and> \<not> facing_protects East (7, 0, - 8) (8, 0, - 6) \<and>
   facing_protects South (7, 0, - 8) (9, 0, - 6) \<and> facing_protects East (7, 0, - 8) (9, 0, - 6)"
  using facing_quarters [of 7 "- 8" 8 "- 6" South 0 0 North] facing_quarters [of 7 "- 8" 8 "- 6" East 0 0 North]
    facing_quarters [of 7 "- 8" 9 "- 6" South 0 0 North] facing_quarters [of 7 "- 8" 9 "- 6" East 0 0 North]
  by simp

text \<open>A slam in its own arena cannot overflow and reaches two tiles.\<close>

lemma slam_hits_in_i32:
  assumes "bulwark_arena (ox, oy, oz)" and "bulwark_arena (px, py, pz)"
  shows "in_i32 ((px - ox) * (px - ox)) \<and> in_i32 ((px - ox) * (px - ox) + (pz - oz) * (pz - oz))"
proof -
  have "\<bar>px - ox\<bar> \<le> 5" "\<bar>pz - oz\<bar> \<le> 5" using assms by auto
  then have "(px - ox)\<^sup>2 \<le> 5\<^sup>2" "(pz - oz)\<^sup>2 \<le> 5\<^sup>2" by (simp_all only: abs_le_square_iff [symmetric] abs_numeral)
  moreover have fits: "in_i32 a \<and> in_i32 (a + b)" if "0 \<le> a" "0 \<le> b" "a \<le> 25" "b \<le> 25" for a b
    using that by (simp add: in_i32_def)
  ultimately show ?thesis
    using fits [of "(px - ox)\<^sup>2" "(pz - oz)\<^sup>2"] by (simp add: power2_eq_square)
qed

section \<open>Contracts\<close>

datatype bulwark_event =
    BulwarkTick u64 pos pos
  | BulwarkConfirm u64

fun bulwark_time :: "bulwark_event \<Rightarrow> u64" where
  "bulwark_time (BulwarkTick now e p) = now"
| "bulwark_time (BulwarkConfirm now) = now"

fun bulwark_step :: "bulwark_event \<Rightarrow> steel_bulwark \<Rightarrow> steel_bulwark \<times> bulwark_action option" where
  "bulwark_step (BulwarkTick now e p) b = bulwark_tick now e p b"
| "bulwark_step (BulwarkConfirm now) b = (bulwark_confirm_at now b, None)"

fun bulwark_gap :: "bulwark_action \<Rightarrow> u64" where
  "bulwark_gap (Brace f) = bulwark_windup_ms"
| "bulwark_gap (Slam f d) = bulwark_recovery_ms"

fun bulwark_warns :: "bulwark_action \<Rightarrow> facing option" where
  "bulwark_warns (Brace f) = Some f"
| "bulwark_warns (Slam f d) = None"

fun bulwark_strikes :: "bulwark_action \<Rightarrow> facing option" where
  "bulwark_strikes (Brace f) = None"
| "bulwark_strikes (Slam f d) = Some f"

definition bulwark_stance :: "steel_bulwark \<Rightarrow> facing option" where
  "bulwark_stance b = (if braced b then Some (facing b) else None)"

interpretation bulwark_pace: paced bulwark_step bulwark_time "\<lambda>_ _. True" bulwark_ready_at bulwark_gap
proof unfold_locales
  fix e b b' a
  show "bulwark_step e b = (b', Some a) \<Longrightarrow> bulwark_ready_at b \<le> bulwark_time e"
    by (cases e) (auto simp: bulwark_defs split: if_splits)
  show "bulwark_step e b = (b', Some a) \<Longrightarrow> sat_add (bulwark_time e) (bulwark_gap a) \<le> bulwark_ready_at b'"
    by (cases e) (auto simp: bulwark_defs split: if_splits)
  show "bulwark_step e b = (b', None) \<Longrightarrow> bulwark_ready_at b \<le> bulwark_ready_at b'"
    by (cases e) (auto simp: bulwark_defs split: if_splits)
qed simp

interpretation bulwark_sign: telegraphed bulwark_step bulwark_time "\<lambda>_. True" bulwark_stance bulwark_ready_at
  bulwark_warns bulwark_strikes "\<lambda>_. bulwark_windup_ms"
proof unfold_locales
  fix e b b' a w
  show "bulwark_step e b = (b', Some a) \<Longrightarrow> bulwark_stance b' = bulwark_warns a"
    by (cases e) (auto simp: bulwark_defs bulwark_stance_def split: if_splits)
  show "bulwark_step e b = (b', Some a) \<Longrightarrow> bulwark_warns a = Some w \<Longrightarrow>
      sat_add (bulwark_time e) bulwark_windup_ms \<le> bulwark_ready_at b'"
    by (cases e) (auto simp: bulwark_defs split: if_splits)
  show "bulwark_step e b = (b', Some a) \<Longrightarrow> bulwark_strikes a = Some w \<Longrightarrow>
      bulwark_stance b = Some w \<and> bulwark_ready_at b \<le> bulwark_time e"
    by (cases e) (auto simp: bulwark_defs bulwark_stance_def split: if_splits)
  show "bulwark_step e b = (b', None) \<Longrightarrow>
      bulwark_stance b' = bulwark_stance b \<and>
      (bulwark_stance b \<noteq> None \<longrightarrow> bulwark_ready_at b \<le> bulwark_ready_at b')"
    by (cases e) (auto simp: bulwark_defs bulwark_stance_def split: if_splits)
qed simp

text \<open>
  A bulwark never slams unannounced, and its shield has gaps. Every slam of a
  run from the initial stance (facing west, shown at time 0) follows the brace of the same
  facing by at least the full windup of 1600 ms, and after every slam the guard stays
  exposed for at least 1800 ms before it can brace again.
\<close>

theorem bulwark_slams_announced:
  assumes "clocked bulwark_time c es"
    and "run_brain bulwark_step bulwark_time es new_bulwark = (b', acts)"
  shows "announced bulwark_warns bulwark_strikes (\<lambda>_. 1600) (Some (0, West)) acts
       \<and> spaced bulwark_gap acts"
proof -
  have "sat_add 0 bulwark_windup_ms = bulwark_windup_ms"
    by (simp add: sat_add_def bulwark_consts)
  then show ?thesis
    using bulwark_sign.strikes_announced [OF TrueI assms(2), of "Some (0, West)"]
      bulwark_pace.actions_spaced [OF TrueI assms]
    by (simp add: new_bulwark_def bulwark_stance_def bulwark_consts)
qed

definition bulwark_demo :: "bulwark_event list" where
  "bulwark_demo = [BulwarkTick 1600 (8, 0, - 8) (8, 0, - 6), BulwarkTick 3400 (8, 0, - 8) (8, 0, - 6),
     BulwarkTick 5000 (8, 0, - 8) (8, 0, - 6)]"

theorem bulwark_slams_announced_witness:
  "announced bulwark_warns bulwark_strikes (\<lambda>_. 1600) (Some (0, West))
     [(1600, Slam West 0), (3400, Brace South), (5000, Slam South 14)]"
proof -
  have "snd (run_brain bulwark_step bulwark_time bulwark_demo new_bulwark) =
      [(1600, Slam West 0), (3400, Brace South), (5000, Slam South 14)]"
    by (simp add: bulwark_demo_def new_bulwark_def bulwark_defs bulwark_consts sat_add_def)
  then obtain b' where "run_brain bulwark_step bulwark_time bulwark_demo new_bulwark =
      (b', [(1600, Slam West 0), (3400, Brace South), (5000, Slam South 14)])"
    by (metis surjective_pairing)
  moreover have "clocked bulwark_time 0 bulwark_demo" by (simp add: bulwark_demo_def)
  ultimately show ?thesis using bulwark_slams_announced by blast
qed

end
