(* ===== verification/Mender.thy ===== *)
theory Mender
  imports Actors Pacing "HOL-Library.Product_Lexorder"
begin

text \<open>
  \<open>runtime/ai/src/support.rs\<close>: a support enemy that repairs the most wounded ally in
  reach. The choice compares health fractions by cross multiplication in \<open>u64\<close>.
\<close>

section \<open>The brain\<close>

definition mender_health :: u32 where "mender_health = 120"

definition repair_amount :: u32 where "repair_amount = 8"

definition repair_interval_ms :: u64 where "repair_interval_ms = 1600"

definition link_range :: int where "link_range = 6"

lemmas mender_consts = repair_amount_def repair_interval_ms_def link_range_def

record repair_action =
  repair_target :: u64
  repaired :: u32
  health_before :: u32
  health_after :: u32

record relay_mender =
  mender_ready_at :: u64

definition new_mender :: relay_mender where
  "new_mender = \<lparr>mender_ready_at = 900\<rparr>"

text \<open>The guard bounds \<open>dx\<close> and \<open>dz\<close> before they are squared, so \<open>i64\<close> never wraps.\<close>

definition eligible :: "actor \<Rightarrow> actor \<Rightarrow> bool" where
  "eligible source ally =
     (case (position source, position ally) of
        ((sx, sy, sz), (ax, ay, az)) \<Rightarrow>
          \<not> (actor_id source = actor_id ally \<or> kind ally \<noteq> Enemy \<or> health ally = 0 \<or>
             max_health ally \<le> health ally \<or> sy \<noteq> ay) \<and>
          (let dx = \<bar>sx - ax\<bar>; dz = \<bar>sz - az\<bar>
           in dx \<le> link_range \<and> dz \<le> link_range \<and> dx * dx + dz * dz \<le> link_range * link_range))"

text \<open>The comparison of \<open>min_by\<close>: is \<open>b\<close> strictly less than \<open>a\<close>?\<close>

definition more_wounded :: "actor \<Rightarrow> actor \<Rightarrow> bool" where
  "more_wounded b a \<longleftrightarrow>
     (let x = u64_of (health b) * u64_of (max_health a); y = u64_of (health a) * u64_of (max_health b)
      in x < y \<or> x = y \<and> actor_id b < actor_id a)"

text \<open>\<open>Iterator::min_by\<close> keeps the first of equal minima.\<close>

fun min_by :: "('a \<Rightarrow> 'a \<Rightarrow> bool) \<Rightarrow> 'a list \<Rightarrow> 'a option" where
  "min_by lt [] = None"
| "min_by lt (x # xs) = Some (foldl (\<lambda>best y. if lt y best then y else best) x xs)"

definition mender_tick ::
  "u64 \<Rightarrow> actor \<Rightarrow> actor list \<Rightarrow> relay_mender \<Rightarrow> relay_mender \<times> repair_action option" where
  "mender_tick now source allies b =
     (if now < mender_ready_at b \<or> kind source \<noteq> Enemy \<or> health source = 0 then (b, None)
      else
        (case min_by more_wounded (filter (eligible source) allies) of
           None \<Rightarrow> (b, None)
         | Some target \<Rightarrow>
             (let amount = min repair_amount (max_health target - health target)
              in (b\<lparr>mender_ready_at := sat_add now repair_interval_ms\<rparr>,
                  Some \<lparr>repair_target = actor_id target, repaired = amount,
                        health_before = health target, health_after = health target + amount\<rparr>))))"

definition mender_confirm_at :: "u64 \<Rightarrow> relay_mender \<Rightarrow> relay_mender" where
  "mender_confirm_at now b =
     b\<lparr>mender_ready_at := max (mender_ready_at b) (sat_add now repair_interval_ms)\<rparr>"

section \<open>The choice\<close>

text \<open>The comparison is exact: a product of two \<open>u32\<close> fits \<open>u64\<close>.\<close>

lemma unat_product: "unat (u64_of a * u64_of b) = unat a * unat b"
proof -
  have "unat a < 2 ^ 32" "unat b < 2 ^ 32" using unat_bound [of a] unat_bound [of b] by simp_all
  then have "unat a * unat b < 2 ^ 32 * 2 ^ 32" by (intro mult_strict_mono) simp_all
  then show ?thesis by (simp add: unat_word_ariths unat_u64_of)
qed

definition wound :: "actor \<Rightarrow> rat" where
  "wound a = of_nat (unat (health a)) / of_nat (unat (max_health a))"

lemma fraction_order:
  assumes "0 < m" and "0 < n"
  shows "(of_nat h / of_nat m :: rat) < of_nat k / of_nat n \<longleftrightarrow> h * n < k * m"
    and "(of_nat h / of_nat m :: rat) = of_nat k / of_nat n \<longleftrightarrow> h * n = k * m"
  using assms by (simp_all add: divide_less_eq less_divide_eq frac_eq_eq flip: of_nat_mult)

lemma more_wounded_exact:
  assumes "max_health a \<noteq> 0" and "max_health b \<noteq> 0"
  shows "more_wounded b a \<longleftrightarrow> wound b < wound a \<or> wound b = wound a \<and> actor_id b < actor_id a"
proof -
  let ?h = "\<lambda>x. unat (health x)" and ?m = "\<lambda>x. unat (max_health x)"
  have pos: "0 < ?m a" "0 < ?m b" using assms by (simp_all add: unat_gt_0)
  then have "wound b < wound a \<longleftrightarrow> ?h b * ?m a < ?h a * ?m b"
    "wound b = wound a \<longleftrightarrow> ?h b * ?m a = ?h a * ?m b"
    unfolding wound_def by (simp_all only: fraction_order)
  then show ?thesis
    by (simp add: more_wounded_def Let_def word_less_nat_alt word_unat_eq_iff [of "_ * _"] unat_product)
qed

lemma min_by_least:
  assumes "min_by lt xs = Some t"
    and "\<And>a b. a \<in> set xs \<Longrightarrow> b \<in> set xs \<Longrightarrow> lt a b \<longleftrightarrow> key a < (key b :: 'k::linorder)"
  shows "t \<in> set xs \<and> (\<forall>y \<in> set xs. key t \<le> key y)"
proof (cases xs)
  case (Cons x ys)
  have "foldl (\<lambda>best y. if lt y best then y else best) z zs \<in> set (z # zs) \<and>
      (\<forall>y \<in> set (z # zs). key (foldl (\<lambda>best y. if lt y best then y else best) z zs) \<le> key y)"
    if "set (z # zs) \<subseteq> set xs" for z zs
    using that
  proof (induction zs arbitrary: z)
    case (Cons y zs)
    have "lt y z \<longleftrightarrow> key y < key z" using assms(2) [of y z] Cons.prems by simp
    then show ?case
      using Cons.IH [of z] Cons.IH [of y] Cons.prems by (cases "lt y z") (auto intro: order_trans)
  qed simp
  from this [of x ys] show ?thesis using Cons assms(1) by simp
qed (use assms in simp)

lemma min_by_None [simp]: "min_by lt xs = None \<longleftrightarrow> xs = []"
  by (cases xs) simp_all

text \<open>The mender's own order: the lower health fraction, then the lower id.\<close>

definition wound_key :: "actor \<Rightarrow> rat \<times> u64" where
  "wound_key a = (wound a, actor_id a)"

lemma eligible_max_health: "eligible source a \<Longrightarrow> max_health a \<noteq> 0"
  by (auto simp: eligible_def split: prod.splits)

lemma chosen_is_worst:
  assumes "min_by more_wounded (filter (eligible source) allies) = Some t"
  shows "t \<in> set allies \<and> eligible source t \<and>
    (\<forall>u \<in> set allies. eligible source u \<longrightarrow> wound_key t \<le> wound_key u)"
proof -
  have "more_wounded a b \<longleftrightarrow> wound_key a < wound_key b"
    if "a \<in> set (filter (eligible source) allies)" "b \<in> set (filter (eligible source) allies)" for a b
    using that more_wounded_exact [of b a] eligible_max_health
    by (auto simp: wound_key_def less_prod_def')
  from min_by_least [OF assms this] show ?thesis by simp
qed

lemma repair_exact:
  assumes "eligible source t"
  defines "amount \<equiv> min repair_amount (max_health t - health t)"
  shows "0 < unat amount \<and> unat amount \<le> 8 \<and>
    unat (health t + amount) = min (unat (health t) + 8) (unat (max_health t))"
proof -
  have lt: "health t < max_health t"
    using assms(1) by (auto simp: eligible_def split: prod.splits)
  then have am: "unat amount = min 8 (unat (max_health t) - unat (health t))"
    by (simp add: amount_def repair_amount_def unat_min unat_sub order_less_imp_le)
  have le: "unat (health t) < unat (max_health t)" using lt by (simp add: word_less_nat_alt)
  have "unat (health t) + unat amount \<le> unat (max_health t)" using am le by linarith
  then have "unat (health t) + unat amount < 2 ^ 32"
    using unat_bound [of "max_health t"] by simp
  then have "unat (health t + amount) = unat (health t) + unat amount" by (simp add: unat_word_ariths)
  then show ?thesis using am le by linarith
qed

text \<open>
  C7 (functional): what a repair is. An enemy mender that acts repairs a living, wounded
  enemy other than itself within six tiles on its level: the one with the least
  fraction of its health, and of equally wounded ones the one with the least id. It restores
  1 to 8 points, never beyond the maximum, and rests for 1600 ms. It stays idle
  only before it is ready, when it is no living enemy itself, or when nobody is eligible.
\<close>

theorem mender_repairs_worst:
  "case mender_tick now source allies b of
     (b', Some act) \<Rightarrow>
       mender_ready_at b \<le> now \<and> kind source = Enemy \<and> health source \<noteq> 0 \<and>
       mender_ready_at b' = sat_add now 1600 \<and>
       (\<exists>t \<in> set allies. eligible source t \<and>
          {u \<in> set allies. eligible source u \<and> (wound u, actor_id u) < (wound t, actor_id t)} = {} \<and>
          repair_target act = actor_id t \<and> health_before act = health t \<and>
          0 < unat (repaired act) \<and> unat (repaired act) \<le> 8 \<and>
          health_after act = health t + repaired act \<and>
          unat (health_after act) = min (unat (health t) + 8) (unat (max_health t)))
   | (b', None) \<Rightarrow>
       b' = b \<and> (now < mender_ready_at b \<or> kind source = Player \<or> health source = 0 \<or>
         filter (eligible source) allies = [])"
proof -
  let ?pick = "min_by more_wounded (filter (eligible source) allies)"
  consider (idle) "now < mender_ready_at b \<or> kind source \<noteq> Enemy \<or> health source = 0"
    | (none) "\<not> (now < mender_ready_at b \<or> kind source \<noteq> Enemy \<or> health source = 0)" "?pick = None"
    | (some) t where "\<not> (now < mender_ready_at b \<or> kind source \<noteq> Enemy \<or> health source = 0)" "?pick = Some t"
    by fastforce
  then show ?thesis
  proof cases
    case idle
    then show ?thesis by (cases "kind source") (auto simp: mender_tick_def)
  next
    case none
    then show ?thesis by (simp add: mender_tick_def)
  next
    case (some t)
    note t = chosen_is_worst [OF some(2)]
    then have "{u \<in> set allies. eligible source u \<and> (wound u, actor_id u) < (wound t, actor_id t)} = {}"
      unfolding wound_key_def by (auto simp: not_less [symmetric] simp del: less_prod_simp)
    then show ?thesis
      using some t repair_exact [of source t]
      by (auto simp: mender_tick_def Let_def repair_interval_ms_def intro!: bexI [of _ t] simp del: less_prod_simp)
  qed
qed

text \<open>
  The list the gateway collects from its registry may come in any order.
  Two listings of the same allies, with distinct ids, lead to the same repair and the same
  next state.
\<close>

theorem mender_order_irrelevant:
  assumes "set allies' = set allies" and "inj_on actor_id (set allies)"
  shows "mender_tick now source allies' b = mender_tick now source allies b"
proof -
  let ?pick = "\<lambda>as. min_by more_wounded (filter (eligible source) as)"
  have "?pick allies' = ?pick allies"
  proof (cases "?pick allies")
    case None
    then show ?thesis using assms(1) by (auto simp: filter_empty_conv)
  next
    case (Some t)
    have "?pick allies' \<noteq> None"
      using chosen_is_worst [OF Some] assms(1) by (auto simp: filter_empty_conv)
    then obtain t' where t': "?pick allies' = Some t'" by blast
    note worst = chosen_is_worst [OF Some] chosen_is_worst [OF t']
    then have "wound_key t = wound_key t'" using assms(1) by (blast intro: order_antisym)
    then have "t = t'" using worst assms by (auto simp: wound_key_def dest: inj_onD)
    then show ?thesis using Some t' by simp
  qed
  then show ?thesis by (simp add: mender_tick_def)
qed

definition ward :: "u64 \<Rightarrow> u32 \<Rightarrow> u32 \<Rightarrow> pos \<Rightarrow> actor" where
  "ward i h m p = \<lparr>actor_id = i, kind = Enemy, archetype = ''guard'', position = p,
     health = h, max_health = m\<rparr>"

theorem mender_order_irrelevant_witness:
  "snd (mender_tick 900 (ward 1 120 120 (7, 0, 6)) [ward 2 60 120 (8, 0, 6), ward 3 116 240 (7, 0, 9)] new_mender) =
     Some \<lparr>repair_target = 3, repaired = 8, health_before = 116, health_after = 124\<rparr> \<and>
   mender_tick 900 (ward 1 120 120 (7, 0, 6)) [ward 3 116 240 (7, 0, 9), ward 2 60 120 (8, 0, 6)] new_mender =
   mender_tick 900 (ward 1 120 120 (7, 0, 6)) [ward 2 60 120 (8, 0, 6), ward 3 116 240 (7, 0, 9)] new_mender"
proof (intro conjI)
  show "mender_tick 900 (ward 1 120 120 (7, 0, 6)) [ward 3 116 240 (7, 0, 9), ward 2 60 120 (8, 0, 6)] new_mender =
    mender_tick 900 (ward 1 120 120 (7, 0, 6)) [ward 2 60 120 (8, 0, 6), ward 3 116 240 (7, 0, 9)] new_mender"
    by (rule mender_order_irrelevant) (auto simp: ward_def inj_on_def)
qed (simp add: mender_tick_def ward_def new_mender_def eligible_def more_wounded_def link_range_def
  repair_amount_def u64_of_def min_def Let_def)

section \<open>Contract\<close>

datatype mender_event =
    MenderTick u64 actor "actor list"
  | MenderConfirm u64

fun mender_time :: "mender_event \<Rightarrow> u64" where
  "mender_time (MenderTick now s as) = now"
| "mender_time (MenderConfirm now) = now"

fun mender_step :: "mender_event \<Rightarrow> relay_mender \<Rightarrow> relay_mender \<times> repair_action option" where
  "mender_step (MenderTick now s as) b = mender_tick now s as b"
| "mender_step (MenderConfirm now) b = (mender_confirm_at now b, None)"

interpretation mender_pace: paced mender_step mender_time "\<lambda>_ _. True" mender_ready_at "\<lambda>_. repair_interval_ms"
proof unfold_locales
  fix e b b' a
  show "mender_step e b = (b', Some a) \<Longrightarrow> mender_ready_at b \<le> mender_time e"
    by (cases e) (auto simp: mender_tick_def Let_def split: if_splits option.splits)
  show "mender_step e b = (b', Some a) \<Longrightarrow> sat_add (mender_time e) repair_interval_ms \<le> mender_ready_at b'"
    by (cases e) (auto simp: mender_tick_def Let_def split: if_splits option.splits)
  show "mender_step e b = (b', None) \<Longrightarrow> mender_ready_at b \<le> mender_ready_at b'"
    by (cases e) (auto simp: mender_tick_def mender_confirm_at_def Let_def split: if_splits option.splits)
qed simp

text \<open>No two repairs of a history are closer than 1600 ms, confirmations included.\<close>

lemma mender_repairs_spaced:
  assumes "clocked mender_time c es" and "run_brain mender_step mender_time es b = (b', acts)"
  shows "spaced (\<lambda>_. 1600) acts"
  using mender_pace.actions_spaced [OF TrueI assms] by (simp add: mender_consts)

end
