(* ===== verification/Prism.thy ===== *)
theory Prism
  imports Pacing
begin

text \<open>
  \<open>runtime/ai/src/prism.rs\<close>: the optional core boss. It announces lanes while it has more
  than half of its health, then center and perimeter pulses, and can be hurt only in the
  recovery after an attack. The brain interprets both contracts of theory \<open>Pacing\<close>; the fight
  as a whole (brain, health, log of actions) is a step relation with its reachable states.
\<close>

section \<open>Patterns\<close>

definition prism_full_health :: u32 where "prism_full_health = 320"

definition phase_health :: u32 where "phase_health = prism_full_health div 2"

definition opening_ms :: u64 where "opening_ms = 700"

definition lane_warning_ms :: u64 where "lane_warning_ms = 1800"

definition pulse_warning_ms :: u64 where "pulse_warning_ms = 2200"

definition prism_recovery_ms :: u64 where "prism_recovery_ms = 1800"

definition pulse_gap_ms :: u64 where "pulse_gap_ms = 600"

definition shift_ms :: u64 where "shift_ms = 2400"

definition lane_damage :: u32 where "lane_damage = 18"

definition pulse_damage :: u32 where "pulse_damage = 20"

lemmas prism_times = opening_ms_def lane_warning_ms_def pulse_warning_ms_def prism_recovery_ms_def
  pulse_gap_ms_def shift_ms_def

lemmas prism_consts = prism_times prism_full_health_def phase_health_def lane_damage_def pulse_damage_def

fun prism_arena :: "pos \<Rightarrow> bool" where
  "prism_arena (x, y, z) \<longleftrightarrow> y = 0 \<and> 5 \<le> x \<and> x \<le> 11 \<and> - 3 \<le> z \<and> z \<le> 3"

datatype prism_phase = Lanes | Pulses

datatype prism_pattern =
    AcrossX int
  | AcrossZ int
  | Center
  | Perimeter

fun warning_ms :: "prism_pattern \<Rightarrow> u64" where
  "warning_ms (AcrossX z) = lane_warning_ms"
| "warning_ms (AcrossZ x) = lane_warning_ms"
| "warning_ms Center = pulse_warning_ms"
| "warning_ms Perimeter = pulse_warning_ms"

fun in_center :: "pos \<Rightarrow> bool" where
  "in_center (x, y, z) \<longleftrightarrow> 7 \<le> x \<and> x \<le> 9 \<and> - 1 \<le> z \<and> z \<le> 1"

fun pattern_hits :: "prism_pattern \<Rightarrow> pos \<Rightarrow> bool" where
  "pattern_hits (AcrossX z) p \<longleftrightarrow> prism_arena p \<and> - 3 \<le> z \<and> z \<le> 3 \<and> snd (snd p) = z"
| "pattern_hits (AcrossZ x) p \<longleftrightarrow> prism_arena p \<and> 5 \<le> x \<and> x \<le> 11 \<and> fst p = x"
| "pattern_hits Center p \<longleftrightarrow> prism_arena p \<and> in_center p"
| "pattern_hits Perimeter p \<longleftrightarrow> prism_arena p \<and> \<not> in_center p"

definition damage_at :: "prism_pattern \<Rightarrow> pos \<Rightarrow> u32" where
  "damage_at pat p =
     (if \<not> pattern_hits pat p then 0
      else (case pat of AcrossX z \<Rightarrow> lane_damage | AcrossZ x \<Rightarrow> lane_damage
        | Center \<Rightarrow> pulse_damage | Perimeter \<Rightarrow> pulse_damage))"

text \<open>The two pulses split the arena: nobody inside avoids both, nobody is hit by both.\<close>

lemma pulses_partition: "prism_arena p \<Longrightarrow> pattern_hits Center p \<longleftrightarrow> \<not> pattern_hits Perimeter p"
  by auto

section \<open>The brain\<close>

datatype prism_mode =
    Opening
  | Warning prism_pattern
  | PulseGap
  | Recovery
  | Shifting
  | Defeated

datatype prism_action =
    PrismWarning prism_pattern
  | PrismResolved prism_pattern u32

record prism_hit_result =
  hit_damage :: u32
  hit_health_after :: u32
  phase_changed :: bool

record prism_warden =
  phase :: prism_phase
  mode :: prism_mode
  prism_ready_at :: u64
  next_lane_x :: bool

definition new_prism :: prism_warden where
  "new_prism = \<lparr>phase = Lanes, mode = Opening, prism_ready_at = opening_ms, next_lane_x = True\<rparr>"

definition vulnerable :: "prism_warden \<Rightarrow> bool" where
  "vulnerable b \<longleftrightarrow> mode b = Recovery"

definition prism_confirm_at :: "u64 \<Rightarrow> prism_warden \<Rightarrow> prism_warden" where
  "prism_confirm_at confirmed b =
     (let rearm = (\<lambda>interval. b\<lparr>prism_ready_at := max (prism_ready_at b) (sat_add confirmed interval)\<rparr>)
      in case mode b of
           Opening \<Rightarrow> rearm opening_ms
         | Warning pat \<Rightarrow> rearm (warning_ms pat)
         | PulseGap \<Rightarrow> rearm pulse_gap_ms
         | Recovery \<Rightarrow> rearm prism_recovery_ms
         | Shifting \<Rightarrow> rearm shift_ms
         | Defeated \<Rightarrow> b)"

definition valid_health :: "u32 \<Rightarrow> prism_warden \<Rightarrow> bool" where
  "valid_health h b \<longleftrightarrow>
     (case phase b of
        Lanes \<Rightarrow> phase_health + 1 \<le> h \<and> h \<le> prism_full_health
      | Pulses \<Rightarrow> 1 \<le> h \<and> h \<le> phase_health)"

definition prism_hit ::
  "u64 \<Rightarrow> u32 \<Rightarrow> u32 \<Rightarrow> prism_warden \<Rightarrow> prism_warden \<times> prism_hit_result option" where
  "prism_hit now before requested b =
     (if \<not> valid_health before b \<or> mode b = Defeated then (b, None)
      else
        (let available = (if phase b = Lanes then before - phase_health else before);
             dmg = (if vulnerable b then min requested available else 0);
             after = before - dmg;
             changed = (phase b = Lanes \<and> after = phase_health);
             b' = (if changed
                   then b\<lparr>phase := Pulses, mode := Shifting, prism_ready_at := sat_add now shift_ms\<rparr>
                   else if after = 0 then b\<lparr>mode := Defeated\<rparr>
                   else b)
         in (b', Some \<lparr>hit_damage = dmg, hit_health_after = after, phase_changed = changed\<rparr>)))"

definition prism_resolve ::
  "u64 \<Rightarrow> prism_pattern \<Rightarrow> pos \<Rightarrow> prism_warden \<Rightarrow> prism_warden \<times> prism_action option" where
  "prism_resolve now pat player b =
     (prism_confirm_at now
        (b\<lparr>mode := (if pat = Center then PulseGap else Recovery), prism_ready_at := now\<rparr>),
      Some (PrismResolved pat (damage_at pat player)))"

definition prism_warn ::
  "u64 \<Rightarrow> prism_pattern \<Rightarrow> prism_warden \<Rightarrow> prism_warden \<times> prism_action option" where
  "prism_warn now pat b =
     (b\<lparr>mode := Warning pat, prism_ready_at := sat_add now (warning_ms pat)\<rparr>, Some (PrismWarning pat))"

definition prism_lane :: "u64 \<Rightarrow> pos \<Rightarrow> prism_warden \<Rightarrow> prism_warden \<times> prism_action option" where
  "prism_lane now player b =
     prism_warn now (if next_lane_x b then AcrossX (snd (snd player)) else AcrossZ (fst player))
       (b\<lparr>next_lane_x := \<not> next_lane_x b\<rparr>)"

definition prism_tick ::
  "u64 \<Rightarrow> u32 \<Rightarrow> pos \<Rightarrow> prism_warden \<Rightarrow> prism_warden \<times> prism_action option" where
  "prism_tick now h player b =
     (if now < prism_ready_at b \<or> \<not> valid_health h b \<or> \<not> prism_arena player then (b, None)
      else
        (case mode b of
           Warning pat \<Rightarrow> prism_resolve now pat player b
         | Opening \<Rightarrow> if phase b = Lanes then prism_lane now player b else (b, None)
         | Recovery \<Rightarrow> if phase b = Lanes then prism_lane now player b else prism_warn now Center b
         | Shifting \<Rightarrow> prism_warn now Center b
         | PulseGap \<Rightarrow> prism_warn now Perimeter b
         | Defeated \<Rightarrow> (b, None)))"

lemmas prism_defs = prism_tick_def prism_lane_def prism_warn_def prism_resolve_def prism_confirm_at_def
  prism_hit_def Let_def

section \<open>Contracts\<close>

datatype prism_event =
    PrismTick u64 u32 pos
  | PrismHit u64 u32 u32
  | PrismConfirm u64

fun prism_time :: "prism_event \<Rightarrow> u64" where
  "prism_time (PrismTick now h p) = now"
| "prism_time (PrismHit now h r) = now"
| "prism_time (PrismConfirm now) = now"

fun prism_step :: "prism_event \<Rightarrow> prism_warden \<Rightarrow> prism_warden \<times> prism_action option" where
  "prism_step (PrismTick now h p) b = prism_tick now h p b"
| "prism_step (PrismHit now h r) b = (fst (prism_hit now h r b), None)"
| "prism_step (PrismConfirm now) b = (prism_confirm_at now b, None)"

fun prism_gap :: "prism_action \<Rightarrow> u64" where
  "prism_gap (PrismWarning pat) = warning_ms pat"
| "prism_gap (PrismResolved pat d) = (if pat = Center then pulse_gap_ms else prism_recovery_ms)"

fun prism_warns :: "prism_action \<Rightarrow> prism_pattern option" where
  "prism_warns (PrismWarning pat) = Some pat"
| "prism_warns (PrismResolved pat d) = None"

fun prism_strikes :: "prism_action \<Rightarrow> prism_pattern option" where
  "prism_strikes (PrismWarning pat) = None"
| "prism_strikes (PrismResolved pat d) = Some pat"

definition prism_pending :: "prism_warden \<Rightarrow> prism_pattern option" where
  "prism_pending b = (case mode b of Warning pat \<Rightarrow> Some pat | _ \<Rightarrow> None)"

text \<open>No interval is longer than the shift: the brain is never armed further ahead than that.\<close>

definition prism_sane :: "u64 \<Rightarrow> prism_warden \<Rightarrow> bool" where
  "prism_sane c b \<longleftrightarrow> prism_ready_at b \<le> sat_add c shift_ms"

lemma prism_intervals [simp]:
  "warning_ms pat \<le> shift_ms" "opening_ms \<le> shift_ms" "pulse_gap_ms \<le> shift_ms"
  "prism_recovery_ms \<le> shift_ms"
  by (cases pat; simp add: prism_times)+

lemma armed_sane [intro]: "i \<le> shift_ms \<Longrightarrow> sat_add c i \<le> sat_add c shift_ms"
  by (rule sat_add_mono2)

lemma confirm_ready:
  "prism_ready_at b \<le> prism_ready_at (prism_confirm_at now b)"
  "mode (prism_confirm_at now b) = mode b" "phase (prism_confirm_at now b) = phase b"
  "next_lane_x (prism_confirm_at now b) = next_lane_x b"
  by (cases "mode b"; simp add: prism_confirm_at_def)+

lemma confirm_sane: "prism_sane now b \<Longrightarrow> prism_sane now (prism_confirm_at now b)"
  by (cases "mode b") (auto simp: prism_confirm_at_def prism_sane_def)

lemma hit_cases:
  assumes "prism_hit now h r b = (b', res)"
  shows "b' = b \<or> b' = b\<lparr>mode := Defeated\<rparr> \<and> mode b = Recovery \<or>
    b' = b\<lparr>phase := Pulses, mode := Shifting, prism_ready_at := sat_add now shift_ms\<rparr> \<and> mode b = Recovery"
  using assms
  by (cases "phase b")
    (auto simp: prism_hit_def valid_health_def vulnerable_def prism_consts Let_def split: if_splits)

lemma tick_ready:
  assumes "prism_tick now h p b = (b', Some a)"
  shows "prism_ready_at b \<le> now \<and> prism_pending b' = prism_warns a \<and>
    prism_ready_at b' = sat_add now (prism_gap a) \<and>
    (\<forall>pat. prism_strikes a = Some pat \<longrightarrow> prism_pending b = Some pat)"
  using assms
  by (cases "mode b")
    (auto simp: prism_defs prism_pending_def max_def not_less split: if_splits)

lemma tick_quiet: "prism_tick now h p b = (b', None) \<Longrightarrow> b' = b"
  by (cases "mode b") (auto simp: prism_defs split: if_splits)

lemma prism_gap_shift [simp]: "prism_gap a \<le> shift_ms"
  by (cases a) auto

lemma sane_later: "prism_sane c b \<Longrightarrow> c \<le> now \<Longrightarrow> prism_sane now b"
  unfolding prism_sane_def using sat_add_mono order_trans by blast

interpretation prism_pace: paced prism_step prism_time prism_sane prism_ready_at prism_gap
proof unfold_locales
  fix c e b b' r a
  assume sane: "prism_sane c b" "c \<le> prism_time e"
  note now = sane_later [OF sane]
  show "prism_sane (prism_time e) b'" if "prism_step e b = (b', r)"
  proof (cases e)
    case (PrismTick t h p)
    then show ?thesis
      using that now tick_ready [of t h p b b'] tick_quiet [of t h p b b']
      by (cases r) (auto simp: prism_sane_def)
  next
    case (PrismHit t h q)
    then show ?thesis
      using that now hit_cases [of t h q b "fst (prism_hit t h q b)" "snd (prism_hit t h q b)"]
      by (auto simp: prism_sane_def)
  next
    case (PrismConfirm t)
    then show ?thesis using that now confirm_sane by auto
  qed
  show "prism_ready_at b \<le> prism_time e" if "prism_step e b = (b', Some a)"
    using that tick_ready by (cases e) auto
  show "sat_add (prism_time e) (prism_gap a) \<le> prism_ready_at b'" if "prism_step e b = (b', Some a)"
    using that tick_ready by (cases e) fastforce+
  show "prism_ready_at b \<le> prism_ready_at b'" if "prism_step e b = (b', None)"
  proof (cases e)
    case (PrismTick t h p)
    then show ?thesis using that tick_quiet by fastforce
  next
    case (PrismHit t h q)
    then show ?thesis
      using that now hit_cases [of t h q b "fst (prism_hit t h q b)" "snd (prism_hit t h q b)"]
      by (auto simp: prism_sane_def)
  next
    case (PrismConfirm t)
    then show ?thesis using that confirm_ready by auto
  qed
qed

interpretation prism_sign: telegraphed prism_step prism_time "\<lambda>_. True" prism_pending prism_ready_at
  prism_warns prism_strikes warning_ms
proof unfold_locales
  fix e b b' a w
  show "prism_pending b' = prism_warns a" if "prism_step e b = (b', Some a)"
    using that tick_ready by (cases e) fastforce+
  show "sat_add (prism_time e) (warning_ms w) \<le> prism_ready_at b'"
    if "prism_step e b = (b', Some a)" "prism_warns a = Some w"
    using that tick_ready by (cases e; cases a) fastforce+
  show "prism_pending b = Some w \<and> prism_ready_at b \<le> prism_time e"
    if "prism_step e b = (b', Some a)" "prism_strikes a = Some w"
    using that tick_ready by (cases e) fastforce+
  show "prism_pending b' = prism_pending b \<and>
      (prism_pending b \<noteq> None \<longrightarrow> prism_ready_at b \<le> prism_ready_at b')" if "prism_step e b = (b', None)"
  proof (cases e)
    case (PrismTick t h p)
    then show ?thesis using that tick_quiet by fastforce
  next
    case (PrismHit t h q)
    then show ?thesis
      using that hit_cases [of t h q b "fst (prism_hit t h q b)" "snd (prism_hit t h q b)"]
      by (auto simp: prism_pending_def)
  next
    case (PrismConfirm t)
    then show ?thesis using that confirm_ready by (auto simp: prism_pending_def)
  qed
qed simp

text \<open>
  C8 (safety): the boss never strikes unannounced and never hurries. Every resolved
  pattern of a run from the initial state follows the warning of that very pattern (lane
  coordinate included) by its full warning time, 1800 ms for a lane and 2200 ms for a pulse;
  600 ms pass between a center pulse and the next warning, 1800 ms after any other strike.
  Shots at the boss and late confirmations, in any interleaving, never shorten these gaps.
\<close>

theorem prism_attacks_announced:
  assumes "clocked prism_time c es"
    and "run_brain prism_step prism_time es new_prism = (b', acts)"
  shows "announced prism_warns prism_strikes warning_ms None acts \<and> spaced prism_gap acts"
proof -
  have "opening_ms \<le> shift_ms" by simp
  then have "prism_sane c new_prism"
    unfolding prism_sane_def new_prism_def
    by (simp add: word_le_nat_alt unat_sat_add prism_times)
  then show ?thesis
    using prism_sign.strikes_announced [OF TrueI assms(2), of None] prism_pace.actions_spaced [OF _ assms]
    by (simp add: new_prism_def prism_pending_def)
qed

definition prism_demo :: "prism_event list" where
  "prism_demo = [PrismTick 700 320 (8, 0, 1), PrismTick 2500 320 (8, 0, 1), PrismHit 2600 320 25,
     PrismTick 4300 295 (9, 0, 0), PrismConfirm 4400, PrismTick 6100 295 (9, 0, 0),
     PrismTick 6200 295 (9, 0, 0)]"

theorem prism_attacks_announced_witness:
  "announced prism_warns prism_strikes warning_ms None
     [(700, PrismWarning (AcrossX 1)), (2500, PrismResolved (AcrossX 1) 18),
      (4300, PrismWarning (AcrossZ 9)), (6200, PrismResolved (AcrossZ 9) 18)]"
proof -
  have "snd (run_brain prism_step prism_time prism_demo new_prism) =
      [(700, PrismWarning (AcrossX 1)), (2500, PrismResolved (AcrossX 1) 18),
       (4300, PrismWarning (AcrossZ 9)), (6200, PrismResolved (AcrossZ 9) 18)]"
    by (simp add: prism_demo_def new_prism_def prism_defs prism_consts sat_add_def valid_health_def
      vulnerable_def damage_at_def)
  then obtain b' where "run_brain prism_step prism_time prism_demo new_prism =
      (b', [(700, PrismWarning (AcrossX 1)), (2500, PrismResolved (AcrossX 1) 18),
       (4300, PrismWarning (AcrossZ 9)), (6200, PrismResolved (AcrossZ 9) 18)])"
    by (metis surjective_pairing)
  moreover have "clocked prism_time 0 prism_demo" by (simp add: prism_demo_def)
  ultimately show ?thesis using prism_attacks_announced by blast
qed

section \<open>The fight\<close>

text \<open>
  The brain together with the health the caller keeps for it and the log of its actions,
  oldest first. Every call of the code is a step; clock readings, player positions and
  requested damage are arbitrary.
\<close>

record prism_fight =
  boss :: prism_warden
  boss_health :: u32
  boss_log :: "prism_action list"

inductive fight_step :: "prism_fight \<Rightarrow> prism_fight \<Rightarrow> bool" where
  acted: "prism_tick now (boss_health f) player (boss f) = (b', Some a) \<Longrightarrow>
    fight_step f (f\<lparr>boss := b', boss_log := boss_log f @ [a]\<rparr>)"
| idle: "prism_tick now (boss_health f) player (boss f) = (b', None) \<Longrightarrow> fight_step f (f\<lparr>boss := b'\<rparr>)"
| shot: "prism_hit now (boss_health f) requested (boss f) = (b', Some r) \<Longrightarrow>
    fight_step f (f\<lparr>boss := b', boss_health := hit_health_after r\<rparr>)"
| refused: "prism_hit now (boss_health f) requested (boss f) = (b', None) \<Longrightarrow>
    fight_step f (f\<lparr>boss := b'\<rparr>)"
| confirmed: "fight_step f (f\<lparr>boss := prism_confirm_at now (boss f)\<rparr>)"

inductive_cases fight_stepE: "fight_step f g"

inductive fight_reachable :: "prism_fight \<Rightarrow> bool" where
  start: "fight_reachable \<lparr>boss = new_prism, boss_health = prism_full_health, boss_log = []\<rparr>"
| step: "fight_reachable f \<Longrightarrow> fight_step f g \<Longrightarrow> fight_reachable g"

text \<open>What the end of the log must look like in each mode.\<close>

definition ends_with :: "prism_action list \<Rightarrow> prism_action list \<Rightarrow> bool" where
  "ends_with tail acts \<longleftrightarrow> (\<exists>bs. acts = bs @ tail)"

fun lane :: "prism_pattern \<Rightarrow> bool" where
  "lane (AcrossX z) \<longleftrightarrow> True"
| "lane (AcrossZ x) \<longleftrightarrow> True"
| "lane Center \<longleftrightarrow> False"
| "lane Perimeter \<longleftrightarrow> False"

fun log_ok :: "prism_phase \<Rightarrow> prism_mode \<Rightarrow> prism_action list \<Rightarrow> bool" where
  "log_ok Lanes Opening acts \<longleftrightarrow> acts = []"
| "log_ok Lanes (Warning pat) acts \<longleftrightarrow> lane pat \<and> ends_with [PrismWarning pat] acts"
| "log_ok Lanes Recovery acts \<longleftrightarrow>
     (\<exists>pat d. lane pat \<and> ends_with [PrismWarning pat, PrismResolved pat d] acts)"
| "log_ok Lanes m acts \<longleftrightarrow> False"
| "log_ok Pulses Shifting acts \<longleftrightarrow> True"
| "log_ok Pulses (Warning Center) acts \<longleftrightarrow> ends_with [PrismWarning Center] acts"
| "log_ok Pulses PulseGap acts \<longleftrightarrow>
     (\<exists>d. ends_with [PrismWarning Center, PrismResolved Center d] acts)"
| "log_ok Pulses (Warning Perimeter) acts \<longleftrightarrow>
     (\<exists>d. ends_with [PrismWarning Center, PrismResolved Center d, PrismWarning Perimeter] acts)"
| "log_ok Pulses Recovery acts \<longleftrightarrow>
     (\<exists>d d'. ends_with [PrismWarning Center, PrismResolved Center d,
        PrismWarning Perimeter, PrismResolved Perimeter d'] acts)"
| "log_ok Pulses Defeated acts \<longleftrightarrow> True"
| "log_ok Pulses m acts \<longleftrightarrow> False"

definition health_ok :: "prism_warden \<Rightarrow> u32 \<Rightarrow> bool" where
  "health_ok b h \<longleftrightarrow> h \<le> 320 \<and> (phase b = Lanes \<longleftrightarrow> 160 < h) \<and> (mode b = Defeated \<longleftrightarrow> h = 0)"

definition fight_ok :: "prism_fight \<Rightarrow> bool" where
  "fight_ok f \<longleftrightarrow> health_ok (boss f) (boss_health f) \<and> log_ok (phase (boss f)) (mode (boss f)) (boss_log f)"

lemma ends_with_snoc:
  "ends_with (tail @ [x]) (acts @ [a]) \<longleftrightarrow> x = a \<and> ends_with tail acts"
  by (auto simp: ends_with_def)

lemma ends_with_simps [simp]:
  "ends_with [] acts"
  "ends_with [x] [a] \<longleftrightarrow> x = a"
  "ends_with [x] (acts @ [a]) \<longleftrightarrow> x = a"
  "ends_with [y, x] (acts @ [a]) \<longleftrightarrow> x = a \<and> ends_with [y] acts"
  "ends_with [z, y, x] (acts @ [a]) \<longleftrightarrow> x = a \<and> ends_with [z, y] acts"
  "ends_with [w, z, y, x] (acts @ [a]) \<longleftrightarrow> x = a \<and> ends_with [w, z, y] acts"
  using ends_with_snoc [of "[]"] ends_with_snoc [of "[y]"] ends_with_snoc [of "[z, y]"]
    ends_with_snoc [of "[w, z, y]"]
  by (auto simp: ends_with_def)

lemma tick_phase: "prism_tick now h p b = (b', r) \<Longrightarrow> phase b' = phase b"
  by (cases "mode b") (auto simp: prism_defs split: if_splits)

lemma tick_log:
  assumes "prism_tick now h p b = (b', Some a)" and "log_ok (phase b) (mode b) acts"
  shows "log_ok (phase b') (mode b') (acts @ [a]) \<and> mode b \<noteq> Defeated \<and> mode b' \<noteq> Defeated"
proof (cases "phase b")
  case Lanes
  then show ?thesis
    using assms by (cases "mode b") (auto simp: prism_defs split: if_splits)
next
  case Pulses
  show ?thesis
  proof (cases "mode b")
    case (Warning pat)
    with Pulses show ?thesis
      using assms by (cases pat) (auto simp: prism_defs split: if_splits)
  qed (use Pulses assms in \<open>auto simp: prism_defs split: if_splits\<close>)
qed

text \<open>The damage a hit does is capped by what the phase may lose, so no subtraction wraps.\<close>

lemma hit_exact:
  assumes "prism_hit now h r b = (b', Some res)"
  defines "kept \<equiv> (if phase b = Lanes then 160 else 0 :: nat)"
  shows "valid_health h b \<and> mode b \<noteq> Defeated \<and>
    unat (hit_damage res) = (if mode b = Recovery then min (unat r) (unat h - kept) else 0) \<and>
    unat (hit_health_after res) = unat h - unat (hit_damage res)"
proof -
  have valid: "valid_health h b" "mode b \<noteq> Defeated"
    using assms(1) by (auto simp: prism_hit_def split: if_splits)
  have fl: "kept \<le> unat h" and av: "unat (if phase b = Lanes then h - phase_health else h) = unat h - kept"
    using valid(1) by (cases "phase b"; simp add: valid_health_def prism_consts kept_def
      word_le_nat_alt unat_sub)+
  let ?d = "if vulnerable b then min r (if phase b = Lanes then h - phase_health else h) else 0"
  have d: "hit_damage res = ?d" and after: "hit_health_after res = h - ?d"
    using assms(1) valid by (auto simp: prism_hit_def Let_def)
  have ud: "unat ?d = (if mode b = Recovery then min (unat r) (unat h - kept) else 0)"
    using av by (simp add: vulnerable_def unat_min)
  then have "unat ?d \<le> unat h" by (simp del: unsigned_less min_less_iff_conj) (metis diff_le_self le_trans min.cobounded2)
  then have "unat (h - ?d) = unat h - unat ?d" by (simp add: unat_sub word_le_nat_alt)
  then show ?thesis using valid d after ud by simp
qed

lemma hit_next:
  assumes "prism_hit now h r b = (b', Some res)"
  shows "phase_changed res \<longleftrightarrow> phase b = Lanes \<and> hit_health_after res = 160"
    and "phase b' = (if phase_changed res then Pulses else phase b)"
    and "mode b' = (if phase_changed res then Shifting
       else if hit_health_after res = 0 then Defeated else mode b)"
  using assms by (auto simp: prism_hit_def Let_def prism_consts split: if_splits)

lemma health_ok_nat:
  "health_ok b h \<longleftrightarrow>
     unat h \<le> 320 \<and> (phase b = Lanes \<longleftrightarrow> 160 < unat h) \<and> (mode b = Defeated \<longleftrightarrow> unat h = 0)"
  by (simp add: health_ok_def word_le_nat_alt word_less_nat_alt word_unat_eq_iff)

lemma hit_health:
  assumes hit: "prism_hit now h r b = (b', Some res)" and ok: "health_ok b h"
  shows "health_ok b' (hit_health_after res)"
proof -
  have eq: "hit_health_after res = 160 \<longleftrightarrow> unat (hit_health_after res) = 160"
    "hit_health_after res = 0 \<longleftrightarrow> unat (hit_health_after res) = 0"
    by (simp_all add: word_unat_eq_iff)
  note facts = hit_exact [OF hit] hit_next [OF hit] ok [unfolded health_ok_nat] eq
  show ?thesis
  proof (cases "phase b")
    case Lanes
    then show ?thesis using facts unfolding health_ok_nat by (auto simp: min_def)
  next
    case Pulses
    then show ?thesis using facts unfolding health_ok_nat by (auto simp: min_def)
  qed
qed

lemma hit_log:
  assumes "prism_hit now h r b = (b', Some res)" and "log_ok (phase b) (mode b) acts"
  shows "log_ok (phase b') (mode b') acts"
proof -
  have "unat h = 160 \<Longrightarrow> phase b \<noteq> Lanes"
    using hit_exact [OF assms(1)] by (cases "phase b") (auto simp: valid_health_def prism_consts word_le_nat_alt)
  moreover have "hit_health_after res = 0 \<Longrightarrow> phase b \<noteq> Lanes"
    using hit_exact [OF assms(1)]
    by (cases "phase b") (auto simp: valid_health_def prism_consts word_le_nat_alt word_unat_eq_iff min_def split: if_splits)
  ultimately show ?thesis
    using hit_next [OF assms(1)] assms(2) by (cases "phase b") auto
qed

lemma fight_step_ok:
  assumes "fight_step f g" and "fight_ok f"
  shows "fight_ok g"
  using assms
proof (cases rule: fight_step.cases)
  case (acted now player b' a)
  note act = tick_log [OF acted(2)] tick_phase [OF acted(2)]
  then show ?thesis using acted(1) assms(2) by (auto simp: fight_ok_def health_ok_def)
next
  case (idle now player b')
  then show ?thesis using tick_quiet [OF idle(2)] assms(2) by (simp add: fight_ok_def)
next
  case (shot now requested b' r)
  then show ?thesis using hit_health [OF shot(2)] hit_log [OF shot(2)] assms(2) by (simp add: fight_ok_def)
next
  case (refused now requested b')
  then have "b' = boss f" by (auto simp: prism_hit_def Let_def split: if_splits)
  then show ?thesis using refused(1) assms(2) by (simp add: fight_ok_def)
next
  case (confirmed now)
  then show ?thesis using assms(2) by (simp add: fight_ok_def health_ok_def confirm_ready)
qed

lemma fight_reachable_ok: "fight_reachable f \<Longrightarrow> fight_ok f"
proof (induction rule: fight_reachable.induct)
  case start
  show ?case by (simp add: fight_ok_def health_ok_def new_prism_def prism_consts)
next
  case (step f g)
  then show ?case by (blast intro: fight_step_ok)
qed

text \<open>
  C9 (invariant): the boss has two full phases. In every reachable state of the fight its
  health is at most 320, it is in the lane phase exactly while more than 160 remain, and it is defeated exactly at 0.
  A hit that does damage comes right after a complete exchange: in the lane phase after a
  warned and resolved lane, in the pulse phase after a warned and resolved center pulse
  followed by a warned and resolved perimeter pulse. However large it is, a hit stops at
  the half-health floor.
\<close>

theorem prism_two_phases:
  assumes "fight_reachable f"
  shows "boss_health f \<le> 320 \<and> (phase (boss f) = Lanes \<longleftrightarrow> 160 < boss_health f) \<and>
    (mode (boss f) = Defeated \<longleftrightarrow> boss_health f = 0) \<and>
    (\<forall>now requested b' r.
       prism_hit now (boss_health f) requested (boss f) = (b', Some r) \<and> hit_damage r \<noteq> 0 \<longrightarrow>
       (if phase (boss f) = Lanes
        then 160 \<le> hit_health_after r \<and>
          (\<exists>bs pat d. lane pat \<and> boss_log f = bs @ [PrismWarning pat, PrismResolved pat d])
        else (\<exists>bs d d'. boss_log f = bs @ [PrismWarning Center, PrismResolved Center d,
          PrismWarning Perimeter, PrismResolved Perimeter d'])))"
proof -
  note ok = fight_reachable_ok [OF assms(1), unfolded fight_ok_def health_ok_def]
  have "if phase (boss f) = Lanes
        then 160 \<le> hit_health_after r \<and>
          (\<exists>bs pat d. lane pat \<and> boss_log f = bs @ [PrismWarning pat, PrismResolved pat d])
        else (\<exists>bs d d'. boss_log f = bs @ [PrismWarning Center, PrismResolved Center d,
          PrismWarning Perimeter, PrismResolved Perimeter d'])"
    if h: "prism_hit now (boss_health f) requested (boss f) = (b', Some r)" and "hit_damage r \<noteq> 0"
    for now requested b' r
  proof -
    note hit = hit_exact [OF h]
    have rec: "mode (boss f) = Recovery"
      using hit \<open>hit_damage r \<noteq> 0\<close> by (auto simp: word_unat_eq_iff split: if_splits)
    have "160 \<le> hit_health_after r" if "phase (boss f) = Lanes"
      using hit rec ok that by (auto simp: word_le_nat_alt word_less_nat_alt min_def)
    then show ?thesis using ok rec by (cases "phase (boss f)") (auto simp: ends_with_def)
  qed
  then show ?thesis using ok by blast
qed

section \<open>The fight can be won\<close>

text \<open>How many actions and hits away the defeat is, at least, from each mode.\<close>

fun distance_to_defeat :: "prism_phase \<Rightarrow> prism_mode \<Rightarrow> nat" where
  "distance_to_defeat Lanes Opening = 9"
| "distance_to_defeat Lanes (Warning pat) = 8"
| "distance_to_defeat Lanes m = 7"
| "distance_to_defeat Pulses Shifting = 6"
| "distance_to_defeat Pulses (Warning Center) = 5"
| "distance_to_defeat Pulses PulseGap = 4"
| "distance_to_defeat Pulses (Warning pat) = 3"
| "distance_to_defeat Pulses Recovery = 2"
| "distance_to_defeat Pulses m = 0"

definition fight_distance :: "prism_fight \<Rightarrow> nat" where
  "fight_distance f = distance_to_defeat (phase (boss f)) (mode (boss f))"

lemma tick_enabled:
  assumes "fight_ok f" and "mode (boss f) \<noteq> Recovery" and "boss_health f \<noteq> 0"
  shows "\<exists>g. fight_step f g \<and> boss_health g \<noteq> 0 \<and> fight_distance g < fight_distance f"
proof -
  let ?b = "boss f" and ?h = "boss_health f"
  have hp: "?h \<le> 320" "phase ?b = Lanes \<longleftrightarrow> 160 < ?h" and log: "log_ok (phase ?b) (mode ?b) (boss_log f)"
    and nd: "mode ?b \<noteq> Defeated"
    using assms by (auto simp: fight_ok_def health_ok_def)
  have "valid_health ?h ?b"
    using hp assms(3)
    by (cases "phase ?b") (auto simp: valid_health_def prism_consts word_le_nat_alt word_less_nat_alt word_unat_eq_iff)
  then have go: "\<not> ((- 1) < prism_ready_at ?b \<or> \<not> valid_health ?h ?b \<or> \<not> prism_arena (8, 0, 0))"
    by simp
  obtain b' a where tick: "prism_tick (- 1) ?h (8, 0, 0) ?b = (b', Some a)"
    and less: "distance_to_defeat (phase b') (mode b') < distance_to_defeat (phase ?b) (mode ?b)"
  proof (cases "phase ?b")
    case Lanes
    then show ?thesis
      using that go log nd assms(2)
      by (cases "mode ?b") (simp_all add: prism_tick_def prism_lane_def prism_warn_def
        prism_resolve_def confirm_ready split: if_splits)
  next
    case Pulses
    show ?thesis
    proof (cases "mode ?b")
      case (Warning pat)
      then show ?thesis
        using that Pulses go log by (cases pat) (simp_all add: prism_tick_def prism_resolve_def confirm_ready)
    qed (use that Pulses go log nd assms(2) in \<open>simp_all add: prism_tick_def prism_warn_def\<close>)
  qed
  from fight_step.acted [OF tick] less assms(3) show ?thesis
    by (intro exI [of _ "f\<lparr>boss := b', boss_log := boss_log f @ [a]\<rparr>"]) (simp add: fight_distance_def)
qed

lemma hit_enabled:
  assumes "fight_ok f" and "mode (boss f) = Recovery"
  shows "\<exists>g. fight_step f g \<and> (boss_health g = 0 \<or> fight_distance g < fight_distance f)"
proof -
  let ?b = "boss f" and ?h = "boss_health f"
  have h: "unat ?h \<le> 320" "phase ?b = Lanes \<longleftrightarrow> 160 < unat ?h" "unat ?h \<noteq> 0"
    using assms by (simp_all add: fight_ok_def health_ok_nat)
  then have valid: "valid_health ?h ?b"
    by (cases "phase ?b") (auto simp: valid_health_def prism_consts word_le_nat_alt)
  then obtain b' r where hit: "prism_hit 0 ?h (- 1) ?b = (b', Some r)"
    using assms(2) by (auto simp: prism_hit_def Let_def)
  note ex = hit_exact [OF hit] and next_state = hit_next [OF hit]
  have big: "unat ?h \<le> unat (- 1 :: u32)" using unat_bound [of ?h] by (simp add: unat_minus_one_word_pow)
  have "hit_health_after r = 0 \<or> distance_to_defeat (phase b') (mode b') < distance_to_defeat (phase ?b) (mode ?b)"
  proof (cases "phase ?b")
    case Lanes
    have "unat (hit_health_after r) = 160"
      using ex h big Lanes assms(2) by (simp add: min_def)
    then have "hit_health_after r = 160" by (simp add: word_unat_eq_iff)
    then show ?thesis using next_state Lanes assms(2) by simp
  next
    case Pulses
    have "unat (hit_health_after r) = 0" using ex h big Pulses assms(2) by (simp add: min_def)
    then show ?thesis by (simp add: word_unat_eq_iff)
  qed
  then show ?thesis
    using fight_step.shot [OF hit]
    by (intro exI [of _ "f\<lparr>boss := b', boss_health := hit_health_after r\<rparr>"]) (auto simp: fight_distance_def)
qed

text \<open>
  C10 (liveness): the fight never gets stuck. From every reachable state some continuation
  of at most 9 actions and hits defeats the boss.
\<close>

theorem prism_can_be_defeated:
  assumes "fight_reachable f"
  shows "\<exists>n \<le> 9. \<exists>g. (fight_step ^^ n) f g \<and> boss_health g = 0 \<and> mode (boss g) = Defeated"
proof -
  have "\<exists>n \<le> fight_distance f. \<exists>g. (fight_step ^^ n) f g \<and> boss_health g = 0 \<and> fight_ok g" if "fight_ok f" for f
    using that
  proof (induction "fight_distance f" arbitrary: f rule: less_induct)
    case less
    show ?case
    proof (cases "boss_health f = 0")
      case True
      then show ?thesis using less.prems by (intro exI [of _ 0]) auto
    next
      case False
      then have nz: "0 < fight_distance f"
        using less.prems
        by (cases "phase (boss f)"; cases "mode (boss f)")
          (auto simp: fight_distance_def fight_ok_def health_ok_def elim: log_ok.elims)
      obtain g where g: "fight_step f g" "boss_health g = 0 \<or> fight_distance g < fight_distance f"
        using tick_enabled [OF less.prems] hit_enabled [OF less.prems] False by blast
      have ok: "fight_ok g" by (rule fight_step_ok [OF g(1) less.prems])
      show ?thesis
      proof (cases "boss_health g = 0")
        case True
        then show ?thesis using g(1) ok nz by (intro exI [of _ 1]) auto
      next
        case False
        then obtain n k where "n \<le> fight_distance g" "(fight_step ^^ n) g k" "boss_health k = 0" "fight_ok k"
          using less.hyps [of g] g(2) ok by blast
        then show ?thesis
          using g False relpowp_Suc_I2 [of fight_step f g n k]
          by (intro exI [of _ "Suc n"] conjI exI [of _ k]) auto
      qed
    qed
  qed
  from this [OF fight_reachable_ok [OF assms]]
  obtain n g where n: "n \<le> fight_distance f" "(fight_step ^^ n) f g" "boss_health g = 0" "fight_ok g" by blast
  have "fight_distance f \<le> 9"
    unfolding fight_distance_def by (cases "(phase (boss f), mode (boss f))" rule: distance_to_defeat.cases) auto
  moreover have "mode (boss g) = Defeated" using n(3,4) by (simp add: fight_ok_def health_ok_def)
  ultimately show ?thesis using n by (meson order_trans)
qed

text \<open>A boss in its first recovery, reached by a lane that was announced and resolved.\<close>

definition prism_opened :: prism_fight where
  "prism_opened = \<lparr>boss = \<lparr>phase = Lanes, mode = Recovery, prism_ready_at = 4300, next_lane_x = False\<rparr>,
     boss_health = 320, boss_log = [PrismWarning (AcrossX 1), PrismResolved (AcrossX 1) 18]\<rparr>"

lemma prism_opened_reachable: "fight_reachable prism_opened"
proof -
  let ?f0 = "\<lparr>boss = new_prism, boss_health = prism_full_health, boss_log = []\<rparr>"
  let ?b1 = "\<lparr>phase = Lanes, mode = Warning (AcrossX 1), prism_ready_at = 2500, next_lane_x = False\<rparr>"
  let ?b2 = "\<lparr>phase = Lanes, mode = Recovery, prism_ready_at = 4300, next_lane_x = False\<rparr>"
  note eval = new_prism_def prism_defs prism_consts sat_add_def valid_health_def damage_at_def
  have "prism_tick 700 320 (8, 0, 1) new_prism = (?b1, Some (PrismWarning (AcrossX 1)))"
    by (simp add: eval)
  then have "fight_step ?f0 (?f0\<lparr>boss := ?b1, boss_log := [PrismWarning (AcrossX 1)]\<rparr>)"
    using fight_step.acted [of 700 ?f0] by (simp add: prism_full_health_def)
  then have r1: "fight_reachable (?f0\<lparr>boss := ?b1, boss_log := [PrismWarning (AcrossX 1)]\<rparr>)"
    using fight_reachable.intros by blast
  have "prism_tick 2500 320 (8, 0, 1) ?b1 = (?b2, Some (PrismResolved (AcrossX 1) 18))"
    by (simp add: eval)
  then have "fight_step (?f0\<lparr>boss := ?b1, boss_log := [PrismWarning (AcrossX 1)]\<rparr>) prism_opened"
    using fight_step.acted [of 2500 "?f0\<lparr>boss := ?b1, boss_log := [PrismWarning (AcrossX 1)]\<rparr>"]
    by (simp add: prism_full_health_def prism_opened_def)
  with r1 show ?thesis by (rule fight_reachable.step)
qed

theorem prism_two_phases_witness:
  "prism_hit 3000 320 500 (boss prism_opened) =
     (\<lparr>phase = Pulses, mode = Shifting, prism_ready_at = 5400, next_lane_x = False\<rparr>,
      Some \<lparr>hit_damage = 160, hit_health_after = 160, phase_changed = True\<rparr>) \<and>
   (\<exists>bs pat d. lane pat \<and> boss_log prism_opened = bs @ [PrismWarning pat, PrismResolved pat d])"
proof -
  have hit: "prism_hit 3000 (boss_health prism_opened) 500 (boss prism_opened) =
      (\<lparr>phase = Pulses, mode = Shifting, prism_ready_at = 5400, next_lane_x = False\<rparr>,
       Some \<lparr>hit_damage = 160, hit_health_after = 160, phase_changed = True\<rparr>)"
    by (simp add: prism_opened_def prism_hit_def Let_def valid_health_def prism_consts vulnerable_def sat_add_def)
  moreover have "phase (boss prism_opened) = Lanes" "boss_health prism_opened = 320"
    by (simp_all add: prism_opened_def)
  moreover have "\<exists>bs pat d. lane pat \<and> boss_log prism_opened = bs @ [PrismWarning pat, PrismResolved pat d]"
    using prism_two_phases [OF prism_opened_reachable, THEN conjunct2, THEN conjunct2, THEN conjunct2,
        rule_format, OF conjI, OF hit]
    by (simp add: \<open>phase (boss prism_opened) = Lanes\<close>)
  ultimately show ?thesis by simp
qed

theorem prism_can_be_defeated_witness:
  "\<exists>n \<le> 9. \<exists>g. (fight_step ^^ n) prism_opened g \<and> boss_health g = 0 \<and> mode (boss g) = Defeated"
  by (rule prism_can_be_defeated [OF prism_opened_reachable])

end
