(* ===== verification/Elite.thy ===== *)
theory Elite
  imports Lancer Bulwark Mender
begin

text \<open>
  \<open>runtime/ai/src/elite.rs\<close>: two enemies in one encounter. \<open>BastionLink\<close> pairs the bulwark
  with a mender, \<open>CrossedGuard\<close> with a lancer; in the latter a cadence hands out one danger
  window at a time. The brains of theories \<open>Bulwark\<close>, \<open>Lancer\<close> and \<open>Mender\<close> are reused
  as they are.
\<close>

section \<open>The cadence\<close>

definition breather_ms :: u64 where "breather_ms = 600"

record cadence_warning =
  warned_actor :: u64
  resolves_at :: u64
  duration :: u64

text \<open>The arrays of length two are pairs; \<open>next\<close> is an index, 0 or 1.\<close>

record elite_cadence =
  actors :: "u64 \<times> u64"
  alive :: "bool \<times> bool"
  next_turn :: nat
  available_at :: u64
  warning :: "cadence_warning option"

definition pick :: "'a \<times> 'a \<Rightarrow> nat \<Rightarrow> 'a" where
  "pick p i = (if i = 0 then fst p else snd p)"

definition new_cadence :: "u64 \<Rightarrow> u64 \<Rightarrow> elite_cadence option" where
  "new_cadence bid lid =
     (if bid = 0 \<or> lid = 0 \<or> bid = lid then None
      else Some \<lparr>actors = (bid, lid), alive = (True, True), next_turn = 0, available_at = 0, warning = None\<rparr>)"

definition ready_actor :: "u64 \<Rightarrow> elite_cadence \<Rightarrow> u64 option" where
  "ready_actor now c =
     (if warning c \<noteq> None \<or> now < available_at c then None
      else map_option (pick (actors c)) (find (pick (alive c)) [next_turn c, 1 - next_turn c]))"

definition begin_warning :: "u64 \<Rightarrow> u64 \<Rightarrow> elite_cadence \<Rightarrow> bool \<times> elite_cadence" where
  "begin_warning who now c =
     (if ready_actor now c \<noteq> Some who then (False, c)
      else
        (let d = (if who = fst (actors c) then bulwark_windup_ms else lancer_windup_ms)
         in (True, c\<lparr>warning := Some \<lparr>warned_actor = who, resolves_at = sat_add now d, duration = d\<rparr>\<rparr>)))"

definition resolve_warning :: "u64 \<Rightarrow> u64 \<Rightarrow> elite_cadence \<Rightarrow> bool \<times> elite_cadence" where
  "resolve_warning who now c =
     (case warning c of
        None \<Rightarrow> (False, c)
      | Some w \<Rightarrow>
          if warned_actor w \<noteq> who \<or> now < resolves_at w then (False, c)
          else (True, c\<lparr>warning := None, next_turn := (if who = fst (actors c) then 1 else 0),
                        available_at := sat_add now breather_ms\<rparr>))"

definition cadence_retire :: "u64 \<Rightarrow> u64 \<Rightarrow> elite_cadence \<Rightarrow> elite_cadence" where
  "cadence_retire who now c =
     (case (if fst (actors c) = who then Some (0::nat) else if snd (actors c) = who then Some 1 else None) of
        None \<Rightarrow> c
      | Some i \<Rightarrow>
          (let c' = c\<lparr>alive := (if i = 0 then (False, snd (alive c)) else (fst (alive c), False))\<rparr>
           in if (case warning c of None \<Rightarrow> False | Some w \<Rightarrow> warned_actor w = who)
              then c'\<lparr>warning := None, next_turn := 1 - i, available_at := sat_add now breather_ms\<rparr>
              else c'))"

definition cadence_confirm_at :: "u64 \<Rightarrow> elite_cadence \<Rightarrow> elite_cadence" where
  "cadence_confirm_at now c =
     (case warning c of
        Some w \<Rightarrow> c\<lparr>warning := Some (w\<lparr>resolves_at := max (resolves_at w) (sat_add now (duration w))\<rparr>)\<rparr>
      | None \<Rightarrow> c\<lparr>available_at := max (available_at c) (sat_add now breather_ms)\<rparr>)"

section \<open>The lancer of the north pad\<close>

text \<open>Only called on positions of the arena, so the translations do not overflow.\<close>

fun to_south :: "pos \<Rightarrow> pos" where
  "to_south (x, y, z) = (x, y, z + 15)"

fun to_north :: "pos \<Rightarrow> pos" where
  "to_north (x, y, z) = (x, y, z - 15)"

fun charge_to_north :: "charge_action \<Rightarrow> charge_action" where
  "charge_to_north (Windup origin target) = Windup (to_north origin) (to_north target)"
| "charge_to_north (Resolved origin target d) = Resolved (to_north origin) (to_north target) d"

definition north_tick ::
  "u64 \<Rightarrow> pos \<Rightarrow> pos \<Rightarrow> glass_lancer \<Rightarrow> glass_lancer \<times> charge_action option" where
  "north_tick now origin player b =
     (if \<not> bulwark_arena origin \<or> \<not> bulwark_arena player then (b, None)
      else
        (case lancer_tick now (to_south origin) (to_south player) b of
           (b', r) \<Rightarrow> (b', map_option charge_to_north r)))"

definition north_charge_hits :: "pos \<Rightarrow> pos \<Rightarrow> pos \<Rightarrow> bool" where
  "north_charge_hits origin target player \<longleftrightarrow>
     bulwark_arena origin \<and> bulwark_arena target \<and> bulwark_arena player \<and>
     charge_hits (to_south origin) (to_south target) (to_south player)"

section \<open>The pair\<close>

datatype elite_composition = BastionLink | CrossedGuard

fun composition_id :: "elite_composition \<Rightarrow> string" where
  "composition_id BastionLink = ''bastion_link''"
| "composition_id CrossedGuard = ''crossed_guard''"

definition composition_from_id :: "string \<Rightarrow> elite_composition option" where
  "composition_from_id s =
     (if s = ''bastion_link'' then Some BastionLink
      else if s = ''crossed_guard'' then Some CrossedGuard
      else None)"

fun composition_entrance :: "elite_composition \<Rightarrow> pos" where
  "composition_entrance BastionLink = (5, 0, - 6)"
| "composition_entrance CrossedGuard = (5, 0, - 10)"

fun composition_partner :: "elite_composition \<Rightarrow> string \<times> pos \<times> u32" where
  "composition_partner BastionLink = (''relay-mender'', (9, 0, - 6), mender_health)"
| "composition_partner CrossedGuard = (''glass-lancer'', (9, 0, - 9), lancer_health)"

lemma composition_roundtrip: "composition_from_id s = Some c \<longleftrightarrow> s = composition_id c"
  by (cases c) (auto simp: composition_from_id_def)

datatype elite_action =
    Defense bulwark_action
  | Charge charge_action
  | Repair repair_action

record elite_brain =
  composition :: elite_composition
  bulwark_id :: u64
  partner_id :: u64
  defense :: steel_bulwark
  charge :: glass_lancer
  repair :: relay_mender
  cadence :: elite_cadence

text \<open>The first warning is part of the construction.\<close>

definition new_elite :: "elite_composition \<Rightarrow> u64 \<Rightarrow> u64 \<Rightarrow> elite_brain option" where
  "new_elite cmp bid pid =
     (case new_cadence bid pid of
        None \<Rightarrow> None
      | Some c \<Rightarrow>
          Some \<lparr>composition = cmp, bulwark_id = bid, partner_id = pid, defense = new_bulwark,
                charge = new_lancer, repair = new_mender, cadence = snd (begin_warning bid 0 c)\<rparr>)"

definition living_enemy :: "u64 \<Rightarrow> actor \<Rightarrow> bool" where
  "living_enemy i a \<longleftrightarrow> actor_id a = i \<and> kind a = Enemy \<and> 0 < health a \<and> bulwark_arena (position a)"

definition filter_option :: "('a \<Rightarrow> bool) \<Rightarrow> 'a option \<Rightarrow> 'a option" where
  "filter_option P x = (case x of None \<Rightarrow> None | Some a \<Rightarrow> if P a then Some a else None)"

definition bastion_tick ::
  "u64 \<Rightarrow> actor option \<Rightarrow> actor option \<Rightarrow> pos \<Rightarrow> elite_brain \<Rightarrow> elite_brain \<times> elite_action option" where
  "bastion_tick now guard partner player b =
     (case guard of
        None \<Rightarrow> (b, None)
      | Some g \<Rightarrow>
          (case bulwark_tick now (position g) player (defense b) of
             (d, Some act) \<Rightarrow> (b\<lparr>defense := d\<rparr>, Some (Defense act))
           | (d, None) \<Rightarrow>
               (case partner of
                  None \<Rightarrow> (b\<lparr>defense := d\<rparr>, None)
                | Some p \<Rightarrow>
                    (case mender_tick now p [g] (repair b) of
                       (r, act) \<Rightarrow> (b\<lparr>defense := d, repair := r\<rparr>, map_option Repair act)))))"

text \<open>A proposal is kept only when the cadence accepts it.\<close>

definition crossed_guard_turn ::
  "u64 \<Rightarrow> actor option \<Rightarrow> pos \<Rightarrow> u64 \<Rightarrow> elite_brain \<Rightarrow> elite_brain \<times> elite_action option" where
  "crossed_guard_turn now guard player selected b =
     (case guard of
        None \<Rightarrow> (b, None)
      | Some g \<Rightarrow>
          (case bulwark_tick now (position g) player (defense b) of
             (d, None) \<Rightarrow> (b, None)
           | (d, Some act) \<Rightarrow>
               (case (case act of
                   Brace f \<Rightarrow> begin_warning selected now (cadence b)
                 | Slam f dmg \<Rightarrow> resolve_warning selected now (cadence b)) of
                  (accepted, c) \<Rightarrow>
                    if \<not> accepted then (b\<lparr>cadence := c\<rparr>, None)
                    else (b\<lparr>cadence := c, defense := d\<rparr>, Some (Defense act)))))"

definition crossed_partner_turn ::
  "u64 \<Rightarrow> actor option \<Rightarrow> pos \<Rightarrow> u64 \<Rightarrow> elite_brain \<Rightarrow> elite_brain \<times> elite_action option" where
  "crossed_partner_turn now partner player selected b =
     (case partner of
        None \<Rightarrow> (b, None)
      | Some p \<Rightarrow>
          (case north_tick now (position p) player (charge b) of
             (l, None) \<Rightarrow> (b, None)
           | (l, Some act) \<Rightarrow>
               (case (case act of
                   Windup origin target \<Rightarrow> begin_warning selected now (cadence b)
                 | Resolved origin target dmg \<Rightarrow> resolve_warning selected now (cadence b)) of
                  (accepted, c) \<Rightarrow>
                    if \<not> accepted then (b\<lparr>cadence := c\<rparr>, None)
                    else (b\<lparr>cadence := c, charge := l\<rparr>, Some (Charge act)))))"

definition elite_tick ::
  "u64 \<Rightarrow> actor option \<Rightarrow> actor option \<Rightarrow> actor \<Rightarrow> elite_brain \<Rightarrow> elite_brain \<times> elite_action option" where
  "elite_tick now guard partner player b =
     (if kind player \<noteq> Player \<or> health player = 0 \<or> \<not> bulwark_arena (position player) then (b, None)
      else
        (let guard = filter_option (living_enemy (bulwark_id b)) guard;
             partner = filter_option (living_enemy (partner_id b)) partner
         in if composition b = BastionLink then bastion_tick now guard partner (position player) b
            else
              (case (case warning (cadence b) of
                       Some w \<Rightarrow> Some (warned_actor w)
                     | None \<Rightarrow> ready_actor now (cadence b)) of
                 None \<Rightarrow> (b, None)
               | Some selected \<Rightarrow>
                   if selected = bulwark_id b
                   then crossed_guard_turn now guard (position player) selected b
                   else crossed_partner_turn now partner (position player) selected b)))"

definition elite_confirm_at :: "elite_action \<Rightarrow> u64 \<Rightarrow> elite_brain \<Rightarrow> elite_brain" where
  "elite_confirm_at act now b =
     (let paced = (\<lambda>b. if composition b = CrossedGuard then b\<lparr>cadence := cadence_confirm_at now (cadence b)\<rparr> else b)
      in case act of
           Defense a \<Rightarrow> paced (b\<lparr>defense := bulwark_confirm_at now (defense b)\<rparr>)
         | Charge a \<Rightarrow> paced (b\<lparr>charge := lancer_confirm_at now (charge b)\<rparr>)
         | Repair a \<Rightarrow> b\<lparr>repair := mender_confirm_at now (repair b)\<rparr>)"

definition elite_retire :: "u64 \<Rightarrow> u64 \<Rightarrow> elite_brain \<Rightarrow> elite_brain" where
  "elite_retire who now b = b\<lparr>cadence := cadence_retire who now (cadence b)\<rparr>"

lemmas elite_turn_defs = elite_tick_def crossed_guard_turn_def crossed_partner_turn_def Let_def

section \<open>Runs of a crossed guard\<close>

text \<open>
  The log of a run holds the accepted actions and, for the death of an enemy whose warning
  was in force, the cancellation of that warning.
\<close>

datatype elite_event =
    EliteTick u64 "actor option" "actor option" actor
  | EliteConfirm u64 elite_action
  | EliteRetire u64 u64

datatype elite_entry =
    Acted u64 elite_action
  | Cancelled u64

fun elite_time :: "elite_event \<Rightarrow> u64" where
  "elite_time (EliteTick now g p pl) = now"
| "elite_time (EliteConfirm now act) = now"
| "elite_time (EliteRetire now who) = now"

definition acting :: "elite_brain \<Rightarrow> elite_action \<Rightarrow> u64" where
  "acting b act = (case act of Defense a \<Rightarrow> bulwark_id b | Charge a \<Rightarrow> partner_id b | Repair a \<Rightarrow> partner_id b)"

definition warning_of :: "elite_brain \<Rightarrow> u64 option" where
  "warning_of b = map_option warned_actor (warning (cadence b))"

fun elite_step :: "elite_event \<Rightarrow> elite_brain \<Rightarrow> elite_brain \<times> elite_entry option" where
  "elite_step (EliteTick now g p pl) b =
     (case elite_tick now g p pl b of (b', r) \<Rightarrow> (b', map_option (\<lambda>act. Acted (acting b act) act) r))"
| "elite_step (EliteConfirm now act) b = (elite_confirm_at act now b, None)"
| "elite_step (EliteRetire now who) b =
     (elite_retire who now b, if warning_of b = Some who then Some (Cancelled who) else None)"

text \<open>An action opens a danger window (a warning) or closes it (a strike).\<close>

fun opens :: "elite_entry \<Rightarrow> u64 option" where
  "opens (Acted who (Defense (Brace f))) = Some who"
| "opens (Acted who (Charge (Windup p q))) = Some who"
| "opens _ = None"

fun closes :: "elite_entry \<Rightarrow> u64 option" where
  "closes (Acted who (Defense (Slam f d))) = Some who"
| "closes (Acted who (Charge (Resolved p q d))) = Some who"
| "closes _ = None"

definition over :: "elite_entry \<Rightarrow> unit option" where
  "over x = (if opens x = None then Some () else None)"

definition begins :: "elite_entry \<Rightarrow> unit option" where
  "begins x = (if opens x = None then None else Some ())"

text \<open>The warned enemy is one of the pair and alive.\<close>

definition warned_alive :: "u64 \<Rightarrow> u64 \<Rightarrow> elite_cadence \<Rightarrow> bool" where
  "warned_alive bid pid c \<longleftrightarrow> (case warning c of None \<Rightarrow> True | Some w \<Rightarrow>
     warned_actor w = bid \<and> fst (alive c) \<or> warned_actor w = pid \<and> snd (alive c))"

definition crossed_ok :: "u64 \<Rightarrow> u64 \<Rightarrow> elite_brain \<Rightarrow> bool" where
  "crossed_ok bid pid b \<longleftrightarrow> composition b = CrossedGuard \<and> bulwark_id b = bid \<and> partner_id b = pid \<and>
     actors (cadence b) = (bid, pid) \<and> bid \<noteq> pid \<and> warned_alive bid pid (cadence b)"

definition crossed_lead :: "u64 \<Rightarrow> u64 \<Rightarrow> u64" where
  "crossed_lead bid who = (if who = bid then bulwark_windup_ms else lancer_windup_ms)"

definition resolve_due :: "elite_brain \<Rightarrow> u64" where
  "resolve_due b = (case warning (cadence b) of None \<Rightarrow> 0 | Some w \<Rightarrow> resolves_at w)"

definition resting :: "elite_brain \<Rightarrow> unit option" where
  "resting b = (if warning_of b = None then Some () else None)"

lemma begin_warning_cases:
  "begin_warning who now c = (ok, c') \<Longrightarrow>
     (\<not> ok \<and> c' = c) \<or>
     (ok \<and> warning c = None \<and> available_at c \<le> now \<and>
      (who = fst (actors c) \<and> fst (alive c) \<or> who = snd (actors c) \<and> snd (alive c)) \<and>
      c' = c\<lparr>warning := Some \<lparr>warned_actor = who,
              resolves_at = sat_add now (crossed_lead (fst (actors c)) who),
              duration = crossed_lead (fst (actors c)) who\<rparr>\<rparr>)"
  by (auto simp: begin_warning_def ready_actor_def crossed_lead_def pick_def Let_def not_less
      split: if_splits)

lemma resolve_warning_cases:
  "resolve_warning who now c = (ok, c') \<Longrightarrow>
     (\<not> ok \<and> c' = c) \<or>
     (ok \<and> (\<exists>w n. warning c = Some w \<and> warned_actor w = who \<and> resolves_at w \<le> now \<and>
        c' = c\<lparr>warning := None, next_turn := n, available_at := sat_add now breather_ms\<rparr>))"
  by (auto simp: resolve_warning_def not_less split: option.splits if_splits)

lemma begin_warning_False [dest!]: "begin_warning who now c = (False, c') \<Longrightarrow> c' = c"
  by (auto simp: begin_warning_def Let_def split: if_splits)

lemma resolve_warning_False [dest!]: "resolve_warning who now c = (False, c') \<Longrightarrow> c' = c"
  by (auto simp: resolve_warning_def split: option.splits if_splits)

text \<open>A turn proposes nothing, opens a window with \<open>begin_warning\<close> or closes one with
  \<open>resolve_warning\<close>; the rest of the brain's identity is untouched.\<close>

definition same_pair :: "elite_brain \<Rightarrow> elite_brain \<Rightarrow> bool" where
  "same_pair b b' \<longleftrightarrow> composition b' = composition b \<and> bulwark_id b' = bulwark_id b \<and>
     partner_id b' = partner_id b"

lemma guard_turn_cases:
  assumes "crossed_guard_turn now g p who b = (b', r)"
  shows "(r = None \<and> b' = b) \<or>
    (same_pair b b' \<and> (\<exists>f. r = Some (Defense (Brace f))) \<and>
       begin_warning who now (cadence b) = (True, cadence b')) \<or>
    (same_pair b b' \<and> (\<exists>f d. r = Some (Defense (Slam f d))) \<and>
       resolve_warning who now (cadence b) = (True, cadence b'))"
  using assms
  by (auto simp: crossed_guard_turn_def same_pair_def
      split: option.splits prod.splits bulwark_action.splits if_splits)

lemma partner_turn_cases:
  assumes "crossed_partner_turn now g p who b = (b', r)"
  shows "(r = None \<and> b' = b) \<or>
    (same_pair b b' \<and> (\<exists>o1 t. r = Some (Charge (Windup o1 t))) \<and>
       begin_warning who now (cadence b) = (True, cadence b')) \<or>
    (same_pair b b' \<and> (\<exists>o1 t d. r = Some (Charge (Resolved o1 t d))) \<and>
       resolve_warning who now (cadence b) = (True, cadence b'))"
  using assms
  by (auto simp: crossed_partner_turn_def same_pair_def
      split: option.splits prod.splits charge_action.splits if_splits)

lemma ready_actor_known: "ready_actor now c = Some who \<Longrightarrow> who = fst (actors c) \<or> who = snd (actors c)"
  by (auto simp: ready_actor_def pick_def split: if_splits)

lemma crossed_tick_cases:
  assumes "elite_tick now g p pl b = (b', r)" and "crossed_ok bid pid b"
  shows "(r = None \<and> b' = b) \<or>
    (\<exists>act. r = Some act \<and> same_pair b b' \<and>
       (opens (Acted (acting b act) act) = Some (acting b act) \<and>
          closes (Acted (acting b act) act) = None \<and>
          begin_warning (acting b act) now (cadence b) = (True, cadence b') \<or>
        closes (Acted (acting b act) act) = Some (acting b act) \<and>
          opens (Acted (acting b act) act) = None \<and>
          resolve_warning (acting b act) now (cadence b) = (True, cadence b')))"
proof -
  have ok: "composition b = CrossedGuard" "bulwark_id b = bid" "partner_id b = pid"
    "actors (cadence b) = (bid, pid)" "bid \<noteq> pid" "warned_alive bid pid (cadence b)"
    using assms(2) by (simp_all add: crossed_ok_def)
  define sel where "sel = (case warning (cadence b) of Some w \<Rightarrow> Some (warned_actor w)
    | None \<Rightarrow> ready_actor now (cadence b))"
  have two: "sel = None \<or> sel = Some bid \<or> sel = Some pid"
    using ok(4,6) ready_actor_known [of now "cadence b"]
    by (cases "sel") (auto simp: sel_def warned_alive_def split: option.splits)
  define g' p' where "g' = filter_option (living_enemy bid) g" and "p' = filter_option (living_enemy pid) p"
  have "(b', r) = (b, None) \<or> (b', r) =
      (case sel of None \<Rightarrow> (b, None)
       | Some s \<Rightarrow> if s = bid then crossed_guard_turn now g' (position pl) s b
           else crossed_partner_turn now p' (position pl) s b)"
    using assms(1) [unfolded elite_tick_def Let_def ok(2,3), folded g'_def p'_def sel_def] ok(1)
    by (simp split: if_split_asm)
  then consider (none) "r = None" "b' = b"
    | (guard) "crossed_guard_turn now g' (position pl) bid b = (b', r)"
    | (partner) "crossed_partner_turn now p' (position pl) pid b = (b', r)"
    using two ok(5) by (elim disjE) simp_all
  then show ?thesis
  proof cases
    case guard
    from guard_turn_cases [OF this] ok show ?thesis by (auto simp: acting_def)
  next
    case partner
    from partner_turn_cases [OF this] ok show ?thesis by (auto simp: acting_def)
  qed simp
qed

lemma begin_warned_alive:
  assumes "begin_warning who now c = (True, c')" and "actors c = (bid, pid)"
  shows "warned_alive bid pid c' \<and> actors c' = actors c \<and> alive c' = alive c"
  using begin_warning_cases [OF assms(1)] assms(2) by (auto simp: warned_alive_def)

lemma resolve_warned_alive:
  assumes "resolve_warning who now c = (True, c')"
  shows "warned_alive bid pid c' \<and> actors c' = actors c \<and> alive c' = alive c"
  using resolve_warning_cases [OF assms(1)] by (auto simp: warned_alive_def)

lemma tick_crossed_ok:
  assumes "elite_tick now g p pl b = (b', r)" and "crossed_ok bid pid b"
  shows "crossed_ok bid pid b' \<and> alive (cadence b') = alive (cadence b)"
  using crossed_tick_cases [OF assms] assms(2)
  by (auto simp: same_pair_def crossed_ok_def dest!: begin_warned_alive resolve_warned_alive)

lemma confirm_crossed_ok: "crossed_ok bid pid b \<Longrightarrow> crossed_ok bid pid (elite_confirm_at act now b)"
  by (cases act)
    (auto simp: elite_confirm_at_def cadence_confirm_at_def crossed_ok_def warned_alive_def split: option.splits)

lemma retire_crossed_ok: "crossed_ok bid pid b \<Longrightarrow> crossed_ok bid pid (elite_retire who now b)"
  by (auto simp: elite_retire_def cadence_retire_def crossed_ok_def warned_alive_def Let_def
      split: option.splits if_splits)

lemma elite_step_ok: "crossed_ok bid pid b \<Longrightarrow> elite_step e b = (b', r) \<Longrightarrow> crossed_ok bid pid b'"
  using tick_crossed_ok confirm_crossed_ok retire_crossed_ok
  by (cases e) (auto split: prod.splits)

text \<open>Everything the two contracts need to know about a step that writes a log entry.\<close>

lemma elite_step_entry:
  assumes ok: "crossed_ok bid pid b" and st: "elite_step e b = (b', Some x)"
  shows "warning_of b' = opens x
    \<and> (\<forall>w. opens x = Some w \<longrightarrow> warning_of b = None \<and> available_at (cadence b) \<le> elite_time e \<and>
        resolve_due b' = sat_add (elite_time e) (crossed_lead bid w))
    \<and> (\<forall>w. closes x = Some w \<longrightarrow> warning_of b = Some w \<and> resolve_due b \<le> elite_time e)
    \<and> (opens x = None \<longrightarrow> available_at (cadence b') = sat_add (elite_time e) breather_ms)"
proof (cases e)
  case (EliteTick now g p pl)
  obtain act where act: "elite_tick now g p pl b = (b', Some act)" "x = Acted (acting b act) act"
    using st EliteTick by (auto split: prod.splits)
  have a: "actors (cadence b) = (bid, pid)" using ok by (simp add: crossed_ok_def)
  from crossed_tick_cases [OF act(1) ok] show ?thesis
    using a act(2) EliteTick
    by (auto simp: warning_of_def resolve_due_def dest!: begin_warning_cases resolve_warning_cases)
next
  case (EliteRetire now who)
  then show ?thesis
    using ok st
    by (auto simp: warning_of_def elite_retire_def cadence_retire_def crossed_ok_def warned_alive_def
        Let_def split: option.splits if_splits)
qed (use st in simp)

lemma elite_step_quiet:
  assumes ok: "crossed_ok bid pid b" and st: "elite_step e b = (b', None)"
  shows "warning_of b' = warning_of b \<and> (warning_of b \<noteq> None \<longrightarrow> resolve_due b \<le> resolve_due b') \<and>
    (warning_of b = None \<longrightarrow> available_at (cadence b) \<le> available_at (cadence b'))"
proof (cases e)
  case (EliteTick now g p pl)
  then have "b' = b" using st crossed_tick_cases [OF _ ok] by (fastforce split: prod.splits)
  then show ?thesis by simp
next
  case (EliteConfirm now act)
  then show ?thesis
    using st by (cases act) (auto simp: elite_confirm_at_def cadence_confirm_at_def warning_of_def
      resolve_due_def split: option.splits if_split_asm)
next
  case (EliteRetire now who)
  then show ?thesis
    using st by (auto simp: warning_of_def elite_retire_def cadence_retire_def resolve_due_def Let_def
      split: option.splits if_splits)
qed

text \<open>Both contracts are the warning contract of theory \<open>Pacing\<close>: a strike needs its warning,
  and a warning needs the breather that the end of the previous danger window starts.\<close>

interpretation elite_window: telegraphed elite_step elite_time "crossed_ok bid pid" warning_of resolve_due
  opens closes "crossed_lead bid" for bid pid
proof unfold_locales
  fix e b b' r x w
  assume ok: "crossed_ok bid pid b"
  show "elite_step e b = (b', r) \<Longrightarrow> crossed_ok bid pid b'" by (rule elite_step_ok [OF ok])
  show "elite_step e b = (b', Some x) \<Longrightarrow> warning_of b' = opens x"
    using elite_step_entry [OF ok] by blast
  show "elite_step e b = (b', Some x) \<Longrightarrow> opens x = Some w \<Longrightarrow>
      sat_add (elite_time e) (crossed_lead bid w) \<le> resolve_due b'"
    using elite_step_entry [OF ok] by fastforce
  show "elite_step e b = (b', Some x) \<Longrightarrow> closes x = Some w \<Longrightarrow>
      warning_of b = Some w \<and> resolve_due b \<le> elite_time e"
    using elite_step_entry [OF ok] by blast
  show "elite_step e b = (b', None) \<Longrightarrow>
      warning_of b' = warning_of b \<and> (warning_of b \<noteq> None \<longrightarrow> resolve_due b \<le> resolve_due b')"
    using elite_step_quiet [OF ok] by blast
qed

interpretation elite_breather: telegraphed elite_step elite_time "crossed_ok bid pid" resting
  "\<lambda>b. available_at (cadence b)" over begins "\<lambda>_. breather_ms" for bid pid
proof unfold_locales
  fix e b b' r x and w :: unit
  assume ok: "crossed_ok bid pid b"
  show "elite_step e b = (b', r) \<Longrightarrow> crossed_ok bid pid b'" by (rule elite_step_ok [OF ok])
  show "elite_step e b = (b', Some x) \<Longrightarrow> resting b' = over x"
    using elite_step_entry [OF ok, of e b' x] by (auto simp: resting_def over_def)
  show "elite_step e b = (b', Some x) \<Longrightarrow> over x = Some w \<Longrightarrow>
      sat_add (elite_time e) breather_ms \<le> available_at (cadence b')"
    using elite_step_entry [OF ok, of e b' x] by (auto simp: over_def split: if_splits)
  show "elite_step e b = (b', Some x) \<Longrightarrow> begins x = Some w \<Longrightarrow>
      resting b = Some w \<and> available_at (cadence b) \<le> elite_time e"
    using elite_step_entry [OF ok, of e b' x] by (auto simp: begins_def resting_def split: if_splits)
  show "elite_step e b = (b', None) \<Longrightarrow>
      resting b' = resting b \<and> (resting b \<noteq> None \<longrightarrow> available_at (cadence b) \<le> available_at (cadence b'))"
    using elite_step_quiet [OF ok, of e b'] by (auto simp: resting_def)
qed

lemma new_elite_ok:
  assumes "new_elite CrossedGuard bid pid = Some b"
  shows "crossed_ok bid pid b \<and> warning_of b = Some bid \<and> resolve_due b = 1600"
proof -
  have "sat_add 0 (1600 :: u64) = 1600" by (simp add: sat_add_def)
  then show ?thesis
    using assms
    by (auto simp: new_elite_def new_cadence_def begin_warning_def ready_actor_def pick_def crossed_ok_def
      warned_alive_def warning_of_def resolve_due_def bulwark_windup_ms_def Let_def split: if_splits)
qed

text \<open>
  C11 (safety): the danger windows of a crossed guard never overlap. In every history of
  ticks, late confirmations and deaths, from the construction on: an enemy strikes only when
  the log entry right before is its own warning, given at least its full lead time earlier (1600 ms
  for the bulwark, 1800 ms for the lancer; the first warning is the bulwark's, at time 0);
  and a warning is given only when the entry right before is the strike or the cancellation
  that ended the previous window, at least 600 ms earlier.
\<close>

theorem elite_windows_alternate:
  assumes "new_elite CrossedGuard bid pid = Some b"
    and "run_brain elite_step elite_time es b = (b', entries)"
  shows "announced opens closes (crossed_lead bid) (Some (0, bid)) entries \<and>
    announced over begins (\<lambda>_. 600) None entries"
proof -
  note new = new_elite_ok [OF assms(1)]
  have "sat_add 0 (crossed_lead bid bid) = 1600"
    by (simp add: crossed_lead_def bulwark_windup_ms_def sat_add_def)
  then show ?thesis
    using new elite_window.strikes_announced [OF _ assms(2), of bid pid "Some (0, bid)"]
      elite_breather.strikes_announced [OF _ assms(2), of bid pid None]
    by (simp add: resting_def breather_ms_def)
qed

section \<open>Deaths\<close>

definition retired :: "u64 \<Rightarrow> u64 \<Rightarrow> u64 \<Rightarrow> elite_brain \<Rightarrow> bool" where
  "retired bid pid who b \<longleftrightarrow> crossed_ok bid pid b \<and>
     (who = bid \<longrightarrow> \<not> fst (alive (cadence b))) \<and> (who = pid \<longrightarrow> \<not> snd (alive (cadence b)))"

lemma retire_retired: "crossed_ok bid pid b \<Longrightarrow> retired bid pid who (elite_retire who now b)"
  using retire_crossed_ok [of bid pid b who now]
  by (auto simp: retired_def elite_retire_def cadence_retire_def crossed_ok_def Let_def
    split: option.splits if_splits)

lemma retired_step:
  assumes ret: "retired bid pid who b" and st: "elite_step e b = (b', r)"
  shows "retired bid pid who b' \<and> (\<forall>act. r \<noteq> Some (Acted who act))"
proof -
  have ok: "crossed_ok bid pid b" using ret by (simp add: retired_def)
  note ok' = elite_step_ok [OF ok st]
  show ?thesis
  proof (cases e)
    case (EliteTick now g p pl)
    then obtain r0 where t: "elite_tick now g p pl b = (b', r0)"
      "r = map_option (\<lambda>act. Acted (acting b act) act) r0"
      using st by (auto split: prod.splits)
    have "acting b act \<noteq> who" if "r0 = Some act" for act
      using crossed_tick_cases [OF t(1) ok] that ret
      by (auto simp: retired_def crossed_ok_def warned_alive_def
          dest!: begin_warning_cases resolve_warning_cases)
    then show ?thesis using tick_crossed_ok [OF t(1) ok] t(2) ret by (auto simp: retired_def)
  next
    case (EliteConfirm now act)
    then show ?thesis
      using st ret ok' by (cases act)
        (auto simp: retired_def elite_confirm_at_def cadence_confirm_at_def split: option.splits if_split_asm)
  next
    case (EliteRetire now w)
    then show ?thesis
      using st ret ok' by (auto simp: retired_def elite_retire_def cadence_retire_def Let_def
        split: option.splits if_splits)
  qed
qed

text \<open>
  The dead never take another turn. Once an enemy of a crossed guard is
  retired, whatever happened before, no action of any later history is its own, even when
  its warning was in force or its actor record still looks alive.
\<close>

theorem elite_dead_stay_quiet:
  assumes "new_elite CrossedGuard bid pid = Some b"
    and "run_brain elite_step elite_time es b = (b1, entries)"
    and "run_brain elite_step elite_time later (elite_retire who now b1) = (b2, later_entries)"
  shows "(t, Acted who act) \<notin> set later_entries"
proof -
  have "crossed_ok bid pid b1"
    using run_brain_invariant [OF assms(2), of "crossed_ok bid pid" "\<lambda>_. True"]
      new_elite_ok [OF assms(1)] elite_step_ok by blast
  then have "retired bid pid who (elite_retire who now b1)" by (rule retire_retired)
  then have "\<forall>(t, x) \<in> set later_entries. x \<noteq> Acted who act"
    using run_brain_invariant [OF assms(3), of "retired bid pid who" "\<lambda>x. x \<noteq> Acted who act"]
      retired_step by fast
  then show ?thesis by fast
qed

section \<open>A concrete fight\<close>

definition elite_guard :: actor where
  "elite_guard = \<lparr>actor_id = 11, kind = Enemy, archetype = ''steel-bulwark'', position = (8, 0, - 8),
     health = 240, max_health = 240\<rparr>"

definition elite_partner :: actor where
  "elite_partner = \<lparr>actor_id = 12, kind = Enemy, archetype = ''glass-lancer'', position = (9, 0, - 9),
     health = 200, max_health = 200\<rparr>"

definition elite_player :: actor where
  "elite_player = \<lparr>actor_id = 1, kind = Player, archetype = ''player'', position = (7, 0, - 8),
     health = 100, max_health = 100\<rparr>"

definition elite_look :: "u64 \<Rightarrow> elite_event" where
  "elite_look now = EliteTick now (Some elite_guard) (Some elite_partner) elite_player"

definition elite_first :: elite_brain where
  "elite_first = the (new_elite CrossedGuard 11 12)"

lemmas elite_eval = elite_look_def elite_guard_def elite_partner_def elite_player_def elite_turn_defs
  filter_option_def living_enemy_def ready_actor_def begin_warning_def resolve_warning_def pick_def
  bulwark_defs lancer_defs north_tick_def sat_add_def bulwark_consts lancer_consts breather_ms_def acting_def
  warning_of_def elite_retire_def cadence_retire_def new_elite_def new_cadence_def new_bulwark_def
  new_lancer_def new_mender_def

lemma elite_first_new: "new_elite CrossedGuard 11 12 = Some elite_first"
  by (simp add: elite_first_def new_elite_def new_cadence_def)

theorem elite_windows_alternate_witness:
  "\<exists>b'. run_brain elite_step elite_time
       [elite_look 1600, elite_look 2200, elite_look 4000, elite_look 4600] elite_first = (b',
       [(1600, Acted 11 (Defense (Slam West 14))),
        (2200, Acted 12 (Charge (Windup (9, 0, - 9) (7, 0, - 9)))),
        (4000, Acted 12 (Charge (Resolved (9, 0, - 9) (7, 0, - 9) 0))),
        (4600, Acted 11 (Defense (Brace West)))]) \<and>
     announced opens closes (crossed_lead 11) (Some (0, 11))
       [(1600, Acted 11 (Defense (Slam West 14))),
        (2200, Acted 12 (Charge (Windup (9, 0, - 9) (7, 0, - 9)))),
        (4000, Acted 12 (Charge (Resolved (9, 0, - 9) (7, 0, - 9) 0))),
        (4600, Acted 11 (Defense (Brace West)))]"
proof -
  let ?es = "[elite_look 1600, elite_look 2200, elite_look 4000, elite_look 4600]"
  let ?acts = "[(1600, Acted 11 (Defense (Slam West 14))),
        (2200, Acted 12 (Charge (Windup (9, 0, - 9) (7, 0, - 9)))),
        (4000, Acted 12 (Charge (Resolved (9, 0, - 9) (7, 0, - 9) 0))),
        (4600, Acted 11 (Defense (Brace West)))]"
  have "snd (run_brain elite_step elite_time ?es elite_first) = ?acts"
    by (simp add: elite_first_def elite_eval)
  then obtain b' where "run_brain elite_step elite_time ?es elite_first = (b', ?acts)"
    by (metis surjective_pairing)
  then show ?thesis using elite_windows_alternate [OF elite_first_new] by blast
qed

theorem elite_dead_stay_quiet_witness:
  "\<exists>b' act. run_brain elite_step elite_time [elite_look 1600, elite_look 2200] elite_first = (b',
       [(1600, Acted 11 (Defense (Slam West 14))), (2200, Acted 12 (Charge act))]) \<and>
     (\<forall>t act. (t, Acted 12 act) \<notin>
       set (snd (run_brain elite_step elite_time [elite_look 4000, elite_look 5600] (elite_retire 12 2300 b'))))"
proof -
  let ?acts = "[(1600, Acted 11 (Defense (Slam West 14))),
        (2200, Acted 12 (Charge (Windup (9, 0, - 9) (7, 0, - 9))))]"
  have "snd (run_brain elite_step elite_time [elite_look 1600, elite_look 2200] elite_first) = ?acts"
    by (simp add: elite_first_def elite_eval)
  then obtain b' where b': "run_brain elite_step elite_time [elite_look 1600, elite_look 2200] elite_first = (b', ?acts)"
    by (metis surjective_pairing)
  then show ?thesis
    using elite_dead_stay_quiet [OF elite_first_new b' surjective_pairing] by blast
qed

end
