(* ===== verification/Double.thy ===== *)
theory Double
  imports Complex_Main "HOL-Library.Log_Nat"
begin

text \<open>
  The part of IEEE-754 double precision that \<open>f64\<close> geometry needs: every operation is
  exact and then rounded to 53 significant bits, ties to even. Numbers are rationals; the
  quotients and differences of 32-bit coordinates stay far from overflow and from the
  subnormal range, which is therefore not represented.
\<close>

section \<open>Rounding\<close>

definition round_even :: "rat \<Rightarrow> int" where
  "round_even y =
     (let f = \<lfloor>y\<rfloor>; r = y - of_int f
      in if r < 1 / 2 then f else if 1 / 2 < r then f + 1 else if even f then f else f + 1)"

text \<open>The exponent of the leading bit, from the lengths of numerator and denominator.\<close>

definition binade :: "rat \<Rightarrow> int" where
  "binade x =
     (case quotient_of \<bar>x\<bar> of
        (p, q) \<Rightarrow> (let e = bitlen p - bitlen q in if 2 powi e \<le> \<bar>x\<bar> then e else e - 1))"

definition fl :: "rat \<Rightarrow> rat" where
  "fl x = (if x = 0 then 0 else of_int (round_even (x * 2 powi (52 - binade x))) * 2 powi (binade x - 52))"

section \<open>Error\<close>

lemma round_even_error: "\<bar>of_int (round_even y) - y\<bar> \<le> 1 / 2"
proof -
  have "of_int \<lfloor>y\<rfloor> \<le> y" "y < of_int \<lfloor>y\<rfloor> + 1" by linarith+
  then show ?thesis unfolding round_even_def Let_def by (simp add: abs_le_iff)
qed

lemma round_even_of_int [simp]: "round_even (of_int k) = k"
  by (simp add: round_even_def)

lemma binade_le:
  assumes "x \<noteq> 0"
  shows "2 powi (binade x) \<le> \<bar>x\<bar>"
proof -
  obtain p q where pq: "quotient_of \<bar>x\<bar> = (p, q)" by (cases "quotient_of \<bar>x\<bar>")
  then have x: "\<bar>x\<bar> = of_int p / of_int q" and q: "0 < q"
    by (simp_all add: quotient_of_div quotient_of_denom_pos)
  then have p: "0 < p" using assms by (metis abs_not_less_zero divide_less_0_iff linorder_neqE_linordered_idom
      of_int_0_less_iff of_int_less_0_iff zero_less_abs_iff div_by_0 divide_eq_0_iff of_int_0)
  let ?a = "bitlen p" and ?b = "bitlen q"
  have lens: "0 < ?a" "0 < ?b"
    using p q bitlen_nonneg bitlen_eq_zero_iff by (metis linorder_not_less order_less_le)+
  have "2 powi (?a - 1) \<le> (of_int p :: rat)"
  proof -
    have "2 ^ nat (?a - 1) \<le> p" using bitlen_bounds [OF p] by simp
    then have "(2 :: rat) ^ nat (?a - 1) \<le> of_int p" by (metis of_int_le_iff of_int_numeral of_int_power)
    then show ?thesis using lens by (simp add: power_int_nonneg_exp)
  qed
  moreover have "(of_int q :: rat) \<le> 2 powi ?b"
  proof -
    have "q \<le> 2 ^ nat ?b" using bitlen_bounds [OF q] by simp
    then have "(of_int q :: rat) \<le> 2 ^ nat ?b" by (metis of_int_le_iff of_int_numeral of_int_power)
    then show ?thesis using lens by (simp add: power_int_nonneg_exp)
  qed
  ultimately have "2 powi (?a - 1) / 2 powi ?b \<le> \<bar>x\<bar>"
    unfolding x using p q by (intro frac_le) simp_all
  then have "2 powi (?a - ?b - 1) \<le> \<bar>x\<bar>" by (simp add: power_int_diff algebra_simps flip: power_int_diff)
  then show ?thesis by (simp add: binade_def pq Let_def)
qed

lemma fl_error: "\<bar>fl x - x\<bar> \<le> \<bar>x\<bar> / 2 ^ 53"
proof (cases "x = 0")
  case False
  let ?u = "2 powi (binade x - 52) :: rat" and ?y = "x * 2 powi (52 - binade x)"
  have inv: "?y * ?u = x" by (simp flip: power_int_add)
  have "fl x - x = (of_int (round_even ?y) - ?y) * ?u"
    using False by (simp add: fl_def left_diff_distrib inv)
  then have "\<bar>fl x - x\<bar> = \<bar>of_int (round_even ?y) - ?y\<bar> * ?u" by (simp add: abs_mult)
  also have "\<dots> \<le> 1 / 2 * ?u" by (intro mult_right_mono round_even_error) simp
  also have "\<dots> = 2 powi (binade x) / 2 ^ 53" by (simp add: power_int_diff)
  also have "\<dots> \<le> \<bar>x\<bar> / 2 ^ 53" using binade_le [OF False] by (simp add: divide_right_mono)
  finally show ?thesis .
qed (simp add: fl_def)

text \<open>Half integers of at most 52 bits are represented exactly.\<close>

lemma fl_half_integer:
  assumes "\<bar>k\<bar> < 2 ^ 52"
  shows "fl (of_int k / 2) = of_int k / 2"
proof (cases "k = 0")
  case False
  let ?x = "of_int k / 2 :: rat"
  have "?x \<noteq> 0" using False by simp
  have "2 powi (binade ?x) \<le> \<bar>?x\<bar>" by (rule binade_le) fact
  also have "\<dots> < 2 ^ 51"
  proof -
    have "\<bar>of_int k :: rat\<bar> < 2 ^ 52" using assms by (metis of_int_abs of_int_less_iff of_int_numeral of_int_power)
    then show ?thesis by simp
  qed
  finally have "(2 :: rat) powi (binade ?x) < 2 powi 51" by simp
  then have b: "binade ?x < 51" using power_int_le_imp_less_exp [of 2 "binade ?x" 51] by simp
  then obtain m where m: "51 - binade ?x = int m" by (metis diff_ge_0_iff_ge less_imp_le nonneg_int_cases)
  have "?x * 2 powi (52 - binade ?x) = of_int k * 2 powi (51 - binade ?x)"
    by (simp add: power_int_diff)
  also have "\<dots> = of_int (k * 2 ^ m)" by (simp add: m)
  finally have "round_even (?x * 2 powi (52 - binade ?x)) = k * 2 ^ m" by (metis round_even_of_int)
  then have "fl ?x = of_int k * (2 ^ m * 2 powi (binade ?x - 52))"
    using \<open>?x \<noteq> 0\<close> by (simp add: fl_def)
  also have "(2 ^ m :: rat) = 2 powi (51 - binade ?x)" by (simp add: m)
  also have "2 powi (51 - binade ?x) * 2 powi (binade ?x - 52) = (1 / 2 :: rat)"
    by (simp flip: power_int_add)
  finally show ?thesis by simp
qed (simp add: fl_def)

end
