(* ===== verification/Sentinel.thy ===== *)
theory Sentinel
  imports Controller Double
begin

text \<open>
  \<open>runtime/ai/src/sentinel.rs\<close>: a stationary shooter whose line of fire a barrier blocks.
  The barrier test is a slab intersection in \<open>f64\<close>; it is shown to be the exact one.
\<close>

section \<open>Cover\<close>

definition shot_interval_ms :: u64 where "shot_interval_ms = 1800"

definition shot_damage :: u32 where "shot_damage = 12"

definition shot_range_squared :: int where "shot_range_squared = 144"

definition sentinel_position :: pos where "sentinel_position = (- 4, 0, - 4)"

definition signal_approach :: pos where "signal_approach = (- 4, 0, 4)"

definition sentinel_health :: u32 where "sentinel_health = 200"

text \<open>One turn of the loop over the two axes: clip the window \<open>near..far\<close> of the segment's
  parameter to the slab, or leave with \<open>false\<close>.\<close>

definition cover_axis :: "rat \<Rightarrow> rat \<Rightarrow> int \<Rightarrow> int \<Rightarrow> rat \<times> rat \<Rightarrow> (rat \<times> rat) option" where
  "cover_axis minimum maximum from_axis to_axis window =
     (case window of (near, far) \<Rightarrow>
        let origin = of_int from_axis; delta = fl (of_int to_axis - origin)
        in if delta = 0 then (if origin < minimum \<or> maximum < origin then None else Some (near, far))
           else
             (let first = fl (fl (minimum - origin) / delta);
                  last = fl (fl (maximum - origin) / delta);
                  near' = max near (min first last);
                  far' = min far (max first last)
              in if far' < near' then None else Some (near', far')))"

fun cover_blocks_segment :: "pos \<Rightarrow> pos \<Rightarrow> bool" where
  "cover_blocks_segment (fx, fy, fz) (tx, ty, tz) =
     (case cover_axis (- 6) (- 2) fx tx (0, 1) of
        None \<Rightarrow> False
      | Some window \<Rightarrow> cover_axis (1 / 2) (3 / 2) fz tz window \<noteq> None)"

section \<open>The brain\<close>

record signal_sentinel =
  next_shot_ms :: u64

definition new_sentinel :: signal_sentinel where
  "new_sentinel = \<lparr>next_shot_ms = shot_interval_ms\<rparr>"

definition sentinel_tick ::
  "u64 \<Rightarrow> u64 \<Rightarrow> u64 \<Rightarrow> signal_sentinel \<times> registry \<Rightarrow> (signal_sentinel \<times> registry) \<times> ai_event option" where
  "sentinel_tick enemy_id player_id now s =
     (case s of (b, actors) \<Rightarrow>
        if now < next_shot_ms b then ((b, actors), None)
        else
          (let b' = b\<lparr>next_shot_ms := sat_add now shot_interval_ms\<rparr>
           in case get_actor actors enemy_id of None \<Rightarrow> ((b', actors), None) | Some enemy \<Rightarrow>
             (case get_actor actors player_id of None \<Rightarrow> ((b', actors), None) | Some player \<Rightarrow>
               if kind enemy \<noteq> Enemy \<or> health enemy = 0 \<or> kind player \<noteq> Player \<or> health player = 0 \<or>
                  shot_range_squared < squared_distance (position enemy) (position player) \<or>
                  cover_blocks_segment (position enemy) (position player)
               then ((b', actors), None)
               else
                 (case apply_damage player_id shot_damage actors of
                    (None, actors') \<Rightarrow> ((b', actors'), None)
                  | (Some hit, actors') \<Rightarrow>
                      ((b', actors'), Some (Attacked enemy_id player_id shot_damage (health hit) (health hit = 0)))))))"

section \<open>The barrier test is exact\<close>

text \<open>Exact clipping of the parameter to one slab.\<close>

definition slab :: "rat \<Rightarrow> rat \<Rightarrow> int \<Rightarrow> int \<Rightarrow> rat \<Rightarrow> bool" where
  "slab minimum maximum a b t \<longleftrightarrow>
     minimum \<le> of_int a + t * (of_int b - of_int a) \<and> of_int a + t * (of_int b - of_int a) \<le> maximum"

text \<open>A bound the game's coordinates never come close to.\<close>

definition cover_scale :: "int \<Rightarrow> bool" where
  "cover_scale c \<longleftrightarrow> \<bar>c\<bar> \<le> 2 ^ 20"

text \<open>
  The quotients the test compares: half an integer below \<open>2^22\<close> over an integer below \<open>2^22\<close>.
  Two different ones lie further apart than their rounding errors, so rounding keeps their order.
\<close>

definition cover_quotient :: "rat \<Rightarrow> bool" where
  "cover_quotient x \<longleftrightarrow> (\<exists>k d. x = of_int k / 2 / of_int d \<and> \<bar>k\<bar> \<le> 2 ^ 22 \<and> 0 < d \<and> d \<le> 2 ^ 22)"

lemma fl_less:
  assumes "cover_quotient x" and "cover_quotient y" and "x < y"
  shows "fl x < fl y"
proof -
  obtain k d where x: "x = of_int k / 2 / of_int d" "\<bar>k\<bar> \<le> 2 ^ 22" "0 < d" "d \<le> 2 ^ 22"
    using assms(1) by (auto simp: cover_quotient_def)
  obtain l e where y: "y = of_int l / 2 / of_int e" "\<bar>l\<bar> \<le> 2 ^ 22" "0 < e" "e \<le> 2 ^ 22"
    using assms(2) by (auto simp: cover_quotient_def)
  let ?d = "of_int d :: rat" and ?e = "of_int e :: rat"
  have pos: "0 < ?d" "0 < ?e" using x(3) y(3) by simp_all
  have le: "?d \<le> 2 ^ 22" "?e \<le> 2 ^ 22"
    using x(4) y(4) by (metis of_int_le_iff of_int_numeral of_int_power)+
  have kl: "\<bar>of_int k :: rat\<bar> \<le> 2 ^ 22" "\<bar>of_int l :: rat\<bar> \<le> 2 ^ 22"
    using x(2) y(2) by (metis of_int_abs of_int_le_iff of_int_numeral of_int_power)+
  have "of_int k * ?e < of_int l * ?d"
    using assms(3) pos unfolding x(1) y(1) by (simp add: field_simps)
  then have "k * e < l * d" by (metis of_int_less_iff of_int_mult)
  then have "k * e + 1 \<le> l * d" by simp
  then have "of_int k * ?e + 1 \<le> of_int l * ?d" by (metis of_int_1 of_int_add of_int_le_iff of_int_mult)
  then have gap: "1 / (2 * ?d * ?e) \<le> y - x"
    using pos unfolding x(1) y(1) by (simp add: field_simps)
  have "\<bar>x\<bar> \<le> 2 ^ 21 / ?d" using kl(1) pos unfolding x(1) by (simp add: abs_mult abs_divide field_simps)
  also have "\<dots> \<le> 2 ^ 43 / (?d * ?e)" using pos le(2) by (simp add: field_simps)
  finally have "\<bar>fl x - x\<bar> \<le> 2 ^ 43 / (?d * ?e) / 2 ^ 53" using fl_error [of x] by (simp add: field_simps)
  then have ex: "\<bar>fl x - x\<bar> \<le> 1 / (?d * ?e) / 1024" by simp
  have "\<bar>y\<bar> \<le> 2 ^ 21 / ?e" using kl(2) pos unfolding y(1) by (simp add: abs_mult abs_divide field_simps)
  also have "\<dots> \<le> 2 ^ 43 / (?d * ?e)" using pos le(1) by (simp add: field_simps)
  finally have "\<bar>fl y - y\<bar> \<le> 2 ^ 43 / (?d * ?e) / 2 ^ 53" using fl_error [of y] by (simp add: field_simps)
  then have ey: "\<bar>fl y - y\<bar> \<le> 1 / (?d * ?e) / 1024" by simp
  define g where "g = 1 / (?d * ?e)"
  have "0 < g" using pos by (simp add: g_def)
  moreover have "1 / (2 * ?d * ?e) = g / 2" by (simp add: g_def)
  ultimately show ?thesis using gap ex ey unfolding g_def [symmetric] by linarith
qed

lemma fl_le_iff:
  assumes "cover_quotient x" and "cover_quotient y"
  shows "fl x \<le> fl y \<longleftrightarrow> x \<le> y"
  using fl_less [OF assms] fl_less [OF assms(2,1)] by (cases x y rule: linorder_cases) auto

lemma fl_min_max:
  assumes "cover_quotient x" and "cover_quotient y"
  shows "min (fl x) (fl y) = fl (min x y)" and "max (fl x) (fl y) = fl (max x y)"
    and "cover_quotient (min x y)" and "cover_quotient (max x y)"
  using assms fl_le_iff [OF assms] by (simp_all add: min_def max_def)

text \<open>The same clipping without rounding.\<close>

definition clip :: "rat \<Rightarrow> rat \<Rightarrow> int \<Rightarrow> int \<Rightarrow> rat \<times> rat \<Rightarrow> (rat \<times> rat) option" where
  "clip minimum maximum a b window =
     (case window of (near, far) \<Rightarrow>
        if a = b then (if of_int a < minimum \<or> maximum < of_int a then None else Some (near, far))
        else
          (let p = (minimum - of_int a) / (of_int b - of_int a);
               q = (maximum - of_int a) / (of_int b - of_int a);
               near' = max near (min p q);
               far' = min far (max p q)
           in if far' < near' then None else Some (near', far')))"

lemma edge_quotient:
  assumes "a \<noteq> b" and "cover_scale a" and "cover_scale b" and "\<bar>m\<bar> \<le> 12"
  shows "cover_quotient ((of_int m / 2 - of_int a) / (of_int b - of_int a))"
proof (cases "a < b")
  case True
  have "(of_int m / 2 - of_int a) / (of_int b - of_int a) = of_int (m - 2 * a) / 2 / (of_int (b - a) :: rat)"
    by (simp add: diff_divide_distrib)
  moreover have "\<bar>m - 2 * a\<bar> \<le> 2 ^ 22" "0 < b - a" "b - a \<le> 2 ^ 22"
    using assms True by (auto simp: cover_scale_def)
  ultimately show ?thesis unfolding cover_quotient_def by blast
next
  case False
  have "(of_int m / 2 - of_int a) / (of_int b - of_int a) = of_int (2 * a - m) / 2 / (of_int (a - b) :: rat)"
    using assms(1) by (simp add: divide_simps) (simp add: algebra_simps)
  moreover have "\<bar>2 * a - m\<bar> \<le> 2 ^ 22" "0 < a - b" "a - b \<le> 2 ^ 22"
    using assms False by (auto simp: cover_scale_def)
  ultimately show ?thesis unfolding cover_quotient_def by blast
qed

lemma fl_delta:
  assumes "cover_scale a" and "cover_scale b" and "\<bar>m\<bar> \<le> 12"
  shows "fl (of_int b - of_int a) = of_int b - of_int a"
    and "fl (of_int m / 2 - of_int a) = of_int m / 2 - of_int a"
proof -
  have "\<bar>2 * (b - a)\<bar> < 2 ^ 52" "\<bar>m - 2 * a\<bar> < 2 ^ 52" using assms by (auto simp: cover_scale_def)
  note half = this [THEN fl_half_integer]
  have "of_int (2 * (b - a)) / 2 = (of_int b - of_int a :: rat)"
    "of_int (m - 2 * a) / 2 = (of_int m / 2 - of_int a :: rat)"
    by (simp_all add: diff_divide_distrib)
  then show "fl (of_int b - of_int a) = of_int b - of_int a"
    "fl (of_int m / 2 - of_int a) = of_int m / 2 - of_int a"
    using half by metis+
qed

lemma cover_axis_exact:
  assumes "cover_scale a" and "cover_scale b" and "cover_quotient n" and "cover_quotient f"
    and "minimum = of_int m / 2" and "maximum = of_int l / 2" and "\<bar>m\<bar> \<le> 12" and "\<bar>l\<bar> \<le> 12"
  shows "cover_axis minimum maximum a b (fl n, fl f) =
      map_option (map_prod fl fl) (clip minimum maximum a b (n, f)) \<and>
    (\<forall>n' f'. clip minimum maximum a b (n, f) = Some (n', f') \<longrightarrow> cover_quotient n' \<and> cover_quotient f')"
proof (cases "a = b")
  case True
  then show ?thesis using assms by (simp add: cover_axis_def clip_def fl_def)
next
  case False
  define p q where "p = (minimum - of_int a) / (of_int b - of_int a)"
    and "q = (maximum - of_int a) / (of_int b - of_int a)"
  have pq: "cover_quotient p" "cover_quotient q"
    unfolding p_def q_def assms(5,6) by (rule edge_quotient [OF False assms(1,2)]; fact)+
  have d: "fl (of_int b - of_int a) = of_int b - of_int a" "fl (minimum - of_int a) = minimum - of_int a"
    "fl (maximum - of_int a) = maximum - of_int a"
    unfolding assms(5,6) using fl_delta [OF assms(1,2)] assms(7,8) by blast+
  let ?n = "max n (min p q)" and ?f = "min f (max p q)"
  have mm: "cover_quotient (min p q)" "cover_quotient (max p q)"
    using fl_min_max [OF pq] by blast+
  have cq: "cover_quotient ?n" "cover_quotient ?f"
    using fl_min_max [OF assms(3) mm(1)] fl_min_max [OF assms(4) mm(2)] by blast+
  have rounded: "max (fl n) (min (fl p) (fl q)) = fl ?n" "min (fl f) (max (fl p) (fl q)) = fl ?f"
    by (simp_all only: fl_min_max(1,2) [OF pq] fl_min_max(2) [OF assms(3) mm(1)] fl_min_max(1) [OF assms(4) mm(2)])
  have order: "fl ?f < fl ?n \<longleftrightarrow> ?f < ?n"
    using fl_le_iff [OF cq] by (simp only: not_le [symmetric])
  have nz: "(of_int b - of_int a :: rat) \<noteq> 0" using False by simp
  have "cover_axis minimum maximum a b (fl n, fl f) = (if ?f < ?n then None else Some (fl ?n, fl ?f))"
    using nz unfolding cover_axis_def prod.case d Let_def p_def [symmetric] q_def [symmetric] rounded order
    by (simp only: if_False)
  moreover have "clip minimum maximum a b (n, f) = (if ?f < ?n then None else Some (?n, ?f))"
    using False unfolding clip_def prod.case Let_def p_def [symmetric] q_def [symmetric] by (simp only: if_False)
  ultimately show ?thesis using cq by simp
qed

lemma clip_meaning:
  assumes "minimum \<le> maximum" and "n \<le> f"
  shows "case clip minimum maximum a b (n, f) of
      None \<Rightarrow> (\<forall>t. n \<le> t \<and> t \<le> f \<longrightarrow> \<not> slab minimum maximum a b t)
    | Some (n', f') \<Rightarrow> n' \<le> f' \<and>
        (\<forall>t. n' \<le> t \<and> t \<le> f' \<longleftrightarrow> n \<le> t \<and> t \<le> f \<and> slab minimum maximum a b t)"
proof (cases "a = b")
  case True
  then show ?thesis using assms(2) by (auto simp: clip_def slab_def)
next
  case False
  let ?d = "of_int b - of_int a :: rat"
  define p q where "p = (minimum - of_int a) / ?d" and "q = (maximum - of_int a) / ?d"
  have in_slab: "slab minimum maximum a b t \<longleftrightarrow> min p q \<le> t \<and> t \<le> max p q" for t
  proof (cases "a < b")
    case True
    then have d: "0 < ?d" by simp
    then have "p \<le> q" using assms(1) by (simp add: p_def q_def divide_right_mono)
    moreover have "slab minimum maximum a b t \<longleftrightarrow> p \<le> t \<and> t \<le> q"
      unfolding slab_def p_def q_def pos_divide_le_eq [OF d] pos_le_divide_eq [OF d] by linarith
    ultimately show ?thesis by simp
  next
    case 2: False
    then have d: "?d < 0" using False by simp
    then have "q \<le> p" using assms(1) by (simp add: p_def q_def divide_right_mono_neg)
    moreover have "slab minimum maximum a b t \<longleftrightarrow> q \<le> t \<and> t \<le> p"
      unfolding slab_def p_def q_def neg_divide_le_eq [OF d] neg_le_divide_eq [OF d] by linarith
    ultimately show ?thesis by (simp add: min_def max_def)
  qed
  have "clip minimum maximum a b (n, f) =
      (if min f (max p q) < max n (min p q) then None else Some (max n (min p q), min f (max p q)))"
    using False unfolding clip_def prod.case Let_def p_def [symmetric] q_def [symmetric] by (simp only: if_False)
  then show ?thesis by (auto simp: in_slab not_less)
qed

lemma cover_blocks_geometry:
  assumes "cover_scale fx" and "cover_scale fz" and "cover_scale tx" and "cover_scale tz"
  shows "cover_blocks_segment (fx, fy, fz) (tx, ty, tz) \<longleftrightarrow>
    (\<exists>t. 0 \<le> t \<and> t \<le> 1 \<and> slab (- 6) (- 2) fx tx t \<and> slab (1 / 2) (3 / 2) fz tz t)"
proof -
  have ends: "fl 0 = 0" "fl 1 = 1" using fl_half_integer [of 2] by (simp_all add: fl_def)
  have q: "cover_quotient 0" "cover_quotient 1"
    unfolding cover_quotient_def by (rule exI [of _ 0], rule exI [of _ 1], simp)
      (rule exI [of _ 2], rule exI [of _ 1], simp)
  note x = cover_axis_exact [OF assms(1,3) q, of "- 6" "- 12" "- 2" "- 4", unfolded ends, simplified]
  note xm = clip_meaning [of "- 6" "- 2" 0 1 fx tx]
  show ?thesis
  proof (cases "clip (- 6) (- 2) fx tx (0, 1)")
    case None
    then show ?thesis using x xm by auto
  next
    case (Some w)
    obtain n f where w: "w = (n, f)" by (cases w)
    have nf: "cover_quotient n" "cover_quotient f" using x Some w by simp_all
    note z = cover_axis_exact [OF assms(2,4) nf, of "1 / 2" 1 "3 / 2" 3, simplified]
    note zm = clip_meaning [of "1 / 2" "3 / 2" n f fz tz]
    show ?thesis
    proof (cases "clip (1 / 2) (3 / 2) fz tz (n, f)")
      case None
      then show ?thesis using x xm z zm Some w by auto
    next
      case 2: (Some v)
      obtain a b where "v = (a, b)" by (cases v)
      then show ?thesis using x xm z zm Some w 2 by (auto intro!: exI [of _ a])
    qed
  qed
qed

text \<open>
  C12 (equivalence): the floating-point barrier test is the exact geometric one. For all
  coordinates of magnitude up to \<open>2^20\<close>, fire is blocked exactly when some point of the segment
  between shooter and target lies in the closed rectangle from -6 to -2 along x and from 0.5
  to 1.5 along z, in spite of the rounding of every \<open>f64\<close> operation.
\<close>

theorem cover_blocks_exactly:
  assumes "cover_scale fx" and "cover_scale fz" and "cover_scale tx" and "cover_scale tz"
  shows "cover_blocks_segment (fx, fy, fz) (tx, ty, tz) \<longleftrightarrow>
    (\<exists>t. 0 \<le> t \<and> t \<le> 1 \<and> slab (- 6) (- 2) fx tx t \<and> slab (1 / 2) (3 / 2) fz tz t)"
  by (rule cover_blocks_geometry [OF assms])

theorem cover_blocks_exactly_witness:
  "cover_blocks_segment signal_approach sentinel_position \<and> \<not> cover_blocks_segment (0, 0, 4) (- 1, 0, - 4)"
proof
  have "slab (- 6) (- 2) (- 4) (- 4) (3 / 8)" "slab (1 / 2) (3 / 2) 4 (- 4) (3 / 8)"
    by (simp_all add: slab_def)
  then have "\<exists>t. 0 \<le> t \<and> t \<le> 1 \<and> slab (- 6) (- 2) (- 4) (- 4) t \<and> slab (1 / 2) (3 / 2) 4 (- 4) t"
    by (intro exI [of _ "3 / 8"]) simp
  then show "cover_blocks_segment signal_approach sentinel_position"
    unfolding signal_approach_def sentinel_position_def
    by (subst cover_blocks_exactly) (simp_all add: cover_scale_def)
  have "\<not> slab (- 6) (- 2) 0 (- 1) t" if "0 \<le> t" "t \<le> 1" for t
    using that by (simp add: slab_def)
  then show "\<not> cover_blocks_segment (0, 0, 4) (- 1, 0, - 4)"
    by (subst cover_blocks_exactly) (auto simp: cover_scale_def)
qed

section \<open>Shots\<close>

lemma cover_scale_near:
  "cover_scale x \<Longrightarrow> cover_scale y \<Longrightarrow> cover_scale z \<Longrightarrow> near_origin (x, y, z)"
  by (simp add: cover_scale_def)

text \<open>
  When the sentinel shoots and what a shot does. For a shooter and a target
  at coordinates up to \<open>2^20\<close>, it fires exactly when its interval has passed, both are
  alive and of the right kinds, the target is within twelve tiles, and no point of the line
  of fire lies in the barrier. A shot takes 12 health, saturating at zero, and touches nobody else; every attempt
  starts the 1800 ms interval, so protected time is not saved up.
\<close>

theorem sentinel_fires_in_sight:
  assumes "get_actor actors e = Some enemy" and "get_actor actors p = Some player"
    and "position enemy = (ex, ey, ez)" and "position player = (px, py, pz)"
    and "list_all cover_scale [ex, ey, ez, px, py, pz]"
    and "sentinel_tick e p now (b, actors) = ((b', actors'), shot)"
  shows "(shot \<noteq> None \<longleftrightarrow>
       next_shot_ms b \<le> now \<and> kind enemy = Enemy \<and> health enemy \<noteq> 0 \<and> kind player = Player \<and> health player \<noteq> 0 \<and>
       (ex - px)\<^sup>2 + (ey - py)\<^sup>2 + (ez - pz)\<^sup>2 \<le> 12\<^sup>2 \<and>
       \<not> (\<exists>t. 0 \<le> t \<and> t \<le> 1 \<and> slab (- 6) (- 2) ex px t \<and> slab (1 / 2) (3 / 2) ez pz t)) \<and>
    actors' = (if shot = None then actors else actors(p \<mapsto> player\<lparr>health := sat_sub (health player) 12\<rparr>)) \<and>
    next_shot_ms b' = (if now < next_shot_ms b then next_shot_ms b else sat_add now 1800)"
proof -
  have d: "squared_distance (position enemy) (position player) = (ex - px)\<^sup>2 + (ey - py)\<^sup>2 + (ez - pz)\<^sup>2"
    unfolding assms(3,4) by (intro squared_distance_exact cover_scale_near) (use assms(5) in simp_all)
  have c: "cover_blocks_segment (position enemy) (position player) \<longleftrightarrow>
      (\<exists>t. 0 \<le> t \<and> t \<le> 1 \<and> slab (- 6) (- 2) ex px t \<and> slab (1 / 2) (3 / 2) ez pz t)"
    unfolding assms(3,4) using assms(5) by (intro cover_blocks_geometry) simp_all
  have hurt: "apply_damage p shot_damage actors =
      (Some (player\<lparr>health := sat_sub (health player) 12\<rparr>),
       actors(p \<mapsto> player\<lparr>health := sat_sub (health player) 12\<rparr>))"
    using assms(2) by (simp add: apply_damage_def get_actor_def shot_damage_def Let_def)
  show ?thesis
    using assms(6) unfolding sentinel_tick_def prod.case assms(1,2) option.case Let_def hurt
    by (cases "kind enemy"; cases "kind player")
      (auto simp: d c shot_interval_ms_def shot_range_squared_def not_less split: if_splits)
qed

datatype sentinel_event = SentinelLook u64 u64 u64 registry

fun sentinel_time :: "sentinel_event \<Rightarrow> u64" where
  "sentinel_time (SentinelLook e p now actors) = now"

fun sentinel_step :: "sentinel_event \<Rightarrow> signal_sentinel \<Rightarrow> signal_sentinel \<times> ai_event option" where
  "sentinel_step (SentinelLook e p now actors) b =
     (case sentinel_tick e p now (b, actors) of ((b', actors'), r) \<Rightarrow> (b', r))"

interpretation sentinel_pace: paced sentinel_step sentinel_time "\<lambda>_ _. True" next_shot_ms "\<lambda>_. shot_interval_ms"
proof unfold_locales
  fix e b b' a
  show "sentinel_step e b = (b', Some a) \<Longrightarrow> next_shot_ms b \<le> sentinel_time e"
    by (cases e) (auto simp: sentinel_tick_def Let_def not_less split: if_splits option.splits prod.splits)
  show "sentinel_step e b = (b', Some a) \<Longrightarrow> sat_add (sentinel_time e) shot_interval_ms \<le> next_shot_ms b'"
    by (cases e) (auto simp: sentinel_tick_def Let_def not_less split: if_splits option.splits prod.splits)
  show "sentinel_step e b = (b', None) \<Longrightarrow> next_shot_ms b \<le> next_shot_ms b'"
    by (cases e) (auto simp: sentinel_tick_def Let_def not_less intro: order_trans [OF _ sat_add_ge]
      split: if_splits option.splits prod.splits)
qed simp

text \<open>Shots of a whole history, over any changes to the registry, are 1800 ms apart.\<close>

lemma sentinel_shots_spaced:
  assumes "clocked sentinel_time c es" and "run_brain sentinel_step sentinel_time es b = (b', acts)"
  shows "spaced (\<lambda>_. 1800) acts"
  using sentinel_pace.actions_spaced [OF TrueI assms] by (simp add: shot_interval_ms_def)

definition sentinel_post :: registry where
  "sentinel_post = Map.empty
     (7 \<mapsto> \<lparr>actor_id = 7, kind = Enemy, archetype = ''signal-sentinel'', position = sentinel_position,
       health = 200, max_health = 200\<rparr>,
      1 \<mapsto> \<lparr>actor_id = 1, kind = Player, archetype = ''player'', position = (0, 0, 4), health = 10, max_health = 100\<rparr>)"

theorem sentinel_fires_in_sight_witness:
  "fst (fst (sentinel_tick 7 1 1800 (new_sentinel, sentinel_post))) = \<lparr>next_shot_ms = 3600\<rparr> \<and>
   snd (fst (sentinel_tick 7 1 1800 (new_sentinel, sentinel_post))) 1 =
     Some \<lparr>actor_id = 1, kind = Player, archetype = ''player'', position = (0, 0, 4), health = 0, max_health = 100\<rparr>"
proof -
  obtain b' actors' shot where t: "sentinel_tick 7 1 1800 (new_sentinel, sentinel_post) = ((b', actors'), shot)"
    by (metis surjective_pairing)
  have "\<not> (\<exists>t. 0 \<le> t \<and> t \<le> 1 \<and> slab (- 6) (- 2) (- 4) 0 t \<and> slab (1 / 2) (3 / 2) (- 4) 4 t)"
    by (auto simp: slab_def)
  then have "next_shot_ms b' = 3600 \<and> actors' 1 =
      Some \<lparr>actor_id = 1, kind = Player, archetype = ''player'', position = (0, 0, 4), health = 0, max_health = 100\<rparr>"
    using sentinel_fires_in_sight [OF _ _ _ _ _ t, of
        "\<lparr>actor_id = 7, kind = Enemy, archetype = ''signal-sentinel'', position = sentinel_position, health = 200, max_health = 200\<rparr>"
        "\<lparr>actor_id = 1, kind = Player, archetype = ''player'', position = (0, 0, 4), health = 10, max_health = 100\<rparr>"
        "- 4" 0 "- 4" 0 0 4]
    by (auto simp: sentinel_post_def get_actor_def sentinel_position_def cover_scale_def new_sentinel_def
      shot_interval_ms_def sat_add_def sat_sub_def)
  then show ?thesis unfolding t by (cases b') simp
qed

end
