(* ===== verification/Lifecycle.thy ===== *)
theory Lifecycle
  imports Main
begin

text \<open>
  The contracts of the long-lived records of the program, with the lemmas that lift their
  one-call laws to whole histories: \<open>history\<close> (every call keeps an invariant), \<open>lifecycle\<close>
  (a record that has reached a terminal outcome is frozen, as cooperations and route
  operations are) and \<open>ledger\<close> (an accepted request is recorded for good and the same
  request is answered from the record, without a second effect).
\<close>

locale history =
  fixes exec :: "'op \<Rightarrow> 's \<Rightarrow> 's"
    and good :: "'s \<Rightarrow> bool"
  assumes keeps: "good s \<Longrightarrow> good (exec c s)"
begin

lemma good_history: "good s \<Longrightarrow> good (fold exec calls s)"
  by (induction calls arbitrary: s) (auto intro: keeps)

end

locale lifecycle = history exec good
  for exec :: "'op \<Rightarrow> 's \<Rightarrow> 's" and good :: "'s \<Rightarrow> bool" +
  fixes final :: "'s \<Rightarrow> bool"
  assumes absorbs: "good s \<Longrightarrow> final s \<Longrightarrow> exec c s = s"
begin

lemma final_history: "good s \<Longrightarrow> final s \<Longrightarrow> fold exec calls s = s"
  by (induction calls) (auto simp: absorbs)

lemma final_suffix:
  assumes "good s" and "final (fold exec calls s)"
  shows "fold exec (calls @ more) s = fold exec calls s"
  using final_history [OF good_history [OF assms(1)] assms(2)] by simp

end

locale ledger = history exec good
  for exec :: "'op \<Rightarrow> 's \<Rightarrow> 's" and good :: "'s \<Rightarrow> bool" +
  fixes serve :: "'req \<Rightarrow> 's \<Rightarrow> 'res \<times> 's"
    and answer :: "'res \<Rightarrow> 'out option"
    and replay :: "'out \<Rightarrow> 'res"
    and recorded :: "'req \<Rightarrow> 'out \<Rightarrow> 's \<Rightarrow> bool"
    and same :: "'req \<Rightarrow> 'req \<Rightarrow> bool"
  assumes served: "good s \<Longrightarrow> serve q s = (r, s') \<Longrightarrow> good s'"
    and records: "good s \<Longrightarrow> serve q s = (r, s') \<Longrightarrow> answer r = Some out \<Longrightarrow> recorded q out s'"
    and persists: "good s \<Longrightarrow> recorded q out s \<Longrightarrow> recorded q out (exec c s)"
    and replays: "good s \<Longrightarrow> recorded q out s \<Longrightarrow> same q q' \<Longrightarrow> serve q' s = (replay out, s)"
begin

lemma recorded_history: "good s \<Longrightarrow> recorded q out s \<Longrightarrow> recorded q out (fold exec calls s)"
  by (induction calls arbitrary: s) (auto intro: keeps persists)

lemma answered_once:
  assumes "good s" and "serve q s = (r, s')" and "answer r = Some out" and "same q q'"
  shows "serve q' (fold exec calls s') = (replay out, fold exec calls s')"
  using assms by (blast intro: replays recorded_history good_history served records)

end

end
