(* ===== verification/Cooperation.thy ===== *)
theory Cooperation
  imports Prelude Lifecycle "HOL-Library.Sublist"
begin

text \<open>
  \<open>runtime/cooperation/src/lib.rs\<close>: the two-player operation. A state machine over phases
  with a deadline in most of them; every call first observes the deadlines, and an expired
  one is committed although the call returns an error. Elapsed time is supplied by the caller.
\<close>

section \<open>Data\<close>

definition operation_duration_ms :: u64 where "operation_duration_ms = 60000"

definition ping_ttl_ms :: u64 where "ping_ttl_ms = 5000"

definition revive_window_ms :: u64 where "revive_window_ms = 15000"

definition revive_channel_ms :: u64 where "revive_channel_ms = 2000"

definition revive_health :: u32 where "revive_health = 50"

definition max_revive_distance_squared :: int where "max_revive_distance_squared = 4"

definition max_operation_id_bytes :: nat where "max_operation_id_bytes = 32"

definition reward_fragments_per_participant :: u32 where "reward_fragments_per_participant = 2"

definition reward_experience_per_participant :: u64 where "reward_experience_per_participant = 125"

lemmas coop_consts = operation_duration_ms_def ping_ttl_ms_def revive_window_ms_def
  revive_channel_ms_def revive_health_def max_revive_distance_squared_def max_operation_id_bytes_def
  reward_fragments_per_participant_def reward_experience_per_participant_def

datatype role = Anchor | Runner

datatype target = RelayAnchor | RelayConsole

datatype phase =
    AwaitingAnchor
  | AwaitingPing
  | AwaitingRunner
  | RunnerDowned
  | ReviveChannel
  | EncounterActive
  | Succeeded
  | Failed

fun is_terminal :: "phase \<Rightarrow> bool" where
  "is_terminal Succeeded \<longleftrightarrow> True"
| "is_terminal Failed \<longleftrightarrow> True"
| "is_terminal _ \<longleftrightarrow> False"

datatype life_state = Active | Downed | Defeated

datatype terminal_outcome =
    OperationSucceeded
  | FailedPingTimeout
  | FailedReviveTimeout
  | FailedOperationTimeout
  | FailedParticipantDefeated
  | AbandonedDisconnect

record combat_profile =
  profile_damage :: u32
  profile_range :: int
  profile_cooldown_ms :: u64
  profile_max_health :: u32

definition profile_is_valid :: "combat_profile \<Rightarrow> bool" where
  "profile_is_valid p \<longleftrightarrow> 0 < profile_damage p \<and> 0 \<le> profile_range p \<and>
     0 < profile_cooldown_ms p \<and> revive_health \<le> profile_max_health p"

record participant_state =
  participant_role :: role
  profile :: combat_profile
  admitted_health :: u32
  current_health :: u32
  life :: life_state

record contributions =
  anchor_arrived :: bool
  pinged :: bool
  runner_arrived :: bool
  revived :: bool
  warden_completed :: bool

definition no_contributions :: contributions where
  "no_contributions = \<lparr>anchor_arrived = False, pinged = False, runner_arrived = False,
     revived = False, warden_completed = False\<rparr>"

definition contributions_complete :: "contributions \<Rightarrow> bool" where
  "contributions_complete c \<longleftrightarrow>
     anchor_arrived c \<and> pinged c \<and> runner_arrived c \<and> revived c \<and> warden_completed c"

record participant_reward =
  fragments :: u32
  experience :: u64

definition success_reward :: participant_reward where
  "success_reward = \<lparr>fragments = reward_fragments_per_participant,
     experience = reward_experience_per_participant\<rparr>"

datatype mutation_disposition = Applied | Replayed | Pending | Cancelled

record operation_record =
  operation_id :: string
  accepted_elapsed_ms :: u64

datatype cooperation_error =
    InvalidOperationId
  | InvalidProfile
  | InvalidCurrentHealth
  | WrongRole role role
  | WrongTarget target target
  | WrongReviveTarget role
  | WrongPhase phase phase
  | AlreadyPinged
  | AlreadyStarted
  | AlreadyRevived
  | ReviveChannelActive
  | OperationConflict
  | OutOfRange int
  | InvalidLifeState
  | TimeReversal
  | IncompleteContributions
  | ArithmeticOverflow
  | Terminal terminal_outcome
  | DeadlineExpired terminal_outcome

text \<open>The array of two participants, indexed by role, is the two fields \<open>anchor\<close> and \<open>runner\<close>.\<close>

record cooperation_state =
  start_operation_id :: string
  coop_phase :: phase
  anchor :: participant_state
  runner :: participant_state
  contribs :: contributions
  ping_record :: "operation_record option"
  downed_elapsed_ms :: "u64 option"
  revive_record :: "operation_record option"
  completed_revive_id :: "string option"
  revive_count :: u8
  terminal :: "terminal_outcome option"

type_synonym coop_outcome =
  "(cooperation_error, mutation_disposition, cooperation_state) outcome"

section \<open>Checks\<close>

definition validate_operation_id :: "string \<Rightarrow> cooperation_error + unit" where
  "validate_operation_id i =
     (if i = [] \<or> max_operation_id_bytes < length i \<or>
         \<not> list_all (\<lambda>c. is_ascii_alphanumeric c \<or> c = CHR ''-'') i
      then Inl InvalidOperationId else Inr ())"

definition is_strictly_after :: "u64 \<Rightarrow> u64 \<Rightarrow> u64 \<Rightarrow> bool" where
  "is_strictly_after elapsed start duration =
     (case checked_add start duration of None \<Rightarrow> True | Some deadline \<Rightarrow> deadline < elapsed)"

definition require_role_target :: "role \<Rightarrow> role \<Rightarrow> target \<Rightarrow> target \<Rightarrow> cooperation_error + unit" where
  "require_role_target r expected_role t expected_target =
     (if r \<noteq> expected_role then Inl (WrongRole expected_role r)
      else if t \<noteq> expected_target then Inl (WrongTarget expected_target t)
      else Inr ())"

definition require_revive_authority :: "role \<Rightarrow> role \<Rightarrow> cooperation_error + unit" where
  "require_revive_authority r target_role =
     (if r \<noteq> Anchor then Inl (WrongRole Anchor r)
      else if target_role \<noteq> Runner then Inl (WrongReviveTarget target_role)
      else Inr ())"

definition validate_distance :: "int \<Rightarrow> cooperation_error + unit" where
  "validate_distance d =
     (if \<not> (0 \<le> d \<and> d \<le> max_revive_distance_squared) then Inl (OutOfRange d) else Inr ())"

definition require_phase :: "phase \<Rightarrow> cooperation_state \<Rightarrow> cooperation_error + unit" where
  "require_phase expected s =
     (if coop_phase s = expected then Inr () else Inl (WrongPhase expected (coop_phase s)))"

lemmas coop_checks = validate_operation_id_def require_role_target_def require_revive_authority_def
  validate_distance_def require_phase_def

section \<open>Operations\<close>

definition commit_terminal :: "terminal_outcome \<Rightarrow> cooperation_state \<Rightarrow> cooperation_state" where
  "commit_terminal outcome s =
     s\<lparr>terminal := Some outcome,
       coop_phase := (if outcome = OperationSucceeded then Succeeded else Failed),
       revive_record := None\<rparr>"

definition start_with_health ::
  "string \<Rightarrow> combat_profile \<times> combat_profile \<Rightarrow> u32 \<times> u32 \<Rightarrow> cooperation_error + cooperation_state" where
  "start_with_health i profiles healths =
     and_then (validate_operation_id i) (\<lambda>_.
     and_then (ensure (profile_is_valid (fst profiles) \<and> profile_is_valid (snd profiles)) InvalidProfile) (\<lambda>_.
     and_then (ensure (\<not> (fst healths = 0 \<or> profile_max_health (fst profiles) < fst healths \<or>
                           snd healths = 0 \<or> profile_max_health (snd profiles) < snd healths))
                 InvalidCurrentHealth) (\<lambda>_.
     Inr \<lparr>start_operation_id = i, coop_phase = AwaitingAnchor,
          anchor = \<lparr>participant_role = Anchor, profile = fst profiles, admitted_health = fst healths,
                    current_health = fst healths, life = Active\<rparr>,
          runner = \<lparr>participant_role = Runner, profile = snd profiles, admitted_health = snd healths,
                    current_health = snd healths, life = Active\<rparr>,
          contribs = no_contributions, ping_record = None, downed_elapsed_ms = None,
          revive_record = None, completed_revive_id = None, revive_count = 0, terminal = None\<rparr>)))"

definition start_operation ::
  "string \<Rightarrow> combat_profile \<times> combat_profile \<Rightarrow> cooperation_error + cooperation_state" where
  "start_operation i profiles =
     start_with_health i profiles (profile_max_health (fst profiles), profile_max_health (snd profiles))"

definition reward :: "cooperation_state \<Rightarrow> (participant_reward \<times> participant_reward) option" where
  "reward s = (if terminal s = Some OperationSucceeded then Some (success_reward, success_reward) else None)"

definition retry_start ::
  "string \<Rightarrow> combat_profile \<times> combat_profile \<Rightarrow> u32 \<times> u32 \<Rightarrow> cooperation_state
     \<Rightarrow> cooperation_error + mutation_disposition" where
  "retry_start i profiles healths s =
     and_then (validate_operation_id i) (\<lambda>_.
     and_then (ensure (i = start_operation_id s) AlreadyStarted) (\<lambda>_.
     and_then (ensure (\<not> (profile (anchor s) \<noteq> fst profiles \<or> profile (runner s) \<noteq> snd profiles \<or>
                           admitted_health (anchor s) \<noteq> fst healths \<or>
                           admitted_health (runner s) \<noteq> snd healths)) OperationConflict) (\<lambda>_.
     Inr Replayed)))"

definition pending_timeout :: "u64 \<Rightarrow> cooperation_state \<Rightarrow> terminal_outcome option" where
  "pending_timeout elapsed s =
     (case (case coop_phase s of
              AwaitingRunner \<Rightarrow>
                (case ping_record s of None \<Rightarrow> None | Some ping \<Rightarrow>
                   if is_strictly_after elapsed (accepted_elapsed_ms ping) ping_ttl_ms
                   then Some FailedPingTimeout else None)
            | RunnerDowned \<Rightarrow>
                (case downed_elapsed_ms s of None \<Rightarrow> None | Some downed_at \<Rightarrow>
                   if is_strictly_after elapsed downed_at revive_window_ms
                   then Some FailedReviveTimeout else None)
            | ReviveChannel \<Rightarrow>
                (case downed_elapsed_ms s of None \<Rightarrow> None | Some downed_at \<Rightarrow>
                   if is_strictly_after elapsed downed_at revive_window_ms
                   then Some FailedReviveTimeout else None)
            | _ \<Rightarrow> None) of
        Some outcome \<Rightarrow> Some outcome
      | None \<Rightarrow> if operation_duration_ms < elapsed then Some FailedOperationTimeout else None)"

definition observe_deadlines :: "u64 \<Rightarrow> cooperation_state \<Rightarrow> coop_outcome" where
  "observe_deadlines elapsed s =
     (case terminal s of
        Some outcome \<Rightarrow> (Inl (Terminal outcome), s)
      | None \<Rightarrow>
          (case pending_timeout elapsed s of
             Some outcome \<Rightarrow> (Inl (DeadlineExpired outcome), commit_terminal outcome s)
           | None \<Rightarrow> (Inr Pending, s)))"

definition arrive_anchor :: "role \<Rightarrow> target \<Rightarrow> u64 \<Rightarrow> cooperation_state \<Rightarrow> coop_outcome" where
  "arrive_anchor r t elapsed s =
     attempt (observe_deadlines elapsed s) (\<lambda>_ s.
     require (require_role_target r Anchor t RelayAnchor) s (\<lambda>_.
     require (require_phase AwaitingAnchor s) s (\<lambda>_.
       (Inr Applied,
        s\<lparr>contribs := (contribs s)\<lparr>anchor_arrived := True\<rparr>, coop_phase := AwaitingPing\<rparr>))))"

definition ping_console :: "role \<Rightarrow> target \<Rightarrow> string \<Rightarrow> u64 \<Rightarrow> cooperation_state \<Rightarrow> coop_outcome" where
  "ping_console r t i elapsed s =
     attempt (observe_deadlines elapsed s) (\<lambda>_ s.
     require (require_role_target r Anchor t RelayConsole) s (\<lambda>_.
     require (validate_operation_id i) s (\<lambda>_.
       case ping_record s of
         Some rec \<Rightarrow> (if operation_id rec = i then Inr Replayed else Inl AlreadyPinged, s)
       | None \<Rightarrow>
           require (require_phase AwaitingPing s) s (\<lambda>_.
             (Inr Applied,
              s\<lparr>ping_record := Some \<lparr>operation_id = i, accepted_elapsed_ms = elapsed\<rparr>,
                contribs := (contribs s)\<lparr>pinged := True\<rparr>, coop_phase := AwaitingRunner\<rparr>)))))"

definition arrive_runner :: "role \<Rightarrow> target \<Rightarrow> u64 \<Rightarrow> cooperation_state \<Rightarrow> coop_outcome" where
  "arrive_runner r t elapsed s =
     attempt (observe_deadlines elapsed s) (\<lambda>_ s.
     require (require_role_target r Runner t RelayConsole) s (\<lambda>_.
     require (require_phase AwaitingRunner s) s (\<lambda>_.
       if life (runner s) \<noteq> Active \<or> current_health (runner s) = 0 then (Inl InvalidLifeState, s)
       else
         (Inr Applied,
          s\<lparr>runner := (runner s)\<lparr>current_health := 0, life := Downed\<rparr>,
            contribs := (contribs s)\<lparr>runner_arrived := True\<rparr>,
            downed_elapsed_ms := Some elapsed, coop_phase := RunnerDowned\<rparr>))))"

definition start_revive ::
  "role \<Rightarrow> role \<Rightarrow> int \<Rightarrow> string \<Rightarrow> u64 \<Rightarrow> cooperation_state \<Rightarrow> coop_outcome" where
  "start_revive r target_role distance i elapsed s =
     attempt (observe_deadlines elapsed s) (\<lambda>_ s.
     require (require_revive_authority r target_role) s (\<lambda>_.
     require (validate_distance distance) s (\<lambda>_.
     require (validate_operation_id i) s (\<lambda>_.
       if completed_revive_id s = Some i then (Inr Replayed, s)
       else if 0 < revive_count s then (Inl AlreadyRevived, s)
       else
         (case revive_record s of
            Some rec \<Rightarrow> (if operation_id rec = i then Inr Replayed else Inl ReviveChannelActive, s)
          | None \<Rightarrow>
              require (require_phase RunnerDowned s) s (\<lambda>_.
                if life (anchor s) \<noteq> Active \<or> life (runner s) \<noteq> Downed then (Inl InvalidLifeState, s)
                else
                  (Inr Applied,
                   s\<lparr>revive_record := Some \<lparr>operation_id = i, accepted_elapsed_ms = elapsed\<rparr>,
                     coop_phase := ReviveChannel\<rparr>)))))))"

text \<open>The runner is revived before the counter is checked, as in the code.\<close>

definition finish_revive :: "string \<Rightarrow> cooperation_state \<Rightarrow> coop_outcome" where
  "finish_revive i s =
     (let s1 = s\<lparr>runner := (runner s)\<lparr>current_health := min revive_health (profile_max_health (profile (runner s))),
                                        life := Active\<rparr>\<rparr>
      in case checked_add (revive_count s1) 1 of
           None \<Rightarrow> (Inl ArithmeticOverflow, s1)
         | Some n \<Rightarrow>
             (Inr Applied,
              s1\<lparr>revive_count := n, contribs := (contribs s1)\<lparr>revived := True\<rparr>,
                 completed_revive_id := Some i, revive_record := None, coop_phase := EncounterActive\<rparr>))"

definition observe_revive ::
  "role \<Rightarrow> role \<Rightarrow> int \<Rightarrow> string \<Rightarrow> u64 \<Rightarrow> cooperation_state \<Rightarrow> coop_outcome" where
  "observe_revive r target_role distance i elapsed s =
     attempt (observe_deadlines elapsed s) (\<lambda>_ s.
     require (require_revive_authority r target_role) s (\<lambda>_.
     require (validate_operation_id i) s (\<lambda>_.
       if completed_revive_id s = Some i then (Inr Replayed, s)
       else
         require (require_phase ReviveChannel s) s (\<lambda>_.
         require (ok_or (WrongPhase ReviveChannel (coop_phase s)) (revive_record s)) s (\<lambda>rec.
           if operation_id rec \<noteq> i then (Inl OperationConflict, s)
           else if distance < 0 then (Inl (OutOfRange distance), s)
           else if max_revive_distance_squared < distance
           then (Inr Cancelled, s\<lparr>revive_record := None, coop_phase := RunnerDowned\<rparr>)
           else
             require (ok_or TimeReversal (checked_sub elapsed (accepted_elapsed_ms rec))) s (\<lambda>channel_elapsed.
               if channel_elapsed < revive_channel_ms then (Inr Pending, s)
               else finish_revive (operation_id rec) s))))))"

definition complete_warden :: "u64 \<Rightarrow> cooperation_state \<Rightarrow> coop_outcome" where
  "complete_warden elapsed s =
     (if terminal s = Some OperationSucceeded then (Inr Replayed, s)
      else
        attempt (observe_deadlines elapsed s) (\<lambda>_ s.
        require (require_phase EncounterActive s) s (\<lambda>_.
          let s1 = s\<lparr>contribs := (contribs s)\<lparr>warden_completed := True\<rparr>\<rparr>
          in if \<not> contributions_complete (contribs s1) then (Inl IncompleteContributions, s1)
             else (Inr Applied, commit_terminal OperationSucceeded s1))))"

definition at_role :: "role \<Rightarrow> cooperation_state \<Rightarrow> participant_state" where
  "at_role r s = (case r of Anchor \<Rightarrow> anchor s | Runner \<Rightarrow> runner s)"

definition defeat_participant :: "role \<Rightarrow> u64 \<Rightarrow> cooperation_state \<Rightarrow> coop_outcome" where
  "defeat_participant r elapsed s =
     attempt (observe_deadlines elapsed s) (\<lambda>_ s.
     require (require_phase EncounterActive s) s (\<lambda>_.
       let p = (at_role r s)\<lparr>current_health := 0, life := Defeated\<rparr>;
           s1 = (case r of Anchor \<Rightarrow> s\<lparr>anchor := p\<rparr> | Runner \<Rightarrow> s\<lparr>runner := p\<rparr>)
       in (Inr Applied, commit_terminal FailedParticipantDefeated s1)))"

definition disconnect :: "role \<Rightarrow> u64 \<Rightarrow> cooperation_state \<Rightarrow> coop_outcome" where
  "disconnect r elapsed s =
     (if terminal s = Some AbandonedDisconnect then (Inr Replayed, s)
      else
        attempt (observe_deadlines elapsed s) (\<lambda>_ s.
          (Inr Applied, commit_terminal AbandonedDisconnect s)))"

section \<open>Calls\<close>

datatype coop_call =
    ArriveAnchor role target u64
  | PingConsole role target string u64
  | ArriveRunner role target u64
  | StartRevive role role int string u64
  | ObserveRevive role role int string u64
  | CompleteWarden u64
  | DefeatParticipant role u64
  | Disconnect role u64
  | ObserveDeadlines u64

fun coop_invoke :: "coop_call \<Rightarrow> cooperation_state \<Rightarrow> coop_outcome" where
  "coop_invoke (ArriveAnchor r t e) s = arrive_anchor r t e s"
| "coop_invoke (PingConsole r t i e) s = ping_console r t i e s"
| "coop_invoke (ArriveRunner r t e) s = arrive_runner r t e s"
| "coop_invoke (StartRevive r t d i e) s = start_revive r t d i e s"
| "coop_invoke (ObserveRevive r t d i e) s = observe_revive r t d i e s"
| "coop_invoke (CompleteWarden e) s = complete_warden e s"
| "coop_invoke (DefeatParticipant r e) s = defeat_participant r e s"
| "coop_invoke (Disconnect r e) s = disconnect r e s"
| "coop_invoke (ObserveDeadlines e) s = observe_deadlines e s"

definition coop_exec :: "coop_call \<Rightarrow> cooperation_state \<Rightarrow> cooperation_state" where
  "coop_exec c s = snd (coop_invoke c s)"

section \<open>Invariant\<close>

text \<open>What has been done, recorded and who stands in each phase.\<close>

definition waiting :: "cooperation_state \<Rightarrow> bool" where
  "waiting s \<longleftrightarrow> life (runner s) = Active \<and> 0 < current_health (runner s) \<and> \<not> runner_arrived (contribs s) \<and>
     \<not> revived (contribs s) \<and> revive_count s = 0 \<and> downed_elapsed_ms s = None \<and>
     completed_revive_id s = None"

definition fallen :: "cooperation_state \<Rightarrow> bool" where
  "fallen s \<longleftrightarrow> life (runner s) = Downed \<and> current_health (runner s) = 0 \<and>
     anchor_arrived (contribs s) \<and> pinged (contribs s) \<and> runner_arrived (contribs s) \<and>
     \<not> revived (contribs s) \<and> revive_count s = 0 \<and> downed_elapsed_ms s \<noteq> None \<and>
     completed_revive_id s = None"

definition standing :: "cooperation_state \<Rightarrow> bool" where
  "standing s \<longleftrightarrow> life (runner s) = Active \<and> current_health (runner s) = 50 \<and>
     anchor_arrived (contribs s) \<and> pinged (contribs s) \<and> runner_arrived (contribs s) \<and>
     revived (contribs s) \<and> revive_count s = 1 \<and> completed_revive_id s \<noteq> None"

fun phase_ok :: "phase \<Rightarrow> cooperation_state \<Rightarrow> bool" where
  "phase_ok AwaitingAnchor s \<longleftrightarrow> waiting s \<and> \<not> anchor_arrived (contribs s) \<and> \<not> pinged (contribs s) \<and>
     ping_record s = None"
| "phase_ok AwaitingPing s \<longleftrightarrow> waiting s \<and> anchor_arrived (contribs s) \<and> \<not> pinged (contribs s) \<and>
     ping_record s = None"
| "phase_ok AwaitingRunner s \<longleftrightarrow> waiting s \<and> anchor_arrived (contribs s) \<and> pinged (contribs s) \<and>
     ping_record s \<noteq> None"
| "phase_ok RunnerDowned s \<longleftrightarrow> fallen s \<and> ping_record s \<noteq> None"
| "phase_ok ReviveChannel s \<longleftrightarrow> fallen s \<and> ping_record s \<noteq> None"
| "phase_ok EncounterActive s \<longleftrightarrow> standing s \<and> ping_record s \<noteq> None"
| "phase_ok Succeeded s \<longleftrightarrow> standing s \<and> ping_record s \<noteq> None"
| "phase_ok Failed s \<longleftrightarrow> True"

definition coop_ok :: "cooperation_state \<Rightarrow> bool" where
  "coop_ok s \<longleftrightarrow>
     phase_ok (coop_phase s) s \<and>
     (case terminal s of None \<Rightarrow> \<not> is_terminal (coop_phase s) \<and> life (anchor s) = Active
      | Some outcome \<Rightarrow> coop_phase s = (if outcome = OperationSucceeded then Succeeded else Failed)) \<and>
     (warden_completed (contribs s) \<longleftrightarrow> terminal s = Some OperationSucceeded) \<and>
     (coop_phase s = ReviveChannel \<longleftrightarrow> revive_record s \<noteq> None) \<and>
     revive_count s \<le> 1 \<and> (revived (contribs s) \<longleftrightarrow> revive_count s = 1) \<and>
     50 \<le> profile_max_health (profile (runner s))"

lemmas coop_ok_defs = coop_ok_def waiting_def fallen_def standing_def

section \<open>Progress\<close>

text \<open>
  The state changes a call can make, as a step relation: which call, in which phase and
  under which conditions, with which result. \<open>running\<close> says that no deadline has passed.
\<close>

definition running :: "u64 \<Rightarrow> cooperation_state \<Rightarrow> bool" where
  "running e s \<longleftrightarrow> terminal s = None \<and> pending_timeout e s = None"

fun call_time :: "coop_call \<Rightarrow> u64" where
  "call_time (ArriveAnchor r t e) = e"
| "call_time (PingConsole r t i e) = e"
| "call_time (ArriveRunner r t e) = e"
| "call_time (StartRevive r t d i e) = e"
| "call_time (ObserveRevive r t d i e) = e"
| "call_time (CompleteWarden e) = e"
| "call_time (DefeatParticipant r e) = e"
| "call_time (Disconnect r e) = e"
| "call_time (ObserveDeadlines e) = e"

inductive coop_progress ::
  "coop_call \<Rightarrow> cooperation_error + mutation_disposition \<Rightarrow> cooperation_state \<Rightarrow> cooperation_state \<Rightarrow> bool" where
  expire: "terminal s = None \<Longrightarrow> pending_timeout (call_time c) s = Some outcome \<Longrightarrow>
    coop_progress c (Inl (DeadlineExpired outcome)) s (commit_terminal outcome s)"
| anchored: "running e s \<Longrightarrow> coop_phase s = AwaitingAnchor \<Longrightarrow>
    coop_progress (ArriveAnchor Anchor RelayAnchor e) (Inr Applied) s
      (s\<lparr>contribs := (contribs s)\<lparr>anchor_arrived := True\<rparr>, coop_phase := AwaitingPing\<rparr>)"
| pinged: "running e s \<Longrightarrow> coop_phase s = AwaitingPing \<Longrightarrow> validate_operation_id i = Inr () \<Longrightarrow>
    coop_progress (PingConsole Anchor RelayConsole i e) (Inr Applied) s
      (s\<lparr>ping_record := Some \<lparr>operation_id = i, accepted_elapsed_ms = e\<rparr>,
         contribs := (contribs s)\<lparr>pinged := True\<rparr>, coop_phase := AwaitingRunner\<rparr>)"
| downed: "running e s \<Longrightarrow> coop_phase s = AwaitingRunner \<Longrightarrow>
    coop_progress (ArriveRunner Runner RelayConsole e) (Inr Applied) s
      (s\<lparr>runner := (runner s)\<lparr>current_health := 0, life := Downed\<rparr>,
         contribs := (contribs s)\<lparr>runner_arrived := True\<rparr>,
         downed_elapsed_ms := Some e, coop_phase := RunnerDowned\<rparr>)"
| channelled: "running e s \<Longrightarrow> coop_phase s = RunnerDowned \<Longrightarrow> validate_operation_id i = Inr () \<Longrightarrow>
    0 \<le> d \<Longrightarrow> d \<le> 4 \<Longrightarrow>
    coop_progress (StartRevive Anchor Runner d i e) (Inr Applied) s
      (s\<lparr>revive_record := Some \<lparr>operation_id = i, accepted_elapsed_ms = e\<rparr>, coop_phase := ReviveChannel\<rparr>)"
| cancelled: "running e s \<Longrightarrow> coop_phase s = ReviveChannel \<Longrightarrow> revive_record s = Some rec \<Longrightarrow>
    operation_id rec = i \<Longrightarrow> 4 < d \<Longrightarrow>
    coop_progress (ObserveRevive Anchor Runner d i e) (Inr Cancelled) s
      (s\<lparr>revive_record := None, coop_phase := RunnerDowned\<rparr>)"
| revived: "running e s \<Longrightarrow> coop_phase s = ReviveChannel \<Longrightarrow> revive_record s = Some rec \<Longrightarrow>
    operation_id rec = i \<Longrightarrow> 0 \<le> d \<Longrightarrow> d \<le> 4 \<Longrightarrow>
    unat (accepted_elapsed_ms rec) + 2000 \<le> unat e \<Longrightarrow>
    coop_progress (ObserveRevive Anchor Runner d i e) (Inr Applied) s
      (s\<lparr>runner := (runner s)\<lparr>current_health := 50, life := Active\<rparr>,
         revive_count := 1, contribs := (contribs s)\<lparr>revived := True\<rparr>,
         completed_revive_id := Some i, revive_record := None, coop_phase := EncounterActive\<rparr>)"
| succeeded: "running e s \<Longrightarrow> coop_phase s = EncounterActive \<Longrightarrow>
    coop_progress (CompleteWarden e) (Inr Applied) s
      (commit_terminal OperationSucceeded (s\<lparr>contribs := (contribs s)\<lparr>warden_completed := True\<rparr>\<rparr>))"
| anchor_defeated: "running e s \<Longrightarrow> coop_phase s = EncounterActive \<Longrightarrow>
    coop_progress (DefeatParticipant Anchor e) (Inr Applied) s
      (commit_terminal FailedParticipantDefeated (s\<lparr>anchor := (anchor s)\<lparr>current_health := 0, life := Defeated\<rparr>\<rparr>))"
| runner_defeated: "running e s \<Longrightarrow> coop_phase s = EncounterActive \<Longrightarrow>
    coop_progress (DefeatParticipant Runner e) (Inr Applied) s
      (commit_terminal FailedParticipantDefeated (s\<lparr>runner := (runner s)\<lparr>current_health := 0, life := Defeated\<rparr>\<rparr>))"
| abandoned: "running e s \<Longrightarrow>
    coop_progress (Disconnect r e) (Inr Applied) s (commit_terminal AbandonedDisconnect s)"

inductive_cases coop_progressE: "coop_progress c q s s'"

lemma timeout_is_failure: "pending_timeout e s = Some outcome \<Longrightarrow> outcome \<noteq> OperationSucceeded"
  by (auto simp: pending_timeout_def split: phase.splits option.splits if_splits)

text \<open>The invariant survives every step.\<close>

lemma progress_ok: "coop_progress c q s s' \<Longrightarrow> coop_ok s \<Longrightarrow> coop_ok s'"
proof (induction rule: coop_progress.induct)
  case (expire s c outcome)
  then show ?case using timeout_is_failure by (auto simp: coop_ok_def commit_terminal_def)
qed (auto simp: coop_ok_defs commit_terminal_def running_def)

section \<open>The operations make exactly these steps\<close>

text \<open>A call that is refused, replayed or still pending changes nothing. Three errors of the
  code guard against states that no history reaches.\<close>

definition unchanged :: "cooperation_error + mutation_disposition \<Rightarrow> bool" where
  "unchanged q \<longleftrightarrow> q \<noteq> Inr Applied \<and> q \<noteq> Inr Cancelled \<and> q \<noteq> Inl ArithmeticOverflow \<and>
     q \<noteq> Inl IncompleteContributions \<and> q \<noteq> Inl InvalidLifeState"

definition conforms ::
  "coop_call \<Rightarrow> cooperation_error + mutation_disposition \<Rightarrow> cooperation_state \<Rightarrow> cooperation_state \<Rightarrow> bool" where
  "conforms c q s s' \<longleftrightarrow> s' = s \<and> unchanged q \<or> coop_progress c q s s'"

lemma guarded:
  assumes "attempt (observe_deadlines e s) k = (q, s')" and "call_time c = e"
    and "running e s \<Longrightarrow> k Pending s = (q, s') \<Longrightarrow> conforms c q s s'"
  shows "conforms c q s s'"
proof (cases "terminal s")
  case None
  show ?thesis
  proof (cases "pending_timeout e s")
    case (Some outcome)
    then have "coop_progress c (Inl (DeadlineExpired outcome)) s (commit_terminal outcome s)"
      using None assms(2) by (intro expire) simp_all
    then show ?thesis using assms(1) None Some by (auto simp: observe_deadlines_def conforms_def)
  next
    case 2: None
    then show ?thesis
      using assms(1,3) None by (simp add: observe_deadlines_def running_def)
  qed
next
  case (Some outcome)
  then show ?thesis using assms(1) by (auto simp: observe_deadlines_def conforms_def unchanged_def)
qed

lemma check_errors [simp]:
  "require_role_target r x t y = Inl e \<Longrightarrow> unchanged (Inl e)"
  "require_revive_authority r t' = Inl e \<Longrightarrow> unchanged (Inl e)"
  "validate_distance d = Inl e \<Longrightarrow> unchanged (Inl e)"
  "validate_operation_id i = Inl e \<Longrightarrow> unchanged (Inl e)"
  "require_phase p s = Inl e \<Longrightarrow> unchanged (Inl e)"
  by (auto simp: coop_checks unchanged_def split: if_splits)

lemma refusals [simp]:
  "unchanged (Inl AlreadyPinged)" "unchanged (Inl AlreadyRevived)" "unchanged (Inl ReviveChannelActive)"
  "unchanged (Inl OperationConflict)" "unchanged (Inl (OutOfRange d))" "unchanged (Inl TimeReversal)"
  "unchanged (Inl (WrongPhase p p'))" "unchanged (Inr Replayed)" "unchanged (Inr Pending)"
  by (simp_all add: unchanged_def)

lemma check_passes:
  "require_role_target r x t y = Inr u \<longleftrightarrow> r = x \<and> t = y"
  "require_revive_authority r t' = Inr u \<longleftrightarrow> r = Anchor \<and> t' = Runner"
  "validate_distance d = Inr u \<longleftrightarrow> 0 \<le> d \<and> d \<le> 4"
  "require_phase p s = Inr u \<longleftrightarrow> coop_phase s = p"
  by (auto simp: require_role_target_def require_revive_authority_def validate_distance_def
    require_phase_def coop_consts)

lemmas conform_simps = require_eq check_passes conforms_def

lemma anchor_conforms:
  assumes "arrive_anchor r t e s = (q, s')"
  shows "conforms (ArriveAnchor r t e) q s s'"
  using assms unfolding arrive_anchor_def
  by (rule guarded) (auto simp: conform_simps intro: anchored)

lemma ping_conforms:
  assumes "ping_console r t i e s = (q, s')"
  shows "conforms (PingConsole r t i e) q s s'"
  using assms unfolding ping_console_def
  by (rule guarded)
    (auto simp: conform_simps split: option.splits if_splits intro: pinged)

lemma runner_conforms:
  assumes "arrive_runner r t e s = (q, s')" and "coop_ok s"
  shows "conforms (ArriveRunner r t e) q s s'"
  using assms(1) unfolding arrive_runner_def
proof (rule guarded)
  assume "require (require_role_target r Runner t RelayConsole) s (\<lambda>_.
     require (require_phase AwaitingRunner s) s (\<lambda>_.
       if life (runner s) \<noteq> Active \<or> current_health (runner s) = 0 then (Inl InvalidLifeState, s)
       else (Inr Applied, s\<lparr>runner := (runner s)\<lparr>current_health := 0, life := Downed\<rparr>,
            contribs := (contribs s)\<lparr>runner_arrived := True\<rparr>,
            downed_elapsed_ms := Some e, coop_phase := RunnerDowned\<rparr>))) = (q, s')" and "running e s"
  moreover have "coop_phase s = AwaitingRunner \<Longrightarrow> \<not> (life (runner s) \<noteq> Active \<or> current_health (runner s) = 0)"
    using assms(2) by (auto simp: coop_ok_defs)
  ultimately show "conforms (ArriveRunner r t e) q s s'"
    by (auto simp: conform_simps intro: downed)
qed simp

lemma downed_lives:
  "coop_ok s \<Longrightarrow> running e s \<Longrightarrow> coop_phase s = RunnerDowned \<Longrightarrow>
     life (anchor s) = Active \<and> life (runner s) = Downed"
  by (simp add: coop_ok_defs running_def)

lemma start_revive_conforms:
  assumes "start_revive r t d i e s = (q, s')" and "coop_ok s"
  shows "conforms (StartRevive r t d i e) q s s'"
  using assms(1) unfolding start_revive_def
proof (rule guarded, goal_cases)
  case 2
  then show ?case
    using downed_lives [OF assms(2)]
    by (auto simp: conform_simps split: option.splits if_splits intro!: channelled)
qed simp

lemma observe_revive_conforms:
  assumes "observe_revive r t d i e s = (q, s')" and "coop_ok s"
  shows "conforms (ObserveRevive r t d i e) q s s'"
proof -
  have c: "checked_add (0 :: u8) 1 = Some 1" by (simp add: checked_add_def)
  have finish: "finish_revive i s = (Inr Applied,
      s\<lparr>runner := (runner s)\<lparr>current_health := 50, life := Active\<rparr>,
         revive_count := 1, contribs := (contribs s)\<lparr>revived := True\<rparr>,
         completed_revive_id := Some i, revive_record := None, coop_phase := EncounterActive\<rparr>)"
    if "coop_phase s = ReviveChannel" for i
    using assms(2) that c by (auto simp: finish_revive_def Let_def coop_ok_defs coop_consts min_def)
  have late: "\<not> k < revive_channel_ms \<Longrightarrow> checked_sub e a = Some k \<Longrightarrow> unat a + 2000 \<le> unat e" for k a
    by (auto simp: checked_sub_Some revive_channel_ms_def word_less_nat_alt)
  show ?thesis
    using assms(1) unfolding observe_revive_def
    by (rule guarded)
      (auto simp: conform_simps ok_or_Inl ok_or_Inr finish max_revive_distance_squared_def
        split: if_splits intro: revived cancelled late)
qed

lemma complete_conforms:
  assumes "complete_warden e s = (q, s')" and "coop_ok s"
  shows "conforms (CompleteWarden e) q s s'"
proof (cases "terminal s = Some OperationSucceeded")
  case True
  then show ?thesis using assms by (auto simp: complete_warden_def conforms_def unchanged_def)
next
  case False
  have all: "coop_phase s = EncounterActive \<Longrightarrow>
      contributions_complete ((contribs s)\<lparr>warden_completed := True\<rparr>)"
    using assms(2) by (simp add: coop_ok_defs contributions_complete_def)
  from assms(1) False have "attempt (observe_deadlines e s) (\<lambda>_ s.
        require (require_phase EncounterActive s) s (\<lambda>_.
          let s1 = s\<lparr>contribs := (contribs s)\<lparr>warden_completed := True\<rparr>\<rparr>
          in if \<not> contributions_complete (contribs s1) then (Inl IncompleteContributions, s1)
             else (Inr Applied, commit_terminal OperationSucceeded s1))) = (q, s')"
    by (simp add: complete_warden_def)
  then show ?thesis
    by (rule guarded) (auto simp: conform_simps Let_def all intro: succeeded)
qed

lemma defeat_conforms:
  assumes "defeat_participant r e s = (q, s')"
  shows "conforms (DefeatParticipant r e) q s s'"
  using assms unfolding defeat_participant_def
  by (rule guarded)
    (cases r; auto simp: conform_simps Let_def at_role_def intro: anchor_defeated runner_defeated)+

lemma disconnect_conforms:
  assumes "disconnect r e s = (q, s')"
  shows "conforms (Disconnect r e) q s s'"
proof (cases "terminal s = Some AbandonedDisconnect")
  case True
  then show ?thesis using assms by (auto simp: disconnect_def conforms_def unchanged_def)
next
  case False
  then have "attempt (observe_deadlines e s) (\<lambda>_ s. (Inr Applied, commit_terminal AbandonedDisconnect s)) = (q, s')"
    using assms by (simp add: disconnect_def)
  then show ?thesis by (rule guarded) (auto simp: conforms_def intro: abandoned)
qed

lemma observe_conforms:
  assumes "observe_deadlines e s = (q, s')"
  shows "conforms (ObserveDeadlines e) q s s'"
proof -
  have "attempt (observe_deadlines e s) (\<lambda>d s. (Inr d, s)) = (q, s')"
    using assms by (cases q) (auto simp: attempt_def)
  then show ?thesis by (rule guarded) (auto simp: conforms_def unchanged_def)
qed

lemma invoke_conforms: "coop_invoke c s = (q, s') \<Longrightarrow> coop_ok s \<Longrightarrow> conforms c q s s'"
  by (cases c)
    (auto intro: anchor_conforms ping_conforms runner_conforms start_revive_conforms observe_revive_conforms
      complete_conforms defeat_conforms disconnect_conforms observe_conforms)

lemma progress_open: "coop_progress c q s s' \<Longrightarrow> terminal s = None"
  by (induction rule: coop_progress.induct) (simp_all add: running_def)

lemma exec_conforms: "coop_ok s \<Longrightarrow> \<exists>q. conforms c q s (coop_exec c s)"
  using invoke_conforms [of c s] by (metis coop_exec_def surjective_pairing)

interpretation coop: lifecycle coop_exec coop_ok "\<lambda>s. terminal s \<noteq> None"
proof unfold_locales
  fix s c
  assume ok: "coop_ok s"
  then obtain q where q: "conforms c q s (coop_exec c s)" using exec_conforms by blast
  show "coop_ok (coop_exec c s)" using q ok progress_ok by (auto simp: conforms_def)
  show "terminal s \<noteq> None \<Longrightarrow> coop_exec c s = s" using q progress_open by (fastforce simp: conforms_def)
qed

lemma start_ok: "start_with_health i profiles healths = Inr s \<Longrightarrow> coop_ok s \<and> coop_phase s = AwaitingAnchor"
  by (auto simp: start_with_health_def result_iffs coop_ok_defs no_contributions_def profile_is_valid_def
    revive_health_def word_gt_0)

text \<open>
  C13 (refinement): in every state a cooperation can reach, a call either makes one step of
  the relation \<open>coop_progress\<close>, with that step's result, or changes nothing at all. In particular
  the errors for an overflowing revive counter, an incomplete success and an invalid life
  state, two of which would leave the state half updated, never occur.
\<close>

theorem coop_calls_refine:
  assumes "start_with_health i profiles healths = Inr s0"
    and "coop_invoke c (fold coop_exec calls s0) = (q, s')"
  shows "conforms c q (fold coop_exec calls s0) s'"
  using invoke_conforms [OF assms(2)] coop.good_history start_ok [OF assms(1)] by blast

text \<open>
  An outcome is final. Once a call has committed success, a timeout, a defeat
  or an abandonment, no sequence of further calls, retries included, changes the state or the reward.
\<close>

theorem coop_outcome_final:
  assumes "start_with_health i profiles healths = Inr s0"
    and "terminal (fold coop_exec calls s0) = Some outcome"
  shows "fold coop_exec (calls @ later) s0 = fold coop_exec calls s0 \<and>
    reward (fold coop_exec (calls @ later) s0) =
      (if outcome = OperationSucceeded then Some (success_reward, success_reward) else None)"
  using coop.final_suffix [of s0 calls later] start_ok [OF assms(1)] assms(2) by (simp add: reward_def)

section \<open>Time\<close>

lemma late_timeout: "60000 < e \<Longrightarrow> pending_timeout e s \<noteq> None"
  by (auto simp: pending_timeout_def operation_duration_ms_def split: option.splits)

lemma late_observation:
  assumes "60000 < e"
  shows "\<exists>x s'. observe_deadlines e s = (Inl x, s') \<and> terminal s' \<noteq> None"
  using late_timeout [OF assms, of s]
  by (auto simp: observe_deadlines_def commit_terminal_def split: option.splits)

lemma late_attempt:
  "60000 < e \<Longrightarrow> \<exists>outcome. terminal (snd (attempt (observe_deadlines e s) k)) = Some outcome"
  using late_observation [of e s] by auto

lemma late_call: "60000 < call_time c \<Longrightarrow> terminal (coop_exec c s) \<noteq> None"
  using late_observation [of "call_time c" s]
  by (cases c)
    (auto simp: coop_exec_def late_attempt arrive_anchor_def ping_console_def arrive_runner_def
      start_revive_def observe_revive_def complete_warden_def defeat_participant_def disconnect_def)

text \<open>
  C14 (termination): no cooperation outlives its minute. A history that contains any call,
  accepted or not, made more than 60 s after the start ends in a terminal outcome.
\<close>

theorem coop_always_ends:
  assumes "start_with_health i profiles healths = Inr s0"
    and "c \<in> set calls" and "60000 < call_time c"
  shows "terminal (fold coop_exec calls s0) \<noteq> None"
proof -
  obtain before later where "calls = before @ c # later" using assms(2) by (meson split_list)
  moreover have "terminal (fold coop_exec (before @ [c]) s0) \<noteq> None"
    using late_call [OF assms(3)] by simp
  ultimately show ?thesis
    using coop.final_suffix [of s0 "before @ [c]" later] start_ok [OF assms(1)] by simp
qed

section \<open>How a reward is earned\<close>

lemma not_after: "\<not> is_strictly_after e a d \<Longrightarrow> unat e \<le> unat a + unat d"
  by (auto simp: is_strictly_after_def checked_add_Some word_less_nat_alt split: option.splits)

lemma running_time: "running e s \<Longrightarrow> e \<le> 60000"
  by (auto simp: running_def pending_timeout_def operation_duration_ms_def not_less split: option.splits if_splits)

lemma running_ping:
  "running e s \<Longrightarrow> coop_phase s = AwaitingRunner \<Longrightarrow> ping_record s = Some rec \<Longrightarrow>
     unat e \<le> unat (accepted_elapsed_ms rec) + 5000"
  using not_after [of e "accepted_elapsed_ms rec" ping_ttl_ms]
  by (auto simp: running_def pending_timeout_def ping_ttl_ms_def split: if_splits)

lemma running_downed:
  "running e s \<Longrightarrow> coop_phase s = RunnerDowned \<or> coop_phase s = ReviveChannel \<Longrightarrow> downed_elapsed_ms s = Some a \<Longrightarrow>
     unat e \<le> unat a + 15000"
  using not_after [of e a revive_window_ms]
  by (auto simp: running_def pending_timeout_def revive_window_ms_def split: if_splits)

lemma subseq_skip: "subseq xs ys \<Longrightarrow> subseq xs (ys @ [c])"
  by (meson prefixI prefix_imp_subseq subseq_order.trans)

lemma subseq_take: "subseq xs ys \<Longrightarrow> subseq (xs @ [c]) (ys @ [c])"
  by (simp add: list_emb_append_mono)

lemma subseq_take_simps:
  "subseq [] ys \<Longrightarrow> subseq [c] (ys @ [c])"
  "subseq [a1] ys \<Longrightarrow> subseq [a1, c] (ys @ [c])"
  "subseq [a1, a2] ys \<Longrightarrow> subseq [a1, a2, c] (ys @ [c])"
  "subseq [a1, a2, a3] ys \<Longrightarrow> subseq [a1, a2, a3, c] (ys @ [c])"
  "subseq [a1, a2, a3, a4] ys \<Longrightarrow> subseq [a1, a2, a3, a4, c] (ys @ [c])"
  "subseq [a1, a2, a3, a4, a5] ys \<Longrightarrow> subseq [a1, a2, a3, a4, a5, c] (ys @ [c])"
  using subseq_take [of "[]"] subseq_take [of "[a1]"] subseq_take [of "[a1, a2]"] subseq_take [of "[a1, a2, a3]"]
    subseq_take [of "[a1, a2, a3, a4]"] subseq_take [of "[a1, a2, a3, a4, a5]"]
  by simp_all

text \<open>The calls behind the current phase, in order, with the times they were made at.\<close>

fun earned :: "phase \<Rightarrow> coop_call list \<Rightarrow> cooperation_state \<Rightarrow> bool" where
  "earned AwaitingPing calls s \<longleftrightarrow> (\<exists>e1. subseq [ArriveAnchor Anchor RelayAnchor e1] calls)"
| "earned AwaitingRunner calls s \<longleftrightarrow> (\<exists>e1 i e2.
     subseq [ArriveAnchor Anchor RelayAnchor e1, PingConsole Anchor RelayConsole i e2] calls \<and>
     ping_record s = Some \<lparr>operation_id = i, accepted_elapsed_ms = e2\<rparr>)"
| "earned RunnerDowned calls s \<longleftrightarrow> (\<exists>e1 i e2 e3.
     subseq [ArriveAnchor Anchor RelayAnchor e1, PingConsole Anchor RelayConsole i e2,
       ArriveRunner Runner RelayConsole e3] calls \<and>
     unat e3 \<le> unat e2 + 5000 \<and> downed_elapsed_ms s = Some e3)"
| "earned ReviveChannel calls s \<longleftrightarrow> (\<exists>e1 i e2 e3 d j e4.
     subseq [ArriveAnchor Anchor RelayAnchor e1, PingConsole Anchor RelayConsole i e2,
       ArriveRunner Runner RelayConsole e3, StartRevive Anchor Runner d j e4] calls \<and>
     unat e3 \<le> unat e2 + 5000 \<and> downed_elapsed_ms s = Some e3 \<and>
     revive_record s = Some \<lparr>operation_id = j, accepted_elapsed_ms = e4\<rparr>)"
| "earned EncounterActive calls s \<longleftrightarrow> (\<exists>e1 i e2 e3 d j e4 d' e5.
     subseq [ArriveAnchor Anchor RelayAnchor e1, PingConsole Anchor RelayConsole i e2,
       ArriveRunner Runner RelayConsole e3, StartRevive Anchor Runner d j e4,
       ObserveRevive Anchor Runner d' j e5] calls \<and>
     unat e3 \<le> unat e2 + 5000 \<and> unat e4 + 2000 \<le> unat e5 \<and> unat e5 \<le> unat e3 + 15000)"
| "earned Succeeded calls s \<longleftrightarrow> (\<exists>e1 i e2 e3 d j e4 d' e5 e6.
     subseq [ArriveAnchor Anchor RelayAnchor e1, PingConsole Anchor RelayConsole i e2,
       ArriveRunner Runner RelayConsole e3, StartRevive Anchor Runner d j e4,
       ObserveRevive Anchor Runner d' j e5, CompleteWarden e6] calls \<and>
     unat e3 \<le> unat e2 + 5000 \<and> unat e4 + 2000 \<le> unat e5 \<and> unat e5 \<le> unat e3 + 15000 \<and> e6 \<le> 60000)"
| "earned p calls s \<longleftrightarrow> True"

lemma earned_skip: "earned p calls s \<Longrightarrow> earned p (calls @ [c]) s"
  by (cases p) (simp_all; blast intro: subseq_skip)+

lemma earned_progress:
  assumes "coop_progress c q s s'" and "coop_ok s" and "earned (coop_phase s) calls s"
  shows "earned (coop_phase s') (calls @ [c]) s'"
  using assms
proof (induction rule: coop_progress.induct)
  case (expire s c outcome)
  then show ?case using timeout_is_failure by (simp add: commit_terminal_def)
next
  case (anchored e s)
  then show ?case using subseq_take_simps(1) by fastforce
next
  case (pinged e s i)
  then show ?case by simp (blast intro: subseq_take_simps)
next
  case (downed e s)
  then show ?case using running_ping [OF downed(1,2)] by simp (fastforce intro: subseq_take_simps)
next
  case (channelled e s i d)
  then show ?case by simp (blast intro: subseq_take_simps)
next
  case (cancelled e s rec i d)
  have "subseq [a1, a2, a3] (calls @ [c])" if "subseq [a1, a2, a3, a4] calls" for a1 a2 a3 a4 c
    using subseq_skip [OF subseq_order.trans [OF _ that, of "[a1, a2, a3]"]] by simp
  then show ?case using cancelled by simp blast
next
  case (revived e s rec i d)
  then show ?case using running_downed [OF revived(1) disjI2 [OF revived(2)]] by simp (fastforce intro: subseq_take_simps)
next
  case (succeeded e s)
  then show ?case using running_time [OF succeeded(1)] by (simp add: commit_terminal_def) (blast intro: subseq_take_simps)
qed (simp_all add: commit_terminal_def)

lemma earned_history:
  assumes "coop_ok s0" and "coop_phase s0 = AwaitingAnchor"
  shows "earned (coop_phase (fold coop_exec calls s0)) calls (fold coop_exec calls s0)"
proof (induction calls rule: rev_induct)
  case Nil
  then show ?case using assms(2) by simp
next
  case (snoc c calls)
  let ?s = "fold coop_exec calls s0"
  have ok: "coop_ok ?s" by (rule coop.good_history [OF assms(1)])
  obtain q where "conforms c q ?s (coop_exec c ?s)" using exec_conforms [OF ok] by blast
  then show ?case
    using snoc.IH earned_skip [of "coop_phase ?s" calls ?s c] earned_progress [OF _ ok snoc.IH, of c q "coop_exec c ?s"]
    by (auto simp: conforms_def)
qed

text \<open>
  C15 (invariant): a reward is earned. A cooperation that pays its reward has every
  contribution recorded, exactly one revive and a runner on its feet at 50 health; and its history contains, in this order, the
  anchor's arrival, the anchor's ping, the runner's arrival at most 5 s after that ping, a
  revive channel, its completion with the same operation id, held for at least 2 s and at
  most 15 s after the runner fell, and the completion of the encounter within the minute.
\<close>

theorem coop_reward_earned:
  assumes "start_with_health i profiles healths = Inr s0"
    and "reward (fold coop_exec calls s0) \<noteq> None"
  shows "contributions_complete (contribs (fold coop_exec calls s0)) \<and>
    revive_count (fold coop_exec calls s0) = 1 \<and>
    life (runner (fold coop_exec calls s0)) = Active \<and> current_health (runner (fold coop_exec calls s0)) = 50 \<and>
    (\<exists>e1 p e2 e3 d j e4 d' e5 e6.
       subseq [ArriveAnchor Anchor RelayAnchor e1, PingConsole Anchor RelayConsole p e2,
         ArriveRunner Runner RelayConsole e3, StartRevive Anchor Runner d j e4,
         ObserveRevive Anchor Runner d' j e5, CompleteWarden e6] calls \<and>
       unat e3 \<le> unat e2 + 5000 \<and> unat e4 + 2000 \<le> unat e5 \<and> unat e5 \<le> unat e3 + 15000 \<and> e6 \<le> 60000)"
proof -
  let ?s = "fold coop_exec calls s0"
  have ok0: "coop_ok s0" "coop_phase s0 = AwaitingAnchor" using start_ok [OF assms(1)] by simp_all
  have ok: "coop_ok ?s" by (rule coop.good_history [OF ok0(1)])
  have "terminal ?s = Some OperationSucceeded" using assms(2) by (auto simp: reward_def split: if_splits)
  then have "coop_phase ?s = Succeeded" "warden_completed (contribs ?s)" using ok by (auto simp: coop_ok_def)
  then show ?thesis
    using ok earned_history [OF ok0, of calls] by (simp add: coop_ok_defs contributions_complete_def)
qed

section \<open>A cooperation from start to reward\<close>

definition coop_rifle :: combat_profile where
  "coop_rifle = \<lparr>profile_damage = 25, profile_range = 4, profile_cooldown_ms = 400, profile_max_health = 100\<rparr>"

definition coop_fresh :: cooperation_state where
  "coop_fresh = \<lparr>start_operation_id = ''op-1'', coop_phase = AwaitingAnchor,
     anchor = \<lparr>participant_role = Anchor, profile = coop_rifle, admitted_health = 80, current_health = 80, life = Active\<rparr>,
     runner = \<lparr>participant_role = Runner, profile = coop_rifle, admitted_health = 100, current_health = 100, life = Active\<rparr>,
     contribs = no_contributions, ping_record = None, downed_elapsed_ms = None, revive_record = None,
     completed_revive_id = None, revive_count = 0, terminal = None\<rparr>"

lemma id_examples [simp]:
  "validate_operation_id ''op-1'' = Inr ()" "validate_operation_id ''ping-1'' = Inr ()"
  "validate_operation_id ''rev-1'' = Inr ()"
  by (simp_all add: validate_operation_id_def max_operation_id_bytes_def is_ascii_alphanumeric_def byte_def)

lemma coop_fresh_start: "start_with_health ''op-1'' (coop_rifle, coop_rifle) (80, 100) = Inr coop_fresh"
  by (simp add: start_with_health_def coop_fresh_def profile_is_valid_def coop_rifle_def revive_health_def)

definition coop_script :: "coop_call list" where
  "coop_script = [ArriveAnchor Anchor RelayAnchor 500, PingConsole Anchor RelayConsole ''ping-1'' 1000,
     ArriveRunner Runner RelayConsole 6000, StartRevive Anchor Runner 1 ''rev-1'' 7000,
     ObserveRevive Anchor Runner 1 ''rev-1'' 8999, ObserveRevive Anchor Runner 2 ''rev-1'' 9000,
     CompleteWarden 60000]"

lemmas coop_eval = coop_exec_def arrive_anchor_def ping_console_def arrive_runner_def start_revive_def
  observe_revive_def finish_revive_def complete_warden_def observe_deadlines_def pending_timeout_def
  is_strictly_after_def checked_add_def checked_sub_def require_role_target_def require_revive_authority_def
  validate_distance_def require_phase_def coop_consts coop_fresh_def no_contributions_def coop_rifle_def
  contributions_complete_def commit_terminal_def

lemma coop_script_end:
  "terminal (fold coop_exec coop_script coop_fresh) = Some OperationSucceeded"
  by (simp add: coop_script_def coop_eval)

theorem coop_calls_refine_witness:
  "conforms (ArriveRunner Runner RelayConsole 6001) (Inl (DeadlineExpired FailedPingTimeout))
     (fold coop_exec (take 2 coop_script) coop_fresh)
     (commit_terminal FailedPingTimeout (fold coop_exec (take 2 coop_script) coop_fresh))"
proof (rule coop_calls_refine [OF coop_fresh_start])
  show "coop_invoke (ArriveRunner Runner RelayConsole 6001) (fold coop_exec (take 2 coop_script) coop_fresh) =
    (Inl (DeadlineExpired FailedPingTimeout),
     commit_terminal FailedPingTimeout (fold coop_exec (take 2 coop_script) coop_fresh))"
    by (simp add: coop_script_def coop_eval)
qed

theorem coop_outcome_final_witness:
  "reward (fold coop_exec (coop_script @ [Disconnect Runner 60500, CompleteWarden 70000]) coop_fresh) =
     Some (success_reward, success_reward)"
  by (rule trans [OF coop_outcome_final [OF coop_fresh_start coop_script_end, THEN conjunct2]]) simp

theorem coop_always_ends_witness:
  "terminal (fold coop_exec [ArriveAnchor Anchor RelayAnchor 500, ObserveDeadlines 60001] coop_fresh) \<noteq> None"
  by (rule coop_always_ends [OF coop_fresh_start, of "ObserveDeadlines 60001"]) simp_all

theorem coop_reward_earned_witness:
  "revive_count (fold coop_exec coop_script coop_fresh) = 1 \<and>
   current_health (runner (fold coop_exec coop_script coop_fresh)) = 50"
  using coop_reward_earned [OF coop_fresh_start, of coop_script] coop_script_end by (simp add: reward_def)

text \<open>The start itself is idempotent: the same request is recognised as a retry.\<close>

lemma coop_start_replays:
  assumes "start_with_health i profiles healths = Inr s0"
  shows "retry_start i profiles healths s0 = Inr Replayed"
  using assms by (auto simp: start_with_health_def retry_start_def result_iffs)

end
