(* ===== verification/Route_Catalog.thy ===== *)
theory Route_Catalog
  imports Prelude
begin

text \<open>
  The fixed data of \<open>runtime/operations/src/lib.rs\<close>: routes, their events and effects, the
  validation of the catalogs, the seeded choice of an event and the scaling of the Warden's
  health. The state machine that uses them is theory \<open>Routes\<close>.
\<close>

unbundle bit_operations_syntax

section \<open>Catalogs\<close>

definition route_operation_duration_ms :: u64 where "route_operation_duration_ms = 90000"

definition max_route_seed :: u64 where "max_route_seed = 9223372036854775807"

definition max_route_objectives :: nat where "max_route_objectives = 4"

definition basis_points :: u64 where "basis_points = 10000"

definition base_warden_counter_damage :: u32 where "base_warden_counter_damage = 15"

definition min_warden_counter_damage :: u32 where "min_warden_counter_damage = 10"

definition max_warden_counter_damage :: u32 where "max_warden_counter_damage = 20"

definition min_warden_health_basis_points :: u32 where "min_warden_health_basis_points = 10000"

definition max_warden_health_basis_points :: u32 where "max_warden_health_basis_points = 12000"

definition min_route_duration_ms :: u64 where "min_route_duration_ms = 30000"

definition max_route_duration_ms :: u64 where "max_route_duration_ms = 120000"

definition breach_salt :: u64 where "breach_salt = 0x4252454143480001"

definition stabilize_salt :: u64 where "stabilize_salt = 0x53544142494c0002"

lemmas route_consts = route_operation_duration_ms_def max_route_seed_def max_route_objectives_def
  basis_points_def base_warden_counter_damage_def min_warden_counter_damage_def
  max_warden_counter_damage_def min_warden_health_basis_points_def max_warden_health_basis_points_def
  min_route_duration_ms_def max_route_duration_ms_def

datatype route_id = Breach | Stabilize

definition all_routes :: "route_id list" where
  "all_routes = [Breach, Stabilize]"

fun route_as_str :: "route_id \<Rightarrow> string" where
  "route_as_str Breach = ''breach''"
| "route_as_str Stabilize = ''stabilize''"

datatype event_id = OverchargedArmor | ArcSurge | ShieldedChannel | ResidualFeedback

definition all_events :: "event_id list" where
  "all_events = [OverchargedArmor, ArcSurge, ShieldedChannel, ResidualFeedback]"

fun event_as_str :: "event_id \<Rightarrow> string" where
  "event_as_str OverchargedArmor = ''overcharged_armor''"
| "event_as_str ArcSurge = ''arc_surge''"
| "event_as_str ShieldedChannel = ''shielded_channel''"
| "event_as_str ResidualFeedback = ''residual_feedback''"

fun event_route :: "event_id \<Rightarrow> route_id" where
  "event_route OverchargedArmor = Breach"
| "event_route ArcSurge = Breach"
| "event_route ShieldedChannel = Stabilize"
| "event_route ResidualFeedback = Stabilize"

datatype objective_id = ClearDroneGroup | ReachRelayStabilizer | ReachRelayDoor | DefeatWarden

fun objective_as_str :: "objective_id \<Rightarrow> string" where
  "objective_as_str ClearDroneGroup = ''clear_drone_group''"
| "objective_as_str ReachRelayStabilizer = ''reach_relay_stabilizer''"
| "objective_as_str ReachRelayDoor = ''reach_relay_door''"
| "objective_as_str DefeatWarden = ''defeat_warden''"

record route_reward =
  reward_fragments :: u32
  reward_experience :: u64

record route_effect =
  warden_health_basis_points :: u32
  warden_counter_damage :: u32

record route_definition =
  def_route :: route_id
  def_reward :: route_reward
  def_duration_ms :: u64
  def_objectives :: "objective_id list"
  def_events :: "event_id \<times> event_id"

record event_definition =
  def_event :: event_id
  def_event_route :: route_id
  def_effect :: route_effect

definition breach_definition :: route_definition where
  "breach_definition = \<lparr>def_route = Breach, def_reward = \<lparr>reward_fragments = 2, reward_experience = 100\<rparr>,
     def_duration_ms = route_operation_duration_ms,
     def_objectives = [ClearDroneGroup, ReachRelayDoor, DefeatWarden],
     def_events = (OverchargedArmor, ArcSurge)\<rparr>"

definition stabilize_definition :: route_definition where
  "stabilize_definition = \<lparr>def_route = Stabilize, def_reward = \<lparr>reward_fragments = 1, reward_experience = 150\<rparr>,
     def_duration_ms = route_operation_duration_ms,
     def_objectives = [ClearDroneGroup, ReachRelayStabilizer, ReachRelayDoor, DefeatWarden],
     def_events = (ShieldedChannel, ResidualFeedback)\<rparr>"

definition route_catalog :: "route_definition list" where
  "route_catalog = [breach_definition, stabilize_definition]"

definition route_event_catalog :: "event_definition list" where
  "route_event_catalog =
     [\<lparr>def_event = OverchargedArmor, def_event_route = Breach,
       def_effect = \<lparr>warden_health_basis_points = 12000, warden_counter_damage = base_warden_counter_damage\<rparr>\<rparr>,
      \<lparr>def_event = ArcSurge, def_event_route = Breach,
       def_effect = \<lparr>warden_health_basis_points = 10000, warden_counter_damage = 20\<rparr>\<rparr>,
      \<lparr>def_event = ShieldedChannel, def_event_route = Stabilize,
       def_effect = \<lparr>warden_health_basis_points = 10000, warden_counter_damage = 10\<rparr>\<rparr>,
      \<lparr>def_event = ResidualFeedback, def_event_route = Stabilize,
       def_effect = \<lparr>warden_health_basis_points = 11000, warden_counter_damage = base_warden_counter_damage\<rparr>\<rparr>]"

fun route_definition_of :: "route_id \<Rightarrow> route_definition" where
  "route_definition_of Breach = route_catalog ! 0"
| "route_definition_of Stabilize = route_catalog ! 1"

fun event_definition_of :: "event_id \<Rightarrow> event_definition" where
  "event_definition_of OverchargedArmor = route_event_catalog ! 0"
| "event_definition_of ArcSurge = route_event_catalog ! 1"
| "event_definition_of ShieldedChannel = route_event_catalog ! 2"
| "event_definition_of ResidualFeedback = route_event_catalog ! 3"

section \<open>Errors\<close>

datatype route_phase = Drone | ChoiceOpen | BaselineLocked | Routed | Succeeded | Failed

datatype route_error =
    UnknownRoute string
  | InvalidSeed u64
  | InvalidCatalog string
  | InvalidOperationId
  | InvalidParticipants
  | UnknownParticipant string
  | NotLeader
  | CapabilityIncomplete
  | WrongPhase route_phase
  | IdempotencyConflict
  | RouteAlreadySelected
  | DeadlineExceeded u64 u64
  | DeadlineNotReached u64 u64
  | TerminalConflict
  | ArithmeticOverflow

text \<open>\<open>FromStr\<close>: the first route with that name.\<close>

definition route_from_str :: "string \<Rightarrow> route_error + route_id" where
  "route_from_str s = ok_or (UnknownRoute s) (find (\<lambda>r. route_as_str r = s) all_routes)"

lemma route_from_str_roundtrip: "route_from_str s = Inr r \<longleftrightarrow> s = route_as_str r"
  by (cases r) (auto simp: route_from_str_def all_routes_def)

text \<open>A \<open>RouteSeed\<close> is a \<open>u64\<close> that passed \<open>RouteSeed::new\<close>.\<close>

definition new_route_seed :: "u64 \<Rightarrow> route_error + u64" where
  "new_route_seed v = (if max_route_seed < v then Inl (InvalidSeed v) else Inr v)"

section \<open>Validation\<close>

definition effect_in_bounds :: "route_effect \<Rightarrow> bool" where
  "effect_in_bounds e \<longleftrightarrow>
     min_warden_health_basis_points \<le> warden_health_basis_points e \<and>
     warden_health_basis_points e \<le> max_warden_health_basis_points \<and>
     min_warden_counter_damage \<le> warden_counter_damage e \<and>
     warden_counter_damage e \<le> max_warden_counter_damage"

text \<open>The loop over the routes; \<open>seen\<close> is the set of identifiers inserted so far.\<close>

fun validate_routes :: "route_id list \<Rightarrow> route_definition list \<Rightarrow> route_error + route_id list" where
  "validate_routes seen [] = Inr seen"
| "validate_routes seen (r # rs) =
     and_then (ensure (def_route r \<notin> set seen) (InvalidCatalog ''route identifiers must be unique'')) (\<lambda>_.
     and_then (ensure (\<not> (\<not> (1 \<le> reward_fragments (def_reward r) \<and> reward_fragments (def_reward r) \<le> 2) \<or>
                           reward_experience (def_reward r) \<notin> {100, 125, 150, 175}))
                 (InvalidCatalog ''route reward is outside bounds'')) (\<lambda>_.
     and_then (ensure (min_route_duration_ms \<le> def_duration_ms r \<and> def_duration_ms r \<le> max_route_duration_ms)
                 (InvalidCatalog ''route duration is outside bounds'')) (\<lambda>_.
     and_then (ensure (\<not> (length (def_objectives r) < 3 \<or> max_route_objectives < length (def_objectives r) \<or>
                           hd (def_objectives r) \<noteq> ClearDroneGroup \<or> last (def_objectives r) \<noteq> DefeatWarden \<or>
                           \<not> distinct (def_objectives r)))
                 (InvalidCatalog ''route objective path is invalid'')) (\<lambda>_.
     and_then (ensure (\<not> (fst (def_events r) = snd (def_events r) \<or>
                           event_route (fst (def_events r)) \<noteq> def_route r \<or>
                           event_route (snd (def_events r)) \<noteq> def_route r))
                 (InvalidCatalog ''route event membership is invalid'')) (\<lambda>_.
       validate_routes (def_route r # seen) rs)))))"

fun validate_events :: "event_id list \<Rightarrow> event_definition list \<Rightarrow> route_error + event_id list" where
  "validate_events seen [] = Inr seen"
| "validate_events seen (e # es) =
     and_then (ensure (\<not> (def_event e \<in> set seen \<or> event_route (def_event e) \<noteq> def_event_route e))
                 (InvalidCatalog ''event identifiers/routes must be unique'')) (\<lambda>_.
     and_then (ensure (\<not> (\<not> effect_in_bounds (def_effect e) \<or>
                           warden_health_basis_points (def_effect e) = min_warden_health_basis_points \<and>
                           warden_counter_damage (def_effect e) = base_warden_counter_damage))
                 (InvalidCatalog ''event effect is invalid or inert'')) (\<lambda>_.
       validate_events (def_event e # seen) es))"

definition validate_catalog :: "route_definition list \<Rightarrow> event_definition list \<Rightarrow> route_error + unit" where
  "validate_catalog routes events =
     and_then (ensure (length routes = length all_routes \<and> length events = length all_events)
                 (InvalidCatalog ''catalog must contain exactly two routes and four events'')) (\<lambda>_.
     and_then (validate_routes [] routes) (\<lambda>route_ids.
     and_then (validate_events [] events) (\<lambda>event_ids.
     and_then (ensure (set route_ids = set all_routes \<and> set event_ids = set all_events)
                 (InvalidCatalog ''catalog identifiers are incomplete'')) (\<lambda>_.
     and_then (ok_or (InvalidCatalog ''breach route is missing'') (find (\<lambda>r. def_route r = Breach) routes)) (\<lambda>breach.
     and_then (ok_or (InvalidCatalog ''stabilize route is missing'') (find (\<lambda>r. def_route r = Stabilize) routes)) (\<lambda>stabilize.
       ensure (\<not> (reward_fragments (def_reward breach) \<le> reward_fragments (def_reward stabilize) \<or>
                   reward_experience (def_reward stabilize) \<le> reward_experience (def_reward breach) \<or>
                   ReachRelayStabilizer \<notin> set (def_objectives stabilize) \<or>
                   ReachRelayStabilizer \<in> set (def_objectives breach)))
         (InvalidCatalog ''routes must retain their fragment/experience/objective tradeoff'')))))))"

lemma shipped_catalog_valid: "validate_catalog route_catalog route_event_catalog = Inr ()"
proof -
  have "validate_routes [] route_catalog = Inr [Stabilize, Breach]"
    by (simp add: route_catalog_def breach_definition_def stabilize_definition_def route_consts)
  moreover have "validate_events [] route_event_catalog = Inr [ResidualFeedback, ShieldedChannel, ArcSurge, OverchargedArmor]"
    by (simp add: route_event_catalog_def effect_in_bounds_def route_consts)
  moreover have "length route_catalog = length all_routes" "length route_event_catalog = length all_events"
    "find (\<lambda>r. def_route r = Breach) route_catalog = Some breach_definition"
    "find (\<lambda>r. def_route r = Stabilize) route_catalog = Some stabilize_definition"
    by (simp_all add: route_catalog_def all_routes_def route_event_catalog_def all_events_def
      breach_definition_def stabilize_definition_def)
  ultimately show ?thesis
    by (simp add: validate_catalog_def all_routes_def all_events_def breach_definition_def stabilize_definition_def
      insert_commute word_le_nat_alt)
qed

section \<open>The choice of the event\<close>

text \<open>\<open>wrapping_mul\<close> is multiplication of words, \<open>>>\<close> is \<open>drop_bit\<close>.\<close>

definition permute_63 :: "u64 \<Rightarrow> u64" where
  "permute_63 value =
     (let mixed = value AND max_route_seed;
          mixed = mixed XOR drop_bit 30 mixed;
          mixed = (mixed * 0x3f79d71b4cb0a89d) AND max_route_seed;
          mixed = mixed XOR drop_bit 27 mixed;
          mixed = (mixed * 0x1c69b3f74ac4ae35) AND max_route_seed;
          mixed = mixed XOR drop_bit 31 mixed
      in mixed AND max_route_seed)"

record resolved_event =
  resolved_route :: route_id
  resolved_seed :: u64
  resolved_event :: event_id
  resolved_effect :: route_effect

fun route_salt :: "route_id \<Rightarrow> u64" where
  "route_salt Breach = breach_salt"
| "route_salt Stabilize = stabilize_salt"

definition resolve_event :: "route_id \<Rightarrow> u64 \<Rightarrow> resolved_event" where
  "resolve_event route seed =
     (let ticket = permute_63 (seed XOR route_salt route);
          event = (if ticket AND 1 \<noteq> 0 then snd else fst) (def_events (route_definition_of route))
      in \<lparr>resolved_route = route, resolved_seed = seed, resolved_event = event,
          resolved_effect = def_effect (event_definition_of event)\<rparr>)"

subsection \<open>The mixer is a permutation of the 63-bit seeds\<close>

definition seeds :: "u64 set" where
  "seeds = {x. x \<le> max_route_seed}"

lemma mask_63: "x AND max_route_seed = take_bit 63 x"
  by (simp add: take_bit_eq_mask max_route_seed_def mask_eq_exp_minus_1)

lemma seeds_take_bit: "x \<in> seeds \<longleftrightarrow> take_bit 63 x = x"
proof -
  have "x \<in> seeds \<longleftrightarrow> unat x < 2 ^ 63"
    by (simp add: seeds_def max_route_seed_def word_le_nat_alt) linarith
  also have "\<dots> \<longleftrightarrow> take_bit 63 (unat x) = unat x"
    by (simp add: take_bit_nat_eq_self_iff)
  also have "\<dots> \<longleftrightarrow> take_bit 63 x = x"
    by (metis unsigned_take_bit_eq word_unat_eq_iff)
  finally show ?thesis .
qed

lemma take_bit_seeds [simp]: "take_bit 63 x \<in> seeds"
  by (simp add: seeds_take_bit)

lemma xorshift_inj:
  fixes x y :: u64
  assumes "x XOR drop_bit n x = y XOR drop_bit n y" and "0 < n"
  shows "x = y"
proof -
  have "bit x i = bit y i" for i
  proof (induction "64 - i" arbitrary: i rule: less_induct)
    case less
    show ?case
    proof (cases "i < 64")
      case True
      then have "bit x (n + i) = bit y (n + i)" using less assms(2) by simp
      moreover have "bit (x XOR drop_bit n x) i = bit (y XOR drop_bit n y) i" using assms(1) by simp
      ultimately show ?thesis by (auto simp: bit_xor_iff bit_drop_bit_eq)
    next
      case False
      then show ?thesis using bit_imp_le_length [of x i] bit_imp_le_length [of y i] by auto
    qed
  qed
  then show ?thesis by (simp add: bit_eq_iff)
qed

lemma seeds_bit: "x \<in> seeds \<longleftrightarrow> \<not> bit x 63"
proof -
  have "bit x i \<longleftrightarrow> i < 63 \<and> bit x i" if "\<not> bit x 63" for i
    using that bit_imp_le_length [of x i] by (cases "i = 63") auto
  then have "\<not> bit x 63 \<longleftrightarrow> (\<forall>i. bit (take_bit 63 x) i = bit x i)"
    by (auto simp: bit_take_bit_iff)
  also have "\<dots> \<longleftrightarrow> take_bit 63 x = x" by (metis bit_word_eqI)
  finally show ?thesis by (simp add: seeds_take_bit)
qed

lemma xorshift_seeds: "x \<in> seeds \<Longrightarrow> 0 < n \<Longrightarrow> x XOR drop_bit n x \<in> seeds"
  using bit_imp_le_length [of x "n + 63"] by (auto simp: seeds_bit bit_xor_iff bit_drop_bit_eq)

lemma take_bit_63_mult: "take_bit 63 (take_bit 63 a * take_bit 63 b) = take_bit 63 (a * b)" for a b :: u64
proof -
  have cut: "k mod 2 ^ 64 mod 2 ^ 63 = k mod 2 ^ 63" for k :: int
    by (rule mod_mod_cancel) simp
  have tb: "uint (take_bit 63 w) = uint w mod 2 ^ 63" for w :: u64
    unfolding take_bit_eq_mod [of 63 "uint w", symmetric] by (rule unsigned_take_bit_eq)
  have ml: "uint (v * w) = uint v * uint w mod 2 ^ 64" for v w :: u64
    by (simp add: uint_word_ariths)
  show ?thesis
    unfolding word_uint_eq_iff by (simp only: tb ml cut mod_mult_eq)
qed

text \<open>Multiplication by an odd constant is undone, modulo \<open>2^63\<close>, by its inverse.\<close>

lemma odd_mult_inj:
  fixes x y c d :: u64
  assumes "take_bit 63 (x * c) = take_bit 63 (y * c)" and "take_bit 63 (c * d) = 1"
    and "x \<in> seeds" and "y \<in> seeds"
  shows "x = y"
proof -
  have "take_bit 63 (z * c * d) = z" if "z \<in> seeds" for z
  proof -
    have "take_bit 63 (z * c * d) = take_bit 63 (take_bit 63 z * take_bit 63 (c * d))"
      by (simp only: take_bit_63_mult mult.assoc)
    then show ?thesis using that assms(2) by (simp add: seeds_take_bit)
  qed
  moreover have "take_bit 63 (x * c * d) = take_bit 63 (y * c * d)"
    using assms(1) by (metis take_bit_63_mult)
  ultimately show ?thesis using assms(3,4) by metis
qed

text \<open>\<open>permute_63\<close> as the composition of its five stages.\<close>

definition xorshift :: "nat \<Rightarrow> u64 \<Rightarrow> u64" where
  "xorshift n x = x XOR drop_bit n x"

definition mult_63 :: "u64 \<Rightarrow> u64 \<Rightarrow> u64" where
  "mult_63 c x = take_bit 63 (x * c)"

lemma permute_63_stages:
  "x \<in> seeds \<Longrightarrow> permute_63 x =
     xorshift 31 (mult_63 0x1c69b3f74ac4ae35 (xorshift 27 (mult_63 0x3f79d71b4cb0a89d (xorshift 30 x))))"
proof -
  assume "x \<in> seeds"
  then have "x AND max_route_seed = x" by (simp only: mask_63 seeds_take_bit)
  moreover have "y AND max_route_seed = y" if "y \<in> seeds" for y
    using that by (simp only: mask_63 seeds_take_bit)
  moreover have "xorshift 31 (mult_63 c y) \<in> seeds" for c y
    unfolding xorshift_def mult_63_def by (intro xorshift_seeds take_bit_seeds) simp
  ultimately show ?thesis
    unfolding permute_63_def Let_def xorshift_def mult_63_def by (simp only: mask_63)
qed

lemma stage_bij:
  assumes "\<And>x y. x \<in> seeds \<Longrightarrow> y \<in> seeds \<Longrightarrow> f x = f y \<Longrightarrow> x = y"
    and "\<And>x. x \<in> seeds \<Longrightarrow> f x \<in> seeds"
  shows "bij_betw f seeds seeds"
proof -
  have "finite seeds" by (rule finite)
  moreover have "inj_on f seeds" using assms(1) by (rule inj_onI)
  moreover have "f ` seeds \<subseteq> seeds" using assms(2) by blast
  ultimately show ?thesis unfolding bij_betw_def by (simp only: endo_inj_surj)
qed

lemma xorshift_bij:
  assumes "0 < n"
  shows "bij_betw (xorshift n) seeds seeds"
  unfolding xorshift_def using xorshift_inj [OF _ assms] xorshift_seeds [OF _ assms] by (rule stage_bij)

lemma mult_63_bij:
  assumes "take_bit 63 (c * d) = 1"
  shows "bij_betw (mult_63 c) seeds seeds"
  unfolding mult_63_def using odd_mult_inj [OF _ assms] take_bit_seeds by (rule stage_bij)

lemma permute_63_bij: "bij_betw permute_63 seeds seeds"
proof -
  have m1: "bij_betw (mult_63 0x3f79d71b4cb0a89d) seeds seeds"
    by (rule mult_63_bij [of _ "0x54c1dd764b1db5"]) (simp add: take_bit_eq_mask mask_eq_exp_minus_1)
  have m2: "bij_betw (mult_63 0x1c69b3f74ac4ae35) seeds seeds"
    by (rule mult_63_bij [of _ "0x447c8f6b6bafb41d"]) (simp add: take_bit_eq_mask mask_eq_exp_minus_1)
  have x: "bij_betw (xorshift 30) seeds seeds" "bij_betw (xorshift 27) seeds seeds"
    "bij_betw (xorshift 31) seeds seeds"
    by (simp_all add: xorshift_bij)
  from bij_betw_trans [OF bij_betw_trans [OF bij_betw_trans [OF bij_betw_trans [OF x(1) m1] x(2)] m2] x(3)]
  show ?thesis
    by (rule iffD1 [OF bij_betw_cong, rotated]) (simp add: permute_63_stages)
qed

subsection \<open>Both events of a route are equally likely\<close>

lemma xor_bij:
  assumes "c \<in> seeds"
  shows "bij_betw (\<lambda>x. x XOR c) seeds seeds"
proof (rule stage_bij)
  have cancel: "(z XOR c) XOR c = z" for z :: u64 by (simp only: xor.assoc xor_self_eq xor.right_neutral)
  show "x = y" if "x XOR c = y XOR c" for x y :: u64
  proof -
    have "(x XOR c) XOR c = (y XOR c) XOR c" unfolding that ..
    then show ?thesis unfolding cancel .
  qed
  show "x XOR c \<in> seeds" if "x \<in> seeds" for x
    using assms that unfolding seeds_bit bit_xor_iff by blast
qed

lemma card_words_below:
  assumes "n \<le> 2 ^ LENGTH('a)"
  shows "card {x :: 'a::len word. unat x < n} = n"
proof -
  have inverse: "unat (word_of_nat k :: 'a word) = k" if "k < n" for k
    using that assms by (simp add: unsigned_of_nat take_bit_nat_eq_self)
  have "bij_betw unat {x :: 'a word. unat x < n} {..<n}"
    by (rule bij_betw_byWitness [where f' = word_of_nat]) (auto simp: inverse)
  then show ?thesis using bij_betw_same_card by fastforce
qed

lemma card_seeds: "card seeds = 2 ^ 63"
proof -
  have "seeds = {x. unat x < 2 ^ 63}" by (auto simp: seeds_def max_route_seed_def word_le_nat_alt)
  moreover have "card {x :: u64. unat x < 2 ^ 63} = 2 ^ 63" by (rule card_words_below) simp
  ultimately show ?thesis by (simp only:)
qed

lemma card_parity: "card {x \<in> seeds. bit x 0} = 2 ^ 62" "card {x \<in> seeds. \<not> bit x 0} = 2 ^ 62"
proof -
  have "bij_betw (\<lambda>x. x XOR 1) {x \<in> seeds. bit x 0} {x \<in> seeds. \<not> bit x 0}"
    by (rule bij_betw_byWitness [where f' = "\<lambda>x. x XOR 1"])
      (auto simp: seeds_bit bit_xor_iff bit_1_iff xor.assoc)
  then have eq: "card {x \<in> seeds. bit x 0} = card {x \<in> seeds. \<not> bit x 0}" by (rule bij_betw_same_card)
  have "card seeds = card {x \<in> seeds. bit x 0} + card {x \<in> seeds. \<not> bit x 0}"
    by (subst card_Un_disjoint [symmetric]) (auto intro: arg_cong [of _ _ card])
  then show "card {x \<in> seeds. bit x 0} = 2 ^ 62" "card {x \<in> seeds. \<not> bit x 0} = 2 ^ 62"
    using eq card_seeds by simp_all
qed

lemma card_tickets:
  assumes "c \<in> seeds"
  shows "card {x \<in> seeds. P (permute_63 (x XOR c))} = card {x \<in> seeds. P x}"
proof -
  have "bij_betw (permute_63 \<circ> (\<lambda>x. x XOR c)) seeds seeds"
    by (rule bij_betw_trans [OF xor_bij [OF assms] permute_63_bij])
  then have "bij_betw (permute_63 \<circ> (\<lambda>x. x XOR c)) {x \<in> seeds. P (permute_63 (x XOR c))} {x \<in> seeds. P x}"
    by (auto simp: bij_betw_def inj_on_def image_iff)
  then show ?thesis by (rule bij_betw_same_card)
qed

lemma card_pick:
  assumes "x \<noteq> y"
  shows "card {s \<in> seeds. (if bit s 0 then y else x) = e} = (if e = x \<or> e = y then 2 ^ 62 else 0)"
proof -
  consider "e = x" | "e = y" | "e \<noteq> x \<and> e \<noteq> y" by blast
  then show ?thesis
  proof cases
    case 1
    then have "{s \<in> seeds. (if bit s 0 then y else x) = e} = {s \<in> seeds. \<not> bit s 0}" using assms by auto
    then show ?thesis using 1 card_parity(2) by (simp only: simp_thms if_True)
  next
    case 2
    then have "{s \<in> seeds. (if bit s 0 then y else x) = e} = {s \<in> seeds. bit s 0}" using assms by auto
    then show ?thesis using 2 card_parity(1) by (simp only: simp_thms if_True)
  next
    case 3
    then have "{s \<in> seeds. (if bit s 0 then y else x) = e} = {}" by auto
    then show ?thesis using 3 by (simp only: card.empty simp_thms if_False)
  qed
qed

text \<open>
  C16 (functional): a route's two events are equally likely. Of the \<open>2^63\<close> seeds that
  \<open>RouteSeed::new\<close> accepts, exactly \<open>2^62\<close> resolve to each of the two events of the chosen
  route, and none to an event of the other route: the mixing function is a permutation.
\<close>

theorem route_events_balanced:
  "card {seed. new_route_seed seed = Inr seed \<and> resolved_event (resolve_event route seed) = event} =
     (if event_route event = route then 2 ^ 62 else 0)"
proof -
  have accepted: "new_route_seed seed = Inr seed \<longleftrightarrow> seed \<in> seeds" for seed
    by (auto simp: new_route_seed_def seeds_def)
  have salt: "route_salt r \<in> seeds" for r
    by (cases r) (simp_all add: seeds_def max_route_seed_def breach_salt_def stabilize_salt_def)
  have odd: "t AND 1 \<noteq> 0 \<longleftrightarrow> bit t 0" for t :: u64
    by (simp add: bit_0 and_one_eq mod_2_eq_odd)
  obtain x y where xy: "def_events (route_definition_of route) = (x, y)"
    by (cases "def_events (route_definition_of route)")
  have members: "x \<noteq> y" "event = x \<or> event = y \<longleftrightarrow> event_route event = route"
    using xy by (cases route; cases event;
      auto simp: route_catalog_def breach_definition_def stabilize_definition_def)+
  have "{seed. new_route_seed seed = Inr seed \<and> resolved_event (resolve_event route seed) = event} =
      {seed \<in> seeds. (if bit (permute_63 (seed XOR route_salt route)) 0 then y else x) = event}"
    by (auto simp: resolve_event_def Let_def accepted odd xy)
  then show ?thesis
    using card_tickets [OF salt, of "\<lambda>t. (if bit t 0 then y else x) = event" route] card_pick [OF members(1), of event]
      members(2)
    by (simp only:)
qed

section \<open>The Warden's health\<close>

definition apply_warden_health_effect :: "u32 \<Rightarrow> route_effect \<Rightarrow> route_error + u32" where
  "apply_warden_health_effect base_health effect =
     (if base_health = 0 \<or> \<not> effect_in_bounds effect
      then Inl (InvalidCatalog ''event effect is outside bounds'')
      else
        and_then
          (ok_or ArithmeticOverflow
             (case checked_mul (u64_of base_health) (u64_of (warden_health_basis_points effect)) of
                None \<Rightarrow> None
              | Some v \<Rightarrow> checked_add v (basis_points div 2)))
          (\<lambda>v. ok_or ArithmeticOverflow (u32_try_of (v div basis_points))))"

lemma scaled_health:
  assumes "base_health \<noteq> 0" and "effect_in_bounds effect"
  defines "h \<equiv> (unat base_health * unat (warden_health_basis_points effect) + 5000) div 10000"
  shows "apply_warden_health_effect base_health effect =
    (if h < 2 ^ 32 then Inr (word_of_nat h) else Inl ArithmeticOverflow)"
proof -
  let ?b = "u64_of base_health" and ?p = "u64_of (warden_health_basis_points effect)"
  have base: "unat base_health < 2 ^ 32" using unat_bound [of base_health] by simp
  have bp: "unat (warden_health_basis_points effect) \<le> 12000"
    using assms(2) by (simp add: effect_in_bounds_def route_consts word_le_nat_alt)
  have "unat ?b * unat ?p \<le> 2 ^ 32 * 12000"
    unfolding unat_u64_of using base bp by (intro mult_le_mono) simp_all
  then have small: "unat ?b * unat ?p + 5000 < 2 ^ 64" by simp
  then have "checked_mul ?b ?p = Some (?b * ?p)" by (simp add: checked_mul_def)
  moreover have prod: "unat (?b * ?p) = unat ?b * unat ?p" using small by (simp add: unat_word_ariths)
  moreover have "checked_add (?b * ?p) (basis_points div 2) = Some (?b * ?p + 5000)"
    using small prod by (simp add: checked_add_def basis_points_def)
  moreover have "unat (?b * ?p + 5000) = unat ?b * unat ?p + 5000"
    using small prod by (simp add: unat_word_ariths)
  then have quot: "unat ((?b * ?p + 5000) div basis_points) = h"
    unfolding unat_div_nat by (simp add: basis_points_def h_def unat_u64_of)
  ultimately have "apply_warden_health_effect base_health effect =
      ok_or ArithmeticOverflow (u32_try_of ((?b * ?p + 5000) div basis_points))"
    using assms(1,2) by (simp add: apply_warden_health_effect_def)
  moreover have "u32_try_of ((?b * ?p + 5000) div basis_points) = (if h < 2 ^ 32 then Some (word_of_nat h) else None)"
  proof (cases "h < 2 ^ 32")
    case True
    then have "unat (word_of_nat h :: u32) = h" by (simp add: unsigned_of_nat take_bit_nat_eq_self)
    then show ?thesis using True quot by (simp add: u32_try_of_Some)
  next
    case False
    then show ?thesis unfolding u32_try_of_def quot by simp
  qed
  ultimately show ?thesis by simp
qed

text \<open>
  The Warden's scaled health. The result is the exact product with the
  basis points rounded half up; an error means a health of zero, an effect outside its bounds
  or a rounded value that no longer fits 32 bits, and the intermediate 64-bit arithmetic never overflows.
\<close>

theorem warden_health_exact:
  "apply_warden_health_effect base_health effect =
     (if base_health \<noteq> 0 \<and> effect_in_bounds effect
      then
        (let h = \<lfloor>of_nat (unat base_health * unat (warden_health_basis_points effect)) / 10000 + (1 / 2 :: rat)\<rfloor>
         in if h < 2 ^ 32 then Inr (word_of_int h) else Inl ArithmeticOverflow)
      else Inl (InvalidCatalog ''event effect is outside bounds''))"
proof (cases "base_health = 0 \<or> \<not> effect_in_bounds effect")
  case True
  then show ?thesis by (simp add: apply_warden_health_effect_def)
next
  case False
  let ?n = "unat base_health * unat (warden_health_basis_points effect)"
  have "of_nat ?n / 10000 + (1 / 2 :: rat) = of_int (int (?n + 5000)) / of_int 10000"
    by (simp add: field_simps)
  then have "\<lfloor>of_nat ?n / 10000 + (1 / 2 :: rat)\<rfloor> = int ((?n + 5000) div 10000)"
    by (simp only: floor_divide_of_int_eq zdiv_int) simp
  moreover have "int m < 2 ^ 32 \<longleftrightarrow> m < 2 ^ 32" for m by (metis of_nat_less_iff of_nat_numeral of_nat_power)
  ultimately show ?thesis
    using False scaled_health [of base_health effect] by (simp add: Let_def)
qed

text \<open>No shipped effect weakens the Warden or adds more than a fifth, up to rounding.\<close>

lemma shipped_effects:
  "effect_in_bounds (resolved_effect (resolve_event route seed))"
  by (cases route; cases "permute_63 (seed XOR route_salt route) AND 1 = 0")
    (simp_all add: resolve_event_def Let_def route_catalog_def breach_definition_def stabilize_definition_def
      route_event_catalog_def effect_in_bounds_def route_consts)

end
