(* ===== verification/Routes.thy ===== *)
theory Routes
  imports Route_Catalog Lifecycle
begin

text \<open>
  The route operation of \<open>runtime/operations/src/lib.rs\<close>: participants declare a
  capability, the leader chooses a route once, and the routed operation succeeds or times out.
  Catalogs and the choice of the event are theory \<open>Route_Catalog\<close>.
\<close>

section \<open>Data\<close>

definition max_route_operation_id_bytes :: nat where "max_route_operation_id_bytes = 32"

definition max_route_participants :: nat where "max_route_participants = 2"

definition max_participant_id_bytes :: nat where "max_participant_id_bytes = 64"

datatype operation_disposition = Applied | Replayed

record 'a operation_receipt =
  disposition :: operation_disposition
  outcome :: 'a

record selection_outcome =
  sel_operation :: string
  sel_leader :: string
  sel_route :: route_id
  sel_seed :: u64
  sel_event :: event_id
  sel_effect :: route_effect
  sel_reward :: route_reward
  sel_objectives :: "objective_id list"
  sel_budget_ms :: u64

datatype terminal_outcome = OutcomeSucceeded | OutcomeTimeout

record operation_summary =
  sum_operation :: string
  sum_leader :: string
  sum_participants :: "string list"
  sum_route :: route_id
  sum_seed :: u64
  sum_event :: event_id
  sum_effect :: route_effect
  sum_objectives :: "objective_id list"
  sum_budget_ms :: u64
  sum_elapsed_ms :: u64
  sum_outcome :: terminal_outcome
  sum_reward :: "route_reward option"

record participant_capability =
  participant_id :: string
  capable :: bool

record route_state =
  participants :: "participant_capability list"
  route_phase :: route_phase
  selection :: "selection_outcome option"
  terminal :: "operation_summary option"

section \<open>Operations\<close>

definition validate_operation_id :: "string \<Rightarrow> route_error + unit" where
  "validate_operation_id v =
     (if v = [] \<or> max_route_operation_id_bytes < length v \<or>
         \<not> list_all (\<lambda>c. is_ascii_alphanumeric c \<or> c = CHR ''-'') v
      then Inl InvalidOperationId else Inr ())"

definition valid_participant_id :: "string \<Rightarrow> bool" where
  "valid_participant_id v \<longleftrightarrow>
     \<not> (v = [] \<or> max_participant_id_bytes < length v) \<and>
     list_all (\<lambda>c. is_ascii_alphanumeric c \<or> c = CHR ''-'' \<or> c = CHR ''_'' \<or> c = CHR '':'') v"

fun admit_participants :: "string list \<Rightarrow> string list \<Rightarrow> route_error + participant_capability list" where
  "admit_participants unique [] = Inr []"
| "admit_participants unique (i # is) =
     (if \<not> valid_participant_id i \<or> i \<in> set unique then Inl InvalidParticipants
      else and_then (admit_participants (i # unique) is) (\<lambda>ps.
             Inr (\<lparr>participant_id = i, capable = False\<rparr> # ps)))"

definition new_route_operation :: "string list \<Rightarrow> route_error + route_state" where
  "new_route_operation is =
     (if is = [] \<or> max_route_participants < length is then Inl InvalidParticipants
      else and_then (admit_participants [] is) (\<lambda>ps.
             Inr \<lparr>participants = ps, route_phase = Drone, selection = None, terminal = None\<rparr>))"

definition leader_id :: "route_state \<Rightarrow> string" where
  "leader_id s = participant_id (participants s ! 0)"

definition all_capable :: "route_state \<Rightarrow> bool" where
  "all_capable s \<longleftrightarrow> list_all capable (participants s)"

text \<open>\<open>iter_mut().find(..)\<close>: the first participant with that identifier is updated in place.\<close>

fun set_capable :: "string \<Rightarrow> participant_capability list \<Rightarrow> participant_capability list option" where
  "set_capable i [] = None"
| "set_capable i (p # ps) =
     (if participant_id p = i then Some (p\<lparr>capable := True\<rparr> # ps)
      else map_option ((#) p) (set_capable i ps))"

definition mark_capable :: "string \<Rightarrow> route_state \<Rightarrow> (route_error, unit, route_state) outcome" where
  "mark_capable i s =
     (if route_phase s \<noteq> Drone \<and> route_phase s \<noteq> ChoiceOpen then (Inl (WrongPhase (route_phase s)), s)
      else
        require (ok_or (UnknownParticipant i) (set_capable i (participants s))) s (\<lambda>ps.
          (Inr (), s\<lparr>participants := ps\<rparr>)))"

definition open_choice :: "route_state \<Rightarrow> (route_error, unit, route_state) outcome" where
  "open_choice s =
     (if route_phase s \<noteq> Drone then (Inl (WrongPhase (route_phase s)), s)
      else (Inr (), s\<lparr>route_phase := ChoiceOpen\<rparr>))"

definition lock_baseline :: "route_state \<Rightarrow> (route_error, unit, route_state) outcome" where
  "lock_baseline s =
     (if route_phase s \<noteq> ChoiceOpen \<or> selection s \<noteq> None then (Inl (WrongPhase (route_phase s)), s)
      else (Inr (), s\<lparr>route_phase := BaselineLocked\<rparr>))"

definition make_selection :: "string \<Rightarrow> string \<Rightarrow> route_id \<Rightarrow> u64 \<Rightarrow> selection_outcome" where
  "make_selection requester oper route seed =
     (let d = route_definition_of route; resolved = resolve_event route seed
      in \<lparr>sel_operation = oper, sel_leader = requester, sel_route = route, sel_seed = seed,
          sel_event = resolved_event resolved, sel_effect = resolved_effect resolved,
          sel_reward = def_reward d, sel_objectives = def_objectives d, sel_budget_ms = def_duration_ms d\<rparr>)"

definition select_route ::
  "string \<Rightarrow> string \<Rightarrow> route_id \<Rightarrow> u64 \<Rightarrow> route_state
     \<Rightarrow> (route_error, selection_outcome operation_receipt, route_state) outcome" where
  "select_route requester oper route seed s =
     require (validate_operation_id oper) s (\<lambda>_.
     if \<not> list_ex (\<lambda>p. participant_id p = requester) (participants s) then (Inl (UnknownParticipant requester), s)
     else
       (case selection s of
          Some sel \<Rightarrow>
            (if sel_operation sel = oper
             then if sel_route sel \<noteq> route \<or> sel_leader sel \<noteq> requester then Inl IdempotencyConflict
                  else Inr \<lparr>disposition = Replayed, outcome = sel\<rparr>
             else Inl RouteAlreadySelected, s)
        | None \<Rightarrow>
            if route_phase s \<noteq> ChoiceOpen then (Inl (WrongPhase (route_phase s)), s)
            else if requester \<noteq> leader_id s then (Inl NotLeader, s)
            else if \<not> all_capable s then (Inl CapabilityIncomplete, s)
            else
              require (validate_catalog route_catalog route_event_catalog) s (\<lambda>_.
                let sel = make_selection requester oper route seed
                in (Inr \<lparr>disposition = Applied, outcome = sel\<rparr>,
                    s\<lparr>route_phase := Routed, selection := Some sel\<rparr>))))"

definition make_summary :: "terminal_outcome \<Rightarrow> u64 \<Rightarrow> selection_outcome \<Rightarrow> route_state \<Rightarrow> operation_summary" where
  "make_summary requested elapsed sel s =
     \<lparr>sum_operation = sel_operation sel, sum_leader = sel_leader sel,
      sum_participants = map participant_id (participants s), sum_route = sel_route sel,
      sum_seed = sel_seed sel, sum_event = sel_event sel, sum_effect = sel_effect sel,
      sum_objectives = sel_objectives sel, sum_budget_ms = sel_budget_ms sel, sum_elapsed_ms = elapsed,
      sum_outcome = requested,
      sum_reward = (if requested = OutcomeSucceeded then Some (sel_reward sel) else None)\<rparr>"

definition finish ::
  "terminal_outcome \<Rightarrow> u64 \<Rightarrow> route_state
     \<Rightarrow> (route_error, operation_summary operation_receipt, route_state) outcome" where
  "finish requested elapsed s =
     (case terminal s of
        Some summary \<Rightarrow>
          (if sum_outcome summary = requested \<and> sum_elapsed_ms summary = elapsed
           then Inr \<lparr>disposition = Replayed, outcome = summary\<rparr> else Inl TerminalConflict, s)
      | None \<Rightarrow>
          if route_phase s \<noteq> Routed then (Inl (WrongPhase (route_phase s)), s)
          else
            require (ok_or (WrongPhase (route_phase s)) (selection s)) s (\<lambda>sel.
              if requested = OutcomeSucceeded \<and> sel_budget_ms sel < elapsed
              then (Inl (DeadlineExceeded elapsed (sel_budget_ms sel)), s)
              else if requested = OutcomeTimeout \<and> elapsed \<le> sel_budget_ms sel
              then (Inl (DeadlineNotReached elapsed (sel_budget_ms sel)), s)
              else
                (let summary = make_summary requested elapsed sel s
                 in (Inr \<lparr>disposition = Applied, outcome = summary\<rparr>,
                     s\<lparr>route_phase := (if requested = OutcomeSucceeded then Succeeded else Failed),
                       terminal := Some summary\<rparr>))))"

definition complete_route ::
  "u64 \<Rightarrow> route_state \<Rightarrow> (route_error, operation_summary operation_receipt, route_state) outcome" where
  "complete_route elapsed s = finish OutcomeSucceeded elapsed s"

definition fail_timeout ::
  "u64 \<Rightarrow> route_state \<Rightarrow> (route_error, operation_summary operation_receipt, route_state) outcome" where
  "fail_timeout elapsed s = finish OutcomeTimeout elapsed s"

section \<open>Calls\<close>

datatype route_call =
    MarkCapable string
  | OpenChoice
  | LockBaseline
  | Select string string route_id u64
  | Complete u64
  | FailTimeout u64

fun route_exec :: "route_call \<Rightarrow> route_state \<Rightarrow> route_state" where
  "route_exec (MarkCapable i) s = snd (mark_capable i s)"
| "route_exec OpenChoice s = snd (open_choice s)"
| "route_exec LockBaseline s = snd (lock_baseline s)"
| "route_exec (Select who oper route seed) s = snd (select_route who oper route seed s)"
| "route_exec (Complete e) s = snd (complete_route e s)"
| "route_exec (FailTimeout e) s = snd (fail_timeout e s)"

section \<open>Invariant\<close>

definition decided_by_deadline :: "operation_summary \<Rightarrow> bool" where
  "decided_by_deadline r \<longleftrightarrow>
     (sum_outcome r = OutcomeSucceeded \<longleftrightarrow> sum_elapsed_ms r \<le> sum_budget_ms r) \<and>
     (sum_reward r \<noteq> None \<longleftrightarrow> sum_outcome r = OutcomeSucceeded)"

definition selection_ok :: "route_state \<Rightarrow> selection_outcome \<Rightarrow> bool" where
  "selection_ok s sel \<longleftrightarrow> all_capable s \<and>
     sel = make_selection (leader_id s) (sel_operation sel) (sel_route sel) (sel_seed sel)"

definition summary_ok :: "route_state \<Rightarrow> operation_summary \<Rightarrow> bool" where
  "summary_ok s r \<longleftrightarrow> decided_by_deadline r \<and>
     (\<exists>sel. selection s = Some sel \<and> r = make_summary (sum_outcome r) (sum_elapsed_ms r) sel s) \<and>
     route_phase s = (if sum_outcome r = OutcomeSucceeded then Succeeded else Failed)"

definition routes_ok :: "route_state \<Rightarrow> bool" where
  "routes_ok s \<longleftrightarrow>
     participants s \<noteq> [] \<and> length (participants s) \<le> 2 \<and> distinct (map participant_id (participants s)) \<and>
     (case selection s of
        None \<Rightarrow> route_phase s \<in> {Drone, ChoiceOpen, BaselineLocked}
      | Some sel \<Rightarrow> route_phase s \<in> {Routed, Succeeded, Failed} \<and> selection_ok s sel) \<and>
     (case terminal s of
        None \<Rightarrow> route_phase s \<notin> {Succeeded, Failed}
      | Some r \<Rightarrow> summary_ok s r)"

lemma set_capable_ids: "set_capable i ps = Some ps' \<Longrightarrow> map participant_id ps' = map participant_id ps"
  by (induction ps arbitrary: ps') (auto split: if_splits)

lemma set_capable_all: "set_capable i ps = Some ps' \<Longrightarrow> list_all capable ps \<Longrightarrow> list_all capable ps'"
  by (induction ps arbitrary: ps') (auto split: if_splits)

lemma admitted: "admit_participants unique is = Inr ps \<Longrightarrow>
    map participant_id ps = is \<and> distinct is \<and> set is \<inter> set unique = {}"
  by (induction "is" arbitrary: unique ps) (fastforce simp: and_then_Inr split: if_splits)+

lemma new_route_ok:
  assumes "new_route_operation is = Inr s"
  shows "routes_ok s \<and> route_phase s = Drone"
proof -
  obtain ps where ps: "admit_participants [] is = Inr ps"
    "s = \<lparr>participants = ps, route_phase = Drone, selection = None, terminal = None\<rparr>"
    and len: "is \<noteq> []" "length is \<le> 2"
    using assms by (auto simp: new_route_operation_def and_then_Inr max_route_participants_def split: if_splits)
  note ids = admitted [OF ps(1)]
  then have "length ps = length is" by (metis length_map)
  then show ?thesis using ps len ids by (auto simp: routes_ok_def)
qed

lemma mark_capable_ok:
  assumes "routes_ok s" and "mark_capable i s = (r, s')"
  shows "routes_ok s'"
proof (cases r)
  case (Inr u)
  then obtain ps where ps: "set_capable i (participants s) = Some ps" "s' = s\<lparr>participants := ps\<rparr>"
    and early: "route_phase s = Drone \<or> route_phase s = ChoiceOpen"
    using assms(2) by (auto simp: mark_capable_def require_eq ok_or_Inr split: if_splits)
  have "map participant_id ps = map participant_id (participants s)" by (rule set_capable_ids [OF ps(1)])
  moreover from this have "length ps = length (participants s)" by (metis length_map)
  moreover have "selection s = None" "terminal s = None"
    using assms(1) early by (auto simp: routes_ok_def summary_ok_def split: option.splits if_splits)
  ultimately show ?thesis using assms(1) ps(2) early by (auto simp: routes_ok_def)
next
  case (Inl e)
  then show ?thesis using assms by (auto simp: mark_capable_def require_eq split: if_splits)
qed

lemma open_choice_ok: "routes_ok s \<Longrightarrow> open_choice s = (r, s') \<Longrightarrow> routes_ok s'"
  by (auto simp: open_choice_def routes_ok_def summary_ok_def split: option.splits if_splits)

lemma lock_baseline_ok: "routes_ok s \<Longrightarrow> lock_baseline s = (r, s') \<Longrightarrow> routes_ok s'"
  by (auto simp: lock_baseline_def routes_ok_def summary_ok_def split: option.splits if_splits)

text \<open>A choice changes the state only when it is applied, and then to one known state.\<close>

definition may_choose :: "string \<Rightarrow> string \<Rightarrow> route_state \<Rightarrow> bool" where
  "may_choose who oper s \<longleftrightarrow> validate_operation_id oper = Inr () \<and> route_phase s = ChoiceOpen \<and>
     participants s \<noteq> [] \<and> who = leader_id s \<and> all_capable s"

lemma select_cases:
  assumes "select_route who oper route seed s = (r, s')" and "routes_ok s"
  shows "(s' = s \<and> (\<forall>sel. r \<noteq> Inr \<lparr>disposition = Applied, outcome = sel\<rparr>)) \<or>
    (may_choose who oper s \<and> selection s = None \<and>
     r = Inr \<lparr>disposition = Applied, outcome = make_selection who oper route seed\<rparr> \<and>
     s' = s\<lparr>route_phase := Routed, selection := Some (make_selection who oper route seed)\<rparr>)"
  using assms
  by (auto simp: select_route_def require_eq Let_def shipped_catalog_valid may_choose_def routes_ok_def
    split: if_splits option.splits)

lemma still_open:
  "routes_ok s \<Longrightarrow> route_phase s \<noteq> Succeeded \<Longrightarrow> route_phase s \<noteq> Failed \<Longrightarrow> terminal s = None"
  by (auto simp: routes_ok_def summary_ok_def split: option.splits if_splits)

lemma select_frozen:
  "routes_ok s \<Longrightarrow> route_phase s \<noteq> ChoiceOpen \<Longrightarrow> snd (select_route who oper route seed s) = s"
  using select_cases [OF surjective_pairing, of s who oper route seed] by (auto simp: may_choose_def)

lemma select_ok:
  assumes "routes_ok s" and "select_route who oper route seed s = (r, s')"
  shows "routes_ok s'"
proof -
  have "sel_operation (make_selection who oper route seed) = oper \<and>
      sel_route (make_selection who oper route seed) = route \<and>
      sel_seed (make_selection who oper route seed) = seed"
    by (simp add: make_selection_def Let_def)
  then show ?thesis
    using select_cases [OF assms(2,1)] assms(1) still_open [OF assms(1)]
    by (auto simp: routes_ok_def may_choose_def selection_ok_def all_capable_def leader_id_def split: option.splits)
qed

lemma finish_cases:
  assumes "finish q e s = (r, s')"
  shows "(s' = s \<and> (\<forall>m. r \<noteq> Inr \<lparr>disposition = Applied, outcome = m\<rparr>)) \<or>
    (\<exists>sel. terminal s = None \<and> route_phase s = Routed \<and> selection s = Some sel \<and>
       (q = OutcomeSucceeded \<longleftrightarrow> e \<le> sel_budget_ms sel) \<and>
       r = Inr \<lparr>disposition = Applied, outcome = make_summary q e sel s\<rparr> \<and>
       s' = s\<lparr>route_phase := (if q = OutcomeSucceeded then Succeeded else Failed),
              terminal := Some (make_summary q e sel s)\<rparr>)"
  using assms
  by (cases q) (auto simp: finish_def require_eq ok_or_Inr ok_or_Inl Let_def not_less split: if_splits option.splits)

lemma finish_frozen: "route_phase s \<noteq> Routed \<Longrightarrow> snd (finish q e s) = s"
  using finish_cases [OF surjective_pairing, of q e s] by auto

lemma finish_ok:
  assumes "routes_ok s" and "finish q e s = (r, s')"
  shows "routes_ok s'"
  using finish_cases [OF assms(2)]
proof (elim disjE exE conjE)
  fix sel
  assume sel: "selection s = Some sel" and d: "q = OutcomeSucceeded \<longleftrightarrow> e \<le> sel_budget_ms sel"
    and s': "s' = s\<lparr>route_phase := (if q = OutcomeSucceeded then Succeeded else Failed),
              terminal := Some (make_summary q e sel s)\<rparr>"
  have "decided_by_deadline (make_summary q e sel s)"
    using d by (auto simp: decided_by_deadline_def make_summary_def)
  moreover have "selection_ok s' sel \<longleftrightarrow> selection_ok s sel"
    by (simp add: s' selection_ok_def all_capable_def leader_id_def)
  moreover have "make_summary q e sel s' = make_summary q e sel s" by (simp add: s' make_summary_def)
  ultimately show "routes_ok s'"
    using assms(1) sel by (auto simp: routes_ok_def summary_ok_def s') (auto simp: make_summary_def)
qed (use assms(1) in simp)

interpretation route: lifecycle route_exec routes_ok "\<lambda>s. terminal s \<noteq> None \<or> route_phase s = BaselineLocked"
proof unfold_locales
  fix s c
  assume ok: "routes_ok s"
  show "routes_ok (route_exec c s)"
    by (cases c) (auto intro: mark_capable_ok [OF ok surjective_pairing] open_choice_ok [OF ok surjective_pairing]
      lock_baseline_ok [OF ok surjective_pairing] select_ok [OF ok surjective_pairing]
      finish_ok [OF ok surjective_pairing] simp: complete_route_def fail_timeout_def)
  assume final: "terminal s \<noteq> None \<or> route_phase s = BaselineLocked"
  then have "route_phase s \<in> {Succeeded, Failed, BaselineLocked}"
    using ok by (auto simp: routes_ok_def summary_ok_def split: option.splits if_splits)
  then show "route_exec c s = s"
    using select_frozen [OF ok] finish_frozen [of s]
    by (cases c) (auto simp: mark_capable_def open_choice_def lock_baseline_def complete_route_def fail_timeout_def)
qed

section \<open>The choice is made once\<close>

lemma selection_step:
  assumes "routes_ok s" and "selection s = Some sel"
  shows "selection (route_exec c s) = Some sel"
proof -
  have "route_phase s \<in> {Routed, Succeeded, Failed}" using assms by (simp add: routes_ok_def)
  then show ?thesis
    using select_frozen [OF assms(1)] finish_cases [OF surjective_pairing, of _ _ s] assms(2)
    by (cases c) (auto simp: mark_capable_def open_choice_def lock_baseline_def complete_route_def fail_timeout_def;
      metis (no_types, lifting) route_state.select_convs(3) route_state.surjective route_state.update_convs(2,4))+
qed

lemma selection_history:
  "routes_ok s \<Longrightarrow> selection s = Some sel \<Longrightarrow> selection (fold route_exec calls s) = Some sel"
proof (induction calls arbitrary: s)
  case (Cons c calls)
  then show ?case using Cons.IH [OF route.keeps selection_step] by simp
qed simp

lemma select_participants: "participants (snd (select_route who oper route seed s)) = participants s"
  by (auto simp: select_route_def require_def Let_def split: sum.splits option.splits)

lemma finish_participants: "participants (snd (finish q e s)) = participants s"
  by (auto simp: finish_def require_def Let_def split: sum.splits option.splits)

lemma participants_step:
  "map participant_id (participants (route_exec c s)) = map participant_id (participants s)"
  by (cases c)
    (auto simp: mark_capable_def open_choice_def lock_baseline_def complete_route_def fail_timeout_def
      require_def ok_or_def select_participants finish_participants set_capable_ids split: option.splits)

lemma participants_history:
  "map participant_id (participants (fold route_exec calls s)) = map participant_id (participants s)"
  by (induction calls arbitrary: s) (simp_all add: participants_step)

lemma participant_ex: "list_ex (\<lambda>p. participant_id p = who) ps \<longleftrightarrow> who \<in> participant_id ` set ps"
  by (auto simp: list_ex_iff)

lemma selected_answer:
  assumes "selection s = Some sel"
  shows "select_route who oper route seed s =
    (if validate_operation_id oper \<noteq> Inr () then Inl InvalidOperationId
     else if who \<notin> participant_id ` set (participants s) then Inl (UnknownParticipant who)
     else if oper \<noteq> sel_operation sel then Inl RouteAlreadySelected
     else if route \<noteq> sel_route sel \<or> who \<noteq> sel_leader sel then Inl IdempotencyConflict
     else Inr \<lparr>disposition = Replayed, outcome = sel\<rparr>, s)"
  using assms by (auto simp: select_route_def require_def validate_operation_id_def participant_ex)

lemma new_route_participants:
  "new_route_operation is = Inr s \<Longrightarrow> map participant_id (participants s) = is"
  by (auto simp: new_route_operation_def and_then_Inr admitted split: if_splits)

text \<open>
  C17 (safety): the event of a route is never rerolled. Once a choice has been applied or replayed,
  then after any further calls every selection leaves the state as it is, whatever its seed; the
  same request returns the stored outcome as a replay, and any other is refused: with a malformed
  operation identifier, by an unknown participant, under another operation identifier, or with
  another route or leader under the same one, each with its own error.
\<close>

theorem route_never_rerolled:
  assumes "new_route_operation is = Inr s0"
    and "select_route who oper route seed (fold route_exec before s0) = (Inr receipt, s1)"
    and "s2 = fold route_exec after s1"
  shows "select_route who' oper' route' seed' s2 =
    (if validate_operation_id oper' \<noteq> Inr () then Inl InvalidOperationId
     else if who' \<notin> set is then Inl (UnknownParticipant who')
     else if oper' \<noteq> oper then Inl RouteAlreadySelected
     else if route' \<noteq> route \<or> who' \<noteq> who then Inl IdempotencyConflict
     else Inr \<lparr>disposition = Replayed, outcome = outcome receipt\<rparr>, s2) \<and>
    select_route who oper route seed' s2 = (Inr \<lparr>disposition = Replayed, outcome = outcome receipt\<rparr>, s2)"
proof -
  let ?s = "fold route_exec before s0"
  have ok: "routes_ok ?s" using route.good_history new_route_ok [OF assms(1)] by blast
  have ok1: "routes_ok s1" by (rule select_ok [OF ok assms(2)])
  have sel: "selection s1 = Some (outcome receipt)" "sel_operation (outcome receipt) = oper"
    "sel_route (outcome receipt) = route" "sel_leader (outcome receipt) = who"
    using assms(2) ok
    by (auto simp: select_route_def require_eq Let_def shipped_catalog_valid make_selection_def
      split: if_splits option.splits)
  have member: "validate_operation_id oper = Inr ()" "who \<in> participant_id ` set (participants ?s)"
    using assms(2) by (auto simp: select_route_def require_eq participant_ex split: if_splits)
  have stored: "selection s2 = Some (outcome receipt)"
    unfolding assms(3) by (rule selection_history [OF ok1 sel(1)])
  have "map participant_id (participants ?s) = is"
    using new_route_participants [OF assms(1)] by (simp add: participants_history)
  moreover have "map participant_id (participants s2) = map participant_id (participants ?s)"
    using assms(2) select_participants [of who oper route seed ?s] unfolding assms(3) by (simp add: participants_history)
  ultimately have names: "participant_id ` set (participants s2) = set is" "who \<in> set is"
    using member(2) by (metis list.set_map)+
  show ?thesis using member(1) names by (simp add: selected_answer [OF stored] sel)
qed

section \<open>The report\<close>

lemma capable_step:
  assumes "p \<in> set (participants (route_exec c s))" and "capable p"
  shows "(\<exists>q \<in> set (participants s). capable q \<and> participant_id q = participant_id p) \<or>
    c = MarkCapable (participant_id p)"
proof (cases c)
  case (MarkCapable i)
  have "set_capable i ps = Some ps' \<Longrightarrow> p \<in> set ps' \<Longrightarrow> p \<in> set ps \<or> participant_id p = i" for ps ps'
    by (induction ps arbitrary: ps') (auto split: if_splits)
  then show ?thesis
    using assms MarkCapable
    by (auto simp: mark_capable_def require_def ok_or_def split: if_splits option.splits)
qed (use assms in \<open>auto simp: open_choice_def lock_baseline_def complete_route_def fail_timeout_def
      select_participants finish_participants split: if_splits\<close>)

lemma selected_step:
  assumes "routes_ok s" and "selection (route_exec c s) = Some sel"
  shows "selection s = Some sel \<or>
    c = Select (leader_id s) (sel_operation sel) (sel_route sel) (sel_seed sel)"
proof (cases c)
  case (Select who oper route seed)
  show ?thesis
    using select_cases [OF surjective_pairing assms(1), of who oper route seed] assms(2) Select
    by (auto simp: may_choose_def make_selection_def Let_def)
next
  case (Complete e)
  then show ?thesis using assms(2) finish_cases [OF surjective_pairing, of OutcomeSucceeded e s]
    by (auto simp: complete_route_def)
next
  case (FailTimeout e)
  then show ?thesis using assms(2) finish_cases [OF surjective_pairing, of OutcomeTimeout e s]
    by (auto simp: fail_timeout_def)
qed (use assms(2) in \<open>auto simp: mark_capable_def open_choice_def lock_baseline_def require_def
      split: if_splits sum.splits\<close>)

lemma leader_history: "routes_ok s \<Longrightarrow> leader_id (fold route_exec calls s) = leader_id s"
proof -
  assume ok: "routes_ok s"
  let ?ps = "participants (fold route_exec calls s)"
  have "participants s \<noteq> []" using ok by (simp add: routes_ok_def)
  moreover have "map participant_id ?ps = map participant_id (participants s)" by (rule participants_history)
  ultimately show ?thesis
    unfolding leader_id_def by (metis hd_conv_nth list.map_disc_iff list.map_sel(1))
qed

lemma report_history:
  assumes "routes_ok s0" and "selection s0 = None" and "\<forall>p \<in> set (participants s0). \<not> capable p"
  defines "s \<equiv> \<lambda>calls. fold route_exec calls s0"
  shows "(\<forall>p \<in> set (participants (s calls)). capable p \<longrightarrow> MarkCapable (participant_id p) \<in> set calls) \<and>
    (\<forall>sel. selection (s calls) = Some sel \<longrightarrow>
       Select (leader_id s0) (sel_operation sel) (sel_route sel) (sel_seed sel) \<in> set calls)"
proof (induction calls rule: rev_induct)
  case Nil
  then show ?case using assms by simp
next
  case (snoc c calls)
  have step: "s (calls @ [c]) = route_exec c (s calls)" by (simp add: s_def)
  have ok: "routes_ok (s calls)" unfolding s_def by (rule route.good_history [OF assms(1)])
  have leader: "leader_id (s calls) = leader_id s0" unfolding s_def by (rule leader_history [OF assms(1)])
  show ?case
    unfolding step
    using snoc capable_step [of _ c "s calls"] selected_step [OF ok, of c] leader by fastforce
qed

lemma selection_contents:
  assumes "sel = make_selection who oper route seed"
  shows "sel_leader sel = who \<and>
    sel_event sel = resolved_event (resolve_event (sel_route sel) (sel_seed sel)) \<and>
    sel_effect sel = resolved_effect (resolve_event (sel_route sel) (sel_seed sel)) \<and>
    sel_objectives sel = def_objectives (route_definition_of (sel_route sel)) \<and>
    sel_reward sel = def_reward (route_definition_of (sel_route sel)) \<and>
    sel_budget_ms sel = def_duration_ms (route_definition_of (sel_route sel))"
  unfolding assms by (simp add: make_selection_def Let_def)

text \<open>
  C18 (invariant): the terminal report tells the truth about its history. The participants
  are those the operation was created with, all of whom declared their capability, and the
  leader is the first of them and made the reported choice; event and effect are those the
  reported seed resolves to, objectives, budget and reward those of the catalog; the outcome is success, with the
  reward, when the elapsed time is within 90 s, and a timeout without reward otherwise.
\<close>

theorem route_report_faithful:
  assumes "new_route_operation is = Inr s0"
    and "terminal (fold route_exec calls s0) = Some r"
  shows "sum_participants r = is \<and> sum_leader r = hd is \<and>
    (\<forall>i \<in> set is. MarkCapable i \<in> set calls) \<and>
    Select (hd is) (sum_operation r) (sum_route r) (sum_seed r) \<in> set calls \<and>
    sum_event r = resolved_event (resolve_event (sum_route r) (sum_seed r)) \<and>
    sum_effect r = resolved_effect (resolve_event (sum_route r) (sum_seed r)) \<and>
    sum_objectives r = def_objectives (route_definition_of (sum_route r)) \<and>
    (sum_outcome r, sum_reward r) =
      (if sum_elapsed_ms r \<le> 90000
       then (OutcomeSucceeded, Some (def_reward (route_definition_of (sum_route r))))
       else (OutcomeTimeout, None))"
proof -
  let ?s = "fold route_exec calls s0"
  have ok0: "routes_ok s0" using new_route_ok [OF assms(1)] by simp
  have ids0: "map participant_id (participants s0) = is" and fresh: "selection s0 = None"
    "\<forall>p \<in> set (participants s0). \<not> capable p"
  proof -
    obtain ps where ps: "admit_participants [] is = Inr ps"
      "s0 = \<lparr>participants = ps, route_phase = Drone, selection = None, terminal = None\<rparr>"
      using assms(1) by (auto simp: new_route_operation_def and_then_Inr split: if_splits)
    have "admit_participants u js = Inr qs \<Longrightarrow> \<forall>p \<in> set qs. \<not> capable p" for u js qs
      by (induction js arbitrary: u qs) (auto simp: and_then_Inr split: if_splits)
    then show "\<forall>p \<in> set (participants s0). \<not> capable p" using ps by simp
    show "map participant_id (participants s0) = is" "selection s0 = None"
      using admitted [OF ps(1)] ps(2) by simp_all
  qed
  note hist = report_history [OF ok0 fresh, of calls]
  have ok: "routes_ok ?s" by (rule route.good_history [OF ok0])
  then obtain sel where sel: "selection ?s = Some sel" "r = make_summary (sum_outcome r) (sum_elapsed_ms r) sel ?s"
    and deadline: "decided_by_deadline r"
    using assms(2) by (auto simp: routes_ok_def summary_ok_def)
  have sok: "selection_ok ?s sel" using ok sel(1) by (simp add: routes_ok_def)
  have ids: "map participant_id (participants ?s) = is" using ids0 by (simp add: participants_history)
  have lead: "leader_id ?s = hd is" "leader_id s0 = hd is"
    using leader_history [OF ok0, of calls] ids0 ok0
    by (auto simp: leader_id_def routes_ok_def hd_map hd_conv_nth)
  obtain q e where r: "r = make_summary q e sel ?s" using sel(2) by blast
  have made: "sel = make_selection (hd is) (sel_operation sel) (sel_route sel) (sel_seed sel)"
    using sok lead by (simp add: selection_ok_def)
  note chosen = selection_contents [OF made]
  have budget: "def_duration_ms (route_definition_of route) = 90000" for route
    by (cases route) (simp_all add: route_catalog_def breach_definition_def stabilize_definition_def
      route_operation_duration_ms_def)
  have caps: "\<forall>i \<in> set is. MarkCapable i \<in> set calls"
    using hist sok ids by (auto simp: selection_ok_def all_capable_def list_all_iff)
  have choice: "Select (hd is) (sel_operation sel) (sel_route sel) (sel_seed sel) \<in> set calls"
    using hist sel(1) lead(2) by simp
  show ?thesis
    using caps choice chosen deadline ids
    by (cases q) (auto simp: r make_summary_def decided_by_deadline_def budget split: if_splits)
qed

text \<open>
  The deadline alone decides a routed operation. In every reachable state
  of the routed phase, at each elapsed time exactly one of completion and timeout is
  accepted: completion up to 90 s, timeout from then on; the other is refused and changes nothing.
\<close>

theorem route_deadline_decides:
  assumes "new_route_operation is = Inr s0"
    and "s = fold route_exec calls s0" and "route_phase s = Routed"
  shows "if elapsed \<le> 90000
    then (\<exists>m. fst (complete_route elapsed s) = Inr \<lparr>disposition = Applied, outcome = m\<rparr>) \<and>
      route_phase (snd (complete_route elapsed s)) = Succeeded \<and>
      fail_timeout elapsed s = (Inl (DeadlineNotReached elapsed 90000), s)
    else (\<exists>m. fst (fail_timeout elapsed s) = Inr \<lparr>disposition = Applied, outcome = m\<rparr>) \<and>
      route_phase (snd (fail_timeout elapsed s)) = Failed \<and>
      complete_route elapsed s = (Inl (DeadlineExceeded elapsed 90000), s)"
proof -
  have ok: "routes_ok s"
    unfolding assms(2) using new_route_ok [OF assms(1)] route.good_history by blast
  then have open_state: "terminal s = None" using still_open assms(3) by simp
  obtain sel where sel: "selection s = Some sel" "selection_ok s sel"
    using ok assms(3) by (auto simp: routes_ok_def split: option.splits)
  then have "sel = make_selection (leader_id s) (sel_operation sel) (sel_route sel) (sel_seed sel)"
    by (simp add: selection_ok_def)
  then have "sel_budget_ms sel = def_duration_ms (route_definition_of (sel_route sel))"
    using selection_contents by blast
  also have "\<dots> = 90000"
    by (cases "sel_route sel") (simp_all add: route_catalog_def breach_definition_def stabilize_definition_def
      route_operation_duration_ms_def)
  finally show ?thesis
    using open_state sel(1) assms(3) by (auto simp: complete_route_def fail_timeout_def finish_def Let_def)
qed

section \<open>A routed session\<close>

definition two_players :: route_state where
  "two_players = \<lparr>participants = [\<lparr>participant_id = ''ana'', capable = False\<rparr>,
       \<lparr>participant_id = ''bo'', capable = False\<rparr>],
     route_phase = Drone, selection = None, terminal = None\<rparr>"

lemma two_players_new: "new_route_operation [''ana'', ''bo''] = Inr two_players"
  by (simp add: new_route_operation_def max_route_participants_def valid_participant_id_def
    max_participant_id_bytes_def is_ascii_alphanumeric_def byte_def two_players_def)

definition route_script :: "route_call list" where
  "route_script = [MarkCapable ''bo'', OpenChoice, MarkCapable ''ana'']"

definition routed_state :: route_state where
  "routed_state = snd (select_route ''ana'' ''op-1'' Breach 7 (fold route_exec route_script two_players))"

lemma route_id_example [simp]: "validate_operation_id ''op-1'' = Inr ()"
  by (simp add: validate_operation_id_def max_route_operation_id_bytes_def is_ascii_alphanumeric_def byte_def)

lemmas route_eval = route_script_def two_players_def mark_capable_def open_choice_def select_route_def
  leader_id_def all_capable_def shipped_catalog_valid Let_def

lemma route_choice:
  "select_route ''ana'' ''op-1'' Breach 7 (fold route_exec route_script two_players) =
     (Inr \<lparr>disposition = Applied, outcome = make_selection ''ana'' ''op-1'' Breach 7\<rparr>, routed_state)"
  by (simp add: routed_state_def route_eval)

lemma routed_history:
  "routed_state = fold route_exec (route_script @ [Select ''ana'' ''op-1'' Breach 7]) two_players"
  by (simp add: routed_state_def)

lemma routed_phase: "route_phase routed_state = Routed"
  by (simp add: routed_state_def route_eval)

theorem route_never_rerolled_witness:
  "let s = fold route_exec [MarkCapable ''bo'', Complete 100] routed_state
   in select_route ''ana'' ''op-1'' Breach 8 s =
        (Inr \<lparr>disposition = Replayed, outcome = make_selection ''ana'' ''op-1'' Breach 7\<rparr>, s) \<and>
      select_route ''ana'' ''op-1'' Stabilize 8 s = (Inl IdempotencyConflict, s) \<and>
      select_route ''bo'' ''op-1'' Breach 7 s = (Inl IdempotencyConflict, s)"
  using route_never_rerolled [where seed' = 8 and route' = Stabilize and who' = "''ana''" and oper' = "''op-1''"
      and after = "[MarkCapable ''bo'', Complete 100]", OF two_players_new route_choice refl]
    route_never_rerolled [where seed' = 7 and route' = Breach and who' = "''bo''" and oper' = "''op-1''"
      and after = "[MarkCapable ''bo'', Complete 100]", OF two_players_new route_choice refl]
  by (simp add: Let_def)

theorem route_report_faithful_witness:
  "\<exists>r. terminal (fold route_exec (route_script @ [Select ''ana'' ''op-1'' Breach 7, Complete 90000]) two_players) = Some r \<and>
     sum_leader r = ''ana'' \<and> sum_outcome r = OutcomeSucceeded"
proof -
  let ?calls = "route_script @ [Select ''ana'' ''op-1'' Breach 7, Complete 90000]"
  have "make_selection ''ana'' ''op-1'' Breach 7 = make_selection ''ana'' ''op-1'' Breach 7
      \<and> sel_budget_ms (make_selection ''ana'' ''op-1'' Breach 7) = 90000"
    by (simp add: make_selection_def Let_def route_catalog_def breach_definition_def route_operation_duration_ms_def)
  then have "terminal (fold route_exec ?calls two_players) =
      Some (make_summary OutcomeSucceeded 90000 (make_selection ''ana'' ''op-1'' Breach 7)
        (fold route_exec (route_script @ [Select ''ana'' ''op-1'' Breach 7]) two_players))"
    by (simp add: route_eval complete_route_def finish_def)
  from route_report_faithful [OF two_players_new this]
  show ?thesis using \<open>terminal (fold route_exec ?calls two_players) = _\<close> by (auto simp: make_summary_def)
qed

theorem route_deadline_decides_witness:
  "fail_timeout 90000 routed_state = (Inl (DeadlineNotReached 90000 90000), routed_state) \<and>
   complete_route 90001 routed_state = (Inl (DeadlineExceeded 90001 90000), routed_state)"
  using route_deadline_decides [OF two_players_new routed_history routed_phase, of 90000]
    route_deadline_decides [OF two_players_new routed_history routed_phase, of 90001]
  by simp

end
