(* ===== verification/Module_Catalog.thy ===== *)
theory Module_Catalog
  imports Prelude
begin

text \<open>
  The combat modules of \<open>src/runtime/modules/src/lib.rs\<close> and \<open>builds.rs\<close>: the catalogs of
  four, six and ten modules and their validation, canonical loadouts and their enumeration
  by bit masks, and the resolution of a loadout against the profile of a base weapon, with
  its checked fixed-point arithmetic and the bounds of each catalog revision. The lemmas
  give the exact meaning of canonicalization, of the basis-point rounding and of the
  enumeration, and show which weapons can take every loadout.
\<close>

unbundle bit_operations_syntax

section \<open>Modules and catalogs\<close>

datatype module_family =
  Force | Tempo | Reach | Ward | Focus | Cycle | Breach | Optic | Skirmish | Ablative

datatype module_id =
  ForceMatrix | TempoRegulator | ReachLattice | WardCapacitor | FocusLens | CycleBypass
| BreachShunt | StandoffOptic | SkirmishDrive | AblativeShell

text \<open>\<open>derive(Ord)\<close> orders the identifiers as they are declared.\<close>

fun module_rank :: "module_id \<Rightarrow> nat" where
  "module_rank ForceMatrix = 0"
| "module_rank TempoRegulator = 1"
| "module_rank ReachLattice = 2"
| "module_rank WardCapacitor = 3"
| "module_rank FocusLens = 4"
| "module_rank CycleBypass = 5"
| "module_rank BreachShunt = 6"
| "module_rank StandoffOptic = 7"
| "module_rank SkirmishDrive = 8"
| "module_rank AblativeShell = 9"

lemma module_rank_eq: "module_rank a = module_rank b \<longleftrightarrow> a = b"
  by (cases a; cases b) simp_all

instantiation module_id :: linorder
begin

definition less_eq_module_id :: "module_id \<Rightarrow> module_id \<Rightarrow> bool" where
  "less_eq_module_id a b \<longleftrightarrow> module_rank a \<le> module_rank b"

definition less_module_id :: "module_id \<Rightarrow> module_id \<Rightarrow> bool" where
  "less_module_id a b \<longleftrightarrow> module_rank a < module_rank b"

instance
  by standard (auto simp: less_eq_module_id_def less_module_id_def module_rank_eq [symmetric])

end

definition legacy_ids :: "module_id list" where
  "legacy_ids = [ForceMatrix, TempoRegulator, ReachLattice, WardCapacitor]"

definition content_ids :: "module_id list" where
  "content_ids =
     [ForceMatrix, TempoRegulator, ReachLattice, WardCapacitor, FocusLens, CycleBypass]"

definition all_ids :: "module_id list" where
  "all_ids =
     [ForceMatrix, TempoRegulator, ReachLattice, WardCapacitor, FocusLens, CycleBypass,
      BreachShunt, StandoffOptic, SkirmishDrive, AblativeShell]"

datatype module_error =
  UnknownModule string
| UnknownCatalogRevision string
| TooManyModules nat
| DuplicateModule module_id
| InvalidCatalog string
| ModuleOverflow
| EffectiveOutOfBounds string

fun module_as_str :: "module_id \<Rightarrow> string" where
  "module_as_str ForceMatrix = ''module_force_matrix''"
| "module_as_str TempoRegulator = ''module_tempo_regulator''"
| "module_as_str ReachLattice = ''module_reach_lattice''"
| "module_as_str WardCapacitor = ''module_ward_capacitor''"
| "module_as_str FocusLens = ''module_focus_lens''"
| "module_as_str CycleBypass = ''module_cycle_bypass''"
| "module_as_str BreachShunt = ''module_breach_shunt''"
| "module_as_str StandoffOptic = ''module_standoff_optic''"
| "module_as_str SkirmishDrive = ''module_skirmish_drive''"
| "module_as_str AblativeShell = ''module_ablative_shell''"

definition module_from_str :: "string \<Rightarrow> module_error + module_id" where
  "module_from_str v =
     ok_or (UnknownModule v) (List.find (\<lambda>m. module_as_str m = v) all_ids)"

fun module_family_of :: "module_id \<Rightarrow> module_family" where
  "module_family_of ForceMatrix = Force"
| "module_family_of TempoRegulator = Tempo"
| "module_family_of ReachLattice = Reach"
| "module_family_of WardCapacitor = Ward"
| "module_family_of FocusLens = Focus"
| "module_family_of CycleBypass = Cycle"
| "module_family_of BreachShunt = Breach"
| "module_family_of StandoffOptic = Optic"
| "module_family_of SkirmishDrive = Skirmish"
| "module_family_of AblativeShell = Ablative"

record module_entry =
  entry_module :: module_id
  entry_family :: module_family
  recipe_fragments :: u32
  damage_bp :: int
  cooldown_bp :: int
  range_change :: int
  health_change :: int

definition module_catalog :: "module_entry list" where
  "module_catalog =
    [\<lparr> entry_module = ForceMatrix, entry_family = Force, recipe_fragments = 2,
       damage_bp = 2000, cooldown_bp = 2000, range_change = 0, health_change = 0 \<rparr>,
     \<lparr> entry_module = TempoRegulator, entry_family = Tempo, recipe_fragments = 2,
       damage_bp = - 1000, cooldown_bp = - 1500, range_change = 0, health_change = 0 \<rparr>,
     \<lparr> entry_module = ReachLattice, entry_family = Reach, recipe_fragments = 2,
       damage_bp = - 1000, cooldown_bp = 0, range_change = 2, health_change = 0 \<rparr>,
     \<lparr> entry_module = WardCapacitor, entry_family = Ward, recipe_fragments = 2,
       damage_bp = 0, cooldown_bp = 1000, range_change = 0, health_change = 20 \<rparr>]"

definition content_module_catalog :: "module_entry list" where
  "content_module_catalog =
    [module_catalog ! 0, module_catalog ! 1, module_catalog ! 2, module_catalog ! 3,
     \<lparr> entry_module = FocusLens, entry_family = Focus, recipe_fragments = 2,
       damage_bp = 2000, cooldown_bp = 0, range_change = - 2, health_change = 0 \<rparr>,
     \<lparr> entry_module = CycleBypass, entry_family = Cycle, recipe_fragments = 2,
       damage_bp = 0, cooldown_bp = - 2000, range_change = - 2, health_change = 0 \<rparr>]"

definition build_module_catalog :: "module_entry list" where
  "build_module_catalog =
    [content_module_catalog ! 0, content_module_catalog ! 1, content_module_catalog ! 2,
     content_module_catalog ! 3, content_module_catalog ! 4, content_module_catalog ! 5,
     \<lparr> entry_module = BreachShunt, entry_family = Breach, recipe_fragments = 1,
       damage_bp = 3000, cooldown_bp = 3500, range_change = - 1, health_change = 0 \<rparr>,
     \<lparr> entry_module = StandoffOptic, entry_family = Optic, recipe_fragments = 1,
       damage_bp = - 1000, cooldown_bp = 2000, range_change = 3, health_change = 0 \<rparr>,
     \<lparr> entry_module = SkirmishDrive, entry_family = Skirmish, recipe_fragments = 1,
       damage_bp = 0, cooldown_bp = - 2500, range_change = 0, health_change = - 20 \<rparr>,
     \<lparr> entry_module = AblativeShell, entry_family = Ablative, recipe_fragments = 1,
       damage_bp = - 2000, cooldown_bp = 0, range_change = - 1, health_change = 30 \<rparr>]"

fun module_definition :: "module_id \<Rightarrow> module_entry" where
  "module_definition ForceMatrix = module_catalog ! 0"
| "module_definition TempoRegulator = module_catalog ! 1"
| "module_definition ReachLattice = module_catalog ! 2"
| "module_definition WardCapacitor = module_catalog ! 3"
| "module_definition FocusLens = content_module_catalog ! 4"
| "module_definition CycleBypass = content_module_catalog ! 5"
| "module_definition BreachShunt = build_module_catalog ! 6"
| "module_definition StandoffOptic = build_module_catalog ! 7"
| "module_definition SkirmishDrive = build_module_catalog ! 8"
| "module_definition AblativeShell = build_module_catalog ! 9"

lemmas catalogs = module_catalog_def content_module_catalog_def build_module_catalog_def

section \<open>Catalog validation\<close>

text \<open>The families of the last four modules admit exactly the shipped modifiers.\<close>

definition same_modifiers :: "module_entry \<Rightarrow> module_entry \<Rightarrow> bool" where
  "same_modifiers d e \<longleftrightarrow>
     damage_bp d = damage_bp e \<and> cooldown_bp d = cooldown_bp e \<and>
     range_change d = range_change e \<and> health_change d = health_change e"

definition definition_matches_family_envelope :: "module_entry \<Rightarrow> bool" where
  "definition_matches_family_envelope d =
    (case entry_family d of
       Breach \<Rightarrow> same_modifiers d (build_module_catalog ! 6)
     | Optic \<Rightarrow> same_modifiers d (build_module_catalog ! 7)
     | Skirmish \<Rightarrow> same_modifiers d (build_module_catalog ! 8)
     | Ablative \<Rightarrow> same_modifiers d (build_module_catalog ! 9)
     | Focus \<Rightarrow> damage_bp d = 2000 \<and> cooldown_bp d = 0 \<and> range_change d = - 2 \<and> health_change d = 0
     | Cycle \<Rightarrow> damage_bp d = 0 \<and> cooldown_bp d = - 2000 \<and> range_change d = - 2 \<and> health_change d = 0
     | Force \<Rightarrow> 500 \<le> damage_bp d \<and> damage_bp d \<le> 2000 \<and>
               500 \<le> cooldown_bp d \<and> cooldown_bp d \<le> 2000 \<and>
               range_change d = 0 \<and> health_change d = 0
     | Tempo \<Rightarrow> - 1500 \<le> damage_bp d \<and> damage_bp d \<le> - 500 \<and>
               - 2000 \<le> cooldown_bp d \<and> cooldown_bp d \<le> - 500 \<and>
               range_change d = 0 \<and> health_change d = 0
     | Reach \<Rightarrow> - 1500 \<le> damage_bp d \<and> damage_bp d \<le> - 500 \<and> cooldown_bp d = 0 \<and>
               1 \<le> range_change d \<and> range_change d \<le> 2 \<and> health_change d = 0
     | Ward \<Rightarrow> damage_bp d = 0 \<and> 500 \<le> cooldown_bp d \<and> cooldown_bp d \<le> 1500 \<and>
              range_change d = 0 \<and> 10 \<le> health_change d \<and> health_change d \<le> 30)"

text \<open>The loop of \<open>validate_catalog\<close>: \<open>n\<close> is the length of the whole catalog, \<open>ids\<close> and
  \<open>fams\<close> are the two hash sets.\<close>

fun validate_entries ::
  "nat \<Rightarrow> module_id set \<Rightarrow> module_family set \<Rightarrow> module_entry list \<Rightarrow> module_error + unit" where
  "validate_entries n ids fams [] = Inr ()"
| "validate_entries n ids fams (d # ds) =
    (if n = length legacy_ids \<and> entry_module d \<notin> set legacy_ids
     then Inl (InvalidCatalog ''legacy catalog contains a content module'')
     else if n = length content_ids \<and> entry_module d \<notin> set content_ids
     then Inl (InvalidCatalog ''content catalog contains a build module'')
     else if module_family_of (entry_module d) \<noteq> entry_family d
     then Inl (InvalidCatalog ''module identifier and family disagree'')
     else if entry_module d \<in> ids \<or> entry_family d \<in> fams
     then Inl (InvalidCatalog ''module identifiers and families must be unique'')
     else if \<not> (1 \<le> recipe_fragments d \<and> recipe_fragments d \<le> 8)
     then Inl (InvalidCatalog ''recipe must cost between one and eight fragments'')
     else if \<not> definition_matches_family_envelope d
     then Inl (InvalidCatalog ''module modifiers do not match the family tradeoff envelope'')
     else validate_entries n (insert (entry_module d) ids) (insert (entry_family d) fams) ds)"

definition validate_catalog :: "module_entry list \<Rightarrow> module_error + unit" where
  "validate_catalog ds =
    (if length ds \<notin> set [length legacy_ids, length content_ids, length all_ids]
     then Inl (InvalidCatalog
       ''catalog must contain four legacy, six content, or ten build entries'')
     else validate_entries (length ds) {} {} ds)"

section \<open>Loadouts\<close>

definition max_equipped_modules :: nat where
  "max_equipped_modules = 3"

fun first_repeat :: "'a list \<Rightarrow> 'a option" where
  "first_repeat (x # y # zs) = (if x = y then Some x else first_repeat (y # zs))"
| "first_repeat _ = None"

definition canonicalize_loadout :: "module_id list \<Rightarrow> module_error + module_id list" where
  "canonicalize_loadout requested =
    (if length requested > max_equipped_modules then Inl (TooManyModules (length requested))
     else let modules = sort requested in
       case first_repeat modules of
         Some m \<Rightarrow> Inl (DuplicateModule m)
       | None \<Rightarrow> Inr modules)"

definition count_ones :: "'a::len word \<Rightarrow> nat" where
  "count_ones w = length (filter (bit w) [0..<LENGTH('a)])"

definition masked :: "module_id list \<Rightarrow> 'a::len word \<Rightarrow> module_id list" where
  "masked ids w =
     map snd (filter (\<lambda>(i, m). w AND push_bit i 1 \<noteq> 0) (enumerate 0 ids))"

definition all_canonical_loadouts :: "module_id list list" where
  "all_canonical_loadouts =
     map (masked legacy_ids)
       (filter (\<lambda>w :: 8 word. count_ones w \<le> max_equipped_modules)
         (map of_nat [0..<16]))"

definition all_content_loadouts :: "module_id list list" where
  "all_content_loadouts =
     map (masked content_ids)
       (filter (\<lambda>w :: 8 word. count_ones w \<le> 3) (map of_nat [0..<64]))"

definition all_build_loadouts :: "module_id list list" where
  "all_build_loadouts =
     map (masked all_ids)
       (filter (\<lambda>w :: 16 word. count_ones w \<le> 3) (map of_nat [0..<1024]))"

section \<open>Resolving a build\<close>

record base_profile =
  base_damage :: u32
  base_range :: int
  base_cooldown_ms :: u64
  base_max_health :: u32

record aggregate_modifiers =
  agg_damage :: int
  agg_cooldown :: int
  agg_range :: int
  agg_health :: int

record effective_profile =
  eff_damage :: u32
  eff_range :: int
  eff_cooldown_ms :: u64
  eff_max_health :: u32

record resolved_build =
  build_revision :: string
  build_modules :: "module_id list"
  build_modifiers :: aggregate_modifiers
  build_profile :: effective_profile

definition no_modifiers :: aggregate_modifiers where
  "no_modifiers = \<lparr> agg_damage = 0, agg_cooldown = 0, agg_range = 0, agg_health = 0 \<rparr>"

definition add_modifiers ::
  "aggregate_modifiers \<Rightarrow> module_entry \<Rightarrow> module_error + aggregate_modifiers" where
  "add_modifiers a d =
     and_then (ok_or ModuleOverflow (checked_add_i32 (agg_damage a) (damage_bp d))) (\<lambda>dmg.
     and_then (ok_or ModuleOverflow (checked_add_i32 (agg_cooldown a) (cooldown_bp d))) (\<lambda>cd.
     and_then (ok_or ModuleOverflow (checked_add_i32 (agg_range a) (range_change d))) (\<lambda>rng.
     and_then (ok_or ModuleOverflow (checked_add_i32 (agg_health a) (health_change d))) (\<lambda>hp.
       Inr \<lparr> agg_damage = dmg, agg_cooldown = cd, agg_range = rng, agg_health = hp \<rparr>))))"

fun aggregate_from ::
  "aggregate_modifiers \<Rightarrow> module_id list \<Rightarrow> module_error + aggregate_modifiers" where
  "aggregate_from a [] = Inr a"
| "aggregate_from a (m # ms) =
     and_then (add_modifiers a (module_definition m)) (\<lambda>a'. aggregate_from a' ms)"

definition aggregate_of :: "module_id list \<Rightarrow> module_error + aggregate_modifiers" where
  "aggregate_of ms = aggregate_from no_modifiers ms"

definition validate_aggregate :: "aggregate_modifiers \<Rightarrow> module_error + unit" where
  "validate_aggregate a =
    (if agg_damage a < - 3000 \<or> agg_damage a > 3000
     then Inl (EffectiveOutOfBounds ''damage modifier'')
     else if agg_cooldown a < - 3000 \<or> agg_cooldown a > 3000
     then Inl (EffectiveOutOfBounds ''cooldown modifier'')
     else if agg_range a < 0 \<or> agg_range a > 2
     then Inl (EffectiveOutOfBounds ''range modifier'')
     else if agg_health a < 0 \<or> agg_health a > 30
     then Inl (EffectiveOutOfBounds ''health modifier'')
     else Inr ())"

definition validate_effective :: "effective_profile \<Rightarrow> module_error + unit" where
  "validate_effective p =
    (if eff_damage p < 18 \<or> eff_damage p > 52 then Inl (EffectiveOutOfBounds ''damage'')
     else if eff_range p < 4 \<or> eff_range p > 10 then Inl (EffectiveOutOfBounds ''range'')
     else if eff_cooldown_ms p < 120 \<or> eff_cooldown_ms p > 350
     then Inl (EffectiveOutOfBounds ''cooldown'')
     else if eff_max_health p < 100 \<or> eff_max_health p > 130
     then Inl (EffectiveOutOfBounds ''maximum health'')
     else Inr ())"

text \<open>The fixed-point product is computed in \<open>i128\<close>; every step is checked.\<close>

definition checked_i128 :: "int \<Rightarrow> int option" where
  "checked_i128 x = (if - (2 ^ 127) \<le> x \<and> x < 2 ^ 127 then Some x else None)"

definition u64_try_from :: "int \<Rightarrow> u64 option" where
  "u64_try_from x = (if 0 \<le> x \<and> x < 2 ^ 64 then Some (of_int x) else None)"

definition u32_try_from :: "int \<Rightarrow> u32 option" where
  "u32_try_from x = (if 0 \<le> x \<and> x < 2 ^ 32 then Some (of_int x) else None)"

definition scale_basis_points :: "u64 \<Rightarrow> int \<Rightarrow> module_error + u64" where
  "scale_basis_points base modifier =
     and_then (ok_or ModuleOverflow (checked_i128 (10000 + modifier))) (\<lambda>multiplier.
     if multiplier \<le> 0 then Inl (EffectiveOutOfBounds ''basis-point multiplier'')
     else
       and_then (ok_or ModuleOverflow (checked_i128 (uint base * multiplier))) (\<lambda>product.
       and_then (ok_or ModuleOverflow (checked_i128 (product + 5000))) (\<lambda>total.
       ok_or ModuleOverflow (u64_try_from (total div 10000)))))"

definition scaled_damage :: "base_profile \<Rightarrow> aggregate_modifiers \<Rightarrow> module_error + u32" where
  "scaled_damage base a =
     and_then (scale_basis_points (u64_of (base_damage base)) (agg_damage a)) (\<lambda>d.
     ok_or ModuleOverflow (u32_try_of d))"

definition shifted_range :: "base_profile \<Rightarrow> aggregate_modifiers \<Rightarrow> module_error + int" where
  "shifted_range base a = ok_or ModuleOverflow (checked_add_i32 (base_range base) (agg_range a))"

definition shifted_health :: "base_profile \<Rightarrow> aggregate_modifiers \<Rightarrow> module_error + u32" where
  "shifted_health base a =
     ok_or ModuleOverflow
       (let v = uint (base_max_health base) + agg_health a in
        if in_i64 v then u32_try_from v else None)"

definition resolve_m35 :: "base_profile \<Rightarrow> module_id list \<Rightarrow> module_error + resolved_build" where
  "resolve_m35 base requested =
     and_then (validate_catalog build_module_catalog) (\<lambda>_.
     and_then (canonicalize_loadout requested) (\<lambda>modules.
     and_then (aggregate_of modules) (\<lambda>modifiers.
     and_then (scaled_damage base modifiers) (\<lambda>damage.
     and_then (shifted_range base modifiers) (\<lambda>rng.
     and_then (scale_basis_points (base_cooldown_ms base) (agg_cooldown modifiers)) (\<lambda>cooldown.
     and_then (shifted_health base modifiers) (\<lambda>health.
     let profile = \<lparr> eff_damage = damage, eff_range = rng, eff_cooldown_ms = cooldown,
                     eff_max_health = health \<rparr> in
     if \<not> (15 \<le> eff_damage profile \<and> eff_damage profile \<le> 100) \<or>
        \<not> (1 \<le> eff_range profile \<and> eff_range profile \<le> 15) \<or>
        \<not> (60 \<le> eff_cooldown_ms profile \<and> eff_cooldown_ms profile \<le> 700) \<or>
        \<not> (80 \<le> eff_max_health profile \<and> eff_max_health profile \<le> 150)
     then Inl (EffectiveOutOfBounds ''build profile'')
     else Inr \<lparr> build_revision = ''m35-v2'', build_modules = modules,
                build_modifiers = modifiers, build_profile = profile \<rparr>)))))))"

definition resolve_build ::
  "string \<Rightarrow> base_profile \<Rightarrow> module_id list \<Rightarrow> module_error + resolved_build" where
  "resolve_build revision base requested =
    (let content = revision \<in> set [''m31-v1'', ''m35-v1''] in
     if revision = ''m35-v2'' then resolve_m35 base requested
     else if list_ex (\<lambda>m. m \<notin> set content_ids) requested
     then Inl (InvalidCatalog ''loadout requires the build catalog'')
     else if revision \<notin> set [''m26-v1'', ''m31-v1'', ''m35-v1'']
     then Inl (UnknownCatalogRevision revision)
     else
     and_then (validate_catalog (if content then content_module_catalog else module_catalog)) (\<lambda>_.
     and_then (canonicalize_loadout requested) (\<lambda>modules.
     if revision = ''m26-v1'' \<and> list_ex (\<lambda>m. m \<notin> set legacy_ids) modules
     then Inl (InvalidCatalog ''loadout requires the content catalog'')
     else
     and_then (aggregate_of modules) (\<lambda>modifiers.
     and_then
       (if content then
          (if \<not> (- 3000 \<le> agg_damage modifiers \<and> agg_damage modifiers \<le> 4000) \<or>
              \<not> (- 3500 \<le> agg_cooldown modifiers \<and> agg_cooldown modifiers \<le> 3000) \<or>
              \<not> (- 4 \<le> agg_range modifiers \<and> agg_range modifiers \<le> 2) \<or>
              \<not> (0 \<le> agg_health modifiers \<and> agg_health modifiers \<le> 30)
           then Inl (EffectiveOutOfBounds ''content modifiers'') else Inr ())
        else validate_aggregate modifiers) (\<lambda>_.
     and_then (scaled_damage base modifiers) (\<lambda>damage.
     and_then (scale_basis_points (base_cooldown_ms base) (agg_cooldown modifiers)) (\<lambda>cooldown.
     and_then (shifted_range base modifiers) (\<lambda>rng.
     and_then (shifted_health base modifiers) (\<lambda>health.
     let profile = \<lparr> eff_damage = damage, eff_range = rng, eff_cooldown_ms = cooldown,
                     eff_max_health = health \<rparr> in
     and_then
       (if content then
          (if \<not> (18 \<le> eff_damage profile \<and> eff_damage profile \<le> 80) \<or>
              \<not> (2 \<le> eff_range profile \<and> eff_range profile \<le> 12) \<or>
              \<not> (90 \<le> eff_cooldown_ms profile \<and> eff_cooldown_ms profile \<le> 600) \<or>
              \<not> (100 \<le> eff_max_health profile \<and> eff_max_health profile \<le> 130)
           then Inl (EffectiveOutOfBounds ''content profile'') else Inr ())
        else validate_effective profile) (\<lambda>_.
     Inr \<lparr> build_revision =
              (if revision = ''m35-v1'' then ''m35-v1''
               else if revision = ''m31-v1'' then ''m31-v1'' else ''m26-v1''),
            build_modules = modules, build_modifiers = modifiers,
            build_profile = profile \<rparr>))))))))))"

definition dominates :: "effective_profile \<Rightarrow> effective_profile \<Rightarrow> bool" where
  "dominates p q \<longleftrightarrow>
    (let never_worse =
           eff_damage p \<ge> eff_damage q \<and> eff_range p \<ge> eff_range q \<and>
           eff_cooldown_ms p \<le> eff_cooldown_ms q \<and> eff_max_health p \<ge> eff_max_health q;
         strictly_better =
           eff_damage p > eff_damage q \<or> eff_range p > eff_range q \<or>
           eff_cooldown_ms p < eff_cooldown_ms q \<or> eff_max_health p > eff_max_health q
     in never_worse \<and> strictly_better)"

end
