(* ===== verification/Module_Builds.thy ===== *)
theory Module_Builds
  imports Module_Catalog
begin

text \<open>
  What the module catalog of \<open>Module_Catalog\<close> promises: canonical loadouts are the sorted
  duplicate-free requests of at most three modules and the bit-mask enumerations list each
  of them once, basis-point scaling is exact rounding, every weapon of the arsenal can take
  every loadout, and no M26 loadout is better than another in every respect.
\<close>

section \<open>Canonical loadouts\<close>

instance module_id :: finite
proof
  have "UNIV \<subseteq> set all_ids"
  proof
    fix m :: module_id show "m \<in> set all_ids" by (cases m) (simp_all add: all_ids_def)
  qed
  then show "finite (UNIV :: module_id set)" by (rule finite_subset) simp
qed

lemma first_repeat_None: "sorted xs \<Longrightarrow> first_repeat xs = None \<longleftrightarrow> distinct xs"
proof (induction xs rule: first_repeat.induct)
  case (1 x y zs)
  show ?case
  proof (cases "x = y")
    case False
    with "1.prems" have "x \<notin> set (y # zs)" by auto
    with 1(1) [OF False] "1.prems" False show ?thesis by simp
  qed simp
qed simp_all

lemma first_repeat_Some:
  "sorted xs \<Longrightarrow> first_repeat xs = Some x \<Longrightarrow>
     2 \<le> count_list xs x \<and> (\<forall>y. 2 \<le> count_list xs y \<longrightarrow> x \<le> y)"
proof (induction xs rule: first_repeat.induct)
  case (1 a b zs)
  show ?case
  proof (cases "a = b")
    case True
    have "2 \<le> count_list (a # b # zs) y \<Longrightarrow> a \<le> y" for y
    proof -
      assume "2 \<le> count_list (a # b # zs) y"
      then have "y \<in> set (a # b # zs)" by (metis count_notin not_numeral_le_zero)
      with "1.prems"(1) show "a \<le> y" by auto
    qed
    with True "1.prems"(2) show ?thesis by auto
  next
    case False
    with "1.prems" have "a < b" and le: "\<forall>z \<in> set (b # zs). b \<le> z" and x: "first_repeat (b # zs) = Some x"
      by auto
    then have "a \<notin> set (b # zs)" by auto
    then have "count_list (b # zs) a = 0" by (rule count_notin)
    with 1(1) [OF False] "1.prems" x show ?thesis by auto
  qed
qed simp_all

text \<open>
  A request is accepted exactly when it has at most three
  modules, all different, and its canonical form depends on the set of modules only; a
  request with repetitions is refused naming the least repeated module.
\<close>

theorem canonical_form:
  "canonicalize_loadout ms =
     (if length ms \<le> 3
      then if distinct ms then Inr (sorted_list_of_set (set ms))
           else Inl (DuplicateModule (Min {m. 2 \<le> count_list ms m}))
      else Inl (TooManyModules (length ms)))"
proof (cases "length ms \<le> 3")
  case True
  have count: "count_list (sort ms) = count_list ms" 
    by (rule ext) (simp add: count_list_eq_length_filter filter_sort)
  show ?thesis
  proof (cases "distinct ms")
    case distinct: True
    then have "first_repeat (sort ms) = None" by (simp add: first_repeat_None)
    moreover have "sort ms = sorted_list_of_set (set ms)"
      using distinct by (simp add: sorted_list_of_set_sort_remdups distinct_remdups_id)
    ultimately show ?thesis using True distinct
      by (simp add: canonicalize_loadout_def max_equipped_modules_def)
  next
    case False
    then obtain m where m: "first_repeat (sort ms) = Some m"
      by (metis first_repeat_None distinct_sort option.exhaust sorted_sort)
    have "2 \<le> count_list ms m \<and> (\<forall>y. 2 \<le> count_list ms y \<longrightarrow> m \<le> y)"
      using first_repeat_Some [OF sorted_sort m] unfolding count .
    then have "Min {m. 2 \<le> count_list ms m} = m" by (intro Min_eqI) auto
    with m False True show ?thesis by (simp add: canonicalize_loadout_def max_equipped_modules_def)
  qed
next
  case False
  then show ?thesis by (simp add: canonicalize_loadout_def max_equipped_modules_def)
qed

lemma canonical_Inr:
  "canonicalize_loadout ms = Inr cs \<longleftrightarrow> length ms \<le> 3 \<and> distinct ms \<and> cs = sort ms"
  using first_repeat_None [OF sorted_sort, of ms]
  by (cases "first_repeat (sort ms)")
    (auto simp: canonicalize_loadout_def max_equipped_modules_def)

lemma canonical_fixed:
  "canonicalize_loadout ms = Inr ms \<longleftrightarrow> length ms \<le> 3 \<and> sorted ms \<and> distinct ms"
  unfolding canonical_Inr by (metis sort_key_id_if_sorted sorted_sort map_ident)

section \<open>Enumeration by bit masks\<close>

text \<open>The sub-list a mask selects, on the bits of a natural number.\<close>

fun pick :: "'a list \<Rightarrow> nat \<Rightarrow> 'a list" where
  "pick [] n = []"
| "pick (x # xs) n = (if odd n then [x] else []) @ pick xs (n div 2)"

lemma pick_enumerate:
  "map snd (filter (\<lambda>(i, x). bit n i) (enumerate k xs)) = pick xs (n div 2 ^ k)" for n :: nat
proof (induction xs arbitrary: k)
  case (Cons x xs)
  have "n div 2 ^ k div 2 = n div 2 ^ Suc k" 
    by (metis div_mult2_eq power_Suc2)
  then show ?case using Cons [of "Suc k"] by (simp add: bit_iff_odd del: power_Suc)
qed simp

lemma word_mask_bit:
  "i < LENGTH('a) \<Longrightarrow> (w AND push_bit i 1 \<noteq> 0) = bit w i" for w :: "'a::len word"
proof -
  assume i: "i < LENGTH('a)"
  have "bit (w AND push_bit i 1) j \<longleftrightarrow> bit w i \<and> j = i" for j
    using i by (cases "j = i") (auto simp: bit_simps)
  then show ?thesis by (metis bit_0_eq bot_apply bot_bool_def bit_eq_iff)
qed

lemma masked_pick:
  assumes "length ids \<le> LENGTH('a)"
  shows "masked ids (of_nat n :: 'a::len word) = pick ids n"
proof -
  have "filter (\<lambda>(i, m). (of_nat n :: 'a word) AND push_bit i 1 \<noteq> 0) (enumerate 0 ids)
      = filter (\<lambda>(i, m). bit n i) (enumerate 0 ids)"
  proof (rule filter_cong [OF refl])
    fix p assume "p \<in> set (enumerate 0 ids)"
    then have "fst p < length ids" by (auto simp: in_set_enumerate_eq)
    with assms have "fst p < LENGTH('a)" by simp
    then show "(case p of (i, m) \<Rightarrow> (of_nat n :: 'a word) AND push_bit i 1 \<noteq> 0) = (case p of (i, m) \<Rightarrow> bit n i)"
      using word_mask_bit [of "fst p" "of_nat n :: 'a word"] by (cases p) (simp add: bit_of_nat_iff)
  qed
  then show ?thesis using pick_enumerate [of n 0 ids] by (simp add: masked_def)
qed

lemma count_ones_pick:
  assumes "length ids \<le> LENGTH('a)" and "n < 2 ^ length ids"
  shows "count_ones (of_nat n :: 'a::len word) = length (pick ids n)"
proof -
  have low: "\<not> bit n i" if "length ids \<le> i" for i
    using assms(2) that by (metis bit_take_bit_iff leD take_bit_nat_eq_self)
  have split: "[0..<LENGTH('a)] = [0..<length ids] @ [length ids..<LENGTH('a)]"
    using assms(1) by (metis le_add_diff_inverse upt_add_eq_append zero_le)
  have "filter (bit (of_nat n :: 'a word)) [0..<LENGTH('a)] = filter (bit n) [0..<LENGTH('a)]"
    by (rule filter_cong) (simp_all add: bit_of_nat_iff)
  also have "\<dots> = filter (bit n) [0..<length ids]"
    unfolding split filter_append by (auto simp: filter_empty_conv low)
  also have "\<dots> = filter (bit n) (map fst (enumerate 0 ids))" by simp
  also have "\<dots> = map fst (filter (\<lambda>(i, x). bit n i) (enumerate 0 ids))"
    unfolding filter_map comp_def split_def ..
  finally have "count_ones (of_nat n :: 'a word) = length (filter (\<lambda>(i, x). bit n i) (enumerate 0 ids))"
    unfolding count_ones_def by (metis length_map)
  then show ?thesis using pick_enumerate [of n 0 ids] by (metis div_by_1 length_map power_0)
qed

lemma length_pick: "length (pick xs n) \<le> length xs"
  by (induction xs arbitrary: n) (auto intro: le_SucI)

lemma pick_subset: "set (pick xs n) \<subseteq> set xs"
  by (induction xs arbitrary: n) fastforce+

lemma pick_filter: "pick xs (horner_sum of_bool 2 (map P xs)) = filter P xs"
  by (induction xs) simp_all

lemma pick_is_filter: "distinct xs \<Longrightarrow> pick xs n = filter (\<lambda>x. x \<in> set (pick xs n)) xs"
proof (induction xs arbitrary: n)
  case (Cons x xs)
  have "x \<notin> set (pick xs (n div 2))" using Cons.prems pick_subset [of xs] by auto
  moreover have "filter (\<lambda>y. y \<in> set (pick xs (n div 2)) \<or> y = x) xs
      = filter (\<lambda>y. y \<in> set (pick xs (n div 2))) xs"
    using Cons.prems by (intro filter_cong) auto
  ultimately show ?case using Cons.IH [of "n div 2"] Cons.prems by (auto simp: disj_commute)
qed simp

lemma mask_of_pick:
  "distinct xs \<Longrightarrow> n < 2 ^ length xs \<Longrightarrow>
     horner_sum of_bool 2 (map (\<lambda>x. x \<in> set (pick xs n)) xs) = n"
proof (induction xs arbitrary: n)
  case (Cons x xs)
  have "x \<notin> set (pick xs (n div 2))" using Cons.prems pick_subset [of xs] by auto
  moreover have "map (\<lambda>y. y = x \<or> y \<in> set (pick xs (n div 2))) xs
      = map (\<lambda>y. y \<in> set (pick xs (n div 2))) xs"
    using Cons.prems by (intro map_cong refl) auto
  moreover have "n div 2 < 2 ^ length xs" using Cons.prems by auto
  ultimately show ?case using Cons.IH [of "n div 2"] Cons.prems
    by (cases "odd n") (simp_all del: map_eq_conv)
qed simp

lemma distinct_picks: "distinct xs \<Longrightarrow> distinct (map (pick xs) [0..<2 ^ length xs])"
  unfolding distinct_map
  by (auto intro!: inj_on_inverseI [where g = "\<lambda>ys. horner_sum of_bool 2 (map (\<lambda>x. x \<in> set ys) xs)"]
    simp: mask_of_pick)

lemma set_picks:
  assumes "distinct xs"
  shows "set (map (pick xs) [0..<2 ^ length xs]) = range (\<lambda>P. filter P xs)"
proof (intro equalityI subsetI)
  fix ys assume "ys \<in> set (map (pick xs) [0..<2 ^ length xs])"
  then show "ys \<in> range (\<lambda>P. filter P xs)" using pick_is_filter [OF assms] by auto
next
  fix ys assume "ys \<in> range (\<lambda>P. filter P xs)"
  then obtain P where "ys = filter P xs" by auto
  then have "ys = pick xs (horner_sum of_bool 2 (map P xs))" by (simp add: pick_filter)
  moreover have "(horner_sum of_bool 2 (map P xs) :: nat) < 2 ^ length xs"
    using horner_sum_of_bool_2_less [of "map P xs", where 'a = nat] by simp
  ultimately show "ys \<in> set (map (pick xs) [0..<2 ^ length xs])" by auto
qed

lemma sorted_sublists:
  assumes "sorted ids" and "distinct ids"
  shows "ys \<in> range (\<lambda>P. filter P ids) \<longleftrightarrow> sorted ys \<and> distinct ys \<and> set ys \<subseteq> set ids"
    (is "_ \<longleftrightarrow> ?canonical")
proof
  assume ?canonical
  then have "ys = filter (\<lambda>x. x \<in> set ys) ids"
    using assms by (intro sorted_distinct_set_unique) (auto simp: sorted_wrt_filter)
  then show "ys \<in> range (\<lambda>P. filter P ids)" by (rule range_eqI [where x = "\<lambda>x. x \<in> set ys"])
qed (use assms in \<open>auto simp: sorted_wrt_filter\<close>)

definition enumerates :: "module_id list \<Rightarrow> module_id list list \<Rightarrow> bool" where
  "enumerates ids mss \<longleftrightarrow>
     distinct mss \<and>
     (\<forall>ms. ms \<in> set mss \<longleftrightarrow> canonicalize_loadout ms = Inr ms \<and> set ms \<subseteq> set ids)"

lemma masks_enumerate:
  assumes ids: "sorted ids" "distinct ids" "length ids \<le> LENGTH('a::len)"
    and n: "n = 2 ^ length ids"
  shows "enumerates ids
    (map (masked ids) (filter (\<lambda>w :: 'a word. count_ones w \<le> 3) (map of_nat [0..<n])))"
proof -
  let ?ns = "filter (\<lambda>k. length (pick ids k) \<le> 3) [0..<n]"
  have "map (masked ids) (filter (\<lambda>w :: 'a word. count_ones w \<le> 3) (map of_nat [0..<n]))
      = map (\<lambda>k. masked ids (of_nat k :: 'a word))
          (filter (\<lambda>k. count_ones (of_nat k :: 'a word) \<le> 3) [0..<n])"
    by (simp add: filter_map comp_def)
  also have "\<dots> = map (pick ids) ?ns"
    using ids(3) n by (intro map_cong filter_cong) (simp_all add: masked_pick count_ones_pick)
  also have "\<dots> = filter (\<lambda>ms. length ms \<le> 3) (map (pick ids) [0..<n])"
    by (simp add: filter_map comp_def)
  finally show ?thesis
    using distinct_picks [OF ids(2)] set_picks [OF ids(2)] sorted_sublists [OF ids(1,2)]
    by (auto simp: enumerates_def canonical_fixed n)
qed

text \<open>
  The enumerations. Each of the three bit-mask loops lists every canonical
  loadout of its catalog exactly once and nothing else, so a check over them is a check over
  all loadouts a request can name.
\<close>

theorem loadouts_enumerated:
  "enumerates legacy_ids all_canonical_loadouts \<and>
   enumerates content_ids all_content_loadouts \<and>
   enumerates all_ids all_build_loadouts"
  unfolding all_canonical_loadouts_def all_content_loadouts_def all_build_loadouts_def
    max_equipped_modules_def
  by (intro conjI masks_enumerate)
    (simp_all add: legacy_ids_def content_ids_def all_ids_def less_eq_module_id_def)

section \<open>Fixed-point scaling\<close>

text \<open>
  Basis-point scaling. The result is the exact product rounded half up whenever it
  fits 64 bits; the 128-bit intermediate values never overflow, and a multiplier that is not
  positive is refused.
\<close>

theorem scale_exact:
  assumes "in_i32 modifier"
  shows "scale_basis_points base modifier =
    (if - 10000 < modifier
     then let r = \<lfloor>rat_of_nat (unat base) * (1 + rat_of_int modifier / 10000) + 1 / 2\<rfloor>
          in if r < 2 ^ 64 then Inr (word_of_int r) else Inl ModuleOverflow
     else Inl (EffectiveOutOfBounds ''basis-point multiplier''))"
proof -
  have m: "10000 + modifier < 2 ^ 32" "- (2 ^ 32) < 10000 + modifier"
    using assms by (simp_all add: in_i32_def)
  then have fits: "checked_i128 (10000 + modifier) = Some (10000 + modifier)"
    by (simp add: checked_i128_def)
  show ?thesis
  proof (cases "- 10000 < modifier")
    case True
    let ?p = "uint base * (10000 + modifier)"
    have b: "0 \<le> uint base" "uint base < 2 ^ 64" using unsigned_less [of base, where 'a = int] by auto
    have "?p \<le> 2 ^ 64 * 2 ^ 32" using b m True by (intro mult_mono) linarith+
    moreover have "0 \<le> ?p" using b True by simp
    ultimately have "checked_i128 ?p = Some ?p" "checked_i128 (?p + 5000) = Some (?p + 5000)"
      and pos: "0 \<le> (?p + 5000) div 10000"
      by (simp_all add: checked_i128_def)
    moreover have "\<lfloor>rat_of_nat (unat base) * (1 + rat_of_int modifier / 10000) + 1 / 2\<rfloor>
        = (?p + 5000) div 10000"
    proof -
      have "rat_of_nat (unat base) * (1 + rat_of_int modifier / 10000) + 1 / 2
          = rat_of_int (?p + 5000) / rat_of_int 10000"
        by (simp add: field_simps)
      then show ?thesis by (simp only: floor_divide_of_int_eq)
    qed
    ultimately show ?thesis using fits True
      by (simp add: scale_basis_points_def u64_try_from_def Let_def)
  next
    case False
    then show ?thesis by (simp add: scale_basis_points_def fits)
  qed
qed

lemma scale_exact_witness:
  "scale_basis_points 25 1000 = Inr 28 \<and> scale_basis_points 25 (- 10000) =
     Inl (EffectiveOutOfBounds ''basis-point multiplier'')"
  using scale_exact [of 1000 25] scale_exact [of "- 10000" 25] by (simp add: in_i32_def)

section \<open>Resolving a build\<close>

lemma module_values [simp]:
  "damage_bp (module_definition m) = (case m of ForceMatrix \<Rightarrow> 2000 | TempoRegulator \<Rightarrow> - 1000
     | ReachLattice \<Rightarrow> - 1000 | FocusLens \<Rightarrow> 2000 | BreachShunt \<Rightarrow> 3000 | StandoffOptic \<Rightarrow> - 1000
     | AblativeShell \<Rightarrow> - 2000 | _ \<Rightarrow> 0)"
  "cooldown_bp (module_definition m) = (case m of ForceMatrix \<Rightarrow> 2000 | TempoRegulator \<Rightarrow> - 1500
     | WardCapacitor \<Rightarrow> 1000 | CycleBypass \<Rightarrow> - 2000 | BreachShunt \<Rightarrow> 3500 | StandoffOptic \<Rightarrow> 2000
     | SkirmishDrive \<Rightarrow> - 2500 | _ \<Rightarrow> 0)"
  "range_change (module_definition m) = (case m of ReachLattice \<Rightarrow> 2 | FocusLens \<Rightarrow> - 2
     | CycleBypass \<Rightarrow> - 2 | BreachShunt \<Rightarrow> - 1 | StandoffOptic \<Rightarrow> 3 | AblativeShell \<Rightarrow> - 1 | _ \<Rightarrow> 0)"
  "health_change (module_definition m) = (case m of WardCapacitor \<Rightarrow> 20 | SkirmishDrive \<Rightarrow> - 20
     | AblativeShell \<Rightarrow> 30 | _ \<Rightarrow> 0)"
  by (cases m; simp add: catalogs)+

declare module_definition.simps [simp del]

definition totals :: "module_id list \<Rightarrow> aggregate_modifiers" where
  "totals ms = \<lparr>
     agg_damage = sum_list (map (damage_bp \<circ> module_definition) ms),
     agg_cooldown = sum_list (map (cooldown_bp \<circ> module_definition) ms),
     agg_range = sum_list (map (range_change \<circ> module_definition) ms),
     agg_health = sum_list (map (health_change \<circ> module_definition) ms) \<rparr>"

definition plus_modifiers :: "aggregate_modifiers \<Rightarrow> aggregate_modifiers \<Rightarrow> aggregate_modifiers" where
  "plus_modifiers a b = \<lparr> agg_damage = agg_damage a + agg_damage b,
     agg_cooldown = agg_cooldown a + agg_cooldown b,
     agg_range = agg_range a + agg_range b, agg_health = agg_health a + agg_health b \<rparr>"

definition near :: "int \<Rightarrow> int \<Rightarrow> bool" where
  "near k x \<longleftrightarrow> - (3500 * k) \<le> x \<and> x \<le> 3500 * k"

lemma near_add: "near k x \<Longrightarrow> near 1 y \<Longrightarrow> near (k + 1) (x + y)"
  by (simp add: near_def)

lemma near_fits: "near k x \<Longrightarrow> k \<le> 1000 \<Longrightarrow> in_i32 x"
  by (simp add: near_def in_i32_def)

lemma module_values_near:
  "near 1 (damage_bp (module_definition m))" "near 1 (cooldown_bp (module_definition m))"
  "near 1 (range_change (module_definition m))" "near 1 (health_change (module_definition m))"
  by (cases m; simp add: near_def)+

lemma aggregate_from_exact:
  assumes "near k (agg_damage a)" "near k (agg_cooldown a)" "near k (agg_range a)"
    "near k (agg_health a)" and "k + int (length ms) \<le> 1000"
  shows "aggregate_from a ms = Inr (plus_modifiers a (totals ms))"
  using assms
proof (induction ms arbitrary: a k)
  case Nil
  show ?case by (simp add: totals_def plus_modifiers_def)
next
  case (Cons m ms)
  let ?d = "module_definition m"
  let ?a = "\<lparr> agg_damage = agg_damage a + damage_bp ?d, agg_cooldown = agg_cooldown a + cooldown_bp ?d,
    agg_range = agg_range a + range_change ?d, agg_health = agg_health a + health_change ?d \<rparr>"
  have k: "k + 1 \<le> 1000" "k + 1 + int (length ms) \<le> 1000" using Cons.prems(5) by simp_all
  note sums = Cons.prems(1-4) [THEN near_add, OF module_values_near(1) [of m]]
    Cons.prems(1-4) [THEN near_add, OF module_values_near(2) [of m]]
    Cons.prems(1-4) [THEN near_add, OF module_values_near(3) [of m]]
    Cons.prems(1-4) [THEN near_add, OF module_values_near(4) [of m]]
  have "add_modifiers a ?d = Inr ?a"
    using sums [THEN near_fits, OF k(1)] by (simp add: add_modifiers_def checked_add_i32_def del: module_values)
  moreover have "aggregate_from ?a ms = Inr (plus_modifiers ?a (totals ms))"
    using sums k(2) by (intro Cons.IH [of "k + 1"]) (simp_all del: module_values)
  ultimately show ?case by (simp add: totals_def plus_modifiers_def del: module_values)
qed

lemma aggregate_exact: "length ms \<le> 3 \<Longrightarrow> aggregate_of ms = Inr (totals ms)"
  using aggregate_from_exact [of 0 no_modifiers ms]
  by (simp add: aggregate_of_def no_modifiers_def plus_modifiers_def near_def)

lemma totals_sort: "totals (sort ms) = totals ms"
proof -
  have insort: "sum_list (map f (insort m ns)) = f m + sum_list (map f ns)" for f :: "module_id \<Rightarrow> int" and m ns
    by (induction ns) simp_all
  have "sum_list (map f (sort ms)) = sum_list (map f ms)" for f :: "module_id \<Rightarrow> int"
    by (induction ms) (simp_all add: insort)
  then show ?thesis by (simp add: totals_def del: module_values)
qed

lemma shipped_catalogs_valid:
  "validate_catalog module_catalog = Inr ()"
  "validate_catalog content_module_catalog = Inr ()"
  "validate_catalog build_module_catalog = Inr ()"
  by (simp_all add: validate_catalog_def catalogs legacy_ids_def content_ids_def all_ids_def
      definition_matches_family_envelope_def same_modifiers_def)

text \<open>The extreme loadouts of the ten modules.\<close>

definition within_extremes :: "aggregate_modifiers \<Rightarrow> bool" where
  "within_extremes a \<longleftrightarrow>
     - 4000 \<le> agg_damage a \<and> agg_damage a \<le> 7000 \<and>
     - 6000 \<le> agg_cooldown a \<and> agg_cooldown a \<le> 7500 \<and>
     - 5 \<le> agg_range a \<and> agg_range a \<le> 5 \<and>
     - 20 \<le> agg_health a \<and> agg_health a \<le> 50"

lemma extremes_one: "within_extremes (totals [a])"
  by (cases a) (simp_all add: within_extremes_def totals_def)

lemma extremes_two: "a \<noteq> b \<Longrightarrow> within_extremes (totals [a, b])"
  by (cases a; cases b; simp add: within_extremes_def totals_def)

lemma extremes_three: "a \<noteq> b \<Longrightarrow> a \<noteq> c \<Longrightarrow> b \<noteq> c \<Longrightarrow> within_extremes (totals [a, b, c])"
  by (cases a; cases b; simp; cases c; simp add: within_extremes_def totals_def)

lemma totals_within:
  assumes "length ms \<le> 3" and "distinct ms"
  shows "within_extremes (totals ms)"
proof -
  consider "ms = []" | a where "ms = [a]" | a b where "ms = [a, b]" | a b c where "ms = [a, b, c]"
    using assms(1) by (cases ms; cases "tl ms"; cases "tl (tl ms)"; cases "tl (tl (tl ms))"; simp)
  then show ?thesis
    using assms(2) extremes_one extremes_two extremes_three
    by cases (simp_all add: within_extremes_def totals_def del: module_values)
qed

text \<open>A value scaled by basis points and rounded half up.\<close>

definition scaled_value :: "'a::len word \<Rightarrow> int \<Rightarrow> int" where
  "scaled_value b m = \<lfloor>rat_of_nat (unat b) * (1 + rat_of_int m / 10000) + 1 / 2\<rfloor>"

lemma scale_in_bounds:
  assumes "in_i32 modifier" and "lo \<le> int (unat base)" "int (unat base) \<le> hi" "0 \<le> lo" "hi \<le> 1000000"
    and "a \<le> 10000 + modifier" "10000 + modifier \<le> b" "0 < a" "b \<le> 1000000"
  shows "\<exists>r. scale_basis_points base modifier = Inr r \<and>
    int (unat r) = scaled_value base modifier \<and>
    (lo * a + 5000) div 10000 \<le> int (unat r) \<and> int (unat r) \<le> (hi * b + 5000) div 10000"
proof -
  let ?r = "\<lfloor>rat_of_nat (unat base) * (1 + rat_of_int modifier / 10000) + 1 / 2\<rfloor>"
  let ?p = "int (unat base) * (10000 + modifier)"
  have "rat_of_nat (unat base) * (1 + rat_of_int modifier / 10000) + 1 / 2
      = rat_of_int (?p + 5000) / rat_of_int 10000"
    by (simp add: field_simps)
  then have r: "?r = (?p + 5000) div 10000" by (simp only: floor_divide_of_int_eq)
  have "lo * a \<le> ?p" using assms by (intro mult_mono) linarith+
  then have low: "(lo * a + 5000) div 10000 \<le> ?r" unfolding r by (intro zdiv_mono1) simp_all
  have "?p \<le> hi * b" using assms by (intro mult_mono) linarith+
  then have high: "?r \<le> (hi * b + 5000) div 10000" unfolding r by (intro zdiv_mono1) simp_all
  have "hi * b \<le> 1000000 * 1000000" using assms by (intro mult_mono) linarith+
  then have "?r \<le> (1000000 * 1000000 + 5000) div 10000"
    using high zdiv_mono1 [of "hi * b + 5000" "1000000 * 1000000 + 5000" 10000] by linarith
  then have "?r < 2 ^ 64" by simp
  moreover have "0 \<le> lo * a" using assms by simp
  then have "0 \<le> ?r" using low by linarith
  ultimately have "take_bit 64 ?r = ?r" by (intro take_bit_int_eq_self)
  then have "int (unat (word_of_int ?r :: u64)) = ?r"
    by (simp only: of_nat_unat uint_word_of_int_eq) simp
  moreover have "- 10000 < modifier" using assms by linarith
  ultimately show ?thesis
    using scale_exact [OF assms(1), of base] low high \<open>?r < 2 ^ 64\<close>
    by (simp add: Let_def scaled_value_def)
qed

lemma scaled_damage_in_bounds:
  assumes "in_i32 (agg_damage m)" and "lo \<le> int (unat (base_damage base))"
    "int (unat (base_damage base)) \<le> hi" "0 \<le> lo" "hi \<le> 1000000"
    and "a \<le> 10000 + agg_damage m" "10000 + agg_damage m \<le> b" "0 < a" "b \<le> 20000"
  shows "\<exists>r. scaled_damage base m = Inr r \<and>
    int (unat r) = scaled_value (base_damage base) (agg_damage m) \<and>
    (lo * a + 5000) div 10000 \<le> int (unat r) \<and> int (unat r) \<le> (hi * b + 5000) div 10000"
proof -
  let ?base = "u64_of (base_damage base)"
  have same: "unat ?base = unat (base_damage base)" by (rule unat_u64_of)
  obtain r where r: "scale_basis_points ?base (agg_damage m) = Inr r"
      "int (unat r) = scaled_value (base_damage base) (agg_damage m)"
      "(lo * a + 5000) div 10000 \<le> int (unat r)" "int (unat r) \<le> (hi * b + 5000) div 10000"
    using scale_in_bounds [OF assms(1), of lo ?base hi a b] assms(2-) same
    unfolding scaled_value_def by auto
  have "0 \<le> lo" "lo \<le> hi" using assms by linarith+
  then have "hi * b \<le> 1000000 * 20000" using assms by (intro mult_mono) linarith+
  then have "int (unat r) \<le> (1000000 * 20000 + 5000) div 10000"
    using r(4) zdiv_mono1 [of "hi * b + 5000" "1000000 * 20000 + 5000" 10000] by linarith
  then have "int (unat r) < 2 ^ 32" by simp
  then have "unat r < 2 ^ 32" by (metis of_nat_less_iff of_nat_numeral of_nat_power)
  then obtain w where w: "u32_try_of r = Some w" by (simp add: u32_try_of_def)
  then have same: "unat w = unat r" by (simp add: u32_try_of_Some)
  have "scaled_damage base m = Inr w" using r(1) w by (simp add: scaled_damage_def)
  with r(2-4) show ?thesis unfolding same [symmetric] by blast
qed

lemma shifted_health_exact:
  assumes "base_max_health base = 100" and "- 100 \<le> agg_health a" "agg_health a \<le> 1000000"
  shows "\<exists>h. shifted_health base a = Inr h \<and> int (unat h) = 100 + agg_health a"
proof -
  have "take_bit 32 (100 + agg_health a) = 100 + agg_health a"
    using assms by (intro take_bit_int_eq_self) simp_all
  then have "int (unat (word_of_int (100 + agg_health a) :: u32)) = 100 + agg_health a"
    by (simp only: of_nat_unat uint_word_of_int_eq) simp
  moreover have "shifted_health base a = Inr (word_of_int (100 + agg_health a))"
    using assms by (simp add: shifted_health_def u32_try_from_def in_i64_def Let_def)
  ultimately show ?thesis by blast
qed

text \<open>The profile a base weapon should have under the modifiers of a loadout.\<close>

definition profile_exact :: "base_profile \<Rightarrow> aggregate_modifiers \<Rightarrow> effective_profile \<Rightarrow> bool" where
  "profile_exact base a p \<longleftrightarrow>
     int (unat (eff_damage p)) =
       scaled_value (base_damage base) (agg_damage a) \<and>
     int (unat (eff_cooldown_ms p)) =
       scaled_value (base_cooldown_ms base) (agg_cooldown a) \<and>
     eff_range p = base_range base + agg_range a \<and>
     int (unat (eff_max_health p)) = int (unat (base_max_health base)) + agg_health a"

lemma arsenal_resolves:
  assumes weapon: "25 \<le> base_damage base" "base_damage base \<le> 56"
      "6 \<le> base_range base" "base_range base \<le> 10"
      "150 \<le> base_cooldown_ms base" "base_cooldown_ms base \<le> 400" "base_max_health base = 100"
    and loadout: "length ms \<le> 3" "distinct ms"
  shows "\<exists>b. resolve_build ''m35-v2'' base ms = Inr b \<and>
    build_modules b = sorted_list_of_set (set ms) \<and>
    build_modifiers b = totals ms \<and>
    profile_exact base (totals ms) (build_profile b) \<and>
    15 \<le> eff_damage (build_profile b) \<and> eff_damage (build_profile b) \<le> 100 \<and>
    60 \<le> eff_cooldown_ms (build_profile b) \<and> eff_cooldown_ms (build_profile b) \<le> 700"
proof -
  let ?a = "totals ms"
  have ex: "within_extremes ?a" by (rule totals_within [OF loadout])
  then have dmg: "in_i32 (agg_damage ?a)" "6000 \<le> 10000 + agg_damage ?a" "10000 + agg_damage ?a \<le> 17000"
    and cool: "in_i32 (agg_cooldown ?a)" "4000 \<le> 10000 + agg_cooldown ?a" "10000 + agg_cooldown ?a \<le> 17500"
    by (simp_all add: within_extremes_def in_i32_def)
  have "25 \<le> int (unat (base_damage base))" "int (unat (base_damage base)) \<le> 56"
    "150 \<le> int (unat (base_cooldown_ms base))" "int (unat (base_cooldown_ms base)) \<le> 400"
    using weapon(1,2,5,6) by (simp_all add: word_le_def)
  note bounds = this
  obtain d where d: "scaled_damage base ?a = Inr d" "15 \<le> uint d" "uint d \<le> 100"
      "int (unat d) = scaled_value (base_damage base) (agg_damage ?a)"
    using scaled_damage_in_bounds [OF dmg(1) bounds(1,2) _ _ dmg(2,3)] by auto
  obtain c where c: "scale_basis_points (base_cooldown_ms base) (agg_cooldown ?a) = Inr c"
      "60 \<le> uint c" "uint c \<le> 700"
      "int (unat c) = scaled_value (base_cooldown_ms base) (agg_cooldown ?a)"
    using scale_in_bounds [OF cool(1) bounds(3,4) _ _ cool(2,3)] by auto
  have rng: "shifted_range base ?a = Inr (base_range base + agg_range ?a)"
    using weapon(3,4) ex by (simp add: shifted_range_def checked_add_i32_def in_i32_def within_extremes_def)
  obtain h where h: "shifted_health base ?a = Inr h" "int (unat h) = 100 + agg_health ?a"
    using shifted_health_exact [OF weapon(7), of ?a] ex by (auto simp: within_extremes_def)
  then have hb: "80 \<le> uint h" "uint h \<le> 150" using ex by (simp_all add: within_extremes_def)
  have cs: "canonicalize_loadout ms = Inr (sorted_list_of_set (set ms))"
    using loadout by (simp add: canonical_form)
  have agg: "aggregate_of (sorted_list_of_set (set ms)) = Inr ?a"
    using loadout cs canonical_Inr [of ms] by (metis aggregate_exact length_sort totals_sort)
  have range: "1 \<le> base_range base + agg_range ?a" "base_range base + agg_range ?a \<le> 15"
    using weapon(3,4) ex by (simp_all add: within_extremes_def)
  let ?p = "\<lparr> eff_damage = d, eff_range = base_range base + agg_range ?a,
    eff_cooldown_ms = c, eff_max_health = h \<rparr>"
  have "resolve_build ''m35-v2'' base ms = Inr \<lparr> build_revision = ''m35-v2'',
      build_modules = sorted_list_of_set (set ms), build_modifiers = ?a, build_profile = ?p \<rparr>"
    using d(2,3) c(2,3) hb range
    by (simp add: resolve_build_def resolve_m35_def shipped_catalogs_valid cs agg d(1) rng c(1) h(1)
        word_le_def)
  moreover have "profile_exact base ?a ?p"
    using d(4) c(4) h(2) weapon(7) by (simp add: profile_exact_def)
  ultimately show ?thesis using d(2,3) c(2,3) by (simp add: word_le_def)
qed

text \<open>
  C20 (bounds): the arsenal. Every weapon with 25 to 56 damage, range 6 to 10, a cooldown of 150
  to 400 ms and 100 health can be resolved with every loadout of at most three different
  modules of the build catalog. The result lists the canonical loadout, its modifiers are the
  sums of the catalog entries, and damage, cooldown, range and health are the exact, rounded
  values, within the bounds of the build profile.
\<close>

theorem arsenal_takes_every_loadout:
  assumes weapon: "25 \<le> base_damage base" "base_damage base \<le> 56"
      "6 \<le> base_range base" "base_range base \<le> 10"
      "150 \<le> base_cooldown_ms base" "base_cooldown_ms base \<le> 400" "base_max_health base = 100"
    and loadout: "length ms \<le> 3" "distinct ms"
  shows "\<exists>b. resolve_build ''m35-v2'' base ms = Inr b \<and>
    build_modules b = sorted_list_of_set (set ms) \<and>
    build_modifiers b = totals ms \<and>
    profile_exact base (totals ms) (build_profile b) \<and>
    15 \<le> eff_damage (build_profile b) \<and> eff_damage (build_profile b) \<le> 100 \<and>
    60 \<le> eff_cooldown_ms (build_profile b) \<and> eff_cooldown_ms (build_profile b) \<le> 700"
  by (rule arsenal_resolves [OF assms])

lemma arsenal_takes_every_loadout_witness:
  "\<exists>b. resolve_build ''m35-v2''
      \<lparr> base_damage = 40, base_range = 6, base_cooldown_ms = 250, base_max_health = 100 \<rparr>
      [AblativeShell, ForceMatrix] = Inr b \<and> build_modules b = [ForceMatrix, AblativeShell]"
  using arsenal_takes_every_loadout [of "\<lparr> base_damage = 40, base_range = 6, base_cooldown_ms = 250,
      base_max_health = 100 \<rparr>" "[AblativeShell, ForceMatrix]"]
  by (auto simp: less_eq_module_id_def)

section \<open>No best build\<close>

text \<open>The two weapons of the M26 catalog.\<close>

definition rifle :: base_profile where
  "rifle = \<lparr> base_damage = 40, base_range = 6, base_cooldown_ms = 250, base_max_health = 100 \<rparr>"

definition sidearm :: base_profile where
  "sidearm = \<lparr> base_damage = 25, base_range = 8, base_cooldown_ms = 150, base_max_health = 100 \<rparr>"

lemma legacy_loadouts:
  "all_canonical_loadouts =
    [[], [ForceMatrix], [TempoRegulator], [ForceMatrix, TempoRegulator], [ReachLattice],
     [ForceMatrix, ReachLattice], [TempoRegulator, ReachLattice],
     [ForceMatrix, TempoRegulator, ReachLattice], [WardCapacitor], [ForceMatrix, WardCapacitor],
     [TempoRegulator, WardCapacitor], [ForceMatrix, TempoRegulator, WardCapacitor],
     [ReachLattice, WardCapacitor], [ForceMatrix, ReachLattice, WardCapacitor],
     [TempoRegulator, ReachLattice, WardCapacitor]]"
proof -
  have r: "[0..<16] = [0, 1, 2, 3, 4, 5, 6, 7, 8, 9, 10, 11, 12, 13, 14, 15 :: nat]"
    by (simp add: upt_rec)
  show ?thesis
    unfolding all_canonical_loadouts_def r
    by (simp add: count_ones_def upt_rec max_equipped_modules_def masked_def legacy_ids_def)
qed

definition m26_profile :: "base_profile \<Rightarrow> module_id list \<Rightarrow> effective_profile option" where
  "m26_profile base ms =
     (case resolve_build ''m26-v1'' base ms of Inl _ \<Rightarrow> None | Inr b \<Rightarrow> Some (build_profile b))"

lemma m26_resolves:
  assumes "length ms \<le> 3" and "distinct ms" and "sorted ms" and "set ms \<subseteq> set legacy_ids"
    and "validate_aggregate (totals ms) = Inr ()"
  shows "m26_profile base ms =
    (case and_then (scaled_damage base (totals ms)) (\<lambda>damage.
          and_then (scale_basis_points (base_cooldown_ms base) (agg_cooldown (totals ms))) (\<lambda>cooldown.
          and_then (shifted_range base (totals ms)) (\<lambda>rng.
          and_then (shifted_health base (totals ms)) (\<lambda>health.
          let p = \<lparr> eff_damage = damage, eff_range = rng, eff_cooldown_ms = cooldown, eff_max_health = health \<rparr>
          in and_then (validate_effective p) (\<lambda>_. Inr p))))) of
       Inl _ \<Rightarrow> None | Inr p \<Rightarrow> Some p)"
proof -
  have "set legacy_ids \<subseteq> set content_ids" by (simp add: legacy_ids_def content_ids_def)
  then have "\<not> list_ex (\<lambda>m. m \<notin> set content_ids) ms" "\<not> list_ex (\<lambda>m. m \<notin> set legacy_ids) ms"
    using assms(4) by (auto simp: list_ex_iff)
  moreover have "canonicalize_loadout ms = Inr ms" using assms by (simp add: canonical_fixed)
  ultimately show ?thesis
    using assms(1,5)
    by (auto simp: m26_profile_def resolve_build_def shipped_catalogs_valid aggregate_exact Let_def
        and_then_def split: sum.splits)
qed

text \<open>The table of the module lab: damage, range, cooldown and health of each loadout.\<close>

definition profile_row :: "u32 \<times> int \<times> u64 \<times> u32 \<Rightarrow> effective_profile" where
  "profile_row = (\<lambda>(d, r, c, h).
     \<lparr> eff_damage = d, eff_range = r, eff_cooldown_ms = c, eff_max_health = h \<rparr>)"

lemmas m26_arith = legacy_loadouts m26_resolves less_eq_module_id_def legacy_ids_def totals_def
  validate_aggregate_def validate_effective_def scaled_damage_def scale_basis_points_def
  shifted_range_def shifted_health_def checked_i128_def u64_try_from_def u32_try_from_def
  checked_add_i32_def in_i32_def in_i64_def u64_of_def u32_try_of_def Let_def

lemma rifle_profiles:
  "map (m26_profile rifle) all_canonical_loadouts = map (Some \<circ> profile_row)
     [(40, 6, 250, 100), (48, 6, 300, 100), (36, 6, 213, 100), (44, 6, 263, 100), (36, 8, 250, 100),
      (44, 8, 300, 100), (32, 8, 213, 100), (40, 8, 263, 100), (40, 6, 275, 120), (48, 6, 325, 120),
      (36, 6, 238, 120), (44, 6, 288, 120), (36, 8, 275, 120), (44, 8, 325, 120), (32, 8, 238, 120)]"
  by (simp add: m26_arith rifle_def profile_row_def)

lemma sidearm_profiles:
  "map (m26_profile sidearm) all_canonical_loadouts = map (Some \<circ> profile_row)
     [(25, 8, 150, 100), (30, 8, 180, 100), (23, 8, 128, 100), (28, 8, 158, 100), (23, 10, 150, 100),
      (28, 10, 180, 100), (20, 10, 128, 100), (25, 10, 158, 100), (25, 8, 165, 120), (30, 8, 195, 120),
      (23, 8, 143, 120), (28, 8, 173, 120), (23, 10, 165, 120), (28, 10, 195, 120), (20, 10, 143, 120)]"
  by (simp add: m26_arith sidearm_def profile_row_def)

lemma no_row_dominates:
  "\<forall>p \<in> set rows. \<forall>q \<in> set rows. \<not> dominates (profile_row p) (profile_row q)"
  if "rows \<in> {[(40, 6, 250, 100), (48, 6, 300, 100), (36, 6, 213, 100), (44, 6, 263, 100), (36, 8, 250, 100),
      (44, 8, 300, 100), (32, 8, 213, 100), (40, 8, 263, 100), (40, 6, 275, 120), (48, 6, 325, 120),
      (36, 6, 238, 120), (44, 6, 288, 120), (36, 8, 275, 120), (44, 8, 325, 120), (32, 8, 238, 120)],
     [(25, 8, 150, 100), (30, 8, 180, 100), (23, 8, 128, 100), (28, 8, 158, 100), (23, 10, 150, 100),
      (28, 10, 180, 100), (20, 10, 128, 100), (25, 10, 158, 100), (25, 8, 165, 120), (30, 8, 195, 120),
      (23, 8, 143, 120), (28, 8, 173, 120), (23, 10, 165, 120), (28, 10, 195, 120), (20, 10, 143, 120)]}"
  using that
  by (elim insertE emptyE; simp add: dominates_def profile_row_def)

text \<open>
  The M26 builds. For both weapons every canonical loadout of the four legacy
  modules resolves, and among the fifteen resulting profiles none is at least as good as
  another in damage, range, cooldown and health and better in one.
\<close>

theorem m26_builds_not_dominated:
  assumes "base \<in> {rifle, sidearm}" and "a \<in> set all_canonical_loadouts"
    and "b \<in> set all_canonical_loadouts"
  shows "\<exists>x y. resolve_build ''m26-v1'' base a = Inr x \<and> resolve_build ''m26-v1'' base b = Inr y \<and>
    \<not> dominates (build_profile x) (build_profile y)"
proof -
  obtain rows where rows: "map (m26_profile base) all_canonical_loadouts = map (Some \<circ> profile_row) rows"
    and safe: "\<forall>p \<in> set rows. \<forall>q \<in> set rows. \<not> dominates (profile_row p) (profile_row q)"
    using assms(1) rifle_profiles sidearm_profiles no_row_dominates by (elim insertE emptyE) blast+
  have row: "\<exists>x. resolve_build ''m26-v1'' base ms = Inr x \<and> build_profile x \<in> profile_row ` set rows"
    if "ms \<in> set all_canonical_loadouts" for ms
  proof -
    have "m26_profile base ms \<in> set (map (Some \<circ> profile_row) rows)"
      using that unfolding rows [symmetric] by simp
    then show ?thesis by (auto simp: m26_profile_def split: sum.splits)
  qed
  obtain x p where "resolve_build ''m26-v1'' base a = Inr x" "build_profile x = profile_row p" "p \<in> set rows"
    using row [OF assms(2)] by blast
  moreover obtain y q where "resolve_build ''m26-v1'' base b = Inr y" "build_profile y = profile_row q" "q \<in> set rows"
    using row [OF assms(3)] by blast
  ultimately show ?thesis using safe by auto
qed

lemma m26_builds_not_dominated_witness:
  "\<exists>x y. resolve_build ''m26-v1'' rifle [TempoRegulator] = Inr x \<and>
     resolve_build ''m26-v1'' rifle [] = Inr y \<and> \<not> dominates (build_profile x) (build_profile y)"
  by (rule m26_builds_not_dominated) (simp_all add: legacy_loadouts)

text \<open>The content catalog is different: focus and reach together cost nothing.\<close>

lemma reach_and_focus_dominate:
  "\<exists>x y. resolve_build ''m31-v1'' rifle [ReachLattice, FocusLens] = Inr x \<and>
     resolve_build ''m31-v1'' rifle [] = Inr y \<and> dominates (build_profile x) (build_profile y)"
  by (simp add: resolve_build_def shipped_catalogs_valid canonical_form content_ids_def legacy_ids_def
      less_eq_module_id_def aggregate_exact dominates_def m26_arith rifle_def)

end
