(* ===== verification/Module_State.thy ===== *)
theory Module_State
  imports Module_Builds Lifecycle "HOL-Library.AList" "HOL-Library.Multiset"
begin

text \<open>
  The module state of a character (\<open>ModuleState\<close> in \<open>src/runtime/modules/src/lib.rs\<close>):
  fragments, owned modules, the equipped loadout with its revision, and the two bounded
  ledgers that make combining a module and changing the loadout idempotent. The lemmas give
  the exact guards of both operations, the invariant of every history with the conservation
  of fragments, and the replay of accepted operations.
\<close>

section \<open>State\<close>

datatype activity_phase = Waiting | Active | Complete

datatype operation_disposition = Applied | Replayed

record 'a operation_receipt =
  disposition :: operation_disposition
  outcome :: 'a

record combination_outcome =
  comb_operation_id :: string
  comb_module :: module_id
  comb_recipe :: u32
  previous_fragments :: u32
  resulting_fragments :: u32

record loadout_outcome =
  load_operation_id :: string
  previous_modules :: "module_id list"
  resulting_modules :: "module_id list"
  previous_revision :: u64
  resulting_revision :: u64

record combination_request =
  creq_operation_id :: string
  creq_module :: module_id

record loadout_request =
  lreq_operation_id :: string
  expected_revision :: u64
  lreq_modules :: "module_id list"

record stored_combination =
  sc_module :: module_id
  sc_outcome :: combination_outcome

record stored_loadout =
  sl_expected :: u64
  sl_modules :: "module_id list"
  sl_outcome :: loadout_outcome

text \<open>The B-tree ledgers are association lists: the code looks up, inserts and counts.\<close>

record module_state =
  fragments :: u32
  owned :: "module_id set"
  loadout :: "module_id list"
  revision :: u64
  combinations :: "(string \<times> stored_combination) list"
  loadouts :: "(string \<times> stored_loadout) list"

datatype mutation_error =
  ModuleFault module_error
| InvalidOperationId
| MutationLocked activity_phase
| AlreadyOwned module_id
| InsufficientFragments u32 u32
| UnownedModule module_id
| StaleRevision u64 u64
| UnchangedLoadout
| IdempotencyConflict
| OperationLimitReached
| MutationOverflow

definition max_operation_records_per_kind :: nat where
  "max_operation_records_per_kind = 128"

definition max_loadout_revision :: u64 where
  "max_loadout_revision = 9223372036854775807"

text \<open>\<open>From<ModuleError>\<close>, applied by \<open>?\<close>.\<close>

definition lift_module :: "module_error + 'a \<Rightarrow> mutation_error + 'a" where
  "lift_module r = (case r of Inl e \<Rightarrow> Inl (ModuleFault e) | Inr x \<Rightarrow> Inr x)"

section \<open>Operations\<close>

definition validate_operation_id :: "string \<Rightarrow> mutation_error + unit" where
  "validate_operation_id v =
    (if v = [] \<or> length v > 32 \<or>
        \<not> list_all (\<lambda>c. is_ascii_alphanumeric c \<or> c = CHR ''-'') v
     then Inl InvalidOperationId else Inr ())"

fun collect_owned :: "module_id set \<Rightarrow> module_id list \<Rightarrow> mutation_error + module_id set" where
  "collect_owned own [] = Inr own"
| "collect_owned own (m # ms) =
     (if m \<in> own then Inl (ModuleFault (DuplicateModule m))
      else collect_owned (insert m own) ms)"

definition new_module_state ::
  "u32 \<Rightarrow> module_id list \<Rightarrow> module_id list \<Rightarrow> u64 \<Rightarrow> mutation_error + module_state" where
  "new_module_state frags owned_modules initial rev0 =
     and_then (collect_owned {} owned_modules) (\<lambda>own.
     and_then (lift_module (canonicalize_loadout initial)) (\<lambda>canonical.
     case List.find (\<lambda>m. m \<notin> own) canonical of
       Some m \<Rightarrow> Inl (UnownedModule m)
     | None \<Rightarrow> Inr \<lparr> fragments = frags, owned = own, loadout = canonical, revision = rev0,
                     combinations = [], loadouts = [] \<rparr>))"

definition combine ::
  "activity_phase \<Rightarrow> combination_request \<Rightarrow> module_state \<Rightarrow>
     (mutation_error, combination_outcome operation_receipt, module_state) outcome" where
  "combine phase q s =
     require (validate_operation_id (creq_operation_id q)) s (\<lambda>_.
     case map_of (combinations s) (creq_operation_id q) of
       Some stored \<Rightarrow>
         (if sc_module stored \<noteq> creq_module q then (Inl IdempotencyConflict, s)
          else (Inr \<lparr> disposition = Replayed, outcome = sc_outcome stored \<rparr>, s))
     | None \<Rightarrow>
         if phase \<noteq> Complete then (Inl (MutationLocked phase), s)
         else if creq_module q \<in> owned s then (Inl (AlreadyOwned (creq_module q)), s)
         else let d = module_definition (creq_module q) in
         if fragments s < recipe_fragments d
         then (Inl (InsufficientFragments (recipe_fragments d) (fragments s)), s)
         else if length (combinations s) \<ge> max_operation_records_per_kind
         then (Inl OperationLimitReached, s)
         else
           require (ok_or MutationOverflow (checked_sub (fragments s) (recipe_fragments d))) s (\<lambda>left.
           let result = \<lparr> comb_operation_id = creq_operation_id q, comb_module = creq_module q,
                          comb_recipe = recipe_fragments d, previous_fragments = fragments s,
                          resulting_fragments = left \<rparr> in
           if creq_module q \<in> owned s then (Inl (AlreadyOwned (creq_module q)), s)
           else
             (Inr \<lparr> disposition = Applied, outcome = result \<rparr>,
              s\<lparr> fragments := left, owned := insert (creq_module q) (owned s),
                 combinations := AList.update (creq_operation_id q)
                   \<lparr> sc_module = creq_module q, sc_outcome = result \<rparr> (combinations s) \<rparr>)))"

definition set_loadout ::
  "activity_phase \<Rightarrow> loadout_request \<Rightarrow> module_state \<Rightarrow>
     (mutation_error, loadout_outcome operation_receipt, module_state) outcome" where
  "set_loadout phase q s =
     require (validate_operation_id (lreq_operation_id q)) s (\<lambda>_.
     require (lift_module (canonicalize_loadout (lreq_modules q))) s (\<lambda>modules.
     case map_of (loadouts s) (lreq_operation_id q) of
       Some stored \<Rightarrow>
         (if sl_expected stored \<noteq> expected_revision q \<or> sl_modules stored \<noteq> modules
          then (Inl IdempotencyConflict, s)
          else (Inr \<lparr> disposition = Replayed, outcome = sl_outcome stored \<rparr>, s))
     | None \<Rightarrow>
         if phase \<noteq> Complete then (Inl (MutationLocked phase), s)
         else if expected_revision q \<noteq> revision s
         then (Inl (StaleRevision (expected_revision q) (revision s)), s)
         else case List.find (\<lambda>m. m \<notin> owned s) modules of
           Some m \<Rightarrow> (Inl (UnownedModule m), s)
         | None \<Rightarrow>
             if modules = loadout s then (Inl UnchangedLoadout, s)
             else if length (loadouts s) \<ge> max_operation_records_per_kind
             then (Inl OperationLimitReached, s)
             else if revision s \<ge> max_loadout_revision then (Inl MutationOverflow, s)
             else
               let result = \<lparr> load_operation_id = lreq_operation_id q,
                              previous_modules = loadout s, resulting_modules = modules,
                              previous_revision = revision s,
                              resulting_revision = revision s + 1 \<rparr> in
               (Inr \<lparr> disposition = Applied, outcome = result \<rparr>,
                s\<lparr> loadout := modules, revision := revision s + 1,
                   loadouts := AList.update (lreq_operation_id q)
                     \<lparr> sl_expected = expected_revision q, sl_modules = modules,
                       sl_outcome = result \<rparr> (loadouts s) \<rparr>)))"

datatype module_call =
  Combine activity_phase combination_request
| SetLoadout activity_phase loadout_request

fun module_exec :: "module_call \<Rightarrow> module_state \<Rightarrow> module_state" where
  "module_exec (Combine phase q) s = snd (combine phase q s)"
| "module_exec (SetLoadout phase q) s = snd (set_loadout phase q s)"

section \<open>What each operation does\<close>

text \<open>The conditions under which a new combination is granted.\<close>

definition combinable :: "activity_phase \<Rightarrow> combination_request \<Rightarrow> module_state \<Rightarrow> bool" where
  "combinable phase q s \<longleftrightarrow>
     phase = Complete \<and> creq_module q \<notin> owned s \<and>
     recipe_fragments (module_definition (creq_module q)) \<le> fragments s \<and>
     length (combinations s) < 128"

definition combined :: "combination_request \<Rightarrow> module_state \<Rightarrow> combination_outcome \<times> module_state" where
  "combined q s =
    (let cost = recipe_fragments (module_definition (creq_module q));
         result = \<lparr> comb_operation_id = creq_operation_id q, comb_module = creq_module q,
                    comb_recipe = cost, previous_fragments = fragments s,
                    resulting_fragments = fragments s - cost \<rparr>
     in (result,
         s\<lparr> fragments := fragments s - cost, owned := insert (creq_module q) (owned s),
            combinations := AList.update (creq_operation_id q)
              \<lparr> sc_module = creq_module q, sc_outcome = result \<rparr> (combinations s) \<rparr>))"

lemma combine_fresh:
  assumes "validate_operation_id (creq_operation_id q) = Inr ()"
    and "map_of (combinations s) (creq_operation_id q) = None"
  shows "combinable phase q s \<Longrightarrow>
      combine phase q s = (Inr \<lparr> disposition = Applied, outcome = fst (combined q s) \<rparr>, snd (combined q s))"
    and "\<not> combinable phase q s \<Longrightarrow> \<exists>e. combine phase q s = (Inl e, s)"
  using assms
  by (auto simp: combinable_def combine_def combined_def Let_def checked_sub_def
      max_operation_records_per_kind_def not_less not_le)

lemma combine_known:
  assumes "validate_operation_id (creq_operation_id q) = Inr ()"
    and "map_of (combinations s) (creq_operation_id q) = Some c"
  shows "combine phase q s =
    ((if sc_module c = creq_module q then Inr \<lparr> disposition = Replayed, outcome = sc_outcome c \<rparr>
      else Inl IdempotencyConflict), s)"
  using assms by (simp add: combine_def)

lemma combine_invalid:
  "validate_operation_id (creq_operation_id q) = Inl e \<Longrightarrow> combine phase q s = (Inl e, s)"
  by (simp add: combine_def)

definition settable :: "activity_phase \<Rightarrow> loadout_request \<Rightarrow> module_id list \<Rightarrow> module_state \<Rightarrow> bool" where
  "settable phase q modules s \<longleftrightarrow>
     phase = Complete \<and> expected_revision q = revision s \<and> set modules \<subseteq> owned s \<and>
     modules \<noteq> loadout s \<and> length (loadouts s) < 128 \<and> revision s < max_loadout_revision"

definition equipped ::
  "loadout_request \<Rightarrow> module_id list \<Rightarrow> module_state \<Rightarrow> loadout_outcome \<times> module_state" where
  "equipped q modules s =
    (let result = \<lparr> load_operation_id = lreq_operation_id q, previous_modules = loadout s,
                    resulting_modules = modules, previous_revision = revision s,
                    resulting_revision = revision s + 1 \<rparr>
     in (result,
         s\<lparr> loadout := modules, revision := revision s + 1,
            loadouts := AList.update (lreq_operation_id q)
              \<lparr> sl_expected = expected_revision q, sl_modules = modules, sl_outcome = result \<rparr>
              (loadouts s) \<rparr>))"

lemma find_unowned: "List.find (\<lambda>m. m \<notin> A) ms = None \<longleftrightarrow> set ms \<subseteq> A"
  by (auto simp: find_None_iff)

lemma set_loadout_fresh:
  assumes "validate_operation_id (lreq_operation_id q) = Inr ()"
    and "canonicalize_loadout (lreq_modules q) = Inr ms"
    and "map_of (loadouts s) (lreq_operation_id q) = None"
  shows "settable phase q ms s \<Longrightarrow> set_loadout phase q s =
      (Inr \<lparr> disposition = Applied, outcome = fst (equipped q ms s) \<rparr>, snd (equipped q ms s))"
    and "\<not> settable phase q ms s \<Longrightarrow> \<exists>e. set_loadout phase q s = (Inl e, s)"
  using assms find_unowned [of "owned s" ms]
  by (auto simp: settable_def set_loadout_def equipped_def Let_def lift_module_def
      max_operation_records_per_kind_def not_less not_le split: option.splits)

lemma set_loadout_known:
  assumes "validate_operation_id (lreq_operation_id q) = Inr ()"
    and "canonicalize_loadout (lreq_modules q) = Inr ms"
    and "map_of (loadouts s) (lreq_operation_id q) = Some c"
  shows "set_loadout phase q s =
    ((if sl_expected c = expected_revision q \<and> sl_modules c = ms
      then Inr \<lparr> disposition = Replayed, outcome = sl_outcome c \<rparr> else Inl IdempotencyConflict), s)"
  using assms by (simp add: set_loadout_def lift_module_def)

lemma set_loadout_invalid:
  "validate_operation_id (lreq_operation_id q) = Inl e \<Longrightarrow> set_loadout phase q s = (Inl e, s)"
  "validate_operation_id (lreq_operation_id q) = Inr () \<Longrightarrow>
     canonicalize_loadout (lreq_modules q) = Inl e' \<Longrightarrow>
     set_loadout phase q s = (Inl (ModuleFault e'), s)"
  by (simp_all add: set_loadout_def lift_module_def)

text \<open>One call either changes nothing or makes one of the two updates.\<close>

lemma module_exec_cases:
  obtains "module_exec c s = s"
  | phase q where "c = Combine phase q" "validate_operation_id (creq_operation_id q) = Inr ()"
      "map_of (combinations s) (creq_operation_id q) = None" "combinable phase q s"
      "module_exec c s = snd (combined q s)"
  | phase q ms where "c = SetLoadout phase q" "validate_operation_id (lreq_operation_id q) = Inr ()"
      "canonicalize_loadout (lreq_modules q) = Inr ms"
      "map_of (loadouts s) (lreq_operation_id q) = None" "settable phase q ms s"
      "module_exec c s = snd (equipped q ms s)"
proof (cases c)
  case (Combine phase q)
  show ?thesis
  proof (cases "validate_operation_id (creq_operation_id q)")
    case Inr
    then have valid: "validate_operation_id (creq_operation_id q) = Inr ()" by simp
    show ?thesis
    proof (cases "map_of (combinations s) (creq_operation_id q)")
      case None
      then show ?thesis
        using that(1) that(2) [OF Combine valid None] combine_fresh [OF valid None, of phase] Combine
        by (cases "combinable phase q s") auto
    qed (use that(1) Combine combine_known [OF valid] in simp)
  qed (use that(1) Combine combine_invalid in simp)
next
  case (SetLoadout phase q)
  show ?thesis
  proof (cases "validate_operation_id (lreq_operation_id q)")
    case Inr
    then have valid: "validate_operation_id (lreq_operation_id q) = Inr ()" by simp
    show ?thesis
    proof (cases "canonicalize_loadout (lreq_modules q)")
      case canonical: (Inr ms)
      show ?thesis
      proof (cases "map_of (loadouts s) (lreq_operation_id q)")
        case None
        then show ?thesis
          using that(1) that(3) [OF SetLoadout valid canonical None] SetLoadout
            set_loadout_fresh [OF valid canonical None, of phase]
          by (cases "settable phase q ms s") auto
      qed (use that(1) SetLoadout set_loadout_known [OF valid canonical] in simp)
    qed (use that(1) SetLoadout set_loadout_invalid(2) [OF valid] in simp)
  qed (use that(1) SetLoadout set_loadout_invalid(1) in simp)
qed

section \<open>The invariant of every history\<close>

text \<open>The fragments a character has, or has spent on the modules it owns.\<close>

definition worth :: "module_state \<Rightarrow> nat" where
  "worth s = unat (fragments s) + (\<Sum>m \<in> owned s. unat (recipe_fragments (module_definition m)))"

definition granted :: "module_state \<Rightarrow> module_id set" where
  "granted s = (\<lambda>c. sc_module (snd c)) ` set (combinations s)"

definition loadout_ok :: "module_state \<Rightarrow> bool" where
  "loadout_ok s \<longleftrightarrow>
     sorted (loadout s) \<and> distinct (loadout s) \<and> length (loadout s) \<le> 3 \<and> set (loadout s) \<subseteq> owned s"

definition ledgers_ok :: "module_state \<Rightarrow> module_state \<Rightarrow> bool" where
  "ledgers_ok s0 s \<longleftrightarrow>
     length (combinations s) \<le> 128 \<and> length (loadouts s) \<le> 128 \<and>
     owned s = owned s0 \<union> granted s \<and> owned s0 \<inter> granted s = {} \<and>
     card (granted s) = length (combinations s) \<and>
     unat (revision s) = unat (revision s0) + length (loadouts s)"

definition module_inv :: "module_state \<Rightarrow> module_state \<Rightarrow> bool" where
  "module_inv s0 s \<longleftrightarrow> loadout_ok s \<and> ledgers_ok s0 s \<and> worth s = worth s0"

lemma AList_update_new: "map_of xs k = None \<Longrightarrow> AList.update k v xs = xs @ [(k, v)]"
  by (induction xs) (auto split: if_splits)

lemma combined_keeps:
  assumes "module_inv s0 s" and "map_of (combinations s) (creq_operation_id q) = None"
    and "combinable phase q s"
  shows "module_inv s0 (snd (combined q s))"
proof -
  let ?s' = "snd (combined q s)" and ?m = "creq_module q"
  let ?cost = "recipe_fragments (module_definition (creq_module q))"
  have new: "?m \<notin> owned s" and cost: "?cost \<le> fragments s" and len: "length (combinations s) < 128"
    using assms(3) by (simp_all add: combinable_def)
  have parts: "owned ?s' = insert ?m (owned s)" "fragments ?s' = fragments s - ?cost"
    "granted ?s' = insert ?m (granted s)" "length (combinations ?s') = length (combinations s) + 1"
    using assms(2) by (simp_all add: combined_def Let_def granted_def AList_update_new)
  have rest: "loadout ?s' = loadout s" "revision ?s' = revision s" "loadouts ?s' = loadouts s"
    by (simp_all add: combined_def Let_def)
  have "worth ?s' = worth s"
    using new cost by (simp add: worth_def parts unat_sub word_le_nat_alt)
  moreover have "loadout_ok ?s'"
    using assms(1) by (auto simp: module_inv_def loadout_ok_def rest parts)
  moreover have "ledgers_ok s0 ?s'"
    using assms(1) new len
    by (auto simp: module_inv_def ledgers_ok_def parts rest card_insert_if)
  ultimately show ?thesis using assms(1) by (simp add: module_inv_def)
qed

lemma equipped_keeps:
  assumes "module_inv s0 s" and "canonicalize_loadout (lreq_modules q) = Inr ms"
    and "map_of (loadouts s) (lreq_operation_id q) = None" and "settable phase q ms s"
  shows "module_inv s0 (snd (equipped q ms s))"
proof -
  let ?s' = "snd (equipped q ms s)"
  have rest: "owned ?s' = owned s" "fragments ?s' = fragments s" "combinations ?s' = combinations s"
    "loadout ?s' = ms" "revision ?s' = revision s + 1" "length (loadouts ?s') = length (loadouts s) + 1"
    using assms(3) by (simp_all add: equipped_def Let_def AList_update_new)
  have "revision s \<noteq> - 1" using assms(4) by (auto simp: settable_def max_loadout_revision_def)
  then have "unat (revision ?s') = unat (revision s) + 1" by (simp add: rest unat_succ)
  moreover have "loadout_ok ?s'"
    unfolding loadout_ok_def rest using assms(2,4) by (auto simp: canonical_Inr settable_def)
  moreover have "granted ?s' = granted s" "worth ?s' = worth s"
    by (simp_all add: granted_def worth_def rest)
  ultimately show ?thesis
    using assms(1,4) by (simp add: module_inv_def ledgers_ok_def rest settable_def)
qed

lemma module_exec_keeps: "module_inv s0 s \<Longrightarrow> module_inv s0 (module_exec c s)"
  by (cases c s rule: module_exec_cases) (simp_all add: combined_keeps equipped_keeps)

lemma collect_owned_Inr:
  "collect_owned own ms = Inr A \<longleftrightarrow> distinct ms \<and> own \<inter> set ms = {} \<and> A = own \<union> set ms"
  by (induction ms arbitrary: own) auto

lemma lift_module_Inr: "lift_module r = Inr x \<longleftrightarrow> r = Inr x"
  by (cases r) (simp_all add: lift_module_def)

lemma find_owned_Inr:
  "(case List.find (\<lambda>m. m \<notin> A) ms of Some m \<Rightarrow> Inl (e m) | None \<Rightarrow> Inr x) = Inr y \<longleftrightarrow>
     set ms \<subseteq> A \<and> x = y"
  using find_unowned [of A ms] by (cases "List.find (\<lambda>m. m \<notin> A) ms") auto

lemma new_module_state_Inr:
  "new_module_state f ms ls r0 = Inr s \<longleftrightarrow>
     distinct ms \<and> distinct ls \<and> length ls \<le> 3 \<and> set ls \<subseteq> set ms \<and>
     s = \<lparr> fragments = f, owned = set ms, loadout = sort ls, revision = r0,
           combinations = [], loadouts = [] \<rparr>"
  by (auto simp: new_module_state_def and_then_Inr collect_owned_Inr lift_module_Inr canonical_Inr
      find_owned_Inr)

lemma new_module_state_ok: "new_module_state f ms ls r0 = Inr s \<Longrightarrow> module_inv s s"
  by (auto simp: new_module_state_Inr module_inv_def loadout_ok_def ledgers_ok_def granted_def)

interpretation modules: history module_exec "module_inv s0" for s0
  by standard (rule module_exec_keeps)

text \<open>
  C19 (invariant): a character's modules. After any calls from a validated start, the loadout is
  sorted and without repetitions, has at most three entries and only owned modules; the owned
  modules are the initial ones and one new module for each recorded combination; fragments
  and the recipes of the owned modules add up to what they were; the revision counts the
  recorded loadout changes; and neither ledger exceeds 128 records.
\<close>

theorem module_history_ok:
  assumes "new_module_state f ms ls r0 = Inr s0" and "s = fold module_exec calls s0"
  shows "loadout_ok s \<and> worth s = worth s0 \<and>
    owned s = set ms \<union> granted s \<and> set ms \<inter> granted s = {} \<and>
    card (granted s) = length (combinations s) \<and>
    unat (revision s) = unat r0 + length (loadouts s) \<and>
    length (combinations s) \<le> 128 \<and> length (loadouts s) \<le> 128"
proof -
  have "module_inv s0 s"
    unfolding assms(2) by (rule modules.good_history) (rule new_module_state_ok [OF assms(1)])
  then show ?thesis using assms(1) by (simp add: module_inv_def ledgers_ok_def new_module_state_Inr)
qed

section \<open>Accepted operations are answered from the ledger\<close>

definition combination_recorded ::
  "activity_phase \<times> combination_request \<Rightarrow> combination_outcome \<Rightarrow> module_state \<Rightarrow> bool" where
  "combination_recorded = (\<lambda>(p, q) out s.
     validate_operation_id (creq_operation_id q) = Inr () \<and>
     map_of (combinations s) (creq_operation_id q) = Some \<lparr> sc_module = creq_module q, sc_outcome = out \<rparr>)"

definition loadout_recorded ::
  "activity_phase \<times> loadout_request \<Rightarrow> loadout_outcome \<Rightarrow> module_state \<Rightarrow> bool" where
  "loadout_recorded = (\<lambda>(p, q) out s.
     validate_operation_id (lreq_operation_id q) = Inr () \<and>
     (\<exists>ms. canonicalize_loadout (lreq_modules q) = Inr ms \<and>
       map_of (loadouts s) (lreq_operation_id q) =
         Some \<lparr> sl_expected = expected_revision q, sl_modules = ms, sl_outcome = out \<rparr>))"

definition outcome_of :: "mutation_error + 'a operation_receipt \<Rightarrow> 'a option" where
  "outcome_of r = (case r of Inl _ \<Rightarrow> None | Inr receipt \<Rightarrow> Some (outcome receipt))"

definition replay_of :: "'a \<Rightarrow> mutation_error + 'a operation_receipt" where
  "replay_of out = Inr \<lparr> disposition = Replayed, outcome = out \<rparr>"

definition same_loadout :: "loadout_request \<Rightarrow> loadout_request \<Rightarrow> bool" where
  "same_loadout q q' \<longleftrightarrow>
     lreq_operation_id q = lreq_operation_id q' \<and> expected_revision q = expected_revision q' \<and>
     mset (lreq_modules q) = mset (lreq_modules q')"

lemma map_of_appendI: "map_of xs k = Some v \<Longrightarrow> map_of (xs @ ys) k = Some v"
  by simp

lemma combine_records:
  assumes "combine p q s = (r, s')" and "outcome_of r = Some out"
  shows "combination_recorded (p, q) out s'"
proof -
  have ok: "validate_operation_id (creq_operation_id q) = Inr ()"
    using assms combine_invalid [of q] by (cases "validate_operation_id (creq_operation_id q)") (auto simp: outcome_of_def)
  show ?thesis
  proof (cases "map_of (combinations s) (creq_operation_id q)")
    case None
    then show ?thesis using assms ok combine_fresh [OF ok None, of p]
      by (cases "combinable p q s") (auto simp: combination_recorded_def outcome_of_def combined_def Let_def update_conv')
  next
    case (Some c)
    then show ?thesis using assms ok combine_known [OF ok Some, of p]
      by (auto simp: combination_recorded_def outcome_of_def split: if_splits)
  qed
qed

lemma set_loadout_records:
  assumes "set_loadout p q s = (r, s')" and "outcome_of r = Some out"
  shows "loadout_recorded (p, q) out s'"
proof -
  have ok: "validate_operation_id (lreq_operation_id q) = Inr ()"
    using assms set_loadout_invalid(1) [of q]
    by (cases "validate_operation_id (lreq_operation_id q)") (auto simp: outcome_of_def)
  obtain ms where ms: "canonicalize_loadout (lreq_modules q) = Inr ms"
    using assms set_loadout_invalid(2) [OF ok]
    by (cases "canonicalize_loadout (lreq_modules q)") (auto simp: outcome_of_def)
  show ?thesis
  proof (cases "map_of (loadouts s) (lreq_operation_id q)")
    case None
    then show ?thesis using assms ok ms set_loadout_fresh [OF ok ms None, of p]
      by (cases "settable p q ms s") (auto simp: loadout_recorded_def outcome_of_def equipped_def Let_def update_conv')
  next
    case (Some c)
    then show ?thesis using assms ok ms set_loadout_known [OF ok ms Some, of p]
      by (auto simp: loadout_recorded_def outcome_of_def split: if_splits)
  qed
qed

lemma records_persist:
  "combination_recorded (p, q) out s \<Longrightarrow> combination_recorded (p, q) out (module_exec c s)"
  "loadout_recorded (p, q') out' s \<Longrightarrow> loadout_recorded (p, q') out' (module_exec c s)"
  by (cases c s rule: module_exec_cases;
      auto simp: combination_recorded_def loadout_recorded_def combined_def equipped_def Let_def update_conv')+

lemma canonical_of_same:
  assumes "mset ms = mset ms'" and "canonicalize_loadout ms = Inr cs"
  shows "canonicalize_loadout ms' = Inr cs"
proof -
  have "sort ms = sort ms'" using assms(1) by (metis mset_sort properties_for_sort sorted_sort)
  then show ?thesis
    using assms by (auto simp: canonical_Inr dest: mset_eq_length mset_eq_imp_distinct_iff)
qed

lemma combine_replays:
  "combination_recorded (p, q) out s \<Longrightarrow> combine p' q s = (replay_of out, s)"
  using combine_known [of q s] by (auto simp: combination_recorded_def replay_of_def)

lemma set_loadout_replays:
  assumes "loadout_recorded (p, q) out s" and "same_loadout q q'"
  shows "set_loadout p' q' s = (replay_of out, s)"
proof -
  obtain ms where ms: "canonicalize_loadout (lreq_modules q) = Inr ms"
      "map_of (loadouts s) (lreq_operation_id q') =
         Some \<lparr> sl_expected = expected_revision q', sl_modules = ms, sl_outcome = out \<rparr>"
      "validate_operation_id (lreq_operation_id q') = Inr ()"
    using assms by (auto simp: loadout_recorded_def same_loadout_def)
  moreover have "canonicalize_loadout (lreq_modules q') = Inr ms"
    using assms(2) ms(1) by (auto simp: same_loadout_def intro: canonical_of_same)
  ultimately show ?thesis using set_loadout_known [of q' ms s] by (simp add: replay_of_def)
qed

interpretation combining: ledger module_exec "module_inv s0" "\<lambda>(p, q). combine p q" outcome_of replay_of
  combination_recorded "\<lambda>(p, q) (p', q'). q = q'" for s0
proof unfold_locales
  fix s s' r and pq :: "activity_phase \<times> combination_request"
  assume "module_inv s0 s" and "(case pq of (p, q) \<Rightarrow> combine p q) s = (r, s')"
  then show "module_inv s0 s'"
    using module_exec_keeps [of s0 s "Combine (fst pq) (snd pq)"] by (simp add: case_prod_beta)
qed (auto intro: combine_records records_persist combine_replays)

interpretation equipping: ledger module_exec "module_inv s0" "\<lambda>(p, q). set_loadout p q" outcome_of replay_of
  loadout_recorded "\<lambda>(p, q) (p', q'). same_loadout q q'" for s0
proof unfold_locales
  fix s s' r and pq :: "activity_phase \<times> loadout_request"
  assume "module_inv s0 s" and "(case pq of (p, q) \<Rightarrow> set_loadout p q) s = (r, s')"
  then show "module_inv s0 s'"
    using module_exec_keeps [of s0 s "SetLoadout (fst pq) (snd pq)"] by (simp add: case_prod_beta)
qed (auto intro: set_loadout_records records_persist set_loadout_replays)

text \<open>
  Retries. Once a combination or a loadout change has been answered with an
  outcome, the same request gets that very outcome back after any further calls, in any phase
  and with its modules in any order, and the retry changes nothing.
\<close>

theorem module_operations_replay:
  assumes "new_module_state f ms ls r0 = Inr s0" and "s = fold module_exec before s0"
  shows "(combine p q s = (Inr a, s') \<longrightarrow>
      combine p' q (fold module_exec calls s') = (replay_of (outcome a), fold module_exec calls s')) \<and>
    (set_loadout p t s = (Inr b, s') \<and> same_loadout t t' \<longrightarrow>
      set_loadout p' t' (fold module_exec calls s') = (replay_of (outcome b), fold module_exec calls s'))"
proof -
  have "module_inv s0 s"
    unfolding assms(2) by (rule modules.good_history) (rule new_module_state_ok [OF assms(1)])
  then show ?thesis
    using combining.answered_once [of s0 s "(p, q)" "Inr a" s' "outcome a" "(p', q)" calls]
      equipping.answered_once [of s0 s "(p, t)" "Inr b" s' "outcome b" "(p', t')" calls]
    by (simp add: outcome_of_def)
qed

section \<open>Examples\<close>

definition fresh_character :: module_state where
  "fresh_character = \<lparr> fragments = 3, owned = {ReachLattice}, loadout = [], revision = 7,
     combinations = [], loadouts = [] \<rparr>"

lemma fresh_character_new: "new_module_state 3 [ReachLattice] [] 7 = Inr fresh_character"
  by (simp add: new_module_state_Inr fresh_character_def)

lemma op_ids: "validate_operation_id ''op-1'' = Inr ()" "validate_operation_id ''op-2'' = Inr ()"
  by (simp_all add: validate_operation_id_def is_ascii_alphanumeric_def byte_def)

definition combine_ward :: module_call where
  "combine_ward = Combine Complete \<lparr> creq_operation_id = ''op-1'', creq_module = WardCapacitor \<rparr>"

definition equip_both :: loadout_request where
  "equip_both = \<lparr> lreq_operation_id = ''op-2'', expected_revision = 7,
     lreq_modules = [WardCapacitor, ReachLattice] \<rparr>"

lemma recipes: "recipe_fragments (module_definition m) =
    (if m \<in> {BreachShunt, StandoffOptic, SkirmishDrive, AblativeShell} then 1 else 2)"
  by (cases m) (simp_all add: module_definition.simps catalogs)

lemma module_history_ok_witness:
  "granted (fold module_exec [combine_ward] fresh_character) = {WardCapacitor} \<and>
   worth (fold module_exec [combine_ward] fresh_character) = 5"
proof -
  have "fragments (fold module_exec [combine_ward] fresh_character) = 1"
    "granted (fold module_exec [combine_ward] fresh_character) = {WardCapacitor}"
    by (simp_all add: combine_ward_def combine_def op_ids fresh_character_def recipes Let_def
        max_operation_records_per_kind_def checked_sub_def granted_def)
  moreover have "worth fresh_character = 5" by (simp add: worth_def fresh_character_def recipes)
  ultimately show ?thesis
    using module_history_ok [OF fresh_character_new refl, of "[combine_ward]"] by simp
qed

lemma module_operations_replay_witness:
  "\<exists>out s'. set_loadout Complete equip_both (fold module_exec [combine_ward] fresh_character) = (Inr out, s') \<and>
     resulting_modules (outcome out) = [ReachLattice, WardCapacitor] \<and>
     set_loadout Active (equip_both\<lparr> lreq_modules := [ReachLattice, WardCapacitor] \<rparr>) s' =
       (replay_of (outcome out), s')"
proof -
  obtain out s' where step: "set_loadout Complete equip_both (fold module_exec [combine_ward] fresh_character) = (Inr out, s')"
      "resulting_modules (outcome out) = [ReachLattice, WardCapacitor]"
    by (simp add: combine_ward_def combine_def set_loadout_def op_ids fresh_character_def recipes Let_def
        max_operation_records_per_kind_def checked_sub_def equip_both_def canonical_form lift_module_def
        less_eq_module_id_def max_loadout_revision_def)
  have "same_loadout equip_both (equip_both\<lparr> lreq_modules := [ReachLattice, WardCapacitor] \<rparr>)"
    by (simp add: same_loadout_def equip_both_def)
  then show ?thesis
    using step module_operations_replay [OF fresh_character_new refl, where before = "[combine_ward]" and
        t = equip_both and p = Complete and calls = "[]" and b = out and s' = s' and p' = Active and
        t' = "equip_both\<lparr> lreq_modules := [ReachLattice, WardCapacitor] \<rparr>"]
    by auto
qed

end
