(* ===== verification/Campaign.thy ===== *)
theory Campaign
  imports Prelude Lifecycle
begin

text \<open>
  The campaign policy (\<open>src/runtime/campaign/src/lib.rs\<close> and \<open>story.rs\<close>): six chapters with
  their milestones, the saved run, the story choices, and the proposal of a transition with
  its first-clear grant. Transitions are proposed on the accepted state and committed by the
  caller, so a history is a journal of accepted transitions. The lemmas show that grants are
  made once per chapter and in order, that a chapter is only cleared through all of its
  milestones in order, and that the policy never leaves its valid states.
\<close>

section \<open>Chapters and milestones\<close>

definition legacy_revision :: string where "legacy_revision = ''m36-campaign-v1''"
definition supply_revision :: string where "supply_revision = ''m36-campaign-v2''"
definition counter_revision :: string where "counter_revision = ''m36-campaign-v3''"
definition breach_revision :: string where "breach_revision = ''m36-campaign-v4''"
definition prism_revision :: string where "prism_revision = ''m36-campaign-v5''"
definition campaign_revision :: string where "campaign_revision = ''m36-campaign-v6''"

lemmas revisions = legacy_revision_def supply_revision_def counter_revision_def
  breach_revision_def prism_revision_def campaign_revision_def

definition available_chapters :: u8 where "available_chapters = 6"
definition first_clear_fragments :: u32 where "first_clear_fragments = 1"
definition first_clear_experience :: u64 where "first_clear_experience = 100"
definition max_revision :: u64 where "max_revision = 9223372036854775807"

datatype chapter_id =
  ReturnSignal | MeridianReadings | BrokenSupplyLine | CounterSignal | TheBreach | PrismCore

datatype milestone =
  RelayGuardCleared | ReturnSignalRecovered
| MeridianReached | SurveyLinked | RecoveryDelivered
| SupplyRouteReached | SupplyGuardCleared | SupplyCellRecovered | SupplyDelivered
| CounterApproachReached | CounterSupportCleared | CounterSignalDecoded
| CounterBastionReached | CounterBastionCleared | CounterSignalIsolated
| BreachDoorReached | BreachCircuitStabilized | BreachGuardCleared | BreachCoreReached
| PrismChamberReached | PrismWardenCleared | PrismSourceStopped | PrismReturnCompleted

definition all_chapters :: "chapter_id list" where
  "all_chapters =
     [ReturnSignal, MeridianReadings, BrokenSupplyLine, CounterSignal, TheBreach, PrismCore]"

fun chapter_index :: "chapter_id \<Rightarrow> u8" where
  "chapter_index ReturnSignal = 0"
| "chapter_index MeridianReadings = 1"
| "chapter_index BrokenSupplyLine = 2"
| "chapter_index CounterSignal = 3"
| "chapter_index TheBreach = 4"
| "chapter_index PrismCore = 5"

fun chapter_as_str :: "chapter_id \<Rightarrow> string" where
  "chapter_as_str ReturnSignal = ''return_signal''"
| "chapter_as_str MeridianReadings = ''meridian_readings''"
| "chapter_as_str BrokenSupplyLine = ''broken_supply_line''"
| "chapter_as_str CounterSignal = ''counter_signal''"
| "chapter_as_str TheBreach = ''the_breach''"
| "chapter_as_str PrismCore = ''prism_core''"

fun chapter_milestones :: "chapter_id \<Rightarrow> milestone list" where
  "chapter_milestones ReturnSignal = [RelayGuardCleared, ReturnSignalRecovered]"
| "chapter_milestones MeridianReadings = [MeridianReached, SurveyLinked, RecoveryDelivered]"
| "chapter_milestones BrokenSupplyLine =
     [SupplyRouteReached, SupplyGuardCleared, SupplyCellRecovered, SupplyDelivered]"
| "chapter_milestones CounterSignal =
     [CounterApproachReached, CounterSupportCleared, CounterSignalDecoded,
      CounterBastionReached, CounterBastionCleared, CounterSignalIsolated]"
| "chapter_milestones TheBreach =
     [BreachDoorReached, BreachCircuitStabilized, BreachGuardCleared, BreachCoreReached]"
| "chapter_milestones PrismCore =
     [PrismChamberReached, PrismWardenCleared, PrismSourceStopped, PrismReturnCompleted]"

fun prism_objective :: "milestone \<Rightarrow> string option" where
  "prism_objective PrismChamberReached = Some ''prism-core-v1:arrival:5,0,2''"
| "prism_objective PrismWardenCleared = Some ''prism-core-v1:warden-cleared''"
| "prism_objective PrismSourceStopped = Some ''prism-core-v1:shutdown:8,0,0''"
| "prism_objective PrismReturnCompleted = Some ''prism-core-v1:return:0,0,0''"
| "prism_objective _ = None"

fun breach_objective :: "milestone \<Rightarrow> string option" where
  "breach_objective BreachDoorReached = Some ''breach-v1:door:6,0,0''"
| "breach_objective BreachCircuitStabilized = Some ''breach-v1:stabilizer:3,0,3''"
| "breach_objective BreachCoreReached = Some ''breach-v1:core:10,0,0''"
| "breach_objective _ = None"

fun counter_objective :: "milestone \<Rightarrow> string option" where
  "counter_objective CounterApproachReached = Some ''counter-v1:approach:2,0,6''"
| "counter_objective CounterSupportCleared = Some ''counter-v1:support-cleared''"
| "counter_objective CounterSignalDecoded = Some ''counter-v1:transmission:7,0,6''"
| "counter_objective CounterBastionReached = Some ''counter-v1:bastion:5,0,-6''"
| "counter_objective CounterBastionCleared = Some ''counter-v1:bastion-cleared''"
| "counter_objective CounterSignalIsolated = Some ''counter-v1:emitter:9,0,-6''"
| "counter_objective _ = None"

section \<open>The story\<close>

definition memory_pos :: pos where "memory_pos = (- 31, 0, 8)"
definition departure_board :: pos where "departure_board = (- 18, 0, 0)"
definition maintenance_note :: pos where "maintenance_note = (- 6, 0, - 3)"
definition maintenance_bench :: pos where "maintenance_bench = (2, 0, 4)"
definition core_decision :: pos where "core_decision = (7, 0, - 6)"

datatype arc_progress = Unseen | Found | Returned
datatype supply_approach = Covered | Service
datatype core_approach = Grounded | Direct
datatype epilogue = SignalSilent | RouteLit | OpenPassage
datatype discovery =
  EmptySeatMemory | EmptySeatReturned | HeldConnectionNote | HeldConnectionReturned
datatype story_command =
  Discover discovery | ChooseSupply supply_approach | ChooseCore core_approach

record story_context =
  ctx_chapter :: chapter_id
  ctx_checkpoint :: u8
  ctx_position :: pos

record story_state =
  empty_seat :: arc_progress
  held_connection :: arc_progress
  supply_choice :: "supply_approach option"
  core_choice :: "core_approach option"

datatype story_error = WrongContext | DiscoveryRequired

definition default_story :: story_state where
  "default_story =
     \<lparr> empty_seat = Unseen, held_connection = Unseen, supply_choice = None, core_choice = None \<rparr>"

definition story_is_default :: "story_state \<Rightarrow> bool" where
  "story_is_default s \<longleftrightarrow> s = default_story"

definition story_supply :: "story_state \<Rightarrow> supply_approach" where
  "story_supply s = (case supply_choice s of None \<Rightarrow> Covered | Some a \<Rightarrow> a)"

definition story_core :: "story_state \<Rightarrow> core_approach" where
  "story_core s = (case core_choice s of None \<Rightarrow> Grounded | Some a \<Rightarrow> a)"

definition story_epilogue :: "story_state \<Rightarrow> epilogue" where
  "story_epilogue s =
    (case (story_supply s, story_core s) of
       (_, Direct) \<Rightarrow> OpenPassage
     | (Service, Grounded) \<Rightarrow> RouteLit
     | (Covered, Grounded) \<Rightarrow> SignalSilent)"

fun allowed_at :: "story_command \<Rightarrow> chapter_id \<times> u8 list \<times> pos" where
  "allowed_at (Discover EmptySeatMemory) = (MeridianReadings, [1, 2], memory_pos)"
| "allowed_at (Discover EmptySeatReturned) = (MeridianReadings, [1, 2], departure_board)"
| "allowed_at (Discover HeldConnectionNote) = (BrokenSupplyLine, [2, 3], maintenance_note)"
| "allowed_at (Discover HeldConnectionReturned) = (BrokenSupplyLine, [2, 3], maintenance_bench)"
| "allowed_at (ChooseSupply _) = (MeridianReadings, [2], departure_board)"
| "allowed_at (ChooseCore _) = (CounterSignal, [5], core_decision)"

definition story_allowed :: "story_context \<Rightarrow> story_command \<Rightarrow> bool" where
  "story_allowed c cmd \<longleftrightarrow>
     (case allowed_at cmd of (chapter, checkpoints, p) \<Rightarrow>
        ctx_chapter c = chapter \<and> ctx_checkpoint c \<in> set checkpoints \<and> ctx_position c = p)"

fun advance_arc :: "arc_progress \<Rightarrow> bool \<Rightarrow> story_error + arc_progress" where
  "advance_arc Unseen True = Inl DiscoveryRequired"
| "advance_arc Unseen False = Inr Found"
| "advance_arc Found False = Inr Found"
| "advance_arc Found True = Inr Returned"
| "advance_arc Returned _ = Inr Returned"

definition story_propose ::
  "story_context \<Rightarrow> story_command \<Rightarrow> story_state \<Rightarrow> story_error + story_state" where
  "story_propose c cmd s =
    (if \<not> story_allowed c cmd then Inl WrongContext
     else case cmd of
       ChooseSupply a \<Rightarrow> Inr (s\<lparr> supply_choice := Some a \<rparr>)
     | ChooseCore a \<Rightarrow> Inr (s\<lparr> core_choice := Some a \<rparr>)
     | Discover EmptySeatMemory \<Rightarrow>
         and_then (advance_arc (empty_seat s) False) (\<lambda>a. Inr (s\<lparr> empty_seat := a \<rparr>))
     | Discover EmptySeatReturned \<Rightarrow>
         and_then (advance_arc (empty_seat s) True) (\<lambda>a. Inr (s\<lparr> empty_seat := a \<rparr>))
     | Discover HeldConnectionNote \<Rightarrow>
         and_then (advance_arc (held_connection s) False) (\<lambda>a. Inr (s\<lparr> held_connection := a \<rparr>))
     | Discover HeldConnectionReturned \<Rightarrow>
         and_then (advance_arc (held_connection s) True) (\<lambda>a. Inr (s\<lparr> held_connection := a \<rparr>)))"

section \<open>The campaign state\<close>

datatype run_mode = Progress | Practice

record chapter_run =
  run_id :: string
  run_chapter :: chapter_id
  run_mode :: run_mode
  checkpoint :: u8

record campaign_state =
  camp_revision :: u64
  cleared_chapters :: u8
  active :: "chapter_run option"
  story :: story_state

datatype campaign_command =
  Enter string chapter_id run_mode
| Confirm string milestone
| Story string pos story_command

record first_clear =
  fc_chapter :: chapter_id
  fc_fragments :: u32
  fc_experience :: u64

record transition =
  tr_revision :: string
  before :: campaign_state
  command :: campaign_command
  after :: campaign_state
  grant :: "first_clear option"

datatype campaign_error =
  InvalidState | InvalidRunId | StaleRevision | RevisionOverflow | ChapterUnavailable
| ChapterLocked | AlreadyCleared | PracticeRequiresClear | ResumeRequired | NoActiveRun
| WrongRun | WrongMilestone | InvalidTransition | InvalidStory story_error

definition nth_opt :: "'a list \<Rightarrow> u8 \<Rightarrow> 'a option" where
  "nth_opt xs i = (if unat i < length xs then Some (xs ! unat i) else None)"

definition run_next_milestone :: "chapter_run \<Rightarrow> milestone option" where
  "run_next_milestone r = nth_opt (chapter_milestones (run_chapter r)) (checkpoint r)"

definition campaign_milestones :: "campaign_state \<Rightarrow> chapter_id \<Rightarrow> milestone list" where
  "campaign_milestones s chapter =
    (if chapter = TheBreach \<and> story_core (story s) = Direct
     then [BreachDoorReached, BreachGuardCleared, BreachCircuitStabilized, BreachCoreReached]
     else chapter_milestones chapter)"

definition next_milestone :: "campaign_state \<Rightarrow> milestone option" where
  "next_milestone s =
    (case active s of
       None \<Rightarrow> None
     | Some r \<Rightarrow> nth_opt (campaign_milestones s (run_chapter r)) (checkpoint r))"

definition validate_run_id :: "string \<Rightarrow> campaign_error + unit" where
  "validate_run_id i =
    (if i = [] \<or> length i > 96 \<or>
        \<not> list_all (\<lambda>c. is_ascii_alphanumeric c \<or> c = CHR ''-'') i
     then Inl InvalidRunId else Inr ())"

definition validate_run ::
  "campaign_state \<Rightarrow> u8 \<Rightarrow> chapter_run \<Rightarrow> campaign_error + unit" where
  "validate_run s available r =
     and_then (validate_run_id (run_id r)) (\<lambda>_.
     if chapter_index (run_chapter r) \<ge> available \<or>
        unat (checkpoint r) \<ge> length (chapter_milestones (run_chapter r)) \<or>
        (case run_mode r of
           Progress \<Rightarrow> chapter_index (run_chapter r) \<noteq> cleared_chapters s
         | Practice \<Rightarrow> chapter_index (run_chapter r) \<ge> cleared_chapters s) \<or>
        camp_revision s = 0
     then Inl InvalidState else Inr ())"

definition validate_available :: "u8 \<Rightarrow> campaign_state \<Rightarrow> campaign_error + unit" where
  "validate_available available s =
    (if camp_revision s > max_revision \<or> cleared_chapters s > available then Inl InvalidState
     else
       and_then (case active s of None \<Rightarrow> Inr () | Some r \<Rightarrow> validate_run s available r) (\<lambda>_.
       if cleared_chapters s > 0 \<and> camp_revision s = 0 then Inl InvalidState else Inr ()))"

definition validate_campaign :: "campaign_state \<Rightarrow> campaign_error + unit" where
  "validate_campaign s = validate_available available_chapters s"

definition propose_story ::
  "campaign_state \<Rightarrow> string \<Rightarrow> pos \<Rightarrow> story_command \<Rightarrow> campaign_error + story_state" where
  "propose_story s i p action =
     and_then (ok_or NoActiveRun (active s)) (\<lambda>r.
     if run_id r \<noteq> i then Inl WrongRun
     else
       case story_propose
              \<lparr> ctx_chapter = run_chapter r, ctx_checkpoint = checkpoint r, ctx_position = p \<rparr>
              action (story s) of
         Inl e \<Rightarrow> Inl (InvalidStory e)
       | Inr st \<Rightarrow> Inr st)"

text \<open>The arms of the command match: the proposed state (its revision already advanced) and
  the grant. \<open>self\<close> is \<open>s\<close>, \<open>after\<close> is \<open>a\<close>.\<close>

definition enter_chapter ::
  "campaign_state \<Rightarrow> u8 \<Rightarrow> string \<Rightarrow> chapter_id \<Rightarrow> run_mode \<Rightarrow> campaign_state \<Rightarrow>
     campaign_error + campaign_state \<times> first_clear option" where
  "enter_chapter s available i chapter mode a =
     and_then (validate_run_id i) (\<lambda>_.
     if active s \<noteq> None then Inl ResumeRequired
     else if chapter_index chapter \<ge> available then Inl ChapterUnavailable
     else if mode = Progress \<and> chapter_index chapter < cleared_chapters s then Inl AlreadyCleared
     else if mode = Progress \<and> chapter_index chapter > cleared_chapters s then Inl ChapterLocked
     else if mode = Practice \<and> chapter_index chapter \<ge> cleared_chapters s
     then Inl PracticeRequiresClear
     else Inr (a\<lparr> active := Some \<lparr> run_id = i, run_chapter = chapter, run_mode = mode,
                                  checkpoint = 0 \<rparr> \<rparr>, None))"

definition confirm_milestone ::
  "campaign_state \<Rightarrow> string \<Rightarrow> milestone \<Rightarrow> campaign_state \<Rightarrow>
     campaign_error + campaign_state \<times> first_clear option" where
  "confirm_milestone s i m a =
     and_then (ok_or NoActiveRun (active a)) (\<lambda>r.
     if run_id r \<noteq> i then Inl WrongRun
     else if next_milestone s \<noteq> Some m then Inl WrongMilestone
     else
       let r' = r\<lparr> checkpoint := checkpoint r + 1 \<rparr> in
       if unat (checkpoint r') = length (chapter_milestones (run_chapter r'))
       then
         let clear = (if run_mode r' = Progress
               then Some \<lparr> fc_chapter = run_chapter r', fc_fragments = first_clear_fragments,
                           fc_experience = first_clear_experience \<rparr>
               else None)
         in Inr (a\<lparr> cleared_chapters :=
                      (if clear \<noteq> None then cleared_chapters a + 1 else cleared_chapters a),
                    active := None \<rparr>, clear)
       else Inr (a\<lparr> active := Some r' \<rparr>, None))"

definition propose_policy ::
  "u64 \<Rightarrow> campaign_command \<Rightarrow> string \<Rightarrow> u8 \<Rightarrow> campaign_state \<Rightarrow> campaign_error + transition" where
  "propose_policy expected cmd policy available s =
     and_then (validate_available available s) (\<lambda>_.
     if policy \<noteq> campaign_revision \<and>
        (\<not> story_is_default (story s) \<or> (case cmd of Story _ _ _ \<Rightarrow> True | _ \<Rightarrow> False))
     then Inl InvalidTransition
     else if expected \<noteq> camp_revision s then Inl StaleRevision
     else
       and_then (ok_or RevisionOverflow
         (case checked_add (camp_revision s) 1 of
            None \<Rightarrow> None | Some r \<Rightarrow> if r \<le> max_revision then Some r else None)) (\<lambda>r.
       let a = s\<lparr> camp_revision := r \<rparr> in
       and_then
         (case cmd of
            Story i p action \<Rightarrow>
              and_then (propose_story s i p action) (\<lambda>st. Inr (a\<lparr> story := st \<rparr>, None))
          | Enter i chapter mode \<Rightarrow> enter_chapter s available i chapter mode a
          | Confirm i m \<Rightarrow> confirm_milestone s i m a) (\<lambda>(a', clear).
       and_then (validate_available available a') (\<lambda>_.
       Inr \<lparr> tr_revision = policy, before = s, command = cmd, after = a', grant = clear \<rparr>))))"

definition propose ::
  "u64 \<Rightarrow> campaign_command \<Rightarrow> campaign_state \<Rightarrow> campaign_error + transition" where
  "propose expected cmd s = propose_policy expected cmd campaign_revision available_chapters s"

definition policy_chapters :: "string \<Rightarrow> u8 option" where
  "policy_chapters policy =
    (if policy = legacy_revision then Some 2
     else if policy = supply_revision then Some 3
     else if policy = counter_revision then Some 4
     else if policy = breach_revision then Some 5
     else if policy = prism_revision then Some 6
     else if policy = campaign_revision then Some available_chapters
     else None)"

definition validate_transition :: "transition \<Rightarrow> campaign_error + unit" where
  "validate_transition t =
     and_then (ok_or InvalidTransition (policy_chapters (tr_revision t))) (\<lambda>available.
     and_then (propose_policy (camp_revision (before t)) (command t) (tr_revision t) available
                (before t)) (\<lambda>t'.
     if t' \<noteq> t then Inl InvalidTransition else Inr ()))"

section \<open>Valid states and accepted proposals\<close>

abbreviation chapter_rank :: "chapter_id \<Rightarrow> nat" where
  "chapter_rank c \<equiv> unat (chapter_index c)"

lemma chapter_rank_values:
  "chapter_rank c = (case c of ReturnSignal \<Rightarrow> 0 | MeridianReadings \<Rightarrow> 1 | BrokenSupplyLine \<Rightarrow> 2
     | CounterSignal \<Rightarrow> 3 | TheBreach \<Rightarrow> 4 | PrismCore \<Rightarrow> 5)"
  by (cases c) simp_all

lemma chapter_rank_less: "chapter_rank c < 6"
  by (cases c) simp_all

lemma chapter_at_rank: "all_chapters ! chapter_rank c = c"
  by (cases c) (simp_all add: all_chapters_def)

lemma milestones_bounds: "0 < length (chapter_milestones c)" "length (chapter_milestones c) \<le> 6"
  by (cases c; simp)+

lemma campaign_milestones_length [simp]:
  "length (campaign_milestones s c) = length (chapter_milestones c)"
  by (simp add: campaign_milestones_def)

definition run_ok :: "campaign_state \<Rightarrow> chapter_run \<Rightarrow> bool" where
  "run_ok s r \<longleftrightarrow>
     validate_run_id (run_id r) = Inr () \<and>
     unat (checkpoint r) < length (chapter_milestones (run_chapter r)) \<and>
     (if run_mode r = Progress then chapter_rank (run_chapter r) = unat (cleared_chapters s)
      else chapter_rank (run_chapter r) < unat (cleared_chapters s))"

definition campaign_ok :: "campaign_state \<Rightarrow> bool" where
  "campaign_ok s \<longleftrightarrow>
     camp_revision s \<le> max_revision \<and> unat (cleared_chapters s) \<le> 6 \<and>
     (case active s of None \<Rightarrow> True | Some r \<Rightarrow> run_ok s r \<and> camp_revision s \<noteq> 0) \<and>
     (cleared_chapters s \<noteq> 0 \<longrightarrow> camp_revision s \<noteq> 0)"

lemma word_neq_rank: "chapter_index c \<noteq> n \<longleftrightarrow> chapter_rank c \<noteq> unat n"
  by (simp add: word_unat_eq_iff)

lemma validate_run_ok:
  "validate_run s 6 r = Inr () \<longleftrightarrow> run_ok s r \<and> camp_revision s \<noteq> 0"
  using chapter_rank_less [of "run_chapter r"]
  by (cases "run_mode r")
    (auto simp: validate_run_def run_ok_def and_then_Inr word_le_nat_alt word_unat_eq_iff not_le)

lemma validate_campaign_ok: "validate_campaign s = Inr () \<longleftrightarrow> campaign_ok s"
proof (cases "active s")
  case None
  then show ?thesis
    by (auto simp: validate_campaign_def validate_available_def campaign_ok_def available_chapters_def
        word_le_nat_alt word_less_nat_alt unat_gt_0)
next
  case (Some r)
  then show ?thesis
    using validate_run_ok [of s r]
    by (auto simp: validate_campaign_def validate_available_def campaign_ok_def available_chapters_def
        and_then_Inr word_le_nat_alt word_less_nat_alt unat_gt_0)
qed

lemma validate_campaign_error:
  "campaign_ok s \<Longrightarrow> validate_available available_chapters s = Inr ()"
  using validate_campaign_ok [of s] by (simp add: validate_campaign_def)

definition advanced :: "campaign_state \<Rightarrow> campaign_state" where
  "advanced s = s\<lparr> camp_revision := camp_revision s + 1 \<rparr>"

definition proposed ::
  "campaign_state \<Rightarrow> campaign_command \<Rightarrow> campaign_state \<Rightarrow> first_clear option \<Rightarrow> transition" where
  "proposed s cmd a g =
     \<lparr> tr_revision = campaign_revision, before = s, command = cmd, after = a, grant = g \<rparr>"

lemma next_revision:
  "(case checked_add n 1 of None \<Rightarrow> None | Some r \<Rightarrow> if r \<le> max_revision then Some r else None) =
     (if n < max_revision then Some (n + 1) else None)"
proof (cases "n = - 1")
  case True
  then show ?thesis
    by (simp add: checked_add_def max_revision_def unat_minus_one_word_pow word_less_nat_alt)
next
  case False
  then have "unat (n + 1) = unat n + 1" by (rule unat_succ)
  moreover from this have "checked_add n 1 = Some (n + 1)" by (simp add: checked_add_Some)
  ultimately show ?thesis by (simp add: word_le_nat_alt word_less_nat_alt max_revision_def Suc_le_eq)
qed

text \<open>The result of the command arm, before the final validation.\<close>

definition arm :: "campaign_state \<Rightarrow> campaign_command \<Rightarrow> campaign_error + campaign_state \<times> first_clear option" where
  "arm s cmd =
    (case cmd of
       Story i p action \<Rightarrow>
         and_then (propose_story s i p action) (\<lambda>st. Inr ((advanced s)\<lparr> story := st \<rparr>, None))
     | Enter i chapter mode \<Rightarrow> enter_chapter s available_chapters i chapter mode (advanced s)
     | Confirm i m \<Rightarrow> confirm_milestone s i m (advanced s))"

lemma propose_arm:
  "propose n cmd s =
     and_then (validate_available available_chapters s) (\<lambda>_.
     if n \<noteq> camp_revision s then Inl StaleRevision
     else if \<not> camp_revision s < max_revision then Inl RevisionOverflow
     else and_then (arm s cmd) (\<lambda>(a, g).
       and_then (validate_available available_chapters a) (\<lambda>_. Inr (proposed s cmd a g))))"
  by (cases "camp_revision s < max_revision"; cases "n = camp_revision s"; cases cmd)
    (simp_all add: propose_def propose_policy_def next_revision arm_def advanced_def proposed_def Let_def)

lemma arm_cases:
  assumes "arm s cmd = Inr (a, g)"
  obtains (story) i p action r st where "cmd = Story i p action" "active s = Some r" "run_id r = i"
      "story_propose \<lparr> ctx_chapter = run_chapter r, ctx_checkpoint = checkpoint r, ctx_position = p \<rparr>
         action (story s) = Inr st" "a = (advanced s)\<lparr> story := st \<rparr>" "g = None"
  | (enter) i ch mode where "cmd = Enter i ch mode" "validate_run_id i = Inr ()" "active s = None"
      "if mode = Progress then chapter_index ch = cleared_chapters s
       else chapter_index ch < cleared_chapters s"
      "a = (advanced s)\<lparr> active := Some \<lparr> run_id = i, run_chapter = ch, run_mode = mode, checkpoint = 0 \<rparr> \<rparr>"
      "g = None"
  | (confirm) i m r where "cmd = Confirm i m" "active s = Some r" "run_id r = i" "next_milestone s = Some m"
      "unat (checkpoint r + 1) \<noteq> length (chapter_milestones (run_chapter r))"
      "a = (advanced s)\<lparr> active := Some (r\<lparr> checkpoint := checkpoint r + 1 \<rparr>) \<rparr>" "g = None"
  | (complete) i m r where "cmd = Confirm i m" "active s = Some r" "run_id r = i" "next_milestone s = Some m"
      "unat (checkpoint r + 1) = length (chapter_milestones (run_chapter r))"
      "a = (advanced s)\<lparr> cleared_chapters :=
          (if run_mode r = Progress then cleared_chapters s + 1 else cleared_chapters s), active := None \<rparr>"
      "g = (if run_mode r = Progress then Some \<lparr> fc_chapter = run_chapter r,
          fc_fragments = first_clear_fragments, fc_experience = first_clear_experience \<rparr> else None)"
proof (cases cmd)
  case (Story i p action)
  then show ?thesis using assms story
    by (auto simp: arm_def propose_story_def result_iffs split: if_splits sum.splits)
next
  case (Enter i ch mode)
  then show ?thesis using assms enter [of i ch mode]
    by (cases mode) (auto simp: arm_def enter_chapter_def result_iffs split: if_splits)
next
  case (Confirm i m)
  then show ?thesis using assms confirm complete
    by (auto simp: arm_def confirm_milestone_def result_iffs Let_def advanced_def split: if_splits)
qed

text \<open>The proposed state of an accepted command is always valid again.\<close>

lemma advanced_revision:
  assumes "camp_revision s < max_revision"
  shows "camp_revision (advanced s) \<le> max_revision" and "camp_revision (advanced s) \<noteq> 0"
proof -
  have "camp_revision s \<noteq> - 1" using assms by (auto simp: max_revision_def)
  then have "unat (camp_revision s + 1) = unat (camp_revision s) + 1" by (rule unat_succ)
  with assms show "camp_revision (advanced s) \<le> max_revision" "camp_revision (advanced s) \<noteq> 0"
    by (auto simp: advanced_def word_le_nat_alt word_less_nat_alt word_unat_eq_iff)
qed

lemma checkpoint_succ:
  assumes "run_ok s r"
  shows "unat (checkpoint r + 1) = unat (checkpoint r) + 1"
proof -
  have "unat (checkpoint r) < 6"
    using assms milestones_bounds(2) [of "run_chapter r"] by (simp add: run_ok_def)
  then have "checkpoint r \<noteq> - 1" by (auto simp: unat_minus_one_word_pow)
  then show ?thesis by (rule unat_succ)
qed

lemma arm_ok:
  assumes "campaign_ok s" and "camp_revision s < max_revision" and "arm s cmd = Inr (a, g)"
  shows "campaign_ok a"
  using assms(3)
proof (cases rule: arm_cases)
  case (story i p action r st)
  then show ?thesis using assms(1) advanced_revision [OF assms(2)]
    by (simp add: campaign_ok_def run_ok_def advanced_def)
next
  case (enter i ch mode)
  then show ?thesis using assms(1) advanced_revision [OF assms(2)] milestones_bounds(1) [of ch]
    by (auto simp: campaign_ok_def run_ok_def advanced_def word_less_nat_alt split: if_splits)
next
  case (confirm i m r)
  then have r: "run_ok s r" using assms(1) by (simp add: campaign_ok_def)
  then have "unat (checkpoint r + 1) < length (chapter_milestones (run_chapter r))"
    using confirm(5) checkpoint_succ [OF r] by (simp add: run_ok_def)
  then show ?thesis using confirm r assms(1) advanced_revision [OF assms(2)]
    by (simp add: campaign_ok_def run_ok_def advanced_def)
next
  case (complete i m r)
  then have r: "run_ok s r" using assms(1) by (simp add: campaign_ok_def)
  have "unat (cleared_chapters s + 1) \<le> 6" if "run_mode r = Progress"
  proof -
    have "unat (cleared_chapters s) < 6" using r that chapter_rank_less [of "run_chapter r"] by (simp add: run_ok_def)
    moreover from this have "cleared_chapters s \<noteq> - 1" by (auto simp: unat_minus_one_word_pow)
    ultimately show ?thesis by (simp add: unat_succ)
  qed
  then show ?thesis using complete assms(1) advanced_revision [OF assms(2)]
    by (simp add: campaign_ok_def advanced_def)
qed

lemma propose_ok:
  assumes "campaign_ok s"
  shows "propose n cmd s =
    (if n \<noteq> camp_revision s then Inl StaleRevision
     else if \<not> camp_revision s < max_revision then Inl RevisionOverflow
     else and_then (arm s cmd) (\<lambda>(a, g). Inr (proposed s cmd a g)))"
proof -
  have "and_then (arm s cmd) (\<lambda>(a, g).
      and_then (validate_available available_chapters a) (\<lambda>_. Inr (proposed s cmd a g))) =
    and_then (arm s cmd) (\<lambda>(a, g). Inr (proposed s cmd a g))" if "camp_revision s < max_revision"
    using arm_ok [OF assms that] validate_campaign_error
    by (cases "arm s cmd") (auto split: prod.split)
  then show ?thesis using validate_campaign_error [OF assms] by (simp add: propose_arm)
qed

lemma arm_no_defect: "arm s cmd \<noteq> Inl InvalidState \<and> arm s cmd \<noteq> Inl InvalidTransition"
proof (cases cmd)
  case (Story i p action)
  then show ?thesis
    by (auto simp: arm_def propose_story_def result_iffs split: sum.splits if_splits)
next
  case (Enter i ch mode)
  then show ?thesis
    by (auto simp: arm_def enter_chapter_def result_iffs validate_run_id_def split: if_splits)
next
  case (Confirm i m)
  then show ?thesis
    by (auto simp: arm_def confirm_milestone_def result_iffs Let_def split: if_splits)
qed

text \<open>
  C23 (error): proposals on a valid state. Whatever the command, the policy never proposes an
  invalid state, never reports its own state as inconsistent, and every transition it accepts
  is confirmed when the journal is validated; validation accepts a transition of the current
  revision exactly when it is the one the policy proposes.
\<close>

theorem campaign_never_invalid:
  assumes "validate_campaign s = Inr ()"
  shows "propose n cmd s \<notin> {Inl InvalidState, Inl InvalidTransition} \<and>
    (case propose n cmd s of
       Inl _ \<Rightarrow> True
     | Inr t \<Rightarrow> validate_campaign (after t) = Inr () \<and> validate_transition t = Inr ()) \<and>
    (tr_revision t' = campaign_revision \<and> before t' = s \<longrightarrow>
       (validate_transition t' = Inr ()) = (propose (camp_revision s) (command t') s = Inr t'))"
proof -
  have ok: "campaign_ok s" using assms by (simp add: validate_campaign_ok)
  have six: "policy_chapters campaign_revision = Some available_chapters"
    by (simp add: policy_chapters_def revisions)
  have exact: "(validate_transition t = Inr ()) = (propose (camp_revision s) (command t) s = Inr t)"
    if "tr_revision t = campaign_revision" and "before t = s" for t
    using that by (auto simp: validate_transition_def six propose_def result_iffs and_then_Inr)
  have "propose n cmd s \<notin> {Inl InvalidState, Inl InvalidTransition}"
    using arm_no_defect [of s cmd] by (auto simp: propose_ok [OF ok] and_then_Inl)
  moreover have "validate_campaign (after t) = Inr () \<and> validate_transition t = Inr ()"
    if t: "propose n cmd s = Inr t" for t
  proof -
    have r: "n = camp_revision s" "camp_revision s < max_revision"
      using t by (auto simp: propose_ok [OF ok] split: if_splits)
    then obtain a g where a: "arm s cmd = Inr (a, g)" and p: "t = proposed s cmd a g"
      using t by (auto simp: propose_ok [OF ok] and_then_Inr)
    have "campaign_ok a" by (rule arm_ok [OF ok r(2) a])
    then show ?thesis using exact [of t] t r p by (simp add: proposed_def validate_campaign_ok)
  qed
  ultimately show ?thesis using exact [of t'] by (auto split: sum.splits)
qed

section \<open>Journals\<close>

definition default_campaign :: campaign_state where
  "default_campaign =
     \<lparr> camp_revision = 0, cleared_chapters = 0, active = None, story = default_story \<rparr>"

text \<open>The caller commits an accepted transition and appends it to the journal.\<close>

fun campaign_commit ::
  "u64 \<times> campaign_command \<Rightarrow> campaign_state \<times> transition list \<Rightarrow> campaign_state \<times> transition list" where
  "campaign_commit (n, cmd) (s, js) =
     (case propose n cmd s of Inl _ \<Rightarrow> (s, js) | Inr t \<Rightarrow> (after t, js @ [t]))"

definition grants :: "transition list \<Rightarrow> first_clear list" where
  "grants js = List.map_filter grant js"

text \<open>The milestones confirmed since a chapter was last entered, with their run.\<close>

fun trail_step :: "transition \<Rightarrow> (string \<times> milestone) list \<Rightarrow> (string \<times> milestone) list" where
  "trail_step t ms =
    (case command t of Enter _ _ _ \<Rightarrow> [] | Confirm i m \<Rightarrow> ms @ [(i, m)] | Story _ _ _ \<Rightarrow> ms)"

definition trail :: "transition list \<Rightarrow> (string \<times> milestone) list" where
  "trail js = fold trail_step js []"

text \<open>A confirmation that ends a run.\<close>

definition completes :: "transition \<Rightarrow> chapter_run \<Rightarrow> bool" where
  "completes t r \<longleftrightarrow>
     (case command t of Confirm _ _ \<Rightarrow> True | _ \<Rightarrow> False) \<and>
     active (before t) = Some r \<and> active (after t) = None"

definition journal_ok :: "campaign_state \<times> transition list \<Rightarrow> bool" where
  "journal_ok = (\<lambda>(s, js).
     campaign_ok s \<and>
     map fc_chapter (grants js) = take (unat (cleared_chapters s)) all_chapters \<and>
     (\<forall>g \<in> set (grants js). fc_fragments g = 1 \<and> fc_experience g = 100) \<and>
     (\<forall>r. active s = Some r \<longrightarrow>
        trail js = map (Pair (run_id r)) (take (unat (checkpoint r)) (campaign_milestones s (run_chapter r)))) \<and>
     (\<forall>js1 t js2 r. js = js1 @ t # js2 \<and> completes t r \<longrightarrow>
        trail (js1 @ [t]) = map (Pair (run_id r)) (campaign_milestones (before t) (run_chapter r))))"

lemma story_keeps_order:
  assumes "story_propose \<lparr> ctx_chapter = c, ctx_checkpoint = k, ctx_position = p \<rparr> action st = Inr st'"
  shows "c \<noteq> TheBreach"
proof -
  have "story_allowed \<lparr> ctx_chapter = c, ctx_checkpoint = k, ctx_position = p \<rparr> action"
    using assms by (auto simp: story_propose_def split: if_splits)
  then show ?thesis by (cases action rule: allowed_at.cases) (auto simp: story_allowed_def)
qed

lemma grants_snoc: "grants (js @ [t]) = grants js @ (case grant t of None \<Rightarrow> [] | Some g \<Rightarrow> [g])"
  by (simp add: grants_def List.map_filter_def split: option.split)

lemma trail_snoc: "trail (js @ [t]) = trail_step t (trail js)"
  by (simp add: trail_def)

lemma next_milestone_nth:
  "next_milestone s = Some m \<longleftrightarrow>
     (\<exists>r. active s = Some r \<and> unat (checkpoint r) < length (chapter_milestones (run_chapter r)) \<and>
       m = campaign_milestones s (run_chapter r) ! unat (checkpoint r))"
  by (auto simp: next_milestone_def nth_opt_def split: option.splits if_splits)

lemma next_chapter:
  assumes "run_ok s r" and "run_mode r = Progress"
  shows "take (unat (cleared_chapters s + 1)) all_chapters =
    take (unat (cleared_chapters s)) all_chapters @ [run_chapter r]"
proof -
  have k: "unat (cleared_chapters s) = chapter_rank (run_chapter r)" using assms by (simp add: run_ok_def)
  have "chapter_rank (run_chapter r) < 6" by (rule chapter_rank_less)
  then have "cleared_chapters s \<noteq> - 1" using k by (auto simp: unat_minus_one_word_pow)
  then have "unat (cleared_chapters s + 1) = Suc (chapter_rank (run_chapter r))" by (simp add: unat_succ k)
  moreover have "length all_chapters = 6" by (simp add: all_chapters_def)
  ultimately show ?thesis
    using chapter_at_rank [of "run_chapter r"] chapter_rank_less [of "run_chapter r"]
    by (simp add: k take_Suc_conv_app_nth)
qed

text \<open>The trail after a confirmation.\<close>

lemma trail_confirmed:
  assumes trail: "trail js = map (Pair (run_id r)) (take (unat (checkpoint r)) (campaign_milestones s (run_chapter r)))"
    and "active s = Some r" and "next_milestone s = Some m" and "command t = Confirm (run_id r) m"
  shows "trail (js @ [t]) =
    map (Pair (run_id r)) (take (Suc (unat (checkpoint r))) (campaign_milestones s (run_chapter r)))"
  using assms by (auto simp: trail_snoc next_milestone_nth take_Suc_conv_app_nth)

lemma snoc_split: "xs @ [x] = ys @ y # zs \<longleftrightarrow> (zs = [] \<and> ys = xs \<and> y = x) \<or> (\<exists>zs'. zs = zs' @ [x] \<and> xs = ys @ y # zs')"
  by (cases zs rule: rev_cases) auto

lemma commit_keeps:
  assumes "journal_ok (s, js)" and "propose n cmd s = Inr t"
  shows "journal_ok (after t, js @ [t])"
proof -
  have ok: "campaign_ok s"
    and clears: "map fc_chapter (grants js) = take (unat (cleared_chapters s)) all_chapters"
    and amounts: "\<forall>g \<in> set (grants js). fc_fragments g = 1 \<and> fc_experience g = 100"
    and running: "\<And>r. active s = Some r \<Longrightarrow> trail js = map (Pair (run_id r))
        (take (unat (checkpoint r)) (campaign_milestones s (run_chapter r)))"
    and complete: "\<And>js1 u js2 r. js = js1 @ u # js2 \<Longrightarrow> completes u r \<Longrightarrow>
        trail (js1 @ [u]) = map (Pair (run_id r)) (campaign_milestones (before u) (run_chapter r))"
    using assms(1) by (auto simp: journal_ok_def)
  obtain a g where r: "camp_revision s < max_revision" and arm: "arm s cmd = Inr (a, g)"
      and t: "t = proposed s cmd a g"
    using assms(2) by (auto simp: propose_ok [OF ok] and_then_Inr split: if_splits)
  have a_ok: "campaign_ok a" by (rule arm_ok [OF ok r arm])
  have fields: "before t = s" "command t = cmd" "after t = a" "grant t = g"
    by (simp_all add: t proposed_def)
  have keep: "journal_ok (after t, js @ [t])"
    if "map fc_chapter (grants js @ (case g of None \<Rightarrow> [] | Some g \<Rightarrow> [g])) = take (unat (cleared_chapters a)) all_chapters"
      and "\<forall>x. g = Some x \<longrightarrow> fc_fragments x = 1 \<and> fc_experience x = 100"
      and "\<forall>r. active a = Some r \<longrightarrow> trail (js @ [t]) = map (Pair (run_id r))
          (take (unat (checkpoint r)) (campaign_milestones a (run_chapter r)))"
      and "\<forall>r. completes t r \<longrightarrow>
          trail (js @ [t]) = map (Pair (run_id r)) (campaign_milestones s (run_chapter r))"
    using that a_ok amounts complete
    by (auto simp: journal_ok_def fields grants_snoc snoc_split split: option.splits)
  show ?thesis
    using arm
  proof (cases rule: arm_cases)
    case (story i p action r st)
    have "campaign_milestones a (run_chapter r) = campaign_milestones s (run_chapter r)"
      using story_keeps_order [OF story(4)] by (simp add: campaign_milestones_def)
    then show ?thesis
      using story clears running [OF story(2)]
      by (intro keep) (auto simp: advanced_def trail_snoc fields completes_def)
  next
    case (enter i ch mode)
    then show ?thesis using clears
      by (intro keep) (auto simp: advanced_def trail_snoc fields completes_def)
  next
    case (confirm i m r)
    have "run_ok s r" using ok confirm(2) by (simp add: campaign_ok_def)
    then have "unat (checkpoint r + 1) = Suc (unat (checkpoint r))" by (simp add: checkpoint_succ)
    moreover have "campaign_milestones a c = campaign_milestones s c" for c
      by (simp add: campaign_milestones_def confirm(6) advanced_def)
    moreover have "command t = Confirm (run_id r) m" using confirm(1,3) by (simp add: fields)
    ultimately show ?thesis
      using confirm clears trail_confirmed [OF running [OF confirm(2)] confirm(2,4)]
      by (intro keep) (auto simp: advanced_def fields completes_def)
  next
    case (complete i m r)
    have run: "run_ok s r" using ok complete(2) by (simp add: campaign_ok_def)
    then have "length (chapter_milestones (run_chapter r)) = Suc (unat (checkpoint r))"
      using complete(5) by (simp add: checkpoint_succ)
    moreover have "command t = Confirm (run_id r) m" using complete(1,3) by (simp add: fields)
    ultimately have "trail (js @ [t]) = map (Pair (run_id r)) (campaign_milestones s (run_chapter r))"
      using trail_confirmed [OF running [OF complete(2)] complete(2,4)] by simp
    moreover have "take (unat (cleared_chapters a)) all_chapters =
        map fc_chapter (grants js @ (case g of None \<Rightarrow> [] | Some g \<Rightarrow> [g]))"
      using complete(6,7) clears next_chapter [OF run] by (simp add: advanced_def)
    ultimately show ?thesis using complete(2,6,7)
      by (intro keep)
        (auto simp: fields completes_def first_clear_fragments_def first_clear_experience_def)
  qed
qed

interpretation journal: history campaign_commit journal_ok
proof
  fix j c assume ok: "journal_ok j"
  show "journal_ok (campaign_commit c j)"
  proof (cases c; cases j)
    fix n cmd s js assume eqs: "c = (n, cmd)" "j = (s, js)"
    then show ?thesis using ok commit_keeps [of s js n cmd] by (cases "propose n cmd s") auto
  qed
qed

lemma journal_ok_default: "journal_ok (default_campaign, [])"
  by (simp add: journal_ok_def campaign_ok_def default_campaign_def grants_def trail_def List.map_filter_def
      max_revision_def)

lemma journal_history:
  "fold campaign_commit cmds (default_campaign, []) = (s, js) \<Longrightarrow> journal_ok (s, js)"
  using journal.good_history [OF journal_ok_default, of cmds] by simp

text \<open>
  C21 (invariant): first clears. Over any history of commands from a new character, accepted or
  not, practised chapters and story choices included, the grants are exactly one per cleared
  chapter, in the order of the chapters, each of one fragment and 100 experience.
\<close>

theorem campaign_grants_once:
  assumes "fold campaign_commit cmds (default_campaign, []) = (s, js)"
  shows "map fc_chapter (grants js) = take (unat (cleared_chapters s)) all_chapters \<and>
    distinct (map fc_chapter (grants js)) \<and>
    (\<forall>g \<in> set (grants js). fc_fragments g = 1 \<and> fc_experience g = 100)"
proof -
  have "map fc_chapter (grants js) = take (unat (cleared_chapters s)) all_chapters"
    "\<forall>g \<in> set (grants js). fc_fragments g = 1 \<and> fc_experience g = 100"
    using journal_history [OF assms] by (auto simp: journal_ok_def)
  moreover have "distinct (take (unat (cleared_chapters s)) all_chapters)"
    by (rule distinct_take) (simp add: all_chapters_def)
  ultimately show ?thesis by simp
qed

text \<open>
  C22 (safety): no shortcut. Whenever a confirmation ends a run, in progress or practice mode, the
  confirmations accepted since the chapter was entered are exactly its milestones, in the
  order the story state prescribes, all under the identity of that run.
\<close>

theorem campaign_runs_complete:
  assumes "fold campaign_commit cmds (default_campaign, []) = (s, js1 @ t # js2)"
    and "completes t r"
  shows "trail (js1 @ [t]) =
    map (Pair (run_id r)) (campaign_milestones (before t) (run_chapter r))"
  using journal_history [OF assms(1)] assms(2) by (auto simp: journal_ok_def)

section \<open>Examples\<close>

lemma run_one_valid: "validate_run_id ''run-1'' = Inr ()"
  by (simp add: validate_run_id_def is_ascii_alphanumeric_def byte_def)

definition first_chapter :: "(u64 \<times> campaign_command) list" where
  "first_chapter =
    [(0, Enter ''run-1'' ReturnSignal Progress), (1, Confirm ''run-1'' RelayGuardCleared),
     (2, Confirm ''run-1'' ReturnSignalRecovered)]"

definition mid_signal :: campaign_state where
  "mid_signal = \<lparr> camp_revision = 2, cleared_chapters = 0,
     active = Some \<lparr> run_id = ''run-1'', run_chapter = ReturnSignal, run_mode = Progress, checkpoint = 1 \<rparr>,
     story = default_story \<rparr>"

definition last_confirm :: transition where
  "last_confirm = proposed mid_signal (Confirm ''run-1'' ReturnSignalRecovered)
     \<lparr> camp_revision = 3, cleared_chapters = 1, active = None, story = default_story \<rparr>
     (Some \<lparr> fc_chapter = ReturnSignal, fc_fragments = 1, fc_experience = 100 \<rparr>)"

lemmas campaign_eval = propose_def propose_policy_def validate_available_def validate_run_def
  run_one_valid available_chapters_def max_revision_def checked_add_def enter_chapter_def
  confirm_milestone_def next_milestone_def nth_opt_def campaign_milestones_def
  first_clear_fragments_def first_clear_experience_def Let_def

lemma first_chapter_run:
  "\<exists>a b. fold campaign_commit first_chapter (default_campaign, []) =
     (after last_confirm, [a, b, last_confirm]) \<and> grant a = None \<and> grant b = None"
  by (simp add: first_chapter_def default_campaign_def campaign_eval last_confirm_def mid_signal_def proposed_def)

lemma campaign_grants_once_witness:
  "\<exists>s js. fold campaign_commit first_chapter (default_campaign, []) = (s, js) \<and>
     map fc_chapter (grants js) = [ReturnSignal]"
proof -
  obtain a b where run: "fold campaign_commit first_chapter (default_campaign, []) =
      (after last_confirm, [a, b, last_confirm])"
    using first_chapter_run by blast
  with campaign_grants_once [OF run] show ?thesis
    by (simp add: last_confirm_def proposed_def all_chapters_def)
qed

lemma campaign_runs_complete_witness:
  "\<exists>s js. fold campaign_commit first_chapter (default_campaign, []) = (s, js @ [last_confirm]) \<and>
     trail (js @ [last_confirm]) =
       [(''run-1'', RelayGuardCleared), (''run-1'', ReturnSignalRecovered)]"
proof -
  obtain a b where run: "fold campaign_commit first_chapter (default_campaign, []) =
      (after last_confirm, [a, b] @ last_confirm # [])"
    using first_chapter_run by auto
  have "completes last_confirm \<lparr> run_id = ''run-1'', run_chapter = ReturnSignal, run_mode = Progress, checkpoint = 1 \<rparr>"
    by (simp add: completes_def last_confirm_def proposed_def mid_signal_def)
  from campaign_runs_complete [OF run this] run show ?thesis
    by (auto simp: last_confirm_def proposed_def mid_signal_def campaign_milestones_def)
qed

lemma campaign_never_invalid_witness:
  "propose 0 (Confirm ''run-1'' RelayGuardCleared) default_campaign \<noteq> Inl InvalidState"
proof -
  have "validate_campaign default_campaign = Inr ()"
    using journal_ok_default by (simp add: journal_ok_def validate_campaign_ok)
  then show ?thesis using campaign_never_invalid [of default_campaign 0] by simp
qed

end
