(* ===== verification/Arsenal.thy ===== *)
theory Arsenal
  imports Prelude
begin

text \<open>
  The fixed item catalog of \<open>src/runtime/inventory/src/lib.rs\<close>: the weapon profiles, the
  damage a weapon does at a distance, and the validation of rewards.
\<close>

definition relay_core_fragment :: string where "relay_core_fragment = ''relay_core_fragment''"
definition pulse_rifle :: string where "pulse_rifle = ''pulse_rifle''"
definition arc_sidearm :: string where "arc_sidearm = ''arc_sidearm''"
definition coil_lance :: string where "coil_lance = ''coil_lance''"
definition scatter_caster :: string where "scatter_caster = ''scatter_caster''"
definition rail_driver :: string where "rail_driver = ''rail_driver''"

lemmas item_names = relay_core_fragment_def pulse_rifle_def arc_sidearm_def coil_lance_def
  scatter_caster_def rail_driver_def

record weapon_stats =
  weapon_item :: string
  weapon_damage :: u32
  weapon_range :: int
  weapon_cooldown_ms :: u64

definition pulse_rifle_profile :: weapon_stats where
  "pulse_rifle_profile = \<lparr> weapon_item = pulse_rifle, weapon_damage = 40, weapon_range = 6,
     weapon_cooldown_ms = 250 \<rparr>"

definition arc_sidearm_profile :: weapon_stats where
  "arc_sidearm_profile = \<lparr> weapon_item = arc_sidearm, weapon_damage = 25, weapon_range = 8,
     weapon_cooldown_ms = 150 \<rparr>"

definition coil_lance_profile :: weapon_stats where
  "coil_lance_profile = \<lparr> weapon_item = coil_lance, weapon_damage = 48, weapon_range = 9,
     weapon_cooldown_ms = 350 \<rparr>"

definition scatter_caster_profile :: weapon_stats where
  "scatter_caster_profile = \<lparr> weapon_item = scatter_caster, weapon_damage = 56, weapon_range = 6,
     weapon_cooldown_ms = 400 \<rparr>"

definition rail_driver_profile :: weapon_stats where
  "rail_driver_profile = \<lparr> weapon_item = rail_driver, weapon_damage = 56, weapon_range = 10,
     weapon_cooldown_ms = 400 \<rparr>"

lemmas weapon_stats_values = pulse_rifle_profile_def arc_sidearm_profile_def coil_lance_profile_def
  scatter_caster_profile_def rail_driver_profile_def

definition weapon_profile :: "string \<Rightarrow> weapon_stats option" where
  "weapon_profile item =
    (if item = pulse_rifle then Some pulse_rifle_profile
     else if item = arc_sidearm then Some arc_sidearm_profile
     else if item = coil_lance then Some coil_lance_profile
     else if item = scatter_caster then Some scatter_caster_profile
     else if item = rail_driver then Some rail_driver_profile
     else None)"

definition positioned_damage :: "string \<Rightarrow> u32 \<Rightarrow> int \<Rightarrow> u32 option" where
  "positioned_damage item damage distance_squared =
    (if distance_squared < 0 \<or> (item = rail_driver \<and> distance_squared < 16) then None
     else Some (if item = scatter_caster \<and> distance_squared > 9 then damage div 2 else damage))"

record item_reward =
  reward_item :: string
  reward_quantity :: u32

datatype inventory_error = UnknownItem string | ZeroQuantity

definition reward_validated :: "string \<Rightarrow> u32 \<Rightarrow> inventory_error + item_reward" where
  "reward_validated item quantity =
    (if item \<notin> {pulse_rifle, arc_sidearm, coil_lance, scatter_caster, rail_driver, relay_core_fragment}
     then Inl (UnknownItem item)
     else if quantity = 0 then Inl ZeroQuantity
     else Inr \<lparr> reward_item = item, reward_quantity = quantity \<rparr>)"

text \<open>Every weapon of the catalog lies in the envelope in which all loadouts resolve.\<close>

lemma weapon_envelope:
  assumes "weapon_profile item = Some w"
  shows "weapon_item w = item" and "25 \<le> weapon_damage w" "weapon_damage w \<le> 56"
    and "6 \<le> weapon_range w" "weapon_range w \<le> 10"
    and "150 \<le> weapon_cooldown_ms w" "weapon_cooldown_ms w \<le> 400"
  using assms by (auto simp: weapon_profile_def weapon_stats_values split: if_splits)

lemma positioned_damage_le:
  "positioned_damage item d d2 = Some r \<Longrightarrow> r \<le> d"
  by (auto simp: positioned_damage_def word_le_nat_alt unat_div_nat split: if_splits)

end
