(* ===== verification/Challenge_Catalog.thy ===== *)
theory Challenge_Catalog
  imports Module_Builds Arsenal
begin

text \<open>
  The closed catalogs of the challenge crate (\<open>src/runtime/challenges/src/catalog.rs\<close>,
  \<open>modifiers.rs\<close> and the equipment of \<open>lib.rs\<close>): contracts and the policies that publish
  them, objectives with their bits, modifier presets, rule identities, and the admission of
  equipment through the module catalog. The lemmas show which equipment is admitted and
  that there are sixteen rule identities.
\<close>

section \<open>Contracts, objectives and presets\<close>

datatype contract_id =
  CloseQuarters | MeridianCircuit | CoolantRecovery | BastionLink | PrismDiscipline
| DistantSignal | LastReserve | RelayGauntlet

datatype objective =
  LancerCleared | MenderCleared | LensRead | GalleryRead | LogRead | VisitReturned
| CoolantRetrieved | CoolantTransferred | CoolantDelivered | BulwarkCleared | PrismCleared
| SentinelCleared | WestRelayCharged | EastRelayCharged | ReserveReturned
| GauntletSupportCleared | GauntletBastionCleared | GauntletPrismCleared

datatype gauntlet_stage = Support | Bastion | Prism

datatype modifier_family = AlternateApproach | ReinforcementOrder | Recovery | TimePressure

datatype modifier = WestApproachMod | BastionFirstMod | SingleReserveMod | PaceMod

datatype preset =
  Baseline | WestApproach | BastionFirst | SingleReserve | Pace | WestApproachPace
| BastionFirstSingleReserve | SingleReservePace

datatype challenge_error =
  UnsupportedRevision | StaleRevision | RevisionOverflow | InvalidState | InvalidEquipment
| InvalidModifiers | ActiveRun | WrongRun | WrongObjective

fun modifier_family_of :: "modifier \<Rightarrow> modifier_family" where
  "modifier_family_of WestApproachMod = AlternateApproach"
| "modifier_family_of BastionFirstMod = ReinforcementOrder"
| "modifier_family_of SingleReserveMod = Recovery"
| "modifier_family_of PaceMod = TimePressure"

fun preset_as_str :: "preset \<Rightarrow> string" where
  "preset_as_str Baseline = ''baseline''"
| "preset_as_str WestApproach = ''west_approach''"
| "preset_as_str BastionFirst = ''bastion_first''"
| "preset_as_str SingleReserve = ''single_reserve''"
| "preset_as_str Pace = ''pace''"
| "preset_as_str WestApproachPace = ''west_approach_pace''"
| "preset_as_str BastionFirstSingleReserve = ''bastion_first_single_reserve''"
| "preset_as_str SingleReservePace = ''single_reserve_pace''"

definition is_baseline :: "preset \<Rightarrow> bool" where
  "is_baseline p \<longleftrightarrow> p = Baseline"

definition all_presets :: "preset list" where
  "all_presets = [Baseline, WestApproach, BastionFirst, SingleReserve, Pace, WestApproachPace,
     BastionFirstSingleReserve, SingleReservePace]"

fun preset_modifiers :: "preset \<Rightarrow> modifier list" where
  "preset_modifiers Baseline = []"
| "preset_modifiers WestApproach = [WestApproachMod]"
| "preset_modifiers BastionFirst = [BastionFirstMod]"
| "preset_modifiers SingleReserve = [SingleReserveMod]"
| "preset_modifiers Pace = [PaceMod]"
| "preset_modifiers WestApproachPace = [WestApproachMod, PaceMod]"
| "preset_modifiers BastionFirstSingleReserve = [BastionFirstMod, SingleReserveMod]"
| "preset_modifiers SingleReservePace = [SingleReserveMod, PaceMod]"

fun available_for :: "preset \<Rightarrow> contract_id \<Rightarrow> bool" where
  "available_for Baseline c = True"
| "available_for WestApproach c = (c = MeridianCircuit)"
| "available_for WestApproachPace c = (c = MeridianCircuit)"
| "available_for BastionFirst c = (c = RelayGauntlet)"
| "available_for SingleReserve c = (c = RelayGauntlet)"
| "available_for BastionFirstSingleReserve c = (c = RelayGauntlet)"
| "available_for SingleReservePace c = (c = RelayGauntlet)"
| "available_for Pace c = (c = MeridianCircuit \<or> c = RelayGauntlet)"

definition select_preset :: "contract_id \<Rightarrow> modifier list \<Rightarrow> challenge_error + preset" where
  "select_preset c ms =
     ok_or InvalidModifiers
       (List.find (\<lambda>p. available_for p c \<and> length (preset_modifiers p) = length ms \<and>
          list_all (\<lambda>m. m \<in> set ms) (preset_modifiers p)) all_presets)"

definition has_modifier :: "preset \<Rightarrow> modifier \<Rightarrow> bool" where
  "has_modifier p m \<longleftrightarrow> m \<in> set (preset_modifiers p)"

definition time_goal_ms :: "preset \<Rightarrow> contract_id \<Rightarrow> u64 option" where
  "time_goal_ms p c =
    (if \<not> available_for p c \<or> \<not> has_modifier p PaceMod then None
     else case c of
       MeridianCircuit \<Rightarrow> Some 60000
     | RelayGauntlet \<Rightarrow> Some 180000
     | _ \<Rightarrow> None)"

definition gauntlet_stages :: "preset \<Rightarrow> gauntlet_stage list" where
  "gauntlet_stages p =
    (if has_modifier p BastionFirstMod then [Bastion, Support, Prism] else [Support, Bastion, Prism])"

definition meridian_entrance :: "preset \<Rightarrow> pos option" where
  "meridian_entrance p =
    (if available_for p MeridianCircuit
     then Some (if has_modifier p WestApproachMod then (- 31, 0, 0) else (- 16, 0, 0))
     else None)"

section \<open>Policies and rules\<close>

definition initial_policy :: string where "initial_policy = ''m37-challenges-v1''"
definition expanded_policy :: string where "expanded_policy = ''m37-challenges-v2''"
definition elite_policy :: string where "elite_policy = ''m37-challenges-v3''"
definition prism_policy :: string where "prism_policy = ''m37-challenges-v4''"
definition signal_policy :: string where "signal_policy = ''m37-challenges-v5''"
definition survival_policy :: string where "survival_policy = ''m37-challenges-v6''"
definition gauntlet_policy :: string where "gauntlet_policy = ''m37-challenges-v7''"
definition modifier_policy :: string where "modifier_policy = ''m37-challenges-v8''"

lemmas policies = initial_policy_def expanded_policy_def elite_policy_def prism_policy_def
  signal_policy_def survival_policy_def gauntlet_policy_def modifier_policy_def

definition initial_contracts :: "contract_id list" where
  "initial_contracts = [CloseQuarters, MeridianCircuit]"
definition recovery_contracts :: "contract_id list" where
  "recovery_contracts = [CloseQuarters, MeridianCircuit, CoolantRecovery]"
definition elite_contracts :: "contract_id list" where
  "elite_contracts = [CloseQuarters, MeridianCircuit, CoolantRecovery, BastionLink]"
definition prism_contracts :: "contract_id list" where
  "prism_contracts =
     [CloseQuarters, MeridianCircuit, CoolantRecovery, BastionLink, PrismDiscipline]"
definition signal_contracts :: "contract_id list" where
  "signal_contracts = [CloseQuarters, MeridianCircuit, CoolantRecovery, BastionLink,
     PrismDiscipline, DistantSignal]"
definition survival_contracts :: "contract_id list" where
  "survival_contracts = [CloseQuarters, MeridianCircuit, CoolantRecovery, BastionLink,
     PrismDiscipline, DistantSignal, LastReserve]"
definition all_contracts :: "contract_id list" where
  "all_contracts = [CloseQuarters, MeridianCircuit, CoolantRecovery, BastionLink,
     PrismDiscipline, DistantSignal, LastReserve, RelayGauntlet]"

definition contract_available_in :: "contract_id \<Rightarrow> string \<Rightarrow> bool" where
  "contract_available_in c policy =
    (if policy = initial_policy then c \<in> set initial_contracts
     else if policy = expanded_policy then c \<in> set recovery_contracts
     else if policy = elite_policy then c \<in> set elite_contracts
     else if policy = prism_policy then c \<in> set prism_contracts
     else if policy = signal_policy then c \<in> set signal_contracts
     else if policy = survival_policy then c \<in> set survival_contracts
     else policy = gauntlet_policy \<or> policy = modifier_policy)"

fun contract_as_str :: "contract_id \<Rightarrow> string" where
  "contract_as_str CloseQuarters = ''close_quarters''"
| "contract_as_str MeridianCircuit = ''meridian_circuit''"
| "contract_as_str CoolantRecovery = ''coolant_recovery''"
| "contract_as_str BastionLink = ''bastion_link''"
| "contract_as_str PrismDiscipline = ''prism_discipline''"
| "contract_as_str DistantSignal = ''distant_signal''"
| "contract_as_str LastReserve = ''last_reserve''"
| "contract_as_str RelayGauntlet = ''relay_gauntlet''"

fun activity_id :: "contract_id \<Rightarrow> string" where
  "activity_id CloseQuarters = ''challenge_close_quarters''"
| "activity_id MeridianCircuit = ''challenge_meridian_circuit''"
| "activity_id CoolantRecovery = ''challenge_coolant_recovery''"
| "activity_id BastionLink = ''challenge_bastion_link''"
| "activity_id PrismDiscipline = ''challenge_prism_discipline''"
| "activity_id DistantSignal = ''challenge_distant_signal''"
| "activity_id LastReserve = ''challenge_last_reserve''"
| "activity_id RelayGauntlet = ''challenge_relay_gauntlet''"

record rules =
  contract :: contract_id
  contract_revision :: string
  gameplay_revision :: string
  seed :: u64
  preset :: preset

fun contract_identity :: "contract_id \<Rightarrow> string \<times> u64" where
  "contract_identity CloseQuarters = (''close-quarters-v1'', 37001)"
| "contract_identity MeridianCircuit = (''meridian-circuit-v1'', 37002)"
| "contract_identity CoolantRecovery = (''coolant-recovery-v1'', 37003)"
| "contract_identity BastionLink = (''bastion-link-v1'', 37004)"
| "contract_identity PrismDiscipline = (''prism-discipline-v1'', 37005)"
| "contract_identity DistantSignal = (''distant-signal-v1'', 37006)"
| "contract_identity LastReserve = (''last-reserve-v1'', 37007)"
| "contract_identity RelayGauntlet = (''relay-gauntlet-v1'', 37008)"

fun contract_gameplay :: "contract_id \<Rightarrow> string" where
  "contract_gameplay CoolantRecovery = ''m37-recovery-v1''"
| "contract_gameplay BastionLink = ''m37-elite-v1''"
| "contract_gameplay PrismDiscipline = ''m37-prism-v1''"
| "contract_gameplay DistantSignal = ''m37-signal-v1''"
| "contract_gameplay LastReserve = ''m37-survival-v1''"
| "contract_gameplay RelayGauntlet = ''m37-gauntlet-v1''"
| "contract_gameplay CloseQuarters = ''m37-baseline-v1''"
| "contract_gameplay MeridianCircuit = ''m37-baseline-v1''"

definition contract_rules :: "contract_id \<Rightarrow> rules" where
  "contract_rules c =
     \<lparr> contract = c, contract_revision = fst (contract_identity c),
       gameplay_revision = contract_gameplay c, seed = snd (contract_identity c),
       preset = Baseline \<rparr>"

definition rules_with_preset :: "contract_id \<Rightarrow> preset \<Rightarrow> challenge_error + rules" where
  "rules_with_preset c p =
    (if \<not> available_for p c then Inl InvalidModifiers
     else if \<not> is_baseline p
     then Inr ((contract_rules c)\<lparr> gameplay_revision := ''m37-modifiers-v1'', preset := p \<rparr>)
     else Inr (contract_rules c))"

fun complete_mask :: "contract_id \<Rightarrow> u8" where
  "complete_mask CloseQuarters = 3"
| "complete_mask BastionLink = 3"
| "complete_mask MeridianCircuit = 15"
| "complete_mask CoolantRecovery = 7"
| "complete_mask LastReserve = 7"
| "complete_mask RelayGauntlet = 7"
| "complete_mask PrismDiscipline = 1"
| "complete_mask DistantSignal = 1"

definition contract_bit :: "objective \<Rightarrow> contract_id \<Rightarrow> u8 option" where
  "contract_bit ob c =
    (if (c, ob) \<in> set
       [(RelayGauntlet, GauntletSupportCleared), (LastReserve, WestRelayCharged),
        (DistantSignal, SentinelCleared), (PrismDiscipline, PrismCleared),
        (CloseQuarters, LancerCleared), (BastionLink, BulwarkCleared),
        (MeridianCircuit, LensRead), (CoolantRecovery, CoolantRetrieved)] then Some 1
     else if (c, ob) \<in> set
       [(RelayGauntlet, GauntletBastionCleared), (LastReserve, EastRelayCharged),
        (CloseQuarters, MenderCleared), (BastionLink, MenderCleared),
        (MeridianCircuit, GalleryRead), (CoolantRecovery, CoolantTransferred)] then Some 2
     else if (c, ob) \<in> set
       [(RelayGauntlet, GauntletPrismCleared), (LastReserve, ReserveReturned),
        (MeridianCircuit, LogRead), (CoolantRecovery, CoolantDelivered)] then Some 4
     else if (c, ob) = (MeridianCircuit, VisitReturned) then Some 8
     else None)"

definition recovery_intake :: pos where "recovery_intake = (- 1, 0, - 5)"
definition recovery_transfer :: pos where "recovery_transfer = (4, 0, - 5)"
definition recovery_delivery :: pos where "recovery_delivery = (4, 0, - 1)"

fun objective_site :: "objective \<Rightarrow> pos option" where
  "objective_site LensRead = Some (- 28, 0, - 7)"
| "objective_site GalleryRead = Some (- 28, 0, 7)"
| "objective_site LogRead = Some (- 30, 0, 0)"
| "objective_site VisitReturned = Some (- 16, 0, 0)"
| "objective_site CoolantRetrieved = Some recovery_intake"
| "objective_site CoolantTransferred = Some recovery_transfer"
| "objective_site CoolantDelivered = Some recovery_delivery"
| "objective_site _ = None"

definition objective_position :: "rules \<Rightarrow> objective \<Rightarrow> pos option" where
  "objective_position r ob =
    (if contract r = MeridianCircuit \<and> ob = VisitReturned then meridian_entrance (preset r)
     else objective_site ob)"

definition rules_available_in :: "rules \<Rightarrow> string \<Rightarrow> bool" where
  "rules_available_in r policy \<longleftrightarrow>
     contract_available_in (contract r) policy \<and>
     (is_baseline (preset r) \<or> policy = modifier_policy)"

definition objective_bit :: "rules \<Rightarrow> objective \<Rightarrow> u8 option" where
  "objective_bit r ob =
    (if contract r = RelayGauntlet \<and> has_modifier (preset r) BastionFirstMod \<and>
        ob = GauntletBastionCleared then Some 1
     else if contract r = RelayGauntlet \<and> has_modifier (preset r) BastionFirstMod \<and>
        ob = GauntletSupportCleared then Some 2
     else contract_bit ob (contract r))"

definition visit_objective :: "rules \<Rightarrow> u8 \<Rightarrow> pos \<Rightarrow> objective option" where
  "visit_objective r objectives p =
    (if contract r \<noteq> MeridianCircuit then None
     else List.find (\<lambda>ob. objective_position r ob = Some p \<and>
            (case objective_bit r ob of None \<Rightarrow> False | Some b \<Rightarrow> objectives AND b = 0) \<and>
            (ob \<noteq> VisitReturned \<or> objectives = 7))
          [LensRead, GalleryRead, LogRead, VisitReturned])"

section \<open>Equipment\<close>

record equipment =
  loadout_revision :: u64
  catalog_revision :: string
  weapon_id :: string
  equipped_modules :: "module_id list"

definition max_challenge_revision :: u64 where
  "max_challenge_revision = 9223372036854775807"

definition weapon_base :: "weapon_stats \<Rightarrow> base_profile" where
  "weapon_base w = \<lparr> base_damage = weapon_damage w, base_range = weapon_range w,
     base_cooldown_ms = weapon_cooldown_ms w, base_max_health = 100 \<rparr>"

definition validate_equipment :: "equipment \<Rightarrow> challenge_error + unit" where
  "validate_equipment e =
    (if loadout_revision e > max_challenge_revision \<or> catalog_revision e \<noteq> ''m35-v2''
     then Inl InvalidEquipment
     else case canonicalize_loadout (equipped_modules e) of
       Inl _ \<Rightarrow> Inl InvalidEquipment
     | Inr canonical \<Rightarrow>
         if canonical \<noteq> equipped_modules e then Inl InvalidEquipment
         else
           and_then (ok_or InvalidEquipment (weapon_profile (weapon_id e))) (\<lambda>w.
           case resolve_build (catalog_revision e) (weapon_base w) (equipped_modules e) of
             Inl _ \<Rightarrow> Inl InvalidEquipment
           | Inr _ \<Rightarrow> Inr ()))"

text \<open>The profile the encounter controllers compute from admitted equipment.\<close>

definition equipment_profile :: "equipment \<Rightarrow> challenge_error + effective_profile" where
  "equipment_profile e =
     and_then (validate_equipment e) (\<lambda>_.
     and_then (ok_or InvalidEquipment (weapon_profile (weapon_id e))) (\<lambda>w.
     case resolve_build (catalog_revision e) (weapon_base w) (equipped_modules e) of
       Inl _ \<Rightarrow> Inl InvalidEquipment
     | Inr b \<Rightarrow> Inr (build_profile b)))"

text \<open>The admission of a signal run: its weapon must reach across the lane.\<close>

definition signal_profile :: "equipment \<Rightarrow> challenge_error + effective_profile" where
  "signal_profile e =
     and_then (equipment_profile e) (\<lambda>p.
     if eff_range p < 4 then Inl InvalidEquipment else Inr p)"

text \<open>Admission does not depend on the weapon: every catalog weapon takes every canonical loadout.\<close>

lemma weapon_resolves:
  assumes "weapon_profile i = Some w" and "canonicalize_loadout ms = Inr ms"
  shows "\<exists>b. resolve_build ''m35-v2'' (weapon_base w) ms = Inr b \<and>
    profile_exact (weapon_base w) (totals ms) (build_profile b)"
  using arsenal_resolves [of "weapon_base w" ms] weapon_envelope [OF assms(1)] assms(2)
  by (auto simp: weapon_base_def canonical_fixed)

lemma equipment_admitted:
  "validate_equipment e = Inr () \<longleftrightarrow>
     loadout_revision e \<le> max_challenge_revision \<and> catalog_revision e = ''m35-v2'' \<and>
     canonicalize_loadout (equipped_modules e) = Inr (equipped_modules e) \<and>
     weapon_profile (weapon_id e) \<noteq> None"
proof (cases "canonicalize_loadout (equipped_modules e) = Inr (equipped_modules e)")
  case canonical: True
  show ?thesis
  proof (cases "weapon_profile (weapon_id e)")
    case (Some w)
    then show ?thesis
      using canonical weapon_resolves [OF Some canonical]
      by (auto simp: validate_equipment_def not_less)
  qed (auto simp: validate_equipment_def canonical)
next
  case False
  then show ?thesis
    by (cases "canonicalize_loadout (equipped_modules e)") (auto simp: validate_equipment_def)
qed

lemma validate_equipment_error: "validate_equipment e = Inl err \<Longrightarrow> err = InvalidEquipment"
  by (cases "canonicalize_loadout (equipped_modules e)"; cases "weapon_profile (weapon_id e)";
      cases "resolve_build (catalog_revision e) (weapon_base (the (weapon_profile (weapon_id e)))) (equipped_modules e)")
    (auto simp: validate_equipment_def split: if_splits)

lemma equipment_profile_cases:
  "equipment_profile e = (if validate_equipment e = Inr () then
     (case weapon_profile (weapon_id e) of
        None \<Rightarrow> Inl InvalidEquipment
      | Some w \<Rightarrow> (case resolve_build ''m35-v2'' (weapon_base w) (equipped_modules e) of
          Inl _ \<Rightarrow> Inl InvalidEquipment | Inr b \<Rightarrow> Inr (build_profile b)))
     else Inl InvalidEquipment)"
  using equipment_admitted [of e] validate_equipment_error [of e]
  by (cases "validate_equipment e") (auto simp: equipment_profile_def split: option.split)

text \<open>An admitted player starts with 80 to 150 health.\<close>

lemma equipment_profile_health:
  assumes "equipment_profile e = Inr p"
  shows "80 \<le> unat (eff_max_health p)" and "unat (eff_max_health p) \<le> 150"
proof -
  have ok: "validate_equipment e = Inr ()" using assms by (auto simp: equipment_profile_cases split: if_splits)
  then obtain w where w: "weapon_profile (weapon_id e) = Some w"
    and ms: "canonicalize_loadout (equipped_modules e) = Inr (equipped_modules e)"
    by (auto simp: equipment_admitted)
  obtain b where b: "resolve_build ''m35-v2'' (weapon_base w) (equipped_modules e) = Inr b"
      "profile_exact (weapon_base w) (totals (equipped_modules e)) (build_profile b)"
    using weapon_resolves [OF w ms] by blast
  have p: "p = build_profile b" using assms ok w b(1) by (simp add: equipment_profile_cases)
  have "within_extremes (totals (equipped_modules e))"
    using ms by (intro totals_within) (simp_all add: canonical_fixed)
  then have "80 \<le> int (unat (eff_max_health p)) \<and> int (unat (eff_max_health p)) \<le> 150"
    using b(2) by (simp add: p profile_exact_def within_extremes_def weapon_base_def)
  then show "80 \<le> unat (eff_max_health p)" "unat (eff_max_health p) \<le> 150" by linarith+
qed

lemma signal_profile_error: "signal_profile e = Inl err \<Longrightarrow> err = InvalidEquipment"
  by (auto simp: signal_profile_def and_then_Inl equipment_profile_cases split: if_splits option.splits sum.splits)

section \<open>The sixteen rule identities\<close>

definition rule_identities :: "rules list" where
  "rule_identities =
     concat (map (\<lambda>c. map (\<lambda>p. case rules_with_preset c p of Inr r \<Rightarrow> r | Inl _ \<Rightarrow> contract_rules c)
       (filter (\<lambda>p. available_for p c) all_presets)) all_contracts)"

lemma all_contracts_complete: "c \<in> set all_contracts"
  by (cases c) (simp_all add: all_contracts_def)

lemma all_presets_complete: "p \<in> set all_presets"
  by (cases p) (simp_all add: all_presets_def)

lemma rules_identified:
  "rules_with_preset (contract r) (preset r) = Inr r \<Longrightarrow> r \<in> set rule_identities"
proof -
  assume r: "rules_with_preset (contract r) (preset r) = Inr r"
  then have "available_for (preset r) (contract r)" by (simp add: rules_with_preset_def split: if_splits)
  with r all_contracts_complete [of "contract r"] all_presets_complete [of "preset r"]
  show ?thesis
    unfolding rule_identities_def set_concat set_map
    by (intro UN_I [of "map (\<lambda>p. case rules_with_preset (contract r) p of Inr r \<Rightarrow> r | Inl _ \<Rightarrow> contract_rules (contract r))
       (filter (\<lambda>p. available_for p (contract r)) all_presets)"]) (auto intro: rev_image_eqI [of "preset r"])
qed

lemma rule_identities_count: "length rule_identities = 16"
  by (simp add: rule_identities_def all_contracts_def all_presets_def)

lemma distinct_rules_bound:
  assumes "distinct rs" and "\<forall>r \<in> set rs. rules_with_preset (contract r) (preset r) = Inr r"
  shows "length rs \<le> 16"
proof -
  have "card (set rs) \<le> card (set rule_identities)"
    using assms(2) rules_identified by (intro card_mono) auto
  also have "\<dots> \<le> 16" using card_length [of rule_identities] by (simp add: rule_identities_count)
  finally show ?thesis using assms(1) by (simp add: distinct_card)
qed

end
