(* ===== verification/Challenges.thy ===== *)
theory Challenges
  imports Challenge_Catalog Lifecycle
begin

text \<open>
  The challenge transitions (\<open>src/runtime/challenges/src/lib.rs\<close> and \<open>transition.rs\<close>): the
  active run, the last result and the first-completion records of a character, their
  validation, and the commands that start, retry, confirm and end runs. The lemmas show that
  an accepted command always leads to a valid state, and what the records hold after any
  history of commands.
\<close>

section \<open>State\<close>

record challenge_run =
  run_id :: u64
  run_rules :: rules
  run_equipment :: equipment
  objectives :: u8
  elapsed_ms :: "u64 option"

datatype challenge_outcome = Completed | Abandoned | Defeated | Interrupted

record attempt_result =
  result_run :: challenge_run
  result_outcome :: challenge_outcome

record challenge_state =
  challenge_revision :: u64
  active :: "challenge_run option"
  last_result :: "attempt_result option"
  records :: "challenge_run list"

definition sequential_contracts :: "contract_id list" where
  "sequential_contracts = [CoolantRecovery, LastReserve, RelayGauntlet]"

definition validate_run :: "u64 \<Rightarrow> bool \<Rightarrow> challenge_run \<Rightarrow> challenge_error + unit" where
  "validate_run revision completed r =
    (let c = contract (run_rules r); mask = complete_mask c;
         timed = time_goal_ms (preset (run_rules r)) c \<noteq> None in
     if run_id r = 0 \<or>
        run_id r > revision \<or>
        count_ones (objectives r) > unat (revision - run_id r) \<or>
        rules_with_preset c (preset (run_rules r)) \<noteq> Inr (run_rules r) \<or>
        objectives r AND NOT mask \<noteq> 0 \<or>
        (case elapsed_ms r of None \<Rightarrow> False | Some t \<Rightarrow> t > max_challenge_revision) \<or>
        (elapsed_ms r \<noteq> None) \<noteq> (completed \<and> timed) \<or>
        (objectives r = mask) \<noteq> completed \<or>
        (c \<in> set sequential_contracts \<and> objectives r \<notin> set [0, 1, 3, 7]) \<or>
        (c = MeridianCircuit \<and> objectives r AND 8 \<noteq> 0 \<and> \<not> completed)
     then Inl InvalidState
     else
       and_then (validate_equipment (run_equipment r)) (\<lambda>_.
       if c = DistantSignal then and_then (signal_profile (run_equipment r)) (\<lambda>_. Inr ())
       else Inr ()))"

definition supports_policy :: "string \<Rightarrow> challenge_state \<Rightarrow> bool" where
  "supports_policy policy s \<longleftrightarrow>
     policy \<in> set [initial_policy, expanded_policy, elite_policy, prism_policy, signal_policy,
       survival_policy, gauntlet_policy, modifier_policy] \<and>
     (case active s of None \<Rightarrow> True | Some r \<Rightarrow> rules_available_in (run_rules r) policy) \<and>
     (case last_result s of None \<Rightarrow> True
      | Some res \<Rightarrow> rules_available_in (run_rules (result_run res)) policy) \<and>
     list_all (\<lambda>r. rules_available_in (run_rules r) policy) (records s)"

text \<open>The loop over the records: \<open>seen\<close> are the records before the current one.\<close>

fun validate_records ::
  "challenge_state \<Rightarrow> challenge_run list \<Rightarrow> challenge_run list \<Rightarrow> challenge_error + unit" where
  "validate_records s seen [] = Inr ()"
| "validate_records s seen (r # rs) =
     and_then (validate_run (challenge_revision s) True r) (\<lambda>_.
     if list_ex (\<lambda>x. run_rules x = run_rules r \<or> run_id x = run_id r) seen \<or>
        (case active s of None \<Rightarrow> False | Some x \<Rightarrow> run_id x \<le> run_id r) \<or>
        (case last_result s of None \<Rightarrow> True | Some res \<Rightarrow> run_id (result_run res) < run_id r) \<or>
        (case last_result s of None \<Rightarrow> False
         | Some res \<Rightarrow> run_id (result_run res) = run_id r \<and> result_run res \<noteq> r)
     then Inl InvalidState
     else validate_records s (seen @ [r]) rs)"

definition validate_last :: "challenge_state \<Rightarrow> attempt_result \<Rightarrow> challenge_error + unit" where
  "validate_last s res =
     and_then (validate_run (challenge_revision s) (result_outcome res = Completed) (result_run res)) (\<lambda>_.
     if (case active s of None \<Rightarrow> False | Some r \<Rightarrow> run_id r \<le> run_id (result_run res)) \<or>
        (result_outcome res = Completed \<and>
         \<not> list_ex (\<lambda>r. run_rules r = run_rules (result_run res)) (records s))
     then Inl InvalidState else Inr ())"

definition validate_challenges :: "challenge_state \<Rightarrow> challenge_error + unit" where
  "validate_challenges s =
    (if challenge_revision s > max_challenge_revision \<or> length (records s) > 16 \<or>
        (challenge_revision s > 0 \<and> active s = None \<and> last_result s = None)
     then Inl InvalidState
     else
       and_then (case active s of None \<Rightarrow> Inr ()
                 | Some r \<Rightarrow> validate_run (challenge_revision s) False r) (\<lambda>_.
       and_then (case last_result s of None \<Rightarrow> Inr () | Some res \<Rightarrow> validate_last s res) (\<lambda>_.
       validate_records s [] (records s))))"

section \<open>Commands\<close>

datatype end_reason = EndAbandoned | EndDefeated | EndInterrupted

fun outcome_of_reason :: "end_reason \<Rightarrow> challenge_outcome" where
  "outcome_of_reason EndAbandoned = Abandoned"
| "outcome_of_reason EndDefeated = Defeated"
| "outcome_of_reason EndInterrupted = Interrupted"

datatype challenge_command =
  Start contract_id equipment
| StartModified contract_id preset equipment
| Retry u64 equipment
| Confirm u64 objective
| ConfirmTimed u64 objective u64
| End u64 end_reason

record challenge_transition =
  next_state :: challenge_state
  first_completion :: "contract_id option"

definition start_run ::
  "contract_id \<Rightarrow> preset \<Rightarrow> equipment \<Rightarrow> challenge_state \<Rightarrow> challenge_error + challenge_state" where
  "start_run c p e s =
    (if active s \<noteq> None then Inl ActiveRun
     else
       and_then (validate_equipment e) (\<lambda>_.
       and_then (if c = DistantSignal then and_then (signal_profile e) (\<lambda>_. Inr ()) else Inr ()) (\<lambda>_.
       and_then (rules_with_preset c p) (\<lambda>r.
       Inr (s\<lparr> active := Some \<lparr> run_id = challenge_revision s, run_rules = r, run_equipment = e,
                                 objectives = 0, elapsed_ms = None \<rparr> \<rparr>)))))"

definition end_run ::
  "u64 \<Rightarrow> challenge_outcome \<Rightarrow> challenge_state \<Rightarrow> challenge_error + challenge_state" where
  "end_run i out s =
    (case active s of
       None \<Rightarrow> Inl WrongRun
     | Some r \<Rightarrow>
         if run_id r \<noteq> i then Inl WrongRun
         else Inr (s\<lparr> active := None,
                      last_result := Some \<lparr> result_run = r, result_outcome = out \<rparr> \<rparr>))"

text \<open>\<open>if let Some(record) = records.iter_mut().find(..)\<close>: the first record of the same rules is
  replaced when the new time is better; without one the run is appended.\<close>

fun improve_record :: "challenge_run \<Rightarrow> challenge_run list \<Rightarrow> challenge_run list" where
  "improve_record run [] = []"
| "improve_record run (r # rs) =
    (if run_rules r = run_rules run
     then (case (elapsed_ms run, elapsed_ms r) of
             (Some new, Some old) \<Rightarrow> if new < old then run # rs else r # rs
           | _ \<Rightarrow> r # rs)
     else r # improve_record run rs)"

definition record_completion ::
  "challenge_run \<Rightarrow> challenge_state \<Rightarrow> challenge_state \<times> contract_id option" where
  "record_completion run s =
    (if list_ex (\<lambda>r. run_rules r = run_rules run) (records s)
     then (s\<lparr> records := improve_record run (records s) \<rparr>, None)
     else (s\<lparr> records := records s @ [run] \<rparr>, Some (contract (run_rules run))))"

definition confirm_objective ::
  "u64 \<Rightarrow> objective \<Rightarrow> u64 option \<Rightarrow> challenge_state \<Rightarrow>
     challenge_error + challenge_state \<times> contract_id option" where
  "confirm_objective i ob elapsed s =
    (case active s of
       None \<Rightarrow> Inl WrongRun
     | Some run \<Rightarrow>
         if run_id run \<noteq> i then Inl WrongRun
         else
           and_then (ok_or WrongObjective (objective_bit (run_rules run) ob)) (\<lambda>b.
           if objectives run AND b \<noteq> 0 \<or>
              (ob = VisitReturned \<and> objectives run \<noteq> 7) \<or>
              (contract (run_rules run) \<in> set sequential_contracts \<and> objectives run \<noteq> b - 1)
           then Inl WrongObjective
           else
             let complete = (objectives run OR b = complete_mask (contract (run_rules run))) in
             if (elapsed \<noteq> None) \<noteq>
                (complete \<and>
                 time_goal_ms (preset (run_rules run)) (contract (run_rules run)) \<noteq> None)
             then Inl WrongObjective
             else
               let run' = run\<lparr> objectives := objectives run OR b, elapsed_ms := elapsed \<rparr>;
                   s' = s\<lparr> active := Some run' \<rparr> in
               if complete
               then (case record_completion run' s' of (s'', first) \<Rightarrow>
                       and_then (end_run i Completed s'') (\<lambda>s3. Inr (s3, first)))
               else Inr (s', None)))"

definition previous_run :: "u64 \<Rightarrow> challenge_state \<Rightarrow> challenge_run option" where
  "previous_run i s =
    (case (case active s of Some r \<Rightarrow> Some r | None \<Rightarrow> map_option result_run (last_result s)) of
       None \<Rightarrow> None
     | Some r \<Rightarrow> if run_id r = i then Some r else None)"

definition retry_run :: "u64 \<Rightarrow> equipment \<Rightarrow> challenge_state \<Rightarrow> challenge_error + challenge_state" where
  "retry_run i e s =
     and_then (ok_or WrongRun (previous_run i s)) (\<lambda>r.
     and_then (if active s \<noteq> None then end_run i Interrupted s else Inr s) (\<lambda>s'.
     start_run (contract (run_rules r)) (preset (run_rules r)) e s'))"

definition run_command ::
  "string \<Rightarrow> challenge_command \<Rightarrow> challenge_state \<Rightarrow>
     challenge_error + challenge_state \<times> contract_id option" where
  "run_command policy cmd s =
    (case cmd of
       Start c e \<Rightarrow>
         if \<not> contract_available_in c policy then Inl UnsupportedRevision
         else and_then (start_run c Baseline e s) (\<lambda>s'. Inr (s', None))
     | StartModified c p e \<Rightarrow>
         if policy \<noteq> modifier_policy then Inl UnsupportedRevision
         else if is_baseline p then Inl InvalidModifiers
         else and_then (start_run c p e s) (\<lambda>s'. Inr (s', None))
     | Retry i e \<Rightarrow> and_then (retry_run i e s) (\<lambda>s'. Inr (s', None))
     | Confirm i ob \<Rightarrow> confirm_objective i ob None s
     | ConfirmTimed i ob t \<Rightarrow> confirm_objective i ob (Some t) s
     | End i reason \<Rightarrow> and_then (end_run i (outcome_of_reason reason) s) (\<lambda>s'. Inr (s', None)))"

definition apply_command ::
  "string \<Rightarrow> challenge_state \<Rightarrow> u64 \<Rightarrow> challenge_command \<Rightarrow> challenge_error + challenge_transition" where
  "apply_command policy s expected cmd =
    (if policy \<notin> set [initial_policy, expanded_policy, elite_policy, prism_policy, signal_policy,
         survival_policy, gauntlet_policy, modifier_policy] \<or> \<not> supports_policy policy s
     then Inl UnsupportedRevision
     else
       and_then (validate_challenges s) (\<lambda>_.
       if challenge_revision s \<noteq> expected then Inl StaleRevision
       else
         and_then (ok_or RevisionOverflow
           (case checked_add (challenge_revision s) 1 of
              None \<Rightarrow> None | Some r \<Rightarrow> if r \<le> max_challenge_revision then Some r else None)) (\<lambda>r.
         and_then (run_command policy cmd (s\<lparr> challenge_revision := r \<rparr>)) (\<lambda>(s', first).
         and_then (validate_challenges s') (\<lambda>_.
         Inr \<lparr> next_state = s', first_completion = first \<rparr>)))))"

section \<open>Valid runs\<close>

text \<open>The masks of a run that is still open, contract by contract.\<close>

fun open_masks :: "contract_id \<Rightarrow> u8 set" where
  "open_masks CloseQuarters = {0, 1, 2}"
| "open_masks BastionLink = {0, 1, 2}"
| "open_masks MeridianCircuit = {0, 1, 2, 3, 4, 5, 6, 7}"
| "open_masks CoolantRecovery = {0, 1, 3}"
| "open_masks LastReserve = {0, 1, 3}"
| "open_masks RelayGauntlet = {0, 1, 3}"
| "open_masks PrismDiscipline = {0}"
| "open_masks DistantSignal = {0}"

fun contract_bits :: "contract_id \<Rightarrow> u8 set" where
  "contract_bits CloseQuarters = {1, 2}"
| "contract_bits BastionLink = {1, 2}"
| "contract_bits MeridianCircuit = {1, 2, 4, 8}"
| "contract_bits CoolantRecovery = {1, 2, 4}"
| "contract_bits LastReserve = {1, 2, 4}"
| "contract_bits RelayGauntlet = {1, 2, 4}"
| "contract_bits PrismDiscipline = {1}"
| "contract_bits DistantSignal = {1}"

lemma objective_bit_bits:
  "objective_bit r ob = Some b \<Longrightarrow> b \<in> contract_bits (contract r) \<and>
     (contract r = MeridianCircuit \<and> b = 8 \<longrightarrow> ob = VisitReturned)"
  by (cases "contract r") (auto simp: objective_bit_def contract_bit_def split: if_splits)

definition timed_rules :: "rules \<Rightarrow> bool" where
  "timed_rules r \<longleftrightarrow> time_goal_ms (preset r) (contract r) \<noteq> None"

lemma masked_le: "m AND NOT k = 0 \<Longrightarrow> m \<le> k" for m k :: u8
proof -
  assume "m AND NOT k = 0"
  then have "m = m AND k"
    by (metis bit.conj_cancel_right bit.conj_disj_distrib bit.disj_zero_right and.right_neutral bit.disj_cancel_right)
  then show "m \<le> k" by (metis word_and_le1)
qed

lemma below_16: "m \<le> 15 \<Longrightarrow> m \<in> {0, 1, 2, 3, 4, 5, 6, 7, 8, 9, 10, 11, 12, 13, 14, 15}"
  for m :: u8
proof -
  assume "m \<le> 15"
  then have "unat m \<le> 15" by (simp add: word_le_nat_alt)
  then have "unat m = 0 \<or> unat m = 1 \<or> unat m = 2 \<or> unat m = 3 \<or> unat m = 4 \<or> unat m = 5 \<or>
      unat m = 6 \<or> unat m = 7 \<or> unat m = 8 \<or> unat m = 9 \<or> unat m = 10 \<or> unat m = 11 \<or>
      unat m = 12 \<or> unat m = 13 \<or> unat m = 14 \<or> unat m = 15" by presburger
  then show ?thesis by (simp add: word_unat_eq_iff)
qed

lemma open_masks_exact:
  "m AND NOT (complete_mask c) = 0 \<and> m \<noteq> complete_mask c \<and>
     (c \<in> set sequential_contracts \<longrightarrow> m \<in> {0, 1, 3, 7}) \<and> (c = MeridianCircuit \<longrightarrow> m AND 8 = 0)
   \<longleftrightarrow> m \<in> open_masks c"
  (is "?l \<longleftrightarrow> ?r")
proof
  assume l: ?l
  have "complete_mask c \<le> 15" by (cases c) simp_all
  moreover have "m \<le> complete_mask c" using l masked_le by blast
  ultimately have "m \<in> {0, 1, 2, 3, 4, 5, 6, 7, 8, 9, 10, 11, 12, 13, 14, 15}"
    by (intro below_16) (rule order_trans)
  with l show ?r
    by (cases c) (elim insertE emptyE; simp add: sequential_contracts_def)+
next
  assume ?r
  then show ?l by (cases c) (auto simp: sequential_contracts_def)
qed

lemma count_ones_values [simp]:
  "count_ones (0 :: u8) = 0" "count_ones (1 :: u8) = 1" "count_ones (2 :: u8) = 1"
  "count_ones (3 :: u8) = 2" "count_ones (4 :: u8) = 1" "count_ones (5 :: u8) = 2"
  "count_ones (6 :: u8) = 2" "count_ones (7 :: u8) = 3" "count_ones (8 :: u8) = 1"
  "count_ones (15 :: u8) = 4"
  by (simp_all add: count_ones_def upt_rec)

lemma complete_mask_closed:
  "complete_mask c AND NOT (complete_mask c) = 0"
  "c \<in> set sequential_contracts \<Longrightarrow> complete_mask c = 7"
  "complete_mask c \<notin> open_masks c"
  by (cases c; simp add: sequential_contracts_def)+

lemma confirm_mask:
  assumes "m \<in> open_masks c" and "b \<in> contract_bits c" and "m AND b = 0"
    and "c \<in> set sequential_contracts \<Longrightarrow> m = b - 1" and "c = MeridianCircuit \<Longrightarrow> b = 8 \<Longrightarrow> m = 7"
  shows "m OR b = complete_mask c \<or> m OR b \<in> open_masks c"
    and "count_ones (m OR b) = count_ones m + 1"
  using assms by (cases c; simp add: sequential_contracts_def; elim disjE; simp)+

definition run_base :: "u64 \<Rightarrow> challenge_run \<Rightarrow> bool" where
  "run_base n r \<longleftrightarrow>
     run_id r \<noteq> 0 \<and> run_id r \<le> n \<and>
     unat (run_id r) + count_ones (objectives r) \<le> unat n \<and>
     rules_with_preset (contract (run_rules r)) (preset (run_rules r)) = Inr (run_rules r) \<and>
     validate_equipment (run_equipment r) = Inr () \<and>
     (contract (run_rules r) = DistantSignal \<longrightarrow> (\<exists>p. signal_profile (run_equipment r) = Inr p))"

definition run_open :: "challenge_run \<Rightarrow> bool" where
  "run_open r \<longleftrightarrow> objectives r \<in> open_masks (contract (run_rules r)) \<and> elapsed_ms r = None"

definition run_done :: "challenge_run \<Rightarrow> bool" where
  "run_done r \<longleftrightarrow>
     objectives r = complete_mask (contract (run_rules r)) \<and>
     (case elapsed_ms r of None \<Rightarrow> \<not> timed_rules (run_rules r)
      | Some t \<Rightarrow> timed_rules (run_rules r) \<and> t \<le> max_challenge_revision)"

lemma validate_run_exact:
  "validate_run n completed r = Inr () \<longleftrightarrow>
     run_base n r \<and> (if completed then run_done r else run_open r)"
proof -
  let ?c = "contract (run_rules r)" and ?m = "objectives r" and ?timed = "timed_rules (run_rules r)"
  let ?base = "run_id r \<noteq> 0 \<and> run_id r \<le> n \<and> \<not> count_ones ?m > unat (n - run_id r) \<and>
    rules_with_preset ?c (preset (run_rules r)) = Inr (run_rules r)"
  let ?tail = "validate_equipment (run_equipment r) = Inr () \<and>
    (?c = DistantSignal \<longrightarrow> (\<exists>p. signal_profile (run_equipment r) = Inr p))"
  let ?mask = "?m AND NOT (complete_mask ?c) = 0 \<and> (?m = complete_mask ?c) = completed \<and>
    (?c \<in> set sequential_contracts \<longrightarrow> ?m \<in> {0, 1, 3, 7}) \<and> (?c = MeridianCircuit \<and> ?m AND 8 \<noteq> 0 \<longrightarrow> completed)"
  let ?time = "(case elapsed_ms r of None \<Rightarrow> True | Some t \<Rightarrow> t \<le> max_challenge_revision) \<and>
    (elapsed_ms r \<noteq> None) = (completed \<and> ?timed)"
  have "validate_run n completed r = Inr () \<longleftrightarrow> ?base \<and> ?mask \<and> ?time \<and> ?tail"
    unfolding validate_run_def Let_def timed_rules_def
    by (cases "elapsed_ms r"; cases "signal_profile (run_equipment r)"; cases "validate_equipment (run_equipment r)")
      (auto simp: not_less)
  moreover have "?base \<and> ?tail \<longleftrightarrow> run_base n r"
    by (auto simp: run_base_def unat_sub word_le_nat_alt)
  moreover have "?mask \<and> ?time \<longleftrightarrow> (if completed then run_done r else run_open r)"
  proof (cases completed)
    case True
    then show ?thesis
      using complete_mask_closed [of ?c] by (cases "elapsed_ms r") (auto simp: run_done_def)
  next
    case False
    then show ?thesis
      using open_masks_exact [of ?m ?c] by (cases "elapsed_ms r") (auto simp: run_open_def)
  qed
  ultimately show ?thesis by blast
qed

section \<open>Valid states\<close>

text \<open>Where a record stands among the attempts.\<close>

definition record_fits :: "challenge_state \<Rightarrow> challenge_run \<Rightarrow> bool" where
  "record_fits s r \<longleftrightarrow>
     (\<forall>a. active s = Some a \<longrightarrow> run_id r < run_id a) \<and>
     (\<exists>res. last_result s = Some res \<and> run_id r \<le> run_id (result_run res) \<and>
        (run_id r = run_id (result_run res) \<longrightarrow> result_run res = r))"

definition records_ok :: "challenge_state \<Rightarrow> bool" where
  "records_ok s \<longleftrightarrow>
     distinct (map run_rules (records s)) \<and> distinct (map run_id (records s)) \<and>
     (\<forall>r \<in> set (records s). record_fits s r)"

definition runs_ok :: "u64 \<Rightarrow> challenge_state \<Rightarrow> bool" where
  "runs_ok n s \<longleftrightarrow>
     (\<forall>r. active s = Some r \<longrightarrow> run_base n r \<and> run_open r) \<and>
     (\<forall>res. last_result s = Some res \<longrightarrow>
        run_base n (result_run res) \<and>
        (if result_outcome res = Completed
         then run_done (result_run res) \<and> (\<exists>x \<in> set (records s). run_rules x = run_rules (result_run res))
         else run_open (result_run res)) \<and>
        (\<forall>r. active s = Some r \<longrightarrow> run_id (result_run res) < run_id r)) \<and>
     (\<forall>r \<in> set (records s). run_base n r \<and> run_done r)"

definition challenge_ok :: "challenge_state \<Rightarrow> bool" where
  "challenge_ok s \<longleftrightarrow>
     challenge_revision s \<le> max_challenge_revision \<and>
     (challenge_revision s = 0 \<or> active s \<noteq> None \<or> last_result s \<noteq> None) \<and>
     runs_ok (challenge_revision s) s \<and> records_ok s"

lemma validate_records_exact:
  "validate_records s seen rs = Inr () \<longleftrightarrow>
     (\<forall>r \<in> set rs. validate_run (challenge_revision s) True r = Inr () \<and> record_fits s r) \<and>
     distinct (map run_rules rs) \<and> distinct (map run_id rs) \<and>
     run_rules ` set seen \<inter> run_rules ` set rs = {} \<and> run_id ` set seen \<inter> run_id ` set rs = {}"
proof (induction rs arbitrary: seen)
  case (Cons r rs)
  let ?misplaced = "(case active s of None \<Rightarrow> False | Some x \<Rightarrow> run_id x \<le> run_id r) \<or>
      (case last_result s of None \<Rightarrow> True | Some res \<Rightarrow> run_id (result_run res) < run_id r) \<or>
      (case last_result s of None \<Rightarrow> False
       | Some res \<Rightarrow> run_id (result_run res) = run_id r \<and> result_run res \<noteq> r)"
  have fits: "?misplaced = (\<not> record_fits s r)"
    by (cases "active s"; cases "last_result s") (auto simp: record_fits_def)
  have "validate_records s seen (r # rs) = Inr () \<longleftrightarrow>
      validate_run (challenge_revision s) True r = Inr () \<and> record_fits s r \<and>
      \<not> list_ex (\<lambda>x. run_rules x = run_rules r \<or> run_id x = run_id r) seen \<and>
      validate_records s (seen @ [r]) rs = Inr ()"
    unfolding validate_records.simps(2) fits
    by (cases "validate_run (challenge_revision s) True r") auto
  also have "\<not> list_ex (\<lambda>x. run_rules x = run_rules r \<or> run_id x = run_id r) seen \<longleftrightarrow>
      run_rules r \<notin> run_rules ` set seen \<and> run_id r \<notin> run_id ` set seen"
    by (simp add: list_ex_iff image_iff) metis
  finally show ?case unfolding Cons.IH by auto
qed simp

lemma validate_challenges_exact: "validate_challenges s = Inr () \<longleftrightarrow> challenge_ok s"
proof -
  have zero: "(challenge_revision s > 0) = (challenge_revision s \<noteq> 0)" by (simp add: word_greater_zero_iff)
  have last: "validate_last s res = Inr () \<longleftrightarrow>
      run_base (challenge_revision s) (result_run res) \<and>
      (if result_outcome res = Completed
       then run_done (result_run res) \<and> (\<exists>x \<in> set (records s). run_rules x = run_rules (result_run res))
       else run_open (result_run res)) \<and>
      (\<forall>r. active s = Some r \<longrightarrow> run_id (result_run res) < run_id r)" for res
    using validate_run_exact [of "challenge_revision s" "result_outcome res = Completed" "result_run res"]
    by (cases "validate_run (challenge_revision s) (result_outcome res = Completed) (result_run res)")
      (auto simp: validate_last_def list_ex_iff not_le split: option.splits)
  have bound: "length (records s) \<le> 16"
    if "validate_records s [] (records s) = Inr ()"
    using that distinct_rules_bound [of "map run_rules (records s)"]
    by (auto simp: validate_records_exact validate_run_exact run_base_def)
  have split: "(case x of None \<Rightarrow> Inr () | Some r \<Rightarrow> f r) = (Inr () :: challenge_error + unit) \<longleftrightarrow>
      (\<forall>r. x = Some r \<longrightarrow> f r = Inr ())" for x and f :: "'x \<Rightarrow> challenge_error + unit"
    by (cases x) auto
  have and_unit: "and_then p (\<lambda>_. q) = Inr () \<longleftrightarrow> p = Inr () \<and> q = Inr ()" for p q :: "challenge_error + unit"
    by (cases p) auto
  have "validate_challenges s = Inr () \<longleftrightarrow>
      challenge_revision s \<le> max_challenge_revision \<and> length (records s) \<le> 16 \<and>
      (challenge_revision s = 0 \<or> active s \<noteq> None \<or> last_result s \<noteq> None) \<and>
      (\<forall>r. active s = Some r \<longrightarrow> validate_run (challenge_revision s) False r = Inr ()) \<and>
      (\<forall>res. last_result s = Some res \<longrightarrow> validate_last s res = Inr ()) \<and>
      validate_records s [] (records s) = Inr ()"
    unfolding validate_challenges_def zero by (auto simp: and_unit split not_less)
  then show ?thesis
    using bound
    by (auto simp: challenge_ok_def runs_ok_def records_ok_def last validate_records_exact validate_run_exact)
qed

section \<open>Commands keep the state valid\<close>

lemma run_base_mono: "run_base n r \<Longrightarrow> n \<le> m \<Longrightarrow> run_base m r"
  by (auto simp: run_base_def word_le_nat_alt)

lemma start_run_Inr:
  assumes "start_run c p e s = Inr s'"
  obtains r where "active s = None" "validate_equipment e = Inr ()" "rules_with_preset c p = Inr r"
    "c = DistantSignal \<longrightarrow> (\<exists>q. signal_profile e = Inr q)"
    "s' = s\<lparr> active := Some \<lparr> run_id = challenge_revision s, run_rules = r, run_equipment = e,
       objectives = 0, elapsed_ms = None \<rparr> \<rparr>"
  using assms
  by (cases "validate_equipment e"; cases "signal_profile e")
    (auto simp: start_run_def and_then_Inr split: if_splits)

lemma rules_with_preset_fields:
  "rules_with_preset c p = Inr r \<Longrightarrow> contract r = c \<and> preset r = p"
  by (auto simp: rules_with_preset_def contract_rules_def is_baseline_def split: if_splits)

lemma zero_open: "0 \<in> open_masks c"
  by (cases c) simp_all

lemma start_keeps:
  assumes s: "runs_ok n s" "records_ok s" and n: "n < challenge_revision s"
    and start: "start_run c p e s = Inr s'"
  shows "runs_ok (challenge_revision s) s' \<and> records_ok s' \<and> active s' \<noteq> None"
proof -
  obtain r where r: "active s = None" "validate_equipment e = Inr ()" "rules_with_preset c p = Inr r"
      "c = DistantSignal \<longrightarrow> (\<exists>q. signal_profile e = Inr q)"
      "s' = s\<lparr> active := Some \<lparr> run_id = challenge_revision s, run_rules = r, run_equipment = e,
         objectives = 0, elapsed_ms = None \<rparr> \<rparr>"
    by (rule start_run_Inr [OF start])
  have "contract r = c" "preset r = p" using rules_with_preset_fields [OF r(3)] by simp_all
  moreover have "challenge_revision s \<noteq> 0" using n by auto
  moreover have old: "run_base n x \<Longrightarrow> run_id x < challenge_revision s" for x
    using n by (auto simp: run_base_def)
  ultimately show ?thesis
    using s r n run_base_mono [of n _ "challenge_revision s"] zero_open [of c]
    by (auto simp: runs_ok_def records_ok_def record_fits_def r(5) run_base_def [of "challenge_revision s"] run_open_def
        dest!: old)
qed

lemma end_run_Inr:
  "end_run i out s = Inr s' \<longleftrightarrow>
     (\<exists>r. active s = Some r \<and> run_id r = i \<and>
       s' = s\<lparr> active := None, last_result := Some \<lparr> result_run = r, result_outcome = out \<rparr> \<rparr>)"
  by (auto simp: end_run_def split: option.splits)

lemma end_keeps:
  assumes "runs_ok n s" "records_ok s" "out \<noteq> Completed" "end_run i out s = Inr s'"
  shows "runs_ok n s' \<and> records_ok s' \<and> last_result s' \<noteq> None"
proof -
  obtain r where r: "active s = Some r"
      "s' = s\<lparr> active := None, last_result := Some \<lparr> result_run = r, result_outcome = out \<rparr> \<rparr>"
    using assms(4) by (auto simp: end_run_Inr)
  have "\<forall>x \<in> set (records s). run_id x < run_id r"
    using assms(2) r(1) by (auto simp: records_ok_def record_fits_def)
  then have "records_ok s'" using assms(2) r by (fastforce simp: records_ok_def record_fits_def)
  moreover have "runs_ok n s'" using assms(1,3) r by (simp add: runs_ok_def)
  ultimately show ?thesis using r by simp
qed

lemma improve_record_rules [simp]: "map run_rules (improve_record run rs) = map run_rules rs"
  by (induction rs) (auto split: option.split)

lemma improve_record_set: "set (improve_record run rs) \<subseteq> insert run (set rs)"
  by (induction rs) (auto split: option.splits if_splits)

lemma improve_record_ids:
  "distinct (map run_id rs) \<Longrightarrow> run_id run \<notin> run_id ` set rs \<Longrightarrow>
     distinct (map run_id (improve_record run rs))"
proof (induction rs)
  case (Cons r rs)
  have "run_id r \<notin> run_id ` set (improve_record run rs)"
    using Cons.prems improve_record_set [of run rs] by auto
  with Cons show ?case by (auto split: option.splits)
qed simp

lemma record_completion_cases:
  assumes "record_completion run s = (s', first)"
  obtains (improved) "run_rules run \<in> run_rules ` set (records s)"
      "s' = s\<lparr> records := improve_record run (records s) \<rparr>" "first = None"
  | (added) "run_rules run \<notin> run_rules ` set (records s)"
      "s' = s\<lparr> records := records s @ [run] \<rparr>" "first = Some (contract (run_rules run))"
proof -
  have "list_ex (\<lambda>r. run_rules r = run_rules run) (records s) = (run_rules run \<in> run_rules ` set (records s))"
    by (simp add: list_ex_iff image_iff) metis
  with assms that show thesis by (auto simp: record_completion_def split: if_splits)
qed

lemma record_completion_keeps:
  assumes "record_completion run s = (s', first)" and "records_ok s" and "active s = Some run'"
    and "run_id run = run_id run'"
  shows "distinct (map run_rules (records s'))" and "distinct (map run_id (records s'))"
    and "run_rules run \<in> run_rules ` set (records s')"
    and "set (records s') \<subseteq> insert run (set (records s))"
    and "s' = s\<lparr> records := records s' \<rparr>"
proof -
  have fresh: "run_id run \<notin> run_id ` set (records s)"
    using assms(2-4) by (auto simp: records_ok_def record_fits_def)
  note old = assms(2) [unfolded records_ok_def]
  from assms(1) have "distinct (map run_rules (records s')) \<and> distinct (map run_id (records s')) \<and>
      run_rules run \<in> run_rules ` set (records s') \<and> set (records s') \<subseteq> insert run (set (records s)) \<and>
      s' = s\<lparr> records := records s' \<rparr>"
  proof (cases rule: record_completion_cases)
    case improved
    have "run_rules ` set (improve_record run (records s)) = run_rules ` set (records s)"
      by (metis improve_record_rules list.set_map)
    then show ?thesis
      using improved old fresh improve_record_set improve_record_ids by simp
  next
    case added
    then show ?thesis using old fresh by auto
  qed
  then show "distinct (map run_rules (records s'))" "distinct (map run_id (records s'))"
    "run_rules run \<in> run_rules ` set (records s')"
    "set (records s') \<subseteq> insert run (set (records s))" "s' = s\<lparr> records := records s' \<rparr>"
    by blast+
qed

lemma confirm_cases:
  assumes "confirm_objective i ob t s = Inr (s', first)"
  obtains (partial) r b where "active s = Some r" "run_id r = i" "objective_bit (run_rules r) ob = Some b"
      "objectives r AND b = 0" "ob = VisitReturned \<longrightarrow> objectives r = 7"
      "contract (run_rules r) \<in> set sequential_contracts \<longrightarrow> objectives r = b - 1"
      "objectives r OR b \<noteq> complete_mask (contract (run_rules r))" "t = None"
      "s' = s\<lparr> active := Some (r\<lparr> objectives := objectives r OR b, elapsed_ms := None \<rparr>) \<rparr>" "first = None"
  | (complete) r b run s2 where "active s = Some r" "run_id r = i" "objective_bit (run_rules r) ob = Some b"
      "objectives r AND b = 0" "ob = VisitReturned \<longrightarrow> objectives r = 7"
      "contract (run_rules r) \<in> set sequential_contracts \<longrightarrow> objectives r = b - 1"
      "objectives r OR b = complete_mask (contract (run_rules r))"
      "(t \<noteq> None) = timed_rules (run_rules r)"
      "run = r\<lparr> objectives := objectives r OR b, elapsed_ms := t \<rparr>"
      "record_completion run (s\<lparr> active := Some run \<rparr>) = (s2, first)"
      "s' = s2\<lparr> active := None, last_result := Some \<lparr> result_run = run, result_outcome = Completed \<rparr> \<rparr>"
proof (cases "active s")
  case None
  then show ?thesis using assms by (simp add: confirm_objective_def)
next
  case (Some r)
  then obtain b where b: "run_id r = i" "objective_bit (run_rules r) ob = Some b"
      "objectives r AND b = 0" "ob = VisitReturned \<longrightarrow> objectives r = 7"
      "contract (run_rules r) \<in> set sequential_contracts \<longrightarrow> objectives r = b - 1"
    using assms by (cases "objective_bit (run_rules r) ob") (auto simp: confirm_objective_def split: if_splits)
  let ?run = "r\<lparr> objectives := objectives r OR b, elapsed_ms := t \<rparr>"
  show ?thesis
  proof (cases "objectives r OR b = complete_mask (contract (run_rules r))")
    case False
    then show ?thesis using assms Some b partial [OF Some b]
      by (auto simp: confirm_objective_def Let_def split: if_splits)
  next
    case True
    obtain s2 f where s2: "record_completion ?run (s\<lparr> active := Some ?run \<rparr>) = (s2, f)" by fastforce
    have act: "active s2 = Some ?run" using s2 by (auto simp: record_completion_def split: if_splits)
    have "(t \<noteq> None) = timed_rules (run_rules r)" and "first = f"
      and "s' = s2\<lparr> active := None, last_result := Some \<lparr> result_run = ?run, result_outcome = Completed \<rparr> \<rparr>"
      using assms Some b True s2 act
      by (auto simp: confirm_objective_def Let_def timed_rules_def and_then_Inr end_run_Inr split: if_splits)
    then show ?thesis using complete [OF Some b True _ refl] s2 by blast
  qed
qed

lemma confirm_progress:
  fixes t :: "u64 option"
  assumes "runs_ok n s" and "active s = Some r" and "objective_bit (run_rules r) ob = Some b"
    and "objectives r AND b = 0" and "ob = VisitReturned \<longrightarrow> objectives r = 7"
    and "contract (run_rules r) \<in> set sequential_contracts \<longrightarrow> objectives r = b - 1"
    and n: "unat m = unat n + 1"
  defines "run \<equiv> r\<lparr> objectives := objectives r OR b, elapsed_ms := t \<rparr>"
  shows "run_base m run"
    and "objectives r OR b \<noteq> complete_mask (contract (run_rules r)) \<Longrightarrow> t = None \<Longrightarrow> run_open run"
    and "objectives r OR b = complete_mask (contract (run_rules r)) \<Longrightarrow>
      (t \<noteq> None) = timed_rules (run_rules r) \<Longrightarrow> (\<forall>x. t = Some x \<longrightarrow> x \<le> max_challenge_revision) \<Longrightarrow> run_done run"
proof -
  let ?c = "contract (run_rules r)"
  have base: "run_base n r" and m: "objectives r \<in> open_masks ?c"
    using assms(1,2) unfolding runs_ok_def run_open_def by blast+
  have "b \<in> contract_bits ?c" "?c = MeridianCircuit \<Longrightarrow> b = 8 \<Longrightarrow> objectives r = 7"
    using objective_bit_bits [OF assms(3)] assms(5) by blast+
  note mask = confirm_mask [OF m this(1) assms(4) mp [OF assms(6)] this(2)]
  have "run_id run = run_id r" "run_rules run = run_rules r" "run_equipment run = run_equipment r"
    and fields: "objectives run = objectives r OR b" "elapsed_ms run = t" "run_rules run = run_rules r"
    by (simp_all add: run_def)
  then show "run_base m run"
    using base n by (simp add: run_base_def mask(2) word_le_nat_alt)
  show "objectives r OR b \<noteq> complete_mask ?c \<Longrightarrow> t = None \<Longrightarrow> run_open run"
    unfolding run_open_def fields using mask(1) by blast
  show "objectives r OR b = complete_mask ?c \<Longrightarrow> (t \<noteq> None) = timed_rules (run_rules r) \<Longrightarrow>
      (\<forall>x. t = Some x \<longrightarrow> x \<le> max_challenge_revision) \<Longrightarrow> run_done run"
    unfolding run_done_def fields by (cases t) auto
qed

lemma confirm_keeps:
  assumes s: "runs_ok n s" "records_ok s" and m: "unat m = unat n + 1"
    and confirm: "confirm_objective i ob t s = Inr (s', first)"
    and time: "\<forall>x. t = Some x \<longrightarrow> x \<le> max_challenge_revision"
  shows "runs_ok m s' \<and> records_ok s' \<and> (active s' \<noteq> None \<or> last_result s' \<noteq> None)"
proof -
  have mono: "run_base n x \<Longrightarrow> run_base m x" for x
    using m by (auto intro: run_base_mono simp: word_le_nat_alt)
  from confirm show ?thesis
  proof (cases rule: confirm_cases)
    case (partial r b)
    note run = confirm_progress [OF s(1) partial(1,3-6) m, of None]
    have "records_ok s'"
      using s(2) partial(1) by (simp add: partial(9) records_ok_def record_fits_def)
    moreover have "runs_ok m s'"
      using s(1) partial(1) run(1) run(2) [OF partial(7) refl] mono
      by (auto simp: partial(9) runs_ok_def)
    ultimately show ?thesis by (simp add: partial(9))
  next
    case (complete r b run s2)
    note fits = confirm_progress [OF s(1) complete(1,3-6) m, of t, folded complete(9)]
    have finished: "run_base m run" "run_done run"
      using fits(1,3) complete(7,8) time by simp_all
    have pre: "records_ok (s\<lparr> active := Some run \<rparr>)" "run_id run = run_id r"
      using s(2) complete(1) by (simp_all add: complete(9) records_ok_def record_fits_def)
    have "active (s\<lparr> active := Some run \<rparr>) = Some run" by simp
    note recs = record_completion_keeps [OF complete(10) pre(1) this refl]
    have sub: "set (records s2) \<subseteq> insert run (set (records s))" using recs(4) by simp
    have before: "\<forall>x \<in> set (records s). run_id x < run_id run"
      using s(2) complete(1) pre(2) by (auto simp: records_ok_def record_fits_def)
    have fields: "records s' = records s2" "active s' = None"
      "last_result s' = Some \<lparr> result_run = run, result_outcome = Completed \<rparr>"
      by (simp_all add: complete(11))
    have "\<forall>x \<in> set (records s2). x = run \<or> run_id x < run_id run" using sub before by blast
    then have "\<forall>x \<in> set (records s2). run_id x \<le> run_id run \<and> (run_id x = run_id run \<longrightarrow> run = x)"
      by fastforce
    then have "records_ok s'"
      unfolding records_ok_def record_fits_def fields using recs(1,2) by simp
    moreover have "runs_ok m s'"
      unfolding runs_ok_def fields using recs(3) sub finished s(1) mono by (auto simp: runs_ok_def)
    ultimately show ?thesis by (simp add: fields)
  qed
qed

text \<open>A command within the time bound: only \<open>ConfirmTimed\<close> carries a time.\<close>

definition timely :: "challenge_command \<Rightarrow> bool" where
  "timely cmd \<longleftrightarrow> (case cmd of ConfirmTimed _ _ t \<Rightarrow> t \<le> max_challenge_revision | _ \<Rightarrow> True)"

lemma retry_run_Inr:
  assumes "retry_run i e s = Inr s'"
  obtains r s1 where "previous_run i s = Some r"
    "if active s = None then s1 = s else end_run i Interrupted s = Inr s1"
    "start_run (contract (run_rules r)) (preset (run_rules r)) e s1 = Inr s'"
  using assms by (cases "active s") (auto simp: retry_run_def and_then_Inr ok_or_Inr)

lemma command_revision:
  "run_command policy cmd s = Inr (s', first) \<Longrightarrow> challenge_revision s' = challenge_revision s"
proof -
  have starts: "start_run c p e x = Inr y \<Longrightarrow> challenge_revision y = challenge_revision x" for c p e x y
    by (erule start_run_Inr) simp
  have ends: "end_run i out x = Inr y \<Longrightarrow> challenge_revision y = challenge_revision x" for i out x y
    by (auto simp: end_run_Inr)
  have recs: "record_completion run x = (y, f) \<Longrightarrow> challenge_revision y = challenge_revision x" for run x y f
    by (auto simp: record_completion_def split: if_splits)
  have confirms: "confirm_objective i ob t x = Inr (y, f) \<Longrightarrow> challenge_revision y = challenge_revision x" for i ob t x y f
    by (erule confirm_cases) (auto dest: recs)
  have retries: "retry_run i e x = Inr y \<Longrightarrow> challenge_revision y = challenge_revision x" for i e x y
    by (erule retry_run_Inr) (auto dest!: starts ends split: if_splits)
  show "run_command policy cmd s = Inr (s', first) \<Longrightarrow> ?thesis"
    by (auto simp: run_command_def and_then_Inr split: challenge_command.splits if_splits
        dest: starts ends confirms retries)
qed

lemma command_keeps:
  assumes ok: "challenge_ok s" and m: "unat m = unat (challenge_revision s) + 1" "m \<le> max_challenge_revision"
    and cmd: "run_command policy cmd (s\<lparr> challenge_revision := m \<rparr>) = Inr (s', first)" and "timely cmd"
  shows "challenge_ok s'"
proof -
  let ?n = "challenge_revision s" and ?s = "s\<lparr> challenge_revision := m \<rparr>"
  have s: "runs_ok ?n ?s" "records_ok ?s"
    using ok by (auto simp: challenge_ok_def runs_ok_def records_ok_def record_fits_def)
  have less: "?n < m" using m(1) by (simp add: word_less_nat_alt)
  have mono: "runs_ok ?n x \<Longrightarrow> runs_ok m x" for x
    using run_base_mono [of ?n _ m] less by (auto simp: runs_ok_def)
  have "runs_ok m s' \<and> records_ok s' \<and> (active s' \<noteq> None \<or> last_result s' \<noteq> None)"
  proof (cases cmd)
    case (Start c e)
    then obtain "start_run c Baseline e ?s = Inr s'"
      using cmd by (auto simp: run_command_def and_then_Inr split: if_splits)
    then show ?thesis using start_keeps [OF s] less by auto
  next
    case (StartModified c p e)
    then obtain "start_run c p e ?s = Inr s'"
      using cmd by (auto simp: run_command_def and_then_Inr split: if_splits)
    then show ?thesis using start_keeps [OF s] less by auto
  next
    case (Retry i e)
    then have "retry_run i e ?s = Inr s'" using cmd by (auto simp: run_command_def and_then_Inr)
    then obtain r s1 where "previous_run i ?s = Some r"
        and s1: "if active ?s = None then s1 = ?s else end_run i Interrupted ?s = Inr s1"
        and start: "start_run (contract (run_rules r)) (preset (run_rules r)) e s1 = Inr s'"
      by (rule retry_run_Inr)
    have "runs_ok ?n s1 \<and> records_ok s1 \<and> challenge_revision s1 = m"
      using s1 s end_keeps [OF s] by (auto simp: end_run_Inr split: if_splits)
    then show ?thesis using start_keeps [OF _ _ _ start] less by auto
  next
    case (Confirm i ob)
    then have "confirm_objective i ob None ?s = Inr (s', first)" using cmd by (simp add: run_command_def)
    then show ?thesis using confirm_keeps [OF s m(1)] by simp
  next
    case (ConfirmTimed i ob t)
    then have "confirm_objective i ob (Some t) ?s = Inr (s', first)" using cmd by (simp add: run_command_def)
    then show ?thesis using confirm_keeps [OF s m(1)] ConfirmTimed assms(5) by (simp add: timely_def)
  next
    case (End i reason)
    then have "end_run i (outcome_of_reason reason) ?s = Inr s'" using cmd by (auto simp: run_command_def and_then_Inr)
    moreover have "outcome_of_reason reason \<noteq> Completed" by (cases reason) simp_all
    ultimately show ?thesis using end_keeps [OF s] mono by blast
  qed
  then show ?thesis using command_revision [OF cmd] m(2) by (auto simp: challenge_ok_def)
qed

lemma challenge_next_revision:
  "(case checked_add n 1 of None \<Rightarrow> None | Some r \<Rightarrow> if r \<le> max_challenge_revision then Some r else None) =
     (if n < max_challenge_revision then Some (n + 1) else None)"
proof (cases "n = - 1")
  case True
  then show ?thesis
    by (simp add: checked_add_def max_challenge_revision_def unat_minus_one_word_pow word_less_nat_alt)
next
  case False
  then have "unat (n + 1) = unat n + 1" by (rule unat_succ)
  moreover from this have "checked_add n 1 = Some (n + 1)" by (simp add: checked_add_Some)
  ultimately show ?thesis
    by (simp add: word_le_nat_alt word_less_nat_alt max_challenge_revision_def Suc_le_eq)
qed

text \<open>On a valid, supported state the last validation never fails.\<close>

lemma apply_valid:
  assumes ok: "challenge_ok s" and "timely cmd" and "supports_policy policy s"
  shows "apply_command policy s n cmd =
    (if challenge_revision s \<noteq> n then Inl StaleRevision
     else if \<not> challenge_revision s < max_challenge_revision then Inl RevisionOverflow
     else and_then (run_command policy cmd (s\<lparr> challenge_revision := challenge_revision s + 1 \<rparr>))
       (\<lambda>(s', first). Inr \<lparr> next_state = s', first_completion = first \<rparr>))"
proof -
  let ?s = "s\<lparr> challenge_revision := challenge_revision s + 1 \<rparr>"
  have valid: "validate_challenges s = Inr ()" using ok by (simp add: validate_challenges_exact)
  have known: "policy \<in> set [initial_policy, expanded_policy, elite_policy, prism_policy, signal_policy,
      survival_policy, gauntlet_policy, modifier_policy]"
    using assms(3) unfolding supports_policy_def by (rule conjunct1)
  have "and_then (run_command policy cmd ?s) (\<lambda>(s', first).
      and_then (validate_challenges s') (\<lambda>_. Inr \<lparr> next_state = s', first_completion = first \<rparr>)) =
    and_then (run_command policy cmd ?s) (\<lambda>(s', first). Inr \<lparr> next_state = s', first_completion = first \<rparr>)"
    if less: "challenge_revision s < max_challenge_revision"
  proof (cases "run_command policy cmd ?s")
    case (Inr x)
    have "challenge_revision s \<noteq> - 1" using less by (auto simp: max_challenge_revision_def)
    then have m: "unat (challenge_revision s + 1) = unat (challenge_revision s) + 1" by (rule unat_succ)
    moreover have "challenge_revision s + 1 \<le> max_challenge_revision"
      using less m by (simp add: word_le_nat_alt word_less_nat_alt)
    ultimately have "challenge_ok (fst x)"
      using command_keeps [OF ok] Inr assms(2) by (cases x) auto
    then have "validate_challenges (fst x) = Inr ()" by (simp add: validate_challenges_exact)
    then show ?thesis using Inr by (cases x) simp
  qed simp
  then have "(if challenge_revision s < max_challenge_revision
      then and_then (run_command policy cmd ?s) (\<lambda>(s', first).
        and_then (validate_challenges s') (\<lambda>_. Inr \<lparr> next_state = s', first_completion = first \<rparr>))
      else Inl RevisionOverflow) =
    (if challenge_revision s < max_challenge_revision
      then and_then (run_command policy cmd ?s) (\<lambda>(s', first). Inr \<lparr> next_state = s', first_completion = first \<rparr>)
      else Inl RevisionOverflow)" by simp
  moreover have "apply_command policy s n cmd =
    (if challenge_revision s \<noteq> n then Inl StaleRevision
     else if challenge_revision s < max_challenge_revision
      then and_then (run_command policy cmd ?s) (\<lambda>(s', first).
        and_then (validate_challenges s') (\<lambda>_. Inr \<lparr> next_state = s', first_completion = first \<rparr>))
      else Inl RevisionOverflow)"
    unfolding apply_command_def challenge_next_revision using known
    by (cases "challenge_revision s < max_challenge_revision") (simp_all add: valid assms(3) del: not_less)
  moreover have swap: "z = (if p then x else if q then b else c) \<Longrightarrow>
      (if q then b else c) = (if q then b' else c) \<Longrightarrow> z = (if p then x else if \<not> q then c else b')"
    for p q and b b' c x z :: "challenge_error + challenge_transition"
    by auto
  ultimately show ?thesis by (intro swap)
qed

lemma start_no_defect: "start_run c p e s = Inl err \<Longrightarrow> err \<noteq> InvalidState"
  using validate_equipment_error [of e] signal_profile_error [of e]
  by (cases "validate_equipment e"; cases "signal_profile e")
    (auto simp: start_run_def and_then_Inl rules_with_preset_def split: if_splits)

lemma command_no_defect: "run_command policy cmd s \<noteq> Inl InvalidState"
proof -
  have ends: "end_run i out x \<noteq> Inl InvalidState" for i out x
    by (simp add: end_run_def split: option.split)
  have starts: "start_run c p e x \<noteq> Inl InvalidState" for c p e x
    using start_no_defect by blast
  have confirms: "confirm_objective i ob t x \<noteq> Inl InvalidState" for i ob t x
    using ends by (auto simp: confirm_objective_def and_then_Inl ok_or_Inl Let_def
        split: option.splits if_splits prod.splits)
  have retries: "retry_run i e x \<noteq> Inl InvalidState" for i e x
    using starts ends by (auto simp: retry_run_def and_then_Inl ok_or_Inl split: if_splits)
  show ?thesis using starts confirms retries ends
    by (auto simp: run_command_def and_then_Inl split: challenge_command.splits)
qed

text \<open>The rules of every run come from a start the policy admits.\<close>

definition all_rules :: "challenge_state \<Rightarrow> rules set" where
  "all_rules s = run_rules ` (set_option (active s) \<union> result_run ` set_option (last_result s) \<union> set (records s))"

lemma supports_policy_rules:
  "supports_policy policy s \<longleftrightarrow>
     policy \<in> set [initial_policy, expanded_policy, elite_policy, prism_policy, signal_policy,
       survival_policy, gauntlet_policy, modifier_policy] \<and>
     (\<forall>r \<in> all_rules s. rules_available_in r policy)"
  by (auto simp: supports_policy_def all_rules_def list_all_iff split: option.splits)

lemma start_rules:
  "start_run c p e s = Inr s' \<Longrightarrow> \<exists>r. rules_with_preset c p = Inr r \<and> all_rules s' \<subseteq> insert r (all_rules s)"
  by (erule start_run_Inr) (auto simp: all_rules_def)

lemma end_rules: "end_run i out s = Inr s' \<Longrightarrow> all_rules s' \<subseteq> all_rules s"
  by (auto simp: end_run_Inr all_rules_def)

lemma confirm_rules: "confirm_objective i ob t s = Inr (s', f) \<Longrightarrow> all_rules s' \<subseteq> all_rules s"
proof (erule confirm_cases)
  fix r b run s2
  assume r: "active s = Some r" and run: "run = r\<lparr> objectives := objectives r OR b, elapsed_ms := t \<rparr>"
    and rec: "record_completion run (s\<lparr> active := Some run \<rparr>) = (s2, f)"
    and s': "s' = s2\<lparr> active := None, last_result := Some \<lparr> result_run = run, result_outcome = Completed \<rparr> \<rparr>"
  have "set (records s2) \<subseteq> insert run (set (records s))"
    using rec improve_record_set [of run "records s"]
    by (auto simp: record_completion_def split: if_splits)
  then show ?thesis using r by (auto simp: all_rules_def s' run)
qed (auto simp: all_rules_def)

lemma command_supported:
  assumes "supports_policy policy s" and "run_command policy cmd s = Inr (s', first)" and "runs_ok k s"
  shows "supports_policy policy s'"
proof -
  have old: "\<forall>r \<in> all_rules s. rules_available_in r policy" using assms(1) by (simp add: supports_policy_rules)
  have valid: "rules_with_preset (contract r) (preset r) = Inr r" if "r \<in> all_rules s" for r
    using assms(3) that by (auto simp: runs_ok_def all_rules_def run_base_def)
  have fresh: "rules_available_in r policy"
    if "rules_with_preset c p = Inr r" "contract_available_in c policy" "p = Baseline \<or> policy = modifier_policy" for c p r
    using that rules_with_preset_fields [OF that(1)] by (auto simp: rules_available_in_def is_baseline_def)
  have all: "contract_available_in c modifier_policy" for c by (simp add: contract_available_in_def policies)
  have "\<forall>r \<in> all_rules s'. rules_available_in r policy"
  proof (cases cmd)
    case (Start c e)
    then have st: "contract_available_in c policy" "start_run c Baseline e s = Inr s'"
      using assms(2) by (auto simp: run_command_def and_then_Inr split: if_splits)
    then show ?thesis using start_rules [OF st(2)] fresh [OF _ st(1)] old by blast
  next
    case (StartModified c p e)
    then have st: "policy = modifier_policy" "start_run c p e s = Inr s'"
      using assms(2) by (auto simp: run_command_def and_then_Inr split: if_splits)
    then show ?thesis using start_rules [OF st(2)] fresh all old by blast
  next
    case (Retry i e)
    then have "retry_run i e s = Inr s'" using assms(2) by (auto simp: run_command_def and_then_Inr)
    then obtain r s1 where prev: "previous_run i s = Some r"
        and s1: "if active s = None then s1 = s else end_run i Interrupted s = Inr s1"
        and start: "start_run (contract (run_rules r)) (preset (run_rules r)) e s1 = Inr s'"
      by (rule retry_run_Inr)
    have r: "run_rules r \<in> all_rules s"
      using prev by (auto simp: previous_run_def all_rules_def split: option.splits if_splits)
    have "all_rules s1 \<subseteq> all_rules s" using s1 end_rules by (auto split: if_splits)
    then show ?thesis using start_rules [OF start] valid [OF r] r old by auto
  next
    case (Confirm i ob)
    then have "confirm_objective i ob None s = Inr (s', first)" using assms(2) by (simp add: run_command_def)
    then show ?thesis using confirm_rules old by blast
  next
    case (ConfirmTimed i ob t)
    then have "confirm_objective i ob (Some t) s = Inr (s', first)" using assms(2) by (simp add: run_command_def)
    then show ?thesis using confirm_rules old by blast
  next
    case (End i reason)
    then have "end_run i (outcome_of_reason reason) s = Inr s'"
      using assms(2) by (auto simp: run_command_def and_then_Inr)
    then show ?thesis using end_rules old by blast
  qed
  then show ?thesis using assms(1) by (simp add: supports_policy_rules)
qed

section \<open>Histories\<close>

text \<open>
  The persistence layer keeps the accepted state only. A history of calls is the fold of
  \<open>challenge_commit\<close> over (policy, expected revision, command) triples; beside the state it
  collects the runs the accepted commands completed and the first completions they reported.
\<close>

definition default_challenges :: challenge_state where
  "default_challenges =
    \<lparr> challenge_revision = 0, active = None, last_result = None, records = [] \<rparr>"

definition completed_by :: "challenge_state \<Rightarrow> challenge_state \<Rightarrow> challenge_run list" where
  "completed_by s s' =
    (if active s \<noteq> None \<and> active s' = None
     then (case last_result s' of None \<Rightarrow> []
           | Some res \<Rightarrow> if result_outcome res = Completed then [result_run res] else [])
     else [])"

type_synonym challenge_journal = "challenge_state \<times> challenge_run list \<times> contract_id list"

fun challenge_commit :: "string \<times> u64 \<times> challenge_command \<Rightarrow> challenge_journal \<Rightarrow> challenge_journal" where
  "challenge_commit (policy, n, cmd) (s, runs, firsts) =
    (case apply_command policy s n cmd of
       Inl _ \<Rightarrow> (s, runs, firsts)
     | Inr t \<Rightarrow> (next_state t, runs @ completed_by s (next_state t),
                 firsts @ (case first_completion t of None \<Rightarrow> [] | Some c \<Rightarrow> [c])))"

definition no_slower :: "challenge_run \<Rightarrow> challenge_run \<Rightarrow> bool" where
  "no_slower x r \<longleftrightarrow>
    (case (elapsed_ms x, elapsed_ms r) of
       (Some a, Some b) \<Rightarrow> a \<le> b | (None, None) \<Rightarrow> True | _ \<Rightarrow> False)"

definition best_records :: "challenge_run list \<Rightarrow> challenge_run list \<Rightarrow> bool" where
  "best_records recs runs \<longleftrightarrow>
     set recs \<subseteq> set runs \<and> (\<forall>r \<in> set runs. run_done r) \<and>
     (\<forall>r \<in> set runs. \<exists>x \<in> set recs. run_rules x = run_rules r \<and> no_slower x r)"

fun challenge_journal_ok :: "challenge_journal \<Rightarrow> bool" where
  "challenge_journal_ok (s, runs, firsts) \<longleftrightarrow>
     challenge_ok s \<and> firsts = map (contract \<circ> run_rules) (records s) \<and> best_records (records s) runs"

lemma no_slower_refl [simp]: "no_slower r r"
  by (simp add: no_slower_def split: option.split)

lemma no_slower_trans: "no_slower x y \<Longrightarrow> no_slower y z \<Longrightarrow> no_slower x z"
  by (auto simp: no_slower_def split: option.splits)

text \<open>Runs of the same rules are both timed or both untimed, so the faster one is defined.\<close>

lemma improve_record_best:
  assumes "run_done run" and "\<forall>r \<in> set rs. run_done r" and "run_rules run \<in> run_rules ` set rs"
    and "distinct (map run_rules rs)"
  shows "\<exists>x \<in> set (improve_record run rs). run_rules x = run_rules run \<and> no_slower x run"
    and "\<forall>r \<in> set rs. \<exists>x \<in> set (improve_record run rs). run_rules x = run_rules r \<and> no_slower x r"
  using assms
proof (induction rs)
  case (Cons r rs)
  have timed: "(elapsed_ms x = None) = (\<not> timed_rules (run_rules x))" if "run_done x" for x
    using that by (auto simp: run_done_def split: option.splits)
  { case 1
    show ?case
    proof (cases "run_rules r = run_rules run")
      case True
      then show ?thesis using 1 timed [of run] timed [of r]
        by (auto simp: no_slower_def split: option.splits)
    next
      case False
      then show ?thesis using 1 Cons.IH(1) by auto
    qed
  next
    case 2
    show ?case
    proof (cases "run_rules r = run_rules run")
      case True
      moreover have "\<exists>x \<in> set (improve_record run (r # rs)). run_rules x = run_rules r \<and> no_slower x r"
        using True 2 timed [of run] timed [of r] by (auto simp: no_slower_def split: option.splits)
      moreover have "set rs \<subseteq> set (improve_record run (r # rs))"
        using True by (auto split: option.splits)
      ultimately show ?thesis by (auto intro: no_slower_refl)
    next
      case False
      then show ?thesis using 2 Cons.IH(2) by auto
    qed
  }
qed simp_all

lemma completion_best:
  assumes "record_completion run s = (s', first)" and "run_done run"
    and "distinct (map run_rules (records s))" and "best_records (records s) runs"
  shows "best_records (records s') (runs @ [run])"
    and "map (contract \<circ> run_rules) (records s') =
      map (contract \<circ> run_rules) (records s) @ (case first of None \<Rightarrow> [] | Some c \<Rightarrow> [c])"
  using assms(1)
proof (atomize (full), cases rule: record_completion_cases)
  case improved
  have old: "set (records s) \<subseteq> set runs" "\<forall>r \<in> set runs. run_done r"
    and best: "\<And>r. r \<in> set runs \<Longrightarrow> \<exists>x \<in> set (records s). run_rules x = run_rules r \<and> no_slower x r"
    using assms(4) by (auto simp: best_records_def)
  have "\<forall>r \<in> set (records s). run_done r" using old by auto
  note new = improve_record_best [OF assms(2) this improved(1) assms(3)]
  have "\<exists>x \<in> set (improve_record run (records s)). run_rules x = run_rules r \<and> no_slower x r"
    if "r \<in> set runs" for r
    using best [OF that] new(2) by (metis no_slower_trans)
  moreover have "set (improve_record run (records s)) \<subseteq> set (runs @ [run])"
    using improve_record_set [of run "records s"] old(1) by auto
  ultimately have "best_records (records s') (runs @ [run])"
    using old(2) assms(2) new(1) by (auto simp: best_records_def improved(2))
  moreover have "map run_rules (records s') = map run_rules (records s)" by (simp add: improved(2))
  from arg_cong [OF this, of "map contract"]
  have "map (contract \<circ> run_rules) (records s') = map (contract \<circ> run_rules) (records s)" by simp
  ultimately show "best_records (records s') (runs @ [run]) \<and>
      map (contract \<circ> run_rules) (records s') =
      map (contract \<circ> run_rules) (records s) @ (case first of None \<Rightarrow> [] | Some c \<Rightarrow> [c])"
    by (simp add: improved(3))
next
  case added
  then show "best_records (records s') (runs @ [run]) \<and>
      map (contract \<circ> run_rules) (records s') =
      map (contract \<circ> run_rules) (records s) @ (case first of None \<Rightarrow> [] | Some c \<Rightarrow> [c])"
    using assms(2,4) by (auto simp: best_records_def)
qed

text \<open>What one accepted command does to the records, and which run it completes.\<close>

lemma command_journal:
  assumes "runs_ok n s" and "unat (challenge_revision s) = unat n + 1" and "records_ok s"
    and "run_command policy cmd s = Inr (s', first)" and "timely cmd"
    and "best_records (records s) runs"
  shows "best_records (records s') (runs @ completed_by s s') \<and>
    map (contract \<circ> run_rules) (records s') =
      map (contract \<circ> run_rules) (records s) @ (case first of None \<Rightarrow> [] | Some c \<Rightarrow> [c])"
proof -
  have same: "?thesis" if "records s' = records s" "first = None" "completed_by s s' = []"
    using that assms(6) by simp
  have starts: "records y = records x \<and> active y \<noteq> None" if "start_run c p e x = Inr y" for c p e x y
    using that by (rule start_run_Inr) auto
  have ends: "records y = records x \<and> active x \<noteq> None \<and>
      (out \<noteq> Completed \<longrightarrow> completed_by x y = [])" if "end_run i out x = Inr y" for i out x y
    using that by (auto simp: end_run_Inr completed_by_def)
  have confirms: ?thesis
    if confirm: "confirm_objective i ob t s = Inr (s', first)" and t: "\<forall>x. t = Some x \<longrightarrow> x \<le> max_challenge_revision"
    for i ob t
    using confirm
  proof (cases rule: confirm_cases)
    case (partial r b)
    then show ?thesis by (intro same) (simp_all add: completed_by_def)
  next
    case (complete r b run s2)
    have "run_done run"
      using confirm_progress(3) [OF assms(1) complete(1,3-6) assms(2), of t] complete(7,8,9) t by blast
    moreover have "distinct (map run_rules (records (s\<lparr> active := Some run \<rparr>)))"
      using assms(3) by (simp add: records_ok_def)
    ultimately have "best_records (records s2) (runs @ [run])"
      and "map (contract \<circ> run_rules) (records s2) =
        map (contract \<circ> run_rules) (records s) @ (case first of None \<Rightarrow> [] | Some c \<Rightarrow> [c])"
      using completion_best [OF complete(10), of runs] assms(6) by simp_all
    then show ?thesis using complete(1) by (simp add: complete(11) completed_by_def)
  qed
  show ?thesis
  proof (cases cmd)
    case (Start c e)
    then have "start_run c Baseline e s = Inr s'" and first: "first = None"
      using assms(4) by (auto simp: run_command_def and_then_Inr split: if_splits)
    from starts [OF this(1)] show ?thesis using first by (intro same) (auto simp: completed_by_def)
  next
    case (StartModified c p e)
    then have "start_run c p e s = Inr s'" and first: "first = None"
      using assms(4) by (auto simp: run_command_def and_then_Inr split: if_splits)
    from starts [OF this(1)] show ?thesis using first by (intro same) (auto simp: completed_by_def)
  next
    case (Retry i e)
    then have "retry_run i e s = Inr s'" and first: "first = None"
      using assms(4) by (auto simp: run_command_def and_then_Inr)
    from this(1) obtain r s1 where "previous_run i s = Some r"
      and "if active s = None then s1 = s else end_run i Interrupted s = Inr s1"
      and "start_run (contract (run_rules r)) (preset (run_rules r)) e s1 = Inr s'"
      by (rule retry_run_Inr)
    then have "records s' = records s" "active s' \<noteq> None"
      using starts ends by (auto split: if_splits)
    then show ?thesis using first by (intro same) (auto simp: completed_by_def)
  next
    case (Confirm i ob)
    then show ?thesis using confirms [of i ob None] assms(4) by (simp add: run_command_def)
  next
    case (ConfirmTimed i ob t)
    then show ?thesis using confirms [of i ob "Some t"] assms(4,5) by (simp add: run_command_def timely_def)
  next
    case (End i reason)
    then have "end_run i (outcome_of_reason reason) s = Inr s'" and first: "first = None"
      using assms(4) by (auto simp: run_command_def and_then_Inr)
    moreover have "outcome_of_reason reason \<noteq> Completed" by (cases reason) simp_all
    ultimately show ?thesis using ends by (intro same) simp_all
  qed
qed

lemma apply_command_Inr:
  assumes "apply_command policy s n cmd = Inr t"
  obtains "challenge_ok s" "supports_policy policy s" "challenge_revision s = n"
    "unat (n + 1) = unat n + 1" "n + 1 \<le> max_challenge_revision"
    "run_command policy cmd (s\<lparr> challenge_revision := n + 1 \<rparr>) = Inr (next_state t, first_completion t)"
    "challenge_ok (next_state t)"
proof -
  have ok: "challenge_ok s" "supports_policy policy s" "challenge_revision s = n"
    and less: "challenge_revision s < max_challenge_revision"
    using assms by (auto simp: apply_command_def challenge_next_revision and_then_Inr ok_or_Inr
        simp flip: validate_challenges_exact split: if_splits)
  have "run_command policy cmd (s\<lparr> challenge_revision := n + 1 \<rparr>) = Inr (next_state t, first_completion t)
      \<and> validate_challenges (next_state t) = Inr ()"
    using assms less ok(3)
    by (auto simp: apply_command_def challenge_next_revision and_then_Inr ok_or_Inr split: if_splits)
  moreover have "n \<noteq> - 1" using less ok(3) by (auto simp: max_challenge_revision_def)
  then have "unat (n + 1) = unat n + 1" by (rule unat_succ)
  moreover from this have "n + 1 \<le> max_challenge_revision"
    using less ok(3) by (simp add: word_le_nat_alt word_less_nat_alt)
  ultimately show thesis using ok that by (simp add: validate_challenges_exact)
qed

lemma challenge_ok_revision:
  "challenge_ok s \<Longrightarrow> runs_ok (challenge_revision s) (s\<lparr> challenge_revision := m \<rparr>)"
  "challenge_ok s \<Longrightarrow> records_ok (s\<lparr> challenge_revision := m \<rparr>)"
  by (simp_all add: challenge_ok_def runs_ok_def records_ok_def record_fits_def)

text \<open>An accepted \<open>ConfirmTimed\<close> completes its run, so its time was checked.\<close>

lemma accepted_timely:
  assumes "run_command policy cmd s = Inr (s', first)" and "challenge_ok s'"
  shows "timely cmd"
proof (cases cmd)
  case (ConfirmTimed i ob t)
  then have "confirm_objective i ob (Some t) s = Inr (s', first)" using assms(1) by (simp add: run_command_def)
  then have "t \<le> max_challenge_revision"
  proof (cases rule: confirm_cases)
    case (complete r b run s2)
    have "elapsed_ms run = Some t" by (simp add: complete(9))
    moreover have "last_result s' = Some \<lparr> result_run = run, result_outcome = Completed \<rparr>"
      by (simp add: complete(11))
    ultimately show ?thesis using assms(2) by (simp add: challenge_ok_def runs_ok_def run_done_def)
  qed simp
  then show ?thesis using ConfirmTimed by (simp add: timely_def)
qed (simp_all add: timely_def)

lemma challenge_commit_keeps:
  assumes "challenge_journal_ok (s, runs, firsts)"
  shows "challenge_journal_ok (challenge_commit (policy, n, cmd) (s, runs, firsts))"
proof (cases "apply_command policy s n cmd")
  case (Inr t)
  then obtain ok: "challenge_ok s" and n: "challenge_revision s = n" "unat (n + 1) = unat n + 1"
    and run: "run_command policy cmd (s\<lparr> challenge_revision := n + 1 \<rparr>) = Inr (next_state t, first_completion t)"
    and new: "challenge_ok (next_state t)"
    by (rule apply_command_Inr)
  let ?s = "s\<lparr> challenge_revision := n + 1 \<rparr>"
  have "best_records (records ?s) runs" using assms by simp
  from command_journal [OF challenge_ok_revision(1) [OF ok, unfolded n(1)] _ challenge_ok_revision(2) [OF ok] run _ this]
  have "best_records (records (next_state t)) (runs @ completed_by ?s (next_state t)) \<and>
    map (contract \<circ> run_rules) (records (next_state t)) =
      map (contract \<circ> run_rules) (records s) @
        (case first_completion t of None \<Rightarrow> [] | Some c \<Rightarrow> [c])"
    using accepted_timely [OF run new] n(2) by simp
  moreover have "completed_by ?s = completed_by s" by (simp add: completed_by_def fun_eq_iff)
  ultimately show ?thesis using Inr assms new by simp
qed (use assms in simp)

interpretation attempts: history challenge_commit challenge_journal_ok
proof
  fix j c
  show "challenge_journal_ok j \<Longrightarrow> challenge_journal_ok (challenge_commit c j)"
    using challenge_commit_keeps by (cases j; cases c) blast
qed

lemma journal_ok_start: "challenge_journal_ok (default_challenges, [], [])"
  by (simp add: default_challenges_def challenge_ok_def runs_ok_def records_ok_def best_records_def)

text \<open>
  C24 (invariant): first completions and best times. Over any history of commands from an
  empty state, under any policies and expected revisions, the reported first completions are
  the contracts of the stored records in their order; no two records have the same rules;
  each record is a run that was completed, and every completed run has a record of its own
  rules that was not slower.
\<close>

theorem challenge_records_best:
  assumes "fold challenge_commit cmds (default_challenges, [], []) = (s, runs, firsts)"
  shows "firsts = map (contract \<circ> run_rules) (records s) \<and>
    distinct (map run_rules (records s)) \<and>
    set (records s) \<subseteq> set runs \<and>
    (\<forall>r \<in> set runs. \<exists>x \<in> set (records s). run_rules x = run_rules r \<and> no_slower x r)"
proof -
  have "challenge_journal_ok (s, runs, firsts)"
    using attempts.good_history [OF journal_ok_start, of cmds] assms by simp
  then show ?thesis by (auto simp: challenge_ok_def records_ok_def best_records_def)
qed

lemma accepted_supported:
  assumes "apply_command policy s n cmd = Inr t"
  shows "challenge_ok (next_state t) \<and> supports_policy policy (next_state t)"
proof -
  from assms obtain ok: "challenge_ok s" "supports_policy policy s" and new: "challenge_ok (next_state t)"
    and run: "run_command policy cmd (s\<lparr> challenge_revision := n + 1 \<rparr>) = Inr (next_state t, first_completion t)"
    by (rule apply_command_Inr)
  have "supports_policy policy (s\<lparr> challenge_revision := n + 1 \<rparr>)"
    using ok(2) by (simp add: supports_policy_def)
  then show ?thesis using command_supported [OF _ run challenge_ok_revision(1) [OF ok(1)]] new by simp
qed

text \<open>
  C25 (error): no defect of its own. On a valid state that the policy supports, a command
  whose time is in range is either refused with a reason that is the caller's, never with
  \<open>InvalidState\<close>, or leads to a state that is valid and supported again, one revision on.
\<close>

theorem challenge_never_invalid:
  assumes "validate_challenges s = Inr ()" and "supports_policy policy s" and "timely cmd"
  shows "apply_command policy s n cmd \<noteq> Inl InvalidState \<and>
    (\<forall>t. apply_command policy s n cmd = Inr t \<longrightarrow>
       validate_challenges (next_state t) = Inr () \<and> supports_policy policy (next_state t) \<and>
       unat (challenge_revision (next_state t)) = unat (challenge_revision s) + 1)"
proof (intro conjI allI impI)
  have ok: "challenge_ok s" using assms(1) by (simp add: validate_challenges_exact)
  show "apply_command policy s n cmd \<noteq> Inl InvalidState"
    unfolding apply_valid [OF ok assms(3,2)]
    using command_no_defect by (auto simp: and_then_Inl split: if_splits)
  fix t assume accepted: "apply_command policy s n cmd = Inr t"
  then obtain n: "challenge_revision s = n" "unat (n + 1) = unat n + 1"
    and run: "run_command policy cmd (s\<lparr> challenge_revision := n + 1 \<rparr>) = Inr (next_state t, first_completion t)"
    and new: "challenge_ok (next_state t)"
    by (rule apply_command_Inr)
  show "validate_challenges (next_state t) = Inr ()" using new by (simp add: validate_challenges_exact)
  show "supports_policy policy (next_state t)" using accepted_supported [OF accepted] by simp
  show "unat (challenge_revision (next_state t)) = unat (challenge_revision s) + 1"
    using command_revision [OF run] n by simp
qed

section \<open>Examples\<close>

definition rifle_equipment :: equipment where
  "rifle_equipment = \<lparr> loadout_revision = 0, catalog_revision = ''m35-v2'', weapon_id = pulse_rifle, equipped_modules = [] \<rparr>"

lemma rifle_valid [simp]: "validate_equipment rifle_equipment = Inr ()"
  by (simp add: equipment_admitted rifle_equipment_def canonical_fixed weapon_profile_def)

lemma rifle_profile:
  obtains b where "equipment_profile rifle_equipment = Inr b" "eff_range b = 6" "eff_max_health b = 100"
proof -
  have m: "canonicalize_loadout [] = Inr []" by (simp add: canonical_fixed)
  obtain b where b: "resolve_build ''m35-v2'' (weapon_base pulse_rifle_profile) [] = Inr b"
      "profile_exact (weapon_base pulse_rifle_profile) (totals []) (build_profile b)"
    using weapon_resolves [of pulse_rifle pulse_rifle_profile "[]"] m by (auto simp: weapon_profile_def)
  then have "eff_range (build_profile b) = 6"
    by (simp add: profile_exact_def weapon_base_def pulse_rifle_profile_def totals_def)
  moreover have "int (unat (eff_max_health (build_profile b))) = 100"
    using b(2) by (simp add: profile_exact_def weapon_base_def totals_def)
  then have "unat (eff_max_health (build_profile b)) = 100" by linarith
  then have "unat (eff_max_health (build_profile b)) = unat (100 :: u32)" by simp
  then have "eff_max_health (build_profile b) = 100" by (simp only: word_unat_eq_iff)
  moreover have "equipment_profile rifle_equipment = Inr (build_profile b)"
    using b(1) by (simp add: equipment_profile_cases) (simp add: rifle_equipment_def weapon_profile_def)
  ultimately show thesis by (rule that [rotated])
qed

lemma default_ok [simp]: "challenge_ok default_challenges" "supports_policy modifier_policy default_challenges"
  using journal_ok_start by (simp_all add: supports_policy_def default_challenges_def)

definition discipline_run :: "u8 \<Rightarrow> challenge_run" where
  "discipline_run m =
     \<lparr> run_id = 1, run_rules = contract_rules PrismDiscipline, run_equipment = rifle_equipment,
       objectives = m, elapsed_ms = None \<rparr>"

definition discipline_started :: challenge_state where
  "discipline_started = default_challenges\<lparr> challenge_revision := 1, active := Some (discipline_run 0) \<rparr>"

lemma discipline_start:
  "apply_command modifier_policy default_challenges 0 (Start PrismDiscipline rifle_equipment) =
     Inr \<lparr> next_state = discipline_started, first_completion = None \<rparr>"
  by (simp add: apply_valid timely_def)
    (simp add: run_command_def contract_available_in_def policies start_run_def default_challenges_def
      max_challenge_revision_def rules_with_preset_def is_baseline_def discipline_run_def discipline_started_def)

lemma discipline_confirm:
  "apply_command modifier_policy discipline_started 1 (Confirm 1 PrismCleared) =
     Inr \<lparr> next_state = default_challenges\<lparr> challenge_revision := 2,
             last_result := Some \<lparr> result_run = discipline_run 1, result_outcome = Completed \<rparr>,
             records := [discipline_run 1] \<rparr>,
           first_completion = Some PrismDiscipline \<rparr>"
  using accepted_supported [OF discipline_start]
  by (simp add: apply_valid timely_def)
    (simp add: run_command_def confirm_objective_def Let_def default_challenges_def discipline_started_def
      max_challenge_revision_def discipline_run_def end_run_def record_completion_def objective_bit_def contract_bit_def
      contract_rules_def sequential_contracts_def time_goal_ms_def has_modifier_def)

lemma challenge_records_best_witness:
  "\<exists>s runs firsts.
     fold challenge_commit
       [(modifier_policy, 0, Start PrismDiscipline rifle_equipment),
        (modifier_policy, 1, Confirm 1 PrismCleared)] (default_challenges, [], []) = (s, runs, firsts) \<and>
     runs = [discipline_run 1] \<and> firsts = [PrismDiscipline] \<and>
     (\<exists>x \<in> set (records s). no_slower x (discipline_run 1))"
proof -
  let ?s = "default_challenges\<lparr> challenge_revision := 2,
             last_result := Some \<lparr> result_run = discipline_run 1, result_outcome = Completed \<rparr>,
             records := [discipline_run 1] \<rparr>"
  have run: "fold challenge_commit
       [(modifier_policy, 0, Start PrismDiscipline rifle_equipment),
        (modifier_policy, 1, Confirm 1 PrismCleared)] (default_challenges, [], []) =
      (?s, [discipline_run 1], [PrismDiscipline])"
    by (simp add: discipline_start discipline_confirm)
      (simp add: completed_by_def discipline_started_def default_challenges_def)
  from challenge_records_best [OF run] run show ?thesis by auto
qed

lemma challenge_never_invalid_witness:
  "\<exists>t. apply_command modifier_policy discipline_started 1 (Confirm 1 PrismCleared) = Inr t \<and>
     validate_challenges (next_state t) = Inr () \<and> challenge_revision (next_state t) = 2"
proof -
  have "validate_challenges discipline_started = Inr ()" "supports_policy modifier_policy discipline_started"
    using accepted_supported [OF discipline_start] by (simp_all add: validate_challenges_exact)
  from challenge_never_invalid [OF this, of "Confirm 1 PrismCleared" 1] show ?thesis
    by (simp add: timely_def discipline_confirm)
qed

end
