(* ===== verification/Holding.thy ===== *)
theory Holding
  imports Prelude Lifecycle
begin

text \<open>
  The contract of a pad that must be held: the time of arrival is kept while an actor stays,
  forgotten when it leaves, and something fires once the hold is long enough. The coolant
  stations, the relays and the reserve of the survival run and the exits and the reserve of the
  gauntlet all follow it; the lemma turns the laws about one call into the statement about a
  whole history that the actor was there all along.
\<close>

locale hold = history step good
  for step :: "'e \<Rightarrow> 's \<Rightarrow> 's" and good :: "'s \<Rightarrow> bool" +
  fixes clock :: "'s \<Rightarrow> u64"
    and place :: "'s \<Rightarrow> 'p"
    and started :: "'s \<Rightarrow> u64 option"
    and fires :: "'e \<Rightarrow> 's \<Rightarrow> bool"
    and need :: nat
  assumes holds: "good s \<Longrightarrow> started (step e s) = Some t \<Longrightarrow>
      t = clock (step e s) \<or> started s = Some t \<and> place s = place (step e s)"
    and fired: "good s \<Longrightarrow> fires e s \<Longrightarrow> \<exists>t. started s = Some t \<and> unat t + need \<le> unat (clock (step e s))"
begin

definition since :: "'s \<Rightarrow> 'e list \<Rightarrow> u64 \<Rightarrow> bool" where
  "since s es t \<longleftrightarrow>
     (\<exists>m \<le> length es. clock (fold step (take m es) s) = t \<and>
        (\<forall>k. m \<le> k \<and> k \<le> length es \<longrightarrow>
           place (fold step (take k es) s) = place (fold step es s)))"

lemma since_snoc:
  assumes "since s es t" and "place (fold step es s) = place (step e (fold step es s))"
  shows "since s (es @ [e]) t"
proof -
  obtain m where m: "m \<le> length es" "clock (fold step (take m es) s) = t"
    and stay: "\<And>k. m \<le> k \<Longrightarrow> k \<le> length es \<Longrightarrow>
      place (fold step (take k es) s) = place (fold step es s)"
    using assms(1) by (auto simp: since_def)
  have "place (fold step (take k (es @ [e])) s) = place (fold step (es @ [e]) s)"
    if "m \<le> k" "k \<le> Suc (length es)" for k
    using that stay [of k] assms(2) by (cases "k = Suc (length es)") simp_all
  moreover have "take m (es @ [e]) = take m es" using m(1) by simp
  ultimately show ?thesis
    using m unfolding since_def by (intro exI [of _ m]) (simp del: take_append)
qed

lemma since_here: "since s es (clock (fold step es s))"
  unfolding since_def by (intro exI [of _ "length es"]) simp

lemma started_since:
  assumes "good s" and "started s = None" and "started (fold step es s) = Some t"
  shows "since s es t"
  using assms(3)
proof (induction es arbitrary: t rule: rev_induct)
  case (snoc e es)
  then have "started (step e (fold step es s)) = Some t" by simp
  from holds [OF good_history [OF assms(1)] this] show ?case
  proof
    assume "t = clock (step e (fold step es s))"
    then show ?thesis using since_here [of s "es @ [e]"] by simp
  next
    assume "started (fold step es s) = Some t \<and> place (fold step es s) = place (step e (fold step es s))"
    then show ?thesis using snoc.IH by (simp add: since_snoc)
  qed
qed (use assms(2) in simp)

text \<open>Whatever fires was held: from some call on every state was at the same place, and that
  call is at least the required time ago.\<close>

lemma fired_held:
  assumes "good s" and "started s = None" and "fires e (fold step es s)"
  obtains m where "m \<le> length es"
    "unat (clock (fold step (take m es) s)) + need \<le> unat (clock (step e (fold step es s)))"
    "\<And>k. m \<le> k \<Longrightarrow> k \<le> length es \<Longrightarrow> place (fold step (take k es) s) = place (fold step es s)"
proof -
  obtain t where t: "started (fold step es s) = Some t"
      "unat t + need \<le> unat (clock (step e (fold step es s)))"
    using fired [OF good_history [OF assms(1)] assms(3)] by blast
  from started_since [OF assms(1,2) t(1)] obtain m where "m \<le> length es"
      "clock (fold step (take m es) s) = t"
      "\<forall>k. m \<le> k \<and> k \<le> length es \<longrightarrow> place (fold step (take k es) s) = place (fold step es s)"
    by (auto simp: since_def)
  with t(2) that show thesis by blast
qed

end

end
