(* ===== verification/Recovery.thy ===== *)
theory Recovery
  imports Challenge_Catalog Holding
begin

text \<open>
  The coolant recovery run (\<open>src/runtime/challenges/src/recovery.rs\<close>): retrieve at the intake,
  hold the transfer station, hold the delivery station. Calls carry the server's elapsed time;
  a refused call changes nothing.
\<close>

section \<open>The run\<close>

definition recovery_revision :: string where "recovery_revision = ''coolant-recovery-v1''"
definition recovery_spawn :: pos where "recovery_spawn = (- 1, 0, - 3)"
definition dwell_ms :: u64 where "dwell_ms = 1200"

datatype recovery_checkpoint = Retrieved | Transferred | Delivered
datatype recovery_action = RecoveryMove pos | RecoveryObserve
datatype recovery_phase = Retrieve | Transfer | Delivery | RecoveryCompleted
datatype recovery_error = RecoveryClockReversed | RecoveryInvalidMovement | RecoveryFinished

record recovery_run =
  recovery_position :: pos
  recovery_phase :: recovery_phase
  recovery_last_ms :: u64
  dwell_started_ms :: "u64 option"

record recovery_update =
  recovery_next :: recovery_run
  recovery_checkpoint :: "recovery_checkpoint option"

definition new_recovery :: recovery_run where
  "new_recovery = \<lparr> recovery_position = recovery_spawn, recovery_phase = Retrieve,
     recovery_last_ms = 0, dwell_started_ms = None \<rparr>"

fun recovery_walkable :: "pos \<Rightarrow> bool" where
  "recovery_walkable (x, y, z) \<longleftrightarrow> y = 0 \<and> - 2 \<le> x \<and> x \<le> 5 \<and> - 6 \<le> z \<and> z \<le> 0"

text \<open>The steps between two positions in the plane; the differences of \<open>i32\<close> coordinates are
  taken in \<open>i64\<close> and cannot overflow.\<close>

fun plane_steps :: "pos \<Rightarrow> pos \<Rightarrow> int" where
  "plane_steps (fx, fy, fz) (tx, ty, tz) = \<bar>tx - fx\<bar> + \<bar>tz - fz\<bar>"

text \<open>\<open>Phase::Completed => unreachable!()\<close>: the phase was checked before.\<close>

fun recovery_station :: "recovery_phase \<Rightarrow> pos option" where
  "recovery_station Retrieve = Some recovery_intake"
| "recovery_station Transfer = Some recovery_transfer"
| "recovery_station Delivery = Some recovery_delivery"
| "recovery_station RecoveryCompleted = None"

text \<open>The dwell at a station after the move: the run and the checkpoint.\<close>

definition recovery_dwell ::
  "u64 \<Rightarrow> recovery_run \<Rightarrow> recovery_run \<times> recovery_checkpoint option" where
  "recovery_dwell elapsed run =
    (if Some (recovery_position run) \<noteq> recovery_station (recovery_phase run)
     then (run\<lparr> dwell_started_ms := None \<rparr>, None)
     else if recovery_phase run = Retrieve
     then (run\<lparr> recovery_phase := Transfer \<rparr>, Some Retrieved)
     else
       let started = (case dwell_started_ms run of Some t \<Rightarrow> t | None \<Rightarrow> elapsed);
           run = run\<lparr> dwell_started_ms := Some started \<rparr> in
       if elapsed - started \<ge> dwell_ms
       then (if recovery_phase run = Transfer
             then (run\<lparr> dwell_started_ms := None, recovery_phase := Delivery \<rparr>, Some Transferred)
             else (run\<lparr> dwell_started_ms := None, recovery_phase := RecoveryCompleted \<rparr>, Some Delivered))
       else (run, None))"

definition recovery_apply ::
  "recovery_run \<Rightarrow> u64 \<Rightarrow> recovery_action \<Rightarrow> recovery_error + recovery_update" where
  "recovery_apply run elapsed action =
    (if recovery_phase run = RecoveryCompleted then Inl RecoveryFinished
     else if elapsed < recovery_last_ms run then Inl RecoveryClockReversed
     else
       and_then
         (case action of
            RecoveryMove p \<Rightarrow>
              if \<not> recovery_walkable p \<or> plane_steps (recovery_position run) p \<noteq> 1
              then Inl RecoveryInvalidMovement
              else Inr (run\<lparr> recovery_position := p \<rparr>)
          | RecoveryObserve \<Rightarrow> Inr run) (\<lambda>moved.
       case recovery_dwell elapsed (moved\<lparr> recovery_last_ms := elapsed \<rparr>) of
         (after, checkpoint) \<Rightarrow>
           Inr \<lparr> recovery_next = after, recovery_checkpoint = checkpoint \<rparr>))"

section \<open>Histories\<close>

text \<open>The gateway replaces its run with an accepted update and keeps it otherwise.\<close>

fun recovery_step :: "u64 \<times> recovery_action \<Rightarrow> recovery_run \<Rightarrow> recovery_run" where
  "recovery_step (elapsed, action) run =
    (case recovery_apply run elapsed action of Inl _ \<Rightarrow> run | Inr u \<Rightarrow> recovery_next u)"

fun recovery_reached :: "u64 \<times> recovery_action \<Rightarrow> recovery_run \<Rightarrow> recovery_checkpoint option" where
  "recovery_reached (elapsed, action) run =
    (case recovery_apply run elapsed action of Inl _ \<Rightarrow> None | Inr u \<Rightarrow> recovery_checkpoint u)"

text \<open>A hold has begun no later than the last accepted call, at the station of a phase that
  needs one.\<close>

definition recovery_good :: "recovery_run \<Rightarrow> bool" where
  "recovery_good run \<longleftrightarrow>
     (\<forall>t. dwell_started_ms run = Some t \<longrightarrow>
        t \<le> recovery_last_ms run \<and> recovery_phase run \<in> {Transfer, Delivery} \<and>
        recovery_station (recovery_phase run) = Some (recovery_position run))"

definition recovery_place :: "recovery_run \<Rightarrow> pos \<times> recovery_phase" where
  "recovery_place run = (recovery_position run, recovery_phase run)"

text \<open>What an accepted call does.\<close>

lemma recovery_apply_Inr:
  assumes "recovery_apply run elapsed action = Inr u"
  obtains p where "recovery_last_ms run \<le> elapsed" "recovery_phase run \<noteq> RecoveryCompleted"
    "p = (case action of RecoveryMove q \<Rightarrow> q | RecoveryObserve \<Rightarrow> recovery_position run)"
    "recovery_dwell elapsed (run\<lparr> recovery_position := p, recovery_last_ms := elapsed \<rparr>) =
      (recovery_next u, recovery_checkpoint u)"
proof (cases action)
  case (RecoveryMove q)
  then show ?thesis using assms that [of q]
    by (auto simp: recovery_apply_def not_less split: if_splits prod.splits)
next
  case RecoveryObserve
  then show ?thesis using assms that [of "recovery_position run"]
    by (auto simp: recovery_apply_def not_less split: if_splits prod.splits)
qed

lemma recovery_dwell_cases:
  assumes "recovery_dwell elapsed run = (run', c)"
  obtains (away) "Some (recovery_position run) \<noteq> recovery_station (recovery_phase run)"
      "run' = run\<lparr> dwell_started_ms := None \<rparr>" "c = None"
  | (retrieved) "recovery_phase run = Retrieve" "recovery_position run = recovery_intake"
      "run' = run\<lparr> recovery_phase := Transfer \<rparr>" "c = Some Retrieved"
  | (held) t where "recovery_phase run \<in> {Transfer, Delivery}"
      "recovery_station (recovery_phase run) = Some (recovery_position run)"
      "dwell_started_ms run = Some t \<or> dwell_started_ms run = None \<and> t = elapsed"
      "\<not> elapsed - t \<ge> dwell_ms" "run' = run\<lparr> dwell_started_ms := Some t \<rparr>" "c = None"
  | (finished) t p where "recovery_phase run \<in> {Transfer, Delivery}"
      "recovery_station (recovery_phase run) = Some (recovery_position run)"
      "dwell_started_ms run = Some t" "elapsed - t \<ge> dwell_ms"
      "run' = run\<lparr> dwell_started_ms := None, recovery_phase := p \<rparr>"
      "(recovery_phase run, p, c) \<in> {(Transfer, Delivery, Some Transferred), (Delivery, RecoveryCompleted, Some Delivered)}"
proof -
  have zero: "\<not> elapsed - elapsed \<ge> dwell_ms" by (simp add: dwell_ms_def)
  show thesis
  proof (cases "recovery_phase run")
    case Retrieve
    then show ?thesis using assms away retrieved by (auto simp: recovery_dwell_def split: if_splits)
  next
    case Transfer
    then show ?thesis using assms away held finished zero
      by (cases "dwell_started_ms run") (auto simp: recovery_dwell_def Let_def split: if_splits)
  next
    case Delivery
    then show ?thesis using assms away held finished zero
      by (cases "dwell_started_ms run") (auto simp: recovery_dwell_def Let_def split: if_splits)
  next
    case RecoveryCompleted
    then show ?thesis using assms away by (auto simp: recovery_dwell_def)
  qed
qed

lemma recovery_step_Inl: "recovery_apply run elapsed action = Inl e \<Longrightarrow> recovery_step (elapsed, action) run = run"
  by simp

lemma unit_step_moves: "plane_steps p q = 1 \<Longrightarrow> p \<noteq> q"
  by (cases p; cases q) auto

text \<open>The five ways a call can end, as the laws of a hold need them.\<close>

lemma recovery_step_cases:
  assumes "recovery_good run"
  obtains (refused) "recovery_step (elapsed, a) run = run" "recovery_reached (elapsed, a) run = None"
  | (away) p where "recovery_last_ms run \<le> elapsed"
      "recovery_step (elapsed, a) run = run\<lparr> recovery_position := p, recovery_last_ms := elapsed, dwell_started_ms := None \<rparr>"
      "recovery_reached (elapsed, a) run = None"
  | (retrieved) "recovery_last_ms run \<le> elapsed" "recovery_phase run = Retrieve"
      "recovery_step (elapsed, a) run =
        run\<lparr> recovery_position := recovery_intake, recovery_last_ms := elapsed, recovery_phase := Transfer \<rparr>"
      "recovery_reached (elapsed, a) run = Some Retrieved"
  | (held) p t where "recovery_last_ms run \<le> elapsed" "recovery_phase run \<in> {Transfer, Delivery}"
      "recovery_station (recovery_phase run) = Some p"
      "dwell_started_ms run = Some t \<and> recovery_position run = p \<or> dwell_started_ms run = None \<and> t = elapsed"
      "recovery_step (elapsed, a) run =
        run\<lparr> recovery_position := p, recovery_last_ms := elapsed, dwell_started_ms := Some t \<rparr>"
      "recovery_reached (elapsed, a) run = None"
  | (finished) t phase c where "recovery_last_ms run \<le> elapsed" "dwell_started_ms run = Some t"
      "recovery_station (recovery_phase run) = Some (recovery_position run)" "unat t + 1200 \<le> unat elapsed"
      "(recovery_phase run, phase, c) \<in>
        {(Transfer, Delivery, Transferred), (Delivery, RecoveryCompleted, Delivered)}"
      "recovery_step (elapsed, a) run =
        run\<lparr> recovery_last_ms := elapsed, dwell_started_ms := None, recovery_phase := phase \<rparr>"
      "recovery_reached (elapsed, a) run = Some c"
proof (cases "recovery_apply run elapsed a")
  case (Inl e)
  then show ?thesis using refused by simp
next
  case (Inr u)
  then obtain p where le: "recovery_last_ms run \<le> elapsed" and going: "recovery_phase run \<noteq> RecoveryCompleted"
    and p: "p = (case a of RecoveryMove q \<Rightarrow> q | RecoveryObserve \<Rightarrow> recovery_position run)"
    and d: "recovery_dwell elapsed (run\<lparr> recovery_position := p, recovery_last_ms := elapsed \<rparr>) =
      (recovery_next u, recovery_checkpoint u)"
    by (rule recovery_apply_Inr)
  have moved: "p = recovery_position run \<or> p \<noteq> recovery_position run \<and> dwell_started_ms run = None \<or>
      recovery_station (recovery_phase run) \<noteq> Some p"
    using assms by (cases "dwell_started_ms run") (auto simp: recovery_good_def)
  have eqs: "recovery_step (elapsed, a) run = recovery_next u" "recovery_reached (elapsed, a) run = recovery_checkpoint u"
    using Inr by simp_all
  from d show ?thesis
  proof (cases rule: recovery_dwell_cases)
    case away
    then show ?thesis using eqs le that(2) [of p] by simp
  next
    case retrieved
    then show ?thesis using eqs le that(3) by simp
  next
    case (held t)
    then show ?thesis using eqs le moved that(4) [of p t] by auto
  next
    case (finished t phase)
    then have t: "dwell_started_ms run = Some t" and at: "p = recovery_position run" using moved by auto
    have "t \<le> elapsed" using assms t le by (auto simp: recovery_good_def)
    then have "unat t + 1200 \<le> unat elapsed"
      using finished(4) by (simp add: word_le_nat_alt unat_sub dwell_ms_def)
    then show ?thesis using eqs le finished t at that(5) [of t phase "the (recovery_checkpoint u)"] by auto
  qed
qed

lemma recovery_good_step: "recovery_good run \<Longrightarrow> recovery_good (recovery_step c run)"
proof (cases c)
  case (Pair elapsed a)
  assume good: "recovery_good run"
  have "recovery_good (recovery_step (elapsed, a) run)"
    using good by (cases rule: recovery_step_cases [OF good, of elapsed a])
      (auto simp: recovery_good_def intro: order_trans simp del: recovery_step.simps recovery_reached.simps)
  then show ?thesis using Pair by simp
qed

interpretation station: hold recovery_step recovery_good recovery_last_ms recovery_place dwell_started_ms
  "\<lambda>e s. recovery_reached e s \<in> {Some Transferred, Some Delivered}" 1200
proof
  fix e :: "u64 \<times> recovery_action" and s t
  assume good: "recovery_good s"
  then show "recovery_good (recovery_step e s)" by (rule recovery_good_step)
  obtain elapsed a where e: "e = (elapsed, a)" by (cases e)
  show "dwell_started_ms (recovery_step e s) = Some t \<Longrightarrow>
      t = recovery_last_ms (recovery_step e s) \<or>
      dwell_started_ms s = Some t \<and> recovery_place s = recovery_place (recovery_step e s)"
    unfolding e using good
    by (cases rule: recovery_step_cases [OF good, of elapsed a])
      (auto simp: recovery_place_def recovery_good_def simp del: recovery_step.simps recovery_reached.simps)
  show "recovery_reached e s \<in> {Some Transferred, Some Delivered} \<Longrightarrow>
      \<exists>t. dwell_started_ms s = Some t \<and> unat t + 1200 \<le> unat (recovery_last_ms (recovery_step e s))"
    unfolding e using good
    by (cases rule: recovery_step_cases [OF good, of elapsed a])
      (auto simp del: recovery_step.simps recovery_reached.simps)
qed

section \<open>Order and holds\<close>

fun recovery_reports :: "(u64 \<times> recovery_action) list \<Rightarrow> recovery_run \<Rightarrow> recovery_checkpoint list" where
  "recovery_reports [] run = []"
| "recovery_reports (c # cs) run =
     (case recovery_reached c run of None \<Rightarrow> [] | Some x \<Rightarrow> [x]) @ recovery_reports cs (recovery_step c run)"

fun recovery_passed :: "recovery_phase \<Rightarrow> recovery_checkpoint list" where
  "recovery_passed Retrieve = []"
| "recovery_passed Transfer = [Retrieved]"
| "recovery_passed Delivery = [Retrieved, Transferred]"
| "recovery_passed RecoveryCompleted = [Retrieved, Transferred, Delivered]"

lemma recovery_reports_passed:
  "recovery_good run \<Longrightarrow>
     recovery_passed (recovery_phase run) @ recovery_reports cs run =
     recovery_passed (recovery_phase (fold recovery_step cs run))"
proof (induction cs arbitrary: run)
  case (Cons c cs)
  obtain elapsed a where c: "c = (elapsed, a)" by (cases c)
  have "recovery_passed (recovery_phase run) @ (case recovery_reached c run of None \<Rightarrow> [] | Some x \<Rightarrow> [x]) =
      recovery_passed (recovery_phase (recovery_step c run))"
    unfolding c
    by (cases rule: recovery_step_cases [OF Cons.prems, of elapsed a])
      (auto simp del: recovery_step.simps recovery_reached.simps)
  then show ?case
    using Cons.IH [OF recovery_good_step [OF Cons.prems], of c]
    by (simp add: append_assoc [symmetric] del: append_assoc recovery_step.simps recovery_reached.simps)
qed simp

lemma new_recovery_good: "recovery_good new_recovery"
  by (simp add: recovery_good_def new_recovery_def)

text \<open>
  C26 (safety): the recovery circuit. Over any history of calls, accepted or refused, the
  checkpoints come in the order retrieved, transferred, delivered, as far as the phase says.
  The second and the third are only reported after the actor has been at that very station in
  every state since an accepted call at least 1200 ms before, without leaving.
\<close>

theorem recovery_stations_held:
  "recovery_reports cs new_recovery = recovery_passed (recovery_phase (fold recovery_step cs new_recovery)) \<and>
   (\<forall>now action c.
      recovery_reached (now, action) (fold recovery_step cs new_recovery) = Some c \<and> c \<noteq> Retrieved \<longrightarrow>
      (\<exists>m \<le> length cs.
        unat (recovery_last_ms (fold recovery_step (take m cs) new_recovery)) + 1200 \<le> unat now \<and>
        (\<forall>k. m \<le> k \<and> k \<le> length cs \<longrightarrow>
           recovery_position (fold recovery_step (take k cs) new_recovery) =
           (if c = Transferred then recovery_transfer else recovery_delivery))))"
proof (intro conjI allI impI)
  show "recovery_reports cs new_recovery = recovery_passed (recovery_phase (fold recovery_step cs new_recovery))"
    using recovery_reports_passed [OF new_recovery_good, of cs] by (simp add: new_recovery_def)
  fix now action c
  let ?at = "\<lambda>k. fold recovery_step (take k cs) new_recovery" and ?s = "fold recovery_step cs new_recovery"
  assume "recovery_reached (now, action) ?s = Some c \<and> c \<noteq> Retrieved"
  then have fire: "recovery_reached (now, action) ?s = Some c" "c \<noteq> Retrieved" by blast+
  have good: "recovery_good ?s" by (rule station.good_history [OF new_recovery_good])
  have "dwell_started_ms new_recovery = None" by (simp add: new_recovery_def)
  moreover have "recovery_reached (now, action) ?s \<in> {Some Transferred, Some Delivered}"
    using fire by (cases c) simp_all
  ultimately obtain m where m: "m \<le> length cs"
      "unat (recovery_last_ms (?at m)) + 1200 \<le> unat (recovery_last_ms (recovery_step (now, action) ?s))"
      "\<And>k. m \<le> k \<Longrightarrow> k \<le> length cs \<Longrightarrow> recovery_place (?at k) = recovery_place ?s"
    using station.fired_held [OF new_recovery_good] by blast
  have "recovery_last_ms (recovery_step (now, action) ?s) = now \<and>
      recovery_position ?s = (if c = Transferred then recovery_transfer else recovery_delivery)"
    using fire by (cases rule: recovery_step_cases [OF good, of now action])
      (auto simp del: recovery_step.simps recovery_reached.simps)
  then show "\<exists>m \<le> length cs. unat (recovery_last_ms (?at m)) + 1200 \<le> unat now \<and>
      (\<forall>k. m \<le> k \<and> k \<le> length cs \<longrightarrow>
         recovery_position (?at k) = (if c = Transferred then recovery_transfer else recovery_delivery))"
    using m by (auto simp: recovery_place_def)
qed

definition recovery_walk :: "(u64 \<times> recovery_action) list" where
  "recovery_walk =
    [(100, RecoveryMove (- 1, 0, - 4)), (200, RecoveryMove (- 1, 0, - 5)),
     (300, RecoveryMove (0, 0, - 5)), (400, RecoveryMove (1, 0, - 5)), (500, RecoveryMove (2, 0, - 5)),
     (600, RecoveryMove (3, 0, - 5)), (700, RecoveryMove (4, 0, - 5)), (1000, RecoveryObserve)]"

lemma recovery_walk_held:
  "recovery_reached (1900, RecoveryObserve) (fold recovery_step recovery_walk new_recovery) = Some Transferred"
  by code_simp

theorem recovery_stations_held_witness:
  "recovery_reached (1900, RecoveryObserve) (fold recovery_step recovery_walk new_recovery) = Some Transferred \<and>
   (\<exists>m \<le> 8. recovery_position (fold recovery_step (take m recovery_walk) new_recovery) = recovery_transfer)"
proof -
  have len: "length recovery_walk = 8" by (simp add: recovery_walk_def)
  obtain m where "m \<le> length recovery_walk"
      "\<forall>k. m \<le> k \<and> k \<le> length recovery_walk \<longrightarrow>
        recovery_position (fold recovery_step (take k recovery_walk) new_recovery) =
        (if Transferred = Transferred then recovery_transfer else recovery_delivery)"
    using recovery_stations_held [of recovery_walk] recovery_walk_held by blast
  then have "recovery_position (fold recovery_step (take m recovery_walk) new_recovery) = recovery_transfer"
    by simp
  then show ?thesis using \<open>m \<le> length recovery_walk\<close> len recovery_walk_held by auto
qed

end
