(* ===== verification/Signal.thy ===== *)
theory Signal
  imports Challenges Sentinel
begin

text \<open>
  The firing lane of the distant signal contract (\<open>src/runtime/challenges/src/signal.rs\<close>): a
  player duels the Signal Sentinel around its barrier. Every accepted move, shot and
  observation resolves a due sentinel shot first, at the position accepted before.
\<close>

section \<open>The run\<close>

definition signal_spawn :: pos where "signal_spawn = (- 4, 0, 4)"

datatype signal_action = SignalMove pos | SignalAttack | SignalObserve
datatype signal_terminal = SignalCompleted | SignalDefeated
datatype signal_error =
  SignalClockReversed | SignalInvalidMovement | SignalBlockedShot | SignalCooldown
| SignalOutOfRange | SignalTerminal

record signal_effect =
  outgoing_damage :: u32
  incoming_damage :: u32
  terminal :: "signal_terminal option"

definition no_signal_effect :: signal_effect where
  "no_signal_effect = \<lparr> outgoing_damage = 0, incoming_damage = 0, terminal = None \<rparr>"

record signal_run =
  signal_position :: pos
  signal_health :: u32
  signal_enemy_health :: u32
  signal_weapon :: string
  signal_build :: effective_profile
  signal_last_ms :: u64
  signal_next_shot_ms :: u64
  attack_ready_ms :: u64

record signal_update =
  signal_next :: signal_run
  signal_effect :: signal_effect

definition new_signal_run :: "equipment \<Rightarrow> challenge_error + signal_run" where
  "new_signal_run e =
     and_then (signal_profile e) (\<lambda>p.
     Inr \<lparr> signal_position = signal_spawn, signal_health = eff_max_health p,
           signal_enemy_health = sentinel_health, signal_weapon = weapon_id e, signal_build = p,
           signal_last_ms = 0, signal_next_shot_ms = shot_interval_ms, attack_ready_ms = 0 \<rparr>)"

definition signal_distance_squared :: "signal_run \<Rightarrow> int" where
  "signal_distance_squared run = squared_distance (signal_position run) sentinel_position"

fun signal_walkable :: "pos \<Rightarrow> bool" where
  "signal_walkable (x, y, z) \<longleftrightarrow>
     y = 0 \<and> - 9 \<le> x \<and> x \<le> 1 \<and> 0 \<le> z \<and> z \<le> 5 \<and> \<not> cover_blocks_segment (x, y, z) (x, y, z)"

text \<open>A step of one tile in the plane, not through the barrier; the \<open>i64\<close> differences of \<open>i32\<close>
  coordinates cannot overflow.\<close>

fun lane_step :: "pos \<Rightarrow> pos \<Rightarrow> bool" where
  "lane_step (fx, fy, fz) (tx, ty, tz) \<longleftrightarrow>
     signal_walkable (tx, ty, tz) \<and> \<bar>tx - fx\<bar> + \<bar>tz - fz\<bar> = 1 \<and>
     \<not> cover_blocks_segment (fx, fy, fz) (tx, ty, tz)"

definition signal_validate :: "signal_run \<Rightarrow> u64 \<Rightarrow> signal_action \<Rightarrow> signal_error + u32" where
  "signal_validate run elapsed action =
    (case action of
       SignalMove p \<Rightarrow> if \<not> lane_step (signal_position run) p then Inl SignalInvalidMovement else Inr 0
     | SignalAttack \<Rightarrow>
         if cover_blocks_segment (signal_position run) sentinel_position then Inl SignalBlockedShot
         else if elapsed < attack_ready_ms run then Inl SignalCooldown
         else if signal_distance_squared run > (eff_range (signal_build run))\<^sup>2 then Inl SignalOutOfRange
         else ok_or SignalOutOfRange
           (positioned_damage (signal_weapon run) (eff_damage (signal_build run)) (signal_distance_squared run))
     | SignalObserve \<Rightarrow> Inr 0)"

text \<open>The due sentinel shot at the position accepted before.\<close>

definition signal_fire :: "signal_run \<Rightarrow> u64 \<Rightarrow> signal_run \<times> signal_effect" where
  "signal_fire run elapsed =
    (let next = run\<lparr> signal_last_ms := elapsed \<rparr> in
     if elapsed \<ge> signal_next_shot_ms run
     then
       let next = next\<lparr> signal_next_shot_ms := sat_add elapsed shot_interval_ms \<rparr> in
       if signal_distance_squared run \<le> shot_range_squared \<and>
          \<not> cover_blocks_segment (signal_position run) sentinel_position
       then (next\<lparr> signal_health := sat_sub (signal_health next) shot_damage \<rparr>,
             no_signal_effect\<lparr> incoming_damage := shot_damage \<rparr>)
       else (next, no_signal_effect)
     else (next, no_signal_effect))"

definition signal_act ::
  "u64 \<Rightarrow> signal_action \<Rightarrow> u32 \<Rightarrow> signal_run \<times> signal_effect \<Rightarrow> signal_run \<times> signal_effect" where
  "signal_act elapsed action requested s =
    (case s of (next, effect) \<Rightarrow>
       if signal_health next = 0 then (next, effect\<lparr> terminal := Some SignalDefeated \<rparr>)
       else (case action of
         SignalMove p \<Rightarrow> (next\<lparr> signal_position := p \<rparr>, effect)
       | SignalAttack \<Rightarrow>
           let next = next\<lparr> signal_enemy_health := sat_sub (signal_enemy_health next) requested,
                           attack_ready_ms := sat_add elapsed (eff_cooldown_ms (signal_build next)) \<rparr>;
               effect = effect\<lparr> outgoing_damage := requested \<rparr> in
           (next, if signal_enemy_health next = 0 then effect\<lparr> terminal := Some SignalCompleted \<rparr> else effect)
       | SignalObserve \<Rightarrow> (next, effect)))"

definition signal_apply :: "signal_run \<Rightarrow> u64 \<Rightarrow> signal_action \<Rightarrow> signal_error + signal_update" where
  "signal_apply run elapsed action =
    (if signal_health run = 0 \<or> signal_enemy_health run = 0 then Inl SignalTerminal
     else if elapsed < signal_last_ms run then Inl SignalClockReversed
     else
       and_then (signal_validate run elapsed action) (\<lambda>requested.
       case signal_act elapsed action requested (signal_fire run elapsed) of
         (next, effect) \<Rightarrow> Inr \<lparr> signal_next = next, signal_effect = effect \<rparr>))"

section \<open>The lane\<close>

lemma cover_lane:
  assumes "cover_scale fx" and "cover_scale fz" and "cover_scale tx" and "cover_scale tz"
    and "cover_blocks_segment (fx, fy, fz) (tx, ty, tz)"
  obtains t where "0 \<le> t" "t \<le> 1" "slab (- 6) (- 2) fx tx t" "slab (1 / 2) (3 / 2) fz tz t"
  using assms cover_blocks_geometry [OF assms(1-4), of fy ty] by blast

lemma spawn_walkable: "signal_walkable signal_spawn"
proof -
  have "\<not> cover_blocks_segment signal_spawn signal_spawn"
    unfolding signal_spawn_def
    by (subst cover_blocks_geometry) (auto simp: cover_scale_def slab_def)
  then show ?thesis by (simp add: signal_spawn_def)
qed

text \<open>Every walkable point is within the sentinel's range.\<close>

lemma walkable_in_range:
  assumes "signal_walkable p"
  shows "squared_distance p sentinel_position \<le> shot_range_squared"
proof -
  obtain x y z where p: "p = (x, y, z)" by (cases p)
  then have xz: "y = 0" "- 9 \<le> x" "x \<le> 1" "0 \<le> z" "z \<le> 5" using assms by simp_all
  have "squared_distance (x, y, z) (- 4, 0, - 4) = (x - - 4)\<^sup>2 + (y - 0)\<^sup>2 + (z - - 4)\<^sup>2"
    by (rule squared_distance_exact) (use xz in simp_all)
  moreover have "(x - - 4)\<^sup>2 \<le> 5\<^sup>2" using xz by (intro abs_le_square_iff [THEN iffD1]) simp
  moreover have "(z - - 4)\<^sup>2 \<le> 9\<^sup>2" using xz by (intro abs_le_square_iff [THEN iffD1]) simp
  ultimately show ?thesis using xz by (simp add: p sentinel_position_def shot_range_squared_def)
qed

section \<open>Histories\<close>

text \<open>The gateway keeps its run when a call is refused.\<close>

fun signal_step :: "u64 \<times> signal_action \<Rightarrow> signal_run \<Rightarrow> signal_run \<times> signal_effect option" where
  "signal_step (elapsed, action) run =
    (case signal_apply run elapsed action of
       Inl _ \<Rightarrow> (run, None)
     | Inr u \<Rightarrow> (signal_next u, Some (signal_effect u)))"

lemma sat_sub_0 [simp]: "sat_sub a 0 = a"
  by (simp add: sat_sub_def)

text \<open>The accepted call in one equation per field.\<close>

definition sentinel_hits :: "signal_run \<Rightarrow> u64 \<Rightarrow> bool" where
  "sentinel_hits run elapsed \<longleftrightarrow>
     signal_next_shot_ms run \<le> elapsed \<and>
     \<not> cover_blocks_segment (signal_position run) sentinel_position"

lemma signal_apply_Inr:
  assumes "signal_apply run elapsed action = Inr u"
  obtains requested where "signal_health run \<noteq> 0" "signal_enemy_health run \<noteq> 0"
    "signal_last_ms run \<le> elapsed" "signal_validate run elapsed action = Inr requested"
    "signal_act elapsed action requested (signal_fire run elapsed) = (signal_next u, signal_effect u)"
proof -
  obtain requested where ok: "signal_health run \<noteq> 0" "signal_enemy_health run \<noteq> 0"
      "signal_last_ms run \<le> elapsed" "signal_validate run elapsed action = Inr requested"
    and u: "(case signal_act elapsed action requested (signal_fire run elapsed) of
      (nx, effect) \<Rightarrow> Inr \<lparr> signal_next = nx, signal_effect = effect \<rparr>) = (Inr u :: signal_error + signal_update)"
    using assms by (auto simp: signal_apply_def and_then_Inr not_less split: if_splits)
  have "signal_act elapsed action requested (signal_fire run elapsed) = (signal_next u, signal_effect u)"
    using u by (cases "signal_act elapsed action requested (signal_fire run elapsed)") auto
  with ok that show thesis by blast
qed

lemma signal_step_Some:
  assumes "signal_step (elapsed, action) run = (run', Some eff)" and "signal_walkable (signal_position run)"
  obtains requested where
    "signal_health run \<noteq> 0" "signal_enemy_health run \<noteq> 0" "signal_last_ms run \<le> elapsed"
    "signal_validate run elapsed action = Inr requested"
    "incoming_damage eff = (if sentinel_hits run elapsed then 12 else 0)"
    "signal_health run' = sat_sub (signal_health run) (incoming_damage eff)"
    "outgoing_damage eff = (if action = SignalAttack \<and> signal_health run' \<noteq> 0 then requested else 0)"
    "signal_enemy_health run' = sat_sub (signal_enemy_health run) (outgoing_damage eff)"
    "terminal eff = (if signal_health run' = 0 then Some SignalDefeated
       else if signal_enemy_health run' = 0 then Some SignalCompleted else None)"
    "signal_last_ms run' = elapsed" "signal_build run' = signal_build run"
    "signal_next_shot_ms run' =
       (if signal_next_shot_ms run \<le> elapsed then sat_add elapsed shot_interval_ms else signal_next_shot_ms run)"
    "attack_ready_ms run' =
       (if action = SignalAttack \<and> signal_health run' \<noteq> 0
        then sat_add elapsed (eff_cooldown_ms (signal_build run)) else attack_ready_ms run)"
    "signal_position run' =
       (case action of SignalMove p \<Rightarrow> if signal_health run' = 0 then signal_position run else p
        | _ \<Rightarrow> signal_position run)"
proof -
  obtain u where u: "signal_apply run elapsed action = Inr u" "run' = signal_next u" "eff = signal_effect u"
    using assms(1) by (auto split: sum.splits)
  obtain requested where ok: "signal_health run \<noteq> 0" "signal_enemy_health run \<noteq> 0"
      "signal_last_ms run \<le> elapsed" "signal_validate run elapsed action = Inr requested"
    and u: "signal_act elapsed action requested (signal_fire run elapsed) = (run', eff)"
    using signal_apply_Inr [OF u(1)] u(2,3) by metis
  let ?next = "fst (signal_fire run elapsed)" and ?hit = "if sentinel_hits run elapsed then 12 else 0 :: u32"
  have range: "signal_distance_squared run \<le> shot_range_squared"
    using walkable_in_range [OF assms(2)] by (simp add: signal_distance_squared_def)
  have fire: "signal_health ?next = sat_sub (signal_health run) ?hit"
      "incoming_damage (snd (signal_fire run elapsed)) = ?hit"
      "outgoing_damage (snd (signal_fire run elapsed)) = 0" "terminal (snd (signal_fire run elapsed)) = None"
      "signal_enemy_health ?next = signal_enemy_health run" "signal_last_ms ?next = elapsed"
      "signal_build ?next = signal_build run" "attack_ready_ms ?next = attack_ready_ms run"
      "signal_position ?next = signal_position run"
      "signal_next_shot_ms ?next =
       (if signal_next_shot_ms run \<le> elapsed then sat_add elapsed shot_interval_ms else signal_next_shot_ms run)"
    using range by (simp_all add: signal_fire_def Let_def sentinel_hits_def no_signal_effect_def shot_damage_def sat_sub_def)
  obtain nx eff0 where s: "signal_fire run elapsed = (nx, eff0)" by (cases "signal_fire run elapsed")
  note u = u [unfolded s signal_act_def prod.case] and fire = fire [unfolded s fst_conv snd_conv]
  show thesis
  proof (cases "signal_health nx = 0")
    case True
    then have "run' = nx" "eff = eff0\<lparr> terminal := Some SignalDefeated \<rparr>" using u by simp_all
    then show ?thesis using fire True by (intro that [OF ok]) (simp_all split: signal_action.split)
  next
    case alive: False
    show ?thesis
    proof (cases action)
      case (SignalMove p)
      then have "run' = nx\<lparr> signal_position := p \<rparr>" "eff = eff0" using u alive by simp_all
      then show ?thesis using fire alive SignalMove ok(2) by (intro that [OF ok]) simp_all
    next
      case SignalAttack
      then have "run' = nx\<lparr> signal_enemy_health := sat_sub (signal_enemy_health nx) requested,
            attack_ready_ms := sat_add elapsed (eff_cooldown_ms (signal_build nx)) \<rparr>"
          "eff = (if sat_sub (signal_enemy_health nx) requested = 0
            then eff0\<lparr> outgoing_damage := requested, terminal := Some SignalCompleted \<rparr>
            else eff0\<lparr> outgoing_damage := requested \<rparr>)"
        using u alive by (auto simp: Let_def)
      then show ?thesis using fire alive SignalAttack by (intro that [OF ok]) simp_all
    next
      case SignalObserve
      then have "run' = nx" "eff = eff0" using u alive by simp_all
      then show ?thesis using fire alive SignalObserve ok(2) by (intro that [OF ok]) simp_all
    qed
  qed
qed

definition signal_good :: "effective_profile \<Rightarrow> signal_run \<Rightarrow> bool" where
  "signal_good p run \<longleftrightarrow>
     signal_build run = p \<and> signal_walkable (signal_position run) \<and>
     (signal_health run = 0 \<longrightarrow> signal_enemy_health run \<noteq> 0)"

lemma signal_step_good:
  assumes "signal_good p run" and "signal_step c run = (run', r)"
  shows "signal_good p run'"
proof -
  obtain elapsed action where c: "c = (elapsed, action)" by (cases c)
  have good: "signal_build run = p" "signal_walkable (signal_position run)" using assms(1) by (simp_all add: signal_good_def)
  show ?thesis
  proof (cases r)
    case None
    then have "run' = run" using assms(2) by (auto simp: c split: sum.splits)
    then show ?thesis using assms(1) by simp
  next
    case (Some eff)
    from assms(2) have "signal_step (elapsed, action) run = (run', Some eff)" by (simp only: c Some)
    then obtain requested where
      alive: "signal_enemy_health run \<noteq> 0"
      and v: "signal_validate run elapsed action = Inr requested"
      and out: "outgoing_damage eff = (if action = SignalAttack \<and> signal_health run' \<noteq> 0 then requested else 0)"
      and enemy: "signal_enemy_health run' = sat_sub (signal_enemy_health run) (outgoing_damage eff)"
      and build: "signal_build run' = signal_build run"
      and pos: "signal_position run' =
        (case action of SignalMove p \<Rightarrow> if signal_health run' = 0 then signal_position run else p
         | _ \<Rightarrow> signal_position run)"
      by (rule signal_step_Some [OF _ good(2)]) (rule that)
    have "signal_walkable (signal_position run')"
    proof (cases action)
      case (SignalMove q)
      then have "lane_step (signal_position run) q" using v by (simp add: signal_validate_def split: if_splits)
      then have "signal_walkable q" by (cases q; cases "signal_position run") simp
      then show ?thesis using good pos SignalMove by simp
    qed (use good pos in simp_all)
    moreover have "signal_health run' = 0 \<longrightarrow> signal_enemy_health run' \<noteq> 0" using alive out enemy by simp
    ultimately show ?thesis using good build by (simp add: signal_good_def)
  qed
qed

text \<open>The run has its own clock: what it accepts is in order of time.\<close>

lemma signal_clock:
  "signal_step c run = (run, None) \<or>
   signal_last_ms run \<le> fst c \<and> signal_last_ms (fst (signal_step c run)) = fst c"
proof (cases c)
  case (Pair elapsed action)
  have act: "signal_last_ms (fst (signal_act elapsed action q (signal_fire run elapsed))) = elapsed" for q
    by (auto simp: signal_act_def signal_fire_def Let_def split: signal_action.split)
  show ?thesis
  proof (cases "signal_apply run elapsed action")
    case (Inr u)
    obtain requested where "signal_last_ms run \<le> elapsed"
        "signal_act elapsed action requested (signal_fire run elapsed) = (signal_next u, signal_effect u)"
      by (rule signal_apply_Inr [OF Inr])
    then show ?thesis using Inr act [of requested] by (simp add: Pair)
  qed (simp add: Pair)
qed

section \<open>Two cadences\<close>

lemma watching_Some:
  "watching P step c b = (b', Some a) \<longleftrightarrow> step c b = (b', Some a) \<and> P a"
  by (auto simp: watching_def split: prod.splits option.splits)

lemma watching_step: "watching P step c b = (b', r) \<Longrightarrow> \<exists>r'. step c b = (b', r')"
  by (auto simp: watching_def split: prod.splits option.splits)

lemma signal_step_None: "signal_step c run = (run', None) \<Longrightarrow> run' = run"
  by (cases c) (auto split: sum.splits)

lemma signal_good_walkable: "signal_good p run \<Longrightarrow> signal_walkable (signal_position run)"
  by (simp add: signal_good_def)

text \<open>What the two cadences see of an accepted call.\<close>

lemma cadence_step:
  assumes "signal_step c run = (run', Some eff)" and "signal_good p run"
  shows "incoming_damage eff \<noteq> 0 \<Longrightarrow>
      signal_next_shot_ms run \<le> fst c \<and> signal_next_shot_ms run' = sat_add (fst c) shot_interval_ms"
    and "signal_next_shot_ms run \<le> signal_next_shot_ms run'"
    and "outgoing_damage eff \<noteq> 0 \<Longrightarrow>
      attack_ready_ms run \<le> fst c \<and> attack_ready_ms run' = sat_add (fst c) (eff_cooldown_ms p)"
    and "attack_ready_ms run \<le> attack_ready_ms run'"
proof -
  obtain elapsed action where c: "c = (elapsed, action)" by (cases c)
  have good: "signal_build run = p" "signal_walkable (signal_position run)" using assms(2) by (simp_all add: signal_good_def)
  obtain requested where
      v: "signal_validate run elapsed action = Inr requested"
    and hit: "incoming_damage eff = (if sentinel_hits run elapsed then 12 else 0)"
    and out: "outgoing_damage eff = (if action = SignalAttack \<and> signal_health run' \<noteq> 0 then requested else 0)"
    and shot: "signal_next_shot_ms run' =
       (if signal_next_shot_ms run \<le> elapsed then sat_add elapsed shot_interval_ms else signal_next_shot_ms run)"
    and ready: "attack_ready_ms run' =
       (if action = SignalAttack \<and> signal_health run' \<noteq> 0
        then sat_add elapsed (eff_cooldown_ms (signal_build run)) else attack_ready_ms run)"
    by (rule signal_step_Some [OF assms(1) [unfolded c] good(2)]) (rule that)
  have le: "signal_next_shot_ms run \<le> elapsed \<Longrightarrow> signal_next_shot_ms run \<le> sat_add elapsed shot_interval_ms"
    by (erule order_trans) (rule sat_add_ge)
  have cool: "action = SignalAttack \<Longrightarrow> attack_ready_ms run \<le> elapsed"
    using v by (auto simp: signal_validate_def split: if_splits)
  have later: "action = SignalAttack \<Longrightarrow> attack_ready_ms run \<le> sat_add elapsed x" for x
    using cool by (meson order_trans sat_add_ge)
  show "incoming_damage eff \<noteq> 0 \<Longrightarrow>
      signal_next_shot_ms run \<le> fst c \<and> signal_next_shot_ms run' = sat_add (fst c) shot_interval_ms"
    using hit shot by (auto simp: c sentinel_hits_def split: if_splits)
  show "signal_next_shot_ms run \<le> signal_next_shot_ms run'" using shot le by simp
  show "outgoing_damage eff \<noteq> 0 \<Longrightarrow>
      attack_ready_ms run \<le> fst c \<and> attack_ready_ms run' = sat_add (fst c) (eff_cooldown_ms p)"
    using out ready cool good by (auto simp: c split: if_splits)
  show "attack_ready_ms run \<le> attack_ready_ms run'" using ready later by simp
qed

lemma cadence_kept:
  assumes "watching P signal_step c run = (run', r)" and "signal_good p run"
  shows "signal_good p run'" and "signal_next_shot_ms run \<le> signal_next_shot_ms run'"
    and "attack_ready_ms run \<le> attack_ready_ms run'"
proof -
  obtain r' where st: "signal_step c run = (run', r')" using watching_step [OF assms(1)] by blast
  show "signal_good p run'" by (rule signal_step_good [OF assms(2) st])
  show "signal_next_shot_ms run \<le> signal_next_shot_ms run'" "attack_ready_ms run \<le> attack_ready_ms run'"
    using st signal_step_None [of c run run'] cadence_step(2,4) [OF _ assms(2), of c run']
    by (cases r'; blast intro: order_refl)+
qed

interpretation shots: paced "watching (\<lambda>eff. incoming_damage eff \<noteq> 0) signal_step" fst
  "\<lambda>_. signal_good p" signal_next_shot_ms "\<lambda>_. shot_interval_ms" for p
  by (unfold_locales; (erule cadence_kept; assumption)?)
    (auto simp: watching_Some dest: cadence_step(1))

interpretation attacks: paced "watching (\<lambda>eff. outgoing_damage eff \<noteq> 0) signal_step" fst
  "\<lambda>_. signal_good p" attack_ready_ms "\<lambda>_. eff_cooldown_ms p" for p
  by (unfold_locales; (erule cadence_kept; assumption)?)
    (auto simp: watching_Some dest: cadence_step(3))

section \<open>The ledger of a duel\<close>

definition damage_total :: "(signal_effect \<Rightarrow> u32) \<Rightarrow> (u64 \<times> signal_effect) list \<Rightarrow> nat" where
  "damage_total part acts = (\<Sum>(t, eff) \<leftarrow> acts. unat (part eff))"

lemma damage_total_simps [simp]:
  "damage_total part [] = 0"
  "damage_total part ((t, eff) # acts) = unat (part eff) + damage_total part acts"
  by (simp_all add: damage_total_def)

lemma duel_over:
  "signal_health run = 0 \<or> signal_enemy_health run = 0 \<Longrightarrow> run_brain signal_step fst es run = (run, [])"
proof (induction es)
  case (Cons c es)
  then have "signal_step c run = (run, None)" by (cases c) (auto simp: signal_apply_def)
  with Cons show ?case by simp
qed simp

lemma signal_ledger:
  assumes "run_brain signal_step fst es run = (run', acts)" and "signal_good p run"
  shows "unat (signal_health run') = unat (signal_health run) - damage_total incoming_damage acts \<and>
    unat (signal_enemy_health run') = unat (signal_enemy_health run) - damage_total outgoing_damage acts \<and>
    (signal_health run \<noteq> 0 \<longrightarrow> signal_enemy_health run \<noteq> 0 \<longrightarrow>
      ((\<exists>(t, eff) \<in> set acts. terminal eff = Some SignalDefeated) \<longleftrightarrow> signal_health run' = 0) \<and>
      ((\<exists>(t, eff) \<in> set acts. terminal eff = Some SignalCompleted) \<longleftrightarrow> signal_enemy_health run' = 0))"
  using assms
proof (induction es arbitrary: run acts)
  case (Cons c es)
  obtain run1 r where st: "signal_step c run = (run1, r)" by (cases "signal_step c run")
  obtain run2 acts2 where rn: "run_brain signal_step fst es run1 = (run2, acts2)" by fastforce
  have good: "signal_good p run1" if "signal_good p run" by (rule signal_step_good [OF that st])
  show ?case
  proof (cases r)
    case None
    then have "run1 = run" using st signal_step_None by blast
    then have "run_brain signal_step fst es run = (run', acts)" using Cons.prems(1) st rn None by simp
    then show ?thesis using Cons.prems(2) by (rule Cons.IH)
  next
    case (Some eff)
    obtain elapsed action where c: "c = (elapsed, action)" by (cases c)
    note g = Cons.prems(2)
    have acts: "acts = (elapsed, eff) # acts2" "run2 = run'" using Cons.prems(1) st rn Some c by auto
    have walk: "signal_walkable (signal_position run)" using g by (simp add: signal_good_def)
    have st': "signal_step (elapsed, action) run = (run1, Some eff)" using st c Some by simp
    have eff: "signal_health run1 = sat_sub (signal_health run) (incoming_damage eff) \<and>
        signal_enemy_health run1 = sat_sub (signal_enemy_health run) (outgoing_damage eff) \<and>
        terminal eff = (if signal_health run1 = 0 then Some SignalDefeated
          else if signal_enemy_health run1 = 0 then Some SignalCompleted else None)"
      by (rule signal_step_Some [OF st' walk]) simp
    have ends: "acts2 = [] \<and> run' = run1" if "signal_health run1 = 0 \<or> signal_enemy_health run1 = 0"
      using duel_over [OF that, of es] rn acts(2) by simp
    have both: "\<not> (signal_health run1 = 0 \<and> signal_enemy_health run1 = 0)"
      using good [OF g] by (auto simp: signal_good_def)
    have IH: "(unat (signal_health run') = unat (signal_health run1) - damage_total incoming_damage acts2 \<and>
        unat (signal_enemy_health run') = unat (signal_enemy_health run1) - damage_total outgoing_damage acts2) \<and>
      (signal_health run1 \<noteq> 0 \<longrightarrow> signal_enemy_health run1 \<noteq> 0 \<longrightarrow>
        ((\<exists>(t, eff) \<in> set acts2. terminal eff = Some SignalDefeated) \<longleftrightarrow> signal_health run' = 0) \<and>
        ((\<exists>(t, eff) \<in> set acts2. terminal eff = Some SignalCompleted) \<longleftrightarrow> signal_enemy_health run' = 0))"
      using Cons.IH [of run1 acts2] rn good [OF g] acts(2) by blast
    have sums: "unat (signal_health run') = unat (signal_health run) - damage_total incoming_damage acts"
        "unat (signal_enemy_health run') = unat (signal_enemy_health run) - damage_total outgoing_damage acts"
      using IH eff by (simp_all add: acts(1) unat_sat_sub)
    moreover have "((\<exists>(t, eff) \<in> set acts. terminal eff = Some SignalDefeated) \<longleftrightarrow> signal_health run' = 0) \<and>
        ((\<exists>(t, eff) \<in> set acts. terminal eff = Some SignalCompleted) \<longleftrightarrow> signal_enemy_health run' = 0)"
    proof (cases "signal_health run1 = 0 \<or> signal_enemy_health run1 = 0")
      case True
      then show ?thesis using ends both eff by (auto simp: acts(1))
    next
      case False
      then show ?thesis using IH eff by (simp add: acts(1))
    qed
    ultimately show ?thesis by blast
  qed
qed auto

lemma new_signal_run_Inr:
  assumes "new_signal_run e = Inr run"
  shows "signal_good (signal_build run) run" and "signal_health run \<noteq> 0"
    and "signal_health run = eff_max_health (signal_build run)" and "signal_enemy_health run = 200"
proof -
  obtain p where p: "signal_profile e = Inr p" and run: "signal_build run = p"
      "signal_health run = eff_max_health p" "signal_enemy_health run = 200" "signal_position run = signal_spawn"
    using assms by (auto simp: new_signal_run_def and_then_Inr sentinel_health_def)
  then have "equipment_profile e = Inr p" by (auto simp: signal_profile_def and_then_Inr split: if_splits)
  then have "80 \<le> unat (eff_max_health p)" by (rule equipment_profile_health)
  then show "signal_health run \<noteq> 0" using run by auto
  then show "signal_good (signal_build run) run" "signal_enemy_health run = 200"
    "signal_health run = eff_max_health (signal_build run)"
    using run spawn_walkable by (simp_all add: signal_good_def)
qed

text \<open>
  The ledger of a duel. Over any history of calls, accepted or refused, in
  any order of their time stamps: the player's health is the build's maximum less the damage
  reported as incoming, the sentinel's is 200 less the damage reported as outgoing, both
  stopping at zero; a completion is reported exactly when the sentinel has fallen, a defeat
  exactly when the player has; hits of the sentinel are at least its 1800 ms apart, hits of the
  player at least the cooldown of the build.
\<close>

theorem signal_duel_ledger:
  assumes "new_signal_run e = Inr start"
    and "run_brain signal_step fst calls start = (run, acts)"
  shows "unat (signal_health run) =
      unat (eff_max_health (signal_build start)) - damage_total incoming_damage acts \<and>
    unat (signal_enemy_health run) = 200 - damage_total outgoing_damage acts \<and>
    ((\<exists>(t, eff) \<in> set acts. terminal eff = Some SignalCompleted) \<longleftrightarrow> signal_enemy_health run = 0) \<and>
    ((\<exists>(t, eff) \<in> set acts. terminal eff = Some SignalDefeated) \<longleftrightarrow> signal_health run = 0) \<and>
    spaced (\<lambda>_. shot_interval_ms) (filter (\<lambda>(t, eff). incoming_damage eff \<noteq> 0) acts) \<and>
    spaced (\<lambda>_. eff_cooldown_ms (signal_build start))
      (filter (\<lambda>(t, eff). outgoing_damage eff \<noteq> 0) acts)"
proof -
  note new = new_signal_run_Inr [OF assms(1)]
  obtain es where es: "clocked fst (signal_last_ms start) es" "run_brain signal_step fst es start = (run, acts)"
    using clocked_run [where step = signal_step and clock = signal_last_ms and time = fst and b = start and es = calls]
      signal_clock assms(2) by auto
  have "spaced (\<lambda>_. shot_interval_ms) (filter (\<lambda>(t, eff). incoming_damage eff \<noteq> 0) acts)"
    by (rule shots.actions_spaced [OF new(1) es(1) run_brain_watching [OF es(2)]])
  moreover have "spaced (\<lambda>_. eff_cooldown_ms (signal_build start))
      (filter (\<lambda>(t, eff). outgoing_damage eff \<noteq> 0) acts)"
    by (rule attacks.actions_spaced [OF new(1) es(1) run_brain_watching [OF es(2)]])
  ultimately show ?thesis
    using signal_ledger [OF assms(2) new(1)] new(2-4) by simp
qed

section \<open>Example\<close>

lemma rifle_start: "\<exists>start. new_signal_run rifle_equipment = Inr start"
  by (rule rifle_profile) (simp add: new_signal_run_def signal_profile_def)

lemma lane_open:
  "lane_step (- 4, 0, 4) (- 5, 0, 4)" "lane_step (- 5, 0, 4) (- 6, 0, 4)" "lane_step (- 6, 0, 4) (- 7, 0, 4)"
  "lane_step (- 7, 0, 4) (- 7, 0, 3)" "lane_step (- 7, 0, 3) (- 7, 0, 2)"
  "\<not> cover_blocks_segment (- 7, 0, 2) sentinel_position"
  by code_simp+

definition lane_walk :: "(u64 \<times> signal_action) list" where
  "lane_walk =
    [(100, SignalMove (- 5, 0, 4)), (200, SignalMove (- 6, 0, 4)), (300, SignalMove (- 7, 0, 4)),
     (400, SignalMove (- 7, 0, 3)), (500, SignalMove (- 7, 0, 2)), (1800, SignalObserve)]"

theorem signal_duel_ledger_witness:
  "\<exists>start run acts. new_signal_run rifle_equipment = Inr start \<and>
     run_brain signal_step fst lane_walk start = (run, acts) \<and>
     damage_total incoming_damage acts = 12 \<and>
     unat (signal_health run) = unat (eff_max_health (signal_build start)) - 12"
proof -
  obtain start where start: "new_signal_run rifle_equipment = Inr start" using rifle_start by blast
  note new = new_signal_run_Inr [OF start]
  have fields: "signal_position start = (- 4, 0, 4)" "signal_last_ms start = 0" "signal_next_shot_ms start = 1800"
    using start by (auto simp: new_signal_run_def and_then_Inr signal_spawn_def shot_interval_ms_def)
  have hp: "12 < signal_health start"
  proof -
    have "80 \<le> unat (signal_health start)"
      using start equipment_profile_health(1)
      by (auto simp: new_signal_run_def signal_profile_def and_then_Inr split: if_splits)
    then show ?thesis by (simp add: word_less_nat_alt)
  qed
  then have alive: "sat_sub (signal_health start) 12 \<noteq> 0" by (auto simp: sat_sub_def)
  have range: "squared_distance (- 7, 0, 2) sentinel_position \<le> shot_range_squared"
    by (simp add: sentinel_position_def shot_range_squared_def wrap_i64_def)
  obtain run acts where run: "run_brain signal_step fst lane_walk start = (run, acts)" by fastforce
  then have "damage_total incoming_damage acts = 12"
    using fields new(2,4) alive range lane_open
    by (auto simp: lane_walk_def signal_apply_def signal_validate_def signal_fire_def signal_act_def Let_def
        shot_damage_def no_signal_effect_def signal_distance_squared_def del: lane_step.simps squared_distance.simps)
  then show ?thesis using start run signal_duel_ledger [OF start run] by auto
qed

end
