(* ===== verification/Survival.thy ===== *)
theory Survival
  imports Signal Holding
begin

text \<open>
  The last reserve run (\<open>src/runtime/challenges/src/survival.rs\<close>): charge two exposed relays
  under the fire of the sentinel, then return to cover alive; one sheltered pad restores a
  bounded amount of health once.
\<close>

section \<open>The run\<close>

definition survival_spawn :: pos where "survival_spawn = signal_spawn"
definition west_relay :: pos where "west_relay = (- 8, 0, 0)"
definition east_relay :: pos where "east_relay = (0, 0, 0)"
definition reserve_pad :: pos where "reserve_pad = (- 4, 0, 5)"
definition charge_ms :: u64 where "charge_ms = 3600"
definition recovery_ms :: u64 where "recovery_ms = 1200"
definition recovery_health :: u32 where "recovery_health = 36"

datatype survival_action = SurvivalMove pos | SurvivalObserve
datatype survival_checkpoint = WestCharged | EastCharged | SurvivalReturned
datatype survival_phase = WestPhase | EastPhase | ReturnPhase | SurvivalCompleted
datatype survival_error = SurvivalClockReversed | SurvivalInvalidMovement | SurvivalTerminal

record survival_effect =
  survival_damage :: u32
  recovered_health :: u32
  survival_checkpoint :: "survival_checkpoint option"
  survival_defeated :: bool

definition no_survival_effect :: survival_effect where
  "no_survival_effect = \<lparr> survival_damage = 0, recovered_health = 0, survival_checkpoint = None,
     survival_defeated = False \<rparr>"

record survival_run =
  survival_position :: pos
  survival_health :: u32
  survival_max_health :: u32
  survival_phase :: survival_phase
  reserve_used :: bool
  survival_last_ms :: u64
  survival_next_shot_ms :: u64
  charge_started_ms :: "u64 option"
  reserve_started_ms :: "u64 option"

record survival_update =
  survival_next :: survival_run
  survival_effect :: survival_effect

definition new_survival_run :: "equipment \<Rightarrow> challenge_error + survival_run" where
  "new_survival_run e =
     and_then (equipment_profile e) (\<lambda>p.
     Inr \<lparr> survival_position = survival_spawn, survival_health = eff_max_health p,
           survival_max_health = eff_max_health p, survival_phase = WestPhase, reserve_used = False,
           survival_last_ms = 0, survival_next_shot_ms = shot_interval_ms,
           charge_started_ms = None, reserve_started_ms = None \<rparr>)"

text \<open>What is left of a hold, for the client.\<close>

definition charge_remaining_ms :: "survival_run \<Rightarrow> u64 option" where
  "charge_remaining_ms run =
    (if survival_health run > 0 \<and> survival_phase run \<noteq> SurvivalCompleted
     then map_option (\<lambda>t. sat_sub charge_ms (survival_last_ms run - t)) (charge_started_ms run)
     else None)"

definition recovery_remaining_ms :: "survival_run \<Rightarrow> u64 option" where
  "recovery_remaining_ms run =
    (if survival_health run > 0
     then map_option (\<lambda>t. sat_sub recovery_ms (survival_last_ms run - t)) (reserve_started_ms run)
     else None)"

text \<open>\<open>into_iter().flatten().min()\<close> over the next shot and the pending holds.\<close>

definition next_observation_ms :: "survival_run \<Rightarrow> u64" where
  "next_observation_ms run =
    foldl min (survival_next_shot_ms run)
      ((case charge_started_ms run of None \<Rightarrow> [] | Some t \<Rightarrow> [sat_add t charge_ms]) @
       (case reserve_started_ms run of None \<Rightarrow> [] | Some t \<Rightarrow> [sat_add t recovery_ms]))"

definition survival_recover ::
  "u64 \<Rightarrow> survival_run \<times> survival_effect \<Rightarrow> survival_run \<times> survival_effect" where
  "survival_recover elapsed s =
    (case s of (run, effect) \<Rightarrow>
       if reserve_used run \<or> survival_health run = survival_max_health run \<or>
          survival_position run \<noteq> reserve_pad
       then (run\<lparr> reserve_started_ms := None \<rparr>, effect)
       else
         let started = (case reserve_started_ms run of Some t \<Rightarrow> t | None \<Rightarrow> elapsed);
             run = run\<lparr> reserve_started_ms := Some started \<rparr> in
         if elapsed - started \<ge> recovery_ms
         then
           let gain = min recovery_health (survival_max_health run - survival_health run) in
           (run\<lparr> survival_health := survival_health run + gain, reserve_used := True,
                 reserve_started_ms := None \<rparr>,
            effect\<lparr> recovered_health := gain \<rparr>)
         else (run, effect))"

fun survival_station :: "survival_phase \<Rightarrow> pos option" where
  "survival_station WestPhase = Some west_relay"
| "survival_station EastPhase = Some east_relay"
| "survival_station ReturnPhase = Some survival_spawn"
| "survival_station SurvivalCompleted = None"

definition survival_charge ::
  "u64 \<Rightarrow> survival_run \<times> survival_effect \<Rightarrow> survival_run \<times> survival_effect" where
  "survival_charge elapsed s =
    (case s of (run, effect) \<Rightarrow>
       case survival_station (survival_phase run) of
         None \<Rightarrow> (run, effect)
       | Some station \<Rightarrow>
           if survival_position run \<noteq> station then (run\<lparr> charge_started_ms := None \<rparr>, effect)
           else
             let started = (case charge_started_ms run of Some t \<Rightarrow> t | None \<Rightarrow> elapsed);
                 run = run\<lparr> charge_started_ms := Some started \<rparr> in
             if survival_phase run \<noteq> ReturnPhase \<and> elapsed - started < charge_ms then (run, effect)
             else (case survival_phase run of
               WestPhase \<Rightarrow> (run\<lparr> survival_phase := EastPhase, charge_started_ms := None \<rparr>,
                 effect\<lparr> survival_checkpoint := Some WestCharged \<rparr>)
             | EastPhase \<Rightarrow> (run\<lparr> survival_phase := ReturnPhase, charge_started_ms := None \<rparr>,
                 effect\<lparr> survival_checkpoint := Some EastCharged \<rparr>)
             | ReturnPhase \<Rightarrow> (run\<lparr> survival_phase := SurvivalCompleted, charge_started_ms := None \<rparr>,
                 effect\<lparr> survival_checkpoint := Some SurvivalReturned \<rparr>)
             | SurvivalCompleted \<Rightarrow> (run, effect)))"

text \<open>The due shot; every walkable point is within the sentinel's range (\<open>walkable_in_range\<close>).\<close>

definition survival_fire :: "survival_run \<Rightarrow> u64 \<Rightarrow> survival_run \<times> survival_effect" where
  "survival_fire run elapsed =
    (let after = run\<lparr> survival_last_ms := elapsed \<rparr> in
     if elapsed \<ge> survival_next_shot_ms run
     then
       let after = after\<lparr> survival_next_shot_ms := sat_add elapsed shot_interval_ms \<rparr> in
       if \<not> cover_blocks_segment (survival_position run) sentinel_position
       then (after\<lparr> survival_health := sat_sub (survival_health after) shot_damage \<rparr>,
             no_survival_effect\<lparr> survival_damage := shot_damage \<rparr>)
       else (after, no_survival_effect)
     else (after, no_survival_effect))"

definition survival_apply ::
  "survival_run \<Rightarrow> u64 \<Rightarrow> survival_action \<Rightarrow> survival_error + survival_update" where
  "survival_apply run elapsed action =
    (if survival_health run = 0 \<or> survival_phase run = SurvivalCompleted then Inl SurvivalTerminal
     else if elapsed < survival_last_ms run then Inl SurvivalClockReversed
     else if (case action of SurvivalMove p \<Rightarrow> \<not> lane_step (survival_position run) p | _ \<Rightarrow> False)
     then Inl SurvivalInvalidMovement
     else
       (case survival_fire run elapsed of (after, effect) \<Rightarrow>
          case (if survival_health after = 0 then (after, effect\<lparr> survival_defeated := True \<rparr>)
                else
                  let after = (case action of SurvivalMove p \<Rightarrow> after\<lparr> survival_position := p \<rparr> | _ \<Rightarrow> after) in
                  survival_charge elapsed (survival_recover elapsed (after, effect))) of
            (final, effect) \<Rightarrow> Inr \<lparr> survival_next = final, survival_effect = effect \<rparr>))"

section \<open>What an accepted call does\<close>

lemma survival_recover_cases:
  assumes "survival_recover elapsed (run, eff) = (run', eff')"
  obtains (idle) "run' = run\<lparr> reserve_started_ms := None \<rparr>" "eff' = eff"
  | (waiting) t where "\<not> reserve_used run" "survival_position run = reserve_pad"
      "reserve_started_ms run = Some t \<or> reserve_started_ms run = None \<and> t = elapsed"
      "run' = run\<lparr> reserve_started_ms := Some t \<rparr>" "eff' = eff"
  | (restored) t gain where "\<not> reserve_used run" "survival_position run = reserve_pad"
      "survival_health run \<noteq> survival_max_health run"
      "reserve_started_ms run = Some t" "elapsed - t \<ge> recovery_ms"
      "gain = min recovery_health (survival_max_health run - survival_health run)"
      "run' = run\<lparr> survival_health := survival_health run + gain, reserve_used := True, reserve_started_ms := None \<rparr>"
      "eff' = eff\<lparr> recovered_health := gain \<rparr>"
proof (cases "reserve_used run \<or> survival_health run = survival_max_health run \<or> survival_position run \<noteq> reserve_pad")
  case True
  then show ?thesis using assms by (intro idle) (auto simp: survival_recover_def)
next
  case False
  note eqs = assms [unfolded survival_recover_def prod.case if_not_P [OF False] Let_def]
  show ?thesis
  proof (cases "reserve_started_ms run")
    case None
    have "\<not> elapsed - elapsed \<ge> recovery_ms" by (simp add: recovery_ms_def)
    then have "run' = run\<lparr> reserve_started_ms := Some elapsed \<rparr>" "eff' = eff" using eqs None by simp_all
    then show ?thesis using False None by (intro waiting) simp_all
  next
    case (Some t)
    show ?thesis
    proof (cases "elapsed - t \<ge> recovery_ms")
      case True
      then show ?thesis using eqs Some False by (intro restored [OF _ _ _ Some True refl]) simp_all
    next
      case short: False
      then have "run' = run\<lparr> reserve_started_ms := Some t \<rparr>" "eff' = eff" using eqs Some by simp_all
      then show ?thesis using False Some by (intro waiting) simp_all
    qed
  qed
qed

lemma survival_charge_cases:
  assumes "survival_charge elapsed (run, eff) = (run', eff')" and "survival_phase run \<noteq> SurvivalCompleted"
  obtains (away) "run' = run\<lparr> charge_started_ms := None \<rparr>" "eff' = eff"
  | (charging) t where "survival_phase run \<in> {WestPhase, EastPhase}"
      "survival_station (survival_phase run) = Some (survival_position run)"
      "charge_started_ms run = Some t \<or> charge_started_ms run = None \<and> t = elapsed"
      "run' = run\<lparr> charge_started_ms := Some t \<rparr>" "eff' = eff"
  | (charged) t phase c where
      "(survival_phase run, phase, c) \<in> {(WestPhase, EastPhase, WestCharged), (EastPhase, ReturnPhase, EastCharged)}"
      "survival_station (survival_phase run) = Some (survival_position run)"
      "charge_started_ms run = Some t" "elapsed - t \<ge> charge_ms"
      "run' = run\<lparr> survival_phase := phase, charge_started_ms := None \<rparr>"
      "eff' = eff\<lparr> survival_checkpoint := Some c \<rparr>"
  | (returned) "survival_phase run = ReturnPhase" "survival_position run = survival_spawn"
      "run' = run\<lparr> survival_phase := SurvivalCompleted, charge_started_ms := None \<rparr>"
      "eff' = eff\<lparr> survival_checkpoint := Some SurvivalReturned \<rparr>"
proof (cases "survival_station (survival_phase run) = Some (survival_position run)")
  case False
  then show ?thesis using assms
    by (intro away) (cases "survival_phase run"; simp add: survival_charge_def)+
next
  case at: True
  define t where "t = (case charge_started_ms run of Some t \<Rightarrow> t | None \<Rightarrow> elapsed)"
  have t: "charge_started_ms run = Some t \<or> charge_started_ms run = None \<and> t = elapsed"
    by (cases "charge_started_ms run") (simp_all add: t_def)
  note eqs = assms(1) [unfolded survival_charge_def prod.case at option.case Let_def, folded t_def]
  have early: "charge_started_ms run = Some t" if "\<not> elapsed - t < charge_ms"
    using t that by (auto simp: charge_ms_def)
  show ?thesis
  proof (cases "survival_phase run = ReturnPhase")
    case True
    then show ?thesis using at eqs by (intro returned) simp_all
  next
    case going: False
    show ?thesis
    proof (cases "elapsed - t < charge_ms")
      case True
      then have "run' = run\<lparr> charge_started_ms := Some t \<rparr>" "eff' = eff" using eqs going by simp_all
      then show ?thesis using going assms(2) at t by (intro charging) (cases "survival_phase run"; simp)+
    next
      case False
      then have "elapsed - t \<ge> charge_ms" by simp
      note charged = charged [OF _ at early [OF False] this]
      show ?thesis
      proof (cases "survival_phase run")
        case WestPhase
        then show ?thesis using eqs False by (intro charged [of EastPhase WestCharged]) simp_all
      next
        case EastPhase
        then show ?thesis using eqs False by (intro charged [of ReturnPhase EastCharged]) simp_all
      qed (use going assms(2) in simp_all)
    qed
  qed
qed

definition survival_hit :: "survival_run \<Rightarrow> u64 \<Rightarrow> u32" where
  "survival_hit run elapsed =
    (if survival_next_shot_ms run \<le> elapsed \<and> \<not> cover_blocks_segment (survival_position run) sentinel_position
     then 12 else 0)"

definition survival_shot :: "survival_run \<Rightarrow> u64 \<Rightarrow> survival_run" where
  "survival_shot run elapsed =
    run\<lparr> survival_last_ms := elapsed,
         survival_next_shot_ms := (if survival_next_shot_ms run \<le> elapsed
           then sat_add elapsed shot_interval_ms else survival_next_shot_ms run),
         survival_health := sat_sub (survival_health run) (survival_hit run elapsed) \<rparr>"

lemma survival_fire_shot:
  "survival_fire run elapsed =
    (survival_shot run elapsed, no_survival_effect\<lparr> survival_damage := survival_hit run elapsed \<rparr>)"
  by (simp add: survival_fire_def survival_shot_def survival_hit_def Let_def shot_damage_def no_survival_effect_def)

lemma survival_apply_Inr:
  assumes "survival_apply run elapsed action = Inr u"
  obtains (defeated) "survival_health run \<noteq> 0" "survival_last_ms run \<le> elapsed"
      "survival_next u = survival_shot run elapsed" "survival_health (survival_shot run elapsed) = 0"
      "survival_effect u = no_survival_effect\<lparr> survival_damage := survival_hit run elapsed, survival_defeated := True \<rparr>"
  | (acted) p mid eff where "survival_health run \<noteq> 0" "survival_last_ms run \<le> elapsed"
      "survival_phase run \<noteq> SurvivalCompleted" "survival_health (survival_shot run elapsed) \<noteq> 0"
      "p = (case action of SurvivalMove q \<Rightarrow> q | SurvivalObserve \<Rightarrow> survival_position run)"
      "survival_recover elapsed ((survival_shot run elapsed)\<lparr> survival_position := p \<rparr>,
        no_survival_effect\<lparr> survival_damage := survival_hit run elapsed \<rparr>) = (mid, eff)"
      "survival_charge elapsed (mid, eff) = (survival_next u, survival_effect u)"
proof -
  let ?shot = "survival_shot run elapsed" and ?eff = "no_survival_effect\<lparr> survival_damage := survival_hit run elapsed \<rparr>"
  have ok: "survival_health run \<noteq> 0" "survival_last_ms run \<le> elapsed" "survival_phase run \<noteq> SurvivalCompleted"
    and u: "(case (if survival_health ?shot = 0 then (?shot, ?eff\<lparr> survival_defeated := True \<rparr>)
        else survival_charge elapsed (survival_recover elapsed
          (case action of SurvivalMove p \<Rightarrow> ?shot\<lparr> survival_position := p \<rparr> | SurvivalObserve \<Rightarrow> ?shot, ?eff))) of
      (final, effect) \<Rightarrow> \<lparr> survival_next = final, survival_effect = effect \<rparr>) = u"
    using assms by (auto simp: survival_apply_def survival_fire_shot not_less Let_def split: if_splits prod.splits)
  show thesis
  proof (cases "survival_health ?shot = 0")
    case True
    then show ?thesis using ok u defeated by auto
  next
    case False
    obtain p where p: "p = (case action of SurvivalMove q \<Rightarrow> q | SurvivalObserve \<Rightarrow> survival_position run)" by blast
    have "(case action of SurvivalMove p \<Rightarrow> ?shot\<lparr> survival_position := p \<rparr> | SurvivalObserve \<Rightarrow> ?shot) =
        ?shot\<lparr> survival_position := p \<rparr>"
      by (cases action) (simp_all add: p survival_shot_def)
    moreover obtain mid eff where mid: "survival_recover elapsed (?shot\<lparr> survival_position := p \<rparr>, ?eff) = (mid, eff)"
      by fastforce
    ultimately have "survival_charge elapsed (mid, eff) = (survival_next u, survival_effect u)"
      using u False by (cases "survival_charge elapsed (mid, eff)") auto
    then show ?thesis using acted [OF ok(1,2,3) False p mid] by blast
  qed
qed

section \<open>The invariant\<close>

text \<open>A hold began no later than the last accepted call, at its pad; the charge of the last
  phase fires at once, so it never waits.\<close>

definition survival_good :: "survival_run \<Rightarrow> bool" where
  "survival_good run \<longleftrightarrow>
     survival_health run \<le> survival_max_health run \<and>
     (\<forall>t. charge_started_ms run = Some t \<longrightarrow>
        t \<le> survival_last_ms run \<and> survival_phase run \<in> {WestPhase, EastPhase} \<and>
        survival_station (survival_phase run) = Some (survival_position run)) \<and>
     (\<forall>t. reserve_started_ms run = Some t \<longrightarrow>
        t \<le> survival_last_ms run \<and> survival_position run = reserve_pad \<and> \<not> reserve_used run)"

lemma hold_time:
  "t \<le> l \<Longrightarrow> l \<le> now \<Longrightarrow> d \<le> now - t \<Longrightarrow> unat t + unat d \<le> unat now" for t l now d :: u64
  by (simp add: word_le_nat_alt unat_sub)

text \<open>From the accepted call to the middle of it: the shot, the move and the reserve.\<close>

lemma survival_mid:
  assumes good: "survival_good run" and le: "survival_last_ms run \<le> elapsed"
    and mid: "survival_recover elapsed ((survival_shot run elapsed)\<lparr> survival_position := p \<rparr>,
        no_survival_effect\<lparr> survival_damage := survival_hit run elapsed \<rparr>) = (mid, eff)"
  shows "charge_started_ms mid = charge_started_ms run" "survival_phase mid = survival_phase run"
      "survival_last_ms mid = elapsed" "survival_max_health mid = survival_max_health run"
      "survival_position mid = p" "survival_damage eff = survival_hit run elapsed"
      "survival_checkpoint eff = None"
    and "unat (survival_health mid) =
      unat (survival_health run) - unat (survival_hit run elapsed) + unat (recovered_health eff)"
    and "survival_health mid \<le> survival_max_health run"
    and "recovered_health eff = 0 \<and> reserve_used mid = reserve_used run \<or>
      recovered_health eff \<le> 36 \<and> \<not> reserve_used run \<and> reserve_used mid \<and> p = reserve_pad \<and>
      (\<exists>t. reserve_started_ms run = Some t \<and> unat t + 1200 \<le> unat elapsed)"
    and "reserve_started_ms mid = Some t \<Longrightarrow>
      t \<le> elapsed \<and> p = reserve_pad \<and> \<not> reserve_used mid \<and>
      (t = elapsed \<or> reserve_started_ms run = Some t)"
proof -
  let ?run = "(survival_shot run elapsed)\<lparr> survival_position := p \<rparr>"
  have shot: "survival_health ?run = sat_sub (survival_health run) (survival_hit run elapsed)"
      "survival_max_health ?run = survival_max_health run" "survival_phase ?run = survival_phase run"
      "survival_last_ms ?run = elapsed" "charge_started_ms ?run = charge_started_ms run"
      "reserve_started_ms ?run = reserve_started_ms run" "reserve_used ?run = reserve_used run"
      "survival_position ?run = p"
    by (simp_all add: survival_shot_def)
  have sub: "unat (survival_health ?run) = unat (survival_health run) - unat (survival_hit run elapsed)"
    by (simp add: shot unat_sat_sub)
  have max: "survival_health run \<le> survival_max_health run" using good by (simp add: survival_good_def)
  have max': "survival_health ?run \<le> survival_max_health run"
    using max unfolding shot by (meson order_trans sat_sub_le)
  have old: "reserve_started_ms run = Some t \<Longrightarrow> t \<le> survival_last_ms run" for t
    using good by (simp add: survival_good_def)
  have all: "charge_started_ms mid = charge_started_ms run \<and> survival_phase mid = survival_phase run \<and>
      survival_last_ms mid = elapsed \<and> survival_max_health mid = survival_max_health run \<and>
      survival_position mid = p \<and> survival_damage eff = survival_hit run elapsed \<and> survival_checkpoint eff = None \<and>
      unat (survival_health mid) =
        unat (survival_health run) - unat (survival_hit run elapsed) + unat (recovered_health eff) \<and>
      survival_health mid \<le> survival_max_health run \<and>
      (recovered_health eff = 0 \<and> reserve_used mid = reserve_used run \<or>
       recovered_health eff \<le> 36 \<and> \<not> reserve_used run \<and> reserve_used mid \<and> p = reserve_pad \<and>
       (\<exists>t. reserve_started_ms run = Some t \<and> unat t + 1200 \<le> unat elapsed)) \<and>
      (\<forall>t. reserve_started_ms mid = Some t \<longrightarrow>
        t \<le> elapsed \<and> p = reserve_pad \<and> \<not> reserve_used mid \<and>
        (t = elapsed \<or> reserve_started_ms run = Some t))"
    using mid
  proof (cases rule: survival_recover_cases)
    case idle
    then show ?thesis using shot sub max' by (simp add: no_survival_effect_def)
  next
    case (waiting t)
    moreover have "t \<le> elapsed" using waiting(3) old [of t] le shot by (auto intro: order_trans)
    ultimately show ?thesis using shot sub max' by (auto simp: no_survival_effect_def)
  next
    case (restored t gain)
    have "unat t + 1200 \<le> unat elapsed"
      using hold_time [of t "survival_last_ms run" elapsed recovery_ms] old le restored(4,5) shot
      by (simp add: recovery_ms_def)
    moreover have gain: "unat gain \<le> 36" "unat gain \<le> unat (survival_max_health run) - unat (survival_health ?run)"
      using restored(6) max' shot(2) by (auto simp: unat_min recovery_health_def unat_sub)
    moreover have "unat (survival_health ?run) + unat gain < 2 ^ 32"
      using gain(2) max' unat_bound [of "survival_max_health run"] by (simp add: word_le_nat_alt)
    then have "unat (survival_health ?run + gain) = unat (survival_health ?run) + unat gain"
      by (simp add: unat_word_ariths)
    ultimately have time: "unat t + 1200 \<le> unat elapsed" and gain: "unat gain \<le> 36"
        "unat gain \<le> unat (survival_max_health run) - unat (survival_health ?run)"
      and sum: "unat (survival_health ?run + gain) = unat (survival_health ?run) + unat gain" by blast+
    have "survival_health mid = survival_health ?run + gain" "recovered_health eff = gain"
      by (simp_all add: restored(7,8))
    then have "unat (survival_health mid) =
          unat (survival_health run) - unat (survival_hit run elapsed) + unat (recovered_health eff)"
        "survival_health mid \<le> survival_max_health run" "recovered_health eff \<le> 36"
      using sum gain max' unfolding sub [symmetric] by (simp_all add: word_le_nat_alt)
    moreover have "\<not> reserve_used run" "p = reserve_pad" "reserve_started_ms run = Some t"
      using restored(1,2,4) by (simp_all add: survival_shot_def)
    moreover have "charge_started_ms mid = charge_started_ms ?run" "survival_phase mid = survival_phase ?run"
        "survival_last_ms mid = survival_last_ms ?run" "survival_max_health mid = survival_max_health ?run"
        "survival_position mid = survival_position ?run" "reserve_used mid" "reserve_started_ms mid = None"
      by (simp_all add: restored(7))
    moreover have "survival_damage eff = survival_hit run elapsed" "survival_checkpoint eff = None"
      by (simp_all add: restored(8) no_survival_effect_def)
    ultimately show ?thesis using time unfolding shot by simp
  qed
  then show "charge_started_ms mid = charge_started_ms run" "survival_phase mid = survival_phase run"
      "survival_last_ms mid = elapsed" "survival_max_health mid = survival_max_health run"
      "survival_position mid = p" "survival_damage eff = survival_hit run elapsed"
      "survival_checkpoint eff = None"
    and "unat (survival_health mid) =
      unat (survival_health run) - unat (survival_hit run elapsed) + unat (recovered_health eff)"
    and "survival_health mid \<le> survival_max_health run"
    and "recovered_health eff = 0 \<and> reserve_used mid = reserve_used run \<or>
      recovered_health eff \<le> 36 \<and> \<not> reserve_used run \<and> reserve_used mid \<and> p = reserve_pad \<and>
      (\<exists>t. reserve_started_ms run = Some t \<and> unat t + 1200 \<le> unat elapsed)"
    by blast+
  show "reserve_started_ms mid = Some t \<Longrightarrow>
      t \<le> elapsed \<and> p = reserve_pad \<and> \<not> reserve_used mid \<and>
      (t = elapsed \<or> reserve_started_ms run = Some t)" using all by blast
qed

section \<open>Histories\<close>

fun survival_step :: "u64 \<times> survival_action \<Rightarrow> survival_run \<Rightarrow> survival_run \<times> survival_effect option" where
  "survival_step (elapsed, action) run =
    (case survival_apply run elapsed action of
       Inl _ \<Rightarrow> (run, None)
     | Inr u \<Rightarrow> (survival_next u, Some (survival_effect u)))"

definition survival_place :: "survival_run \<Rightarrow> pos \<times> survival_phase" where
  "survival_place run = (survival_position run, survival_phase run)"

fun survival_passed :: "survival_phase \<Rightarrow> survival_checkpoint list" where
  "survival_passed WestPhase = []"
| "survival_passed EastPhase = [WestCharged]"
| "survival_passed ReturnPhase = [WestCharged, EastCharged]"
| "survival_passed SurvivalCompleted = [WestCharged, EastCharged, SurvivalReturned]"

definition option_list :: "'a option \<Rightarrow> 'a list" where
  "option_list x = (case x of None \<Rightarrow> [] | Some y \<Rightarrow> [y])"

lemma option_list_simps [simp]: "option_list None = []" "option_list (Some y) = [y]"
  by (simp_all add: option_list_def)

text \<open>The facts about an accepted call that the histories use.\<close>

definition survival_accepts :: "u64 \<Rightarrow> survival_run \<Rightarrow> survival_run \<Rightarrow> survival_effect \<Rightarrow> bool" where
  "survival_accepts elapsed run run' eff \<longleftrightarrow>
     survival_last_ms run \<le> elapsed \<and> survival_last_ms run' = elapsed \<and>
     survival_max_health run' = survival_max_health run \<and>
     unat (survival_health run') =
       unat (survival_health run) - unat (survival_damage eff) + unat (recovered_health eff) \<and>
     (recovered_health eff \<noteq> 0 \<longrightarrow> survival_health run > survival_damage eff) \<and>
     (recovered_health eff = 0 \<and> reserve_used run' = reserve_used run \<or>
      recovered_health eff \<le> 36 \<and> \<not> reserve_used run \<and> reserve_used run' \<and>
      survival_position run' = reserve_pad \<and>
      (\<exists>t. reserve_started_ms run = Some t \<and> unat t + 1200 \<le> unat elapsed)) \<and>
     survival_passed (survival_phase run') =
       survival_passed (survival_phase run) @ option_list (survival_checkpoint eff) \<and>
     (survival_checkpoint eff \<in> {Some WestCharged, Some EastCharged} \<longrightarrow>
       (\<exists>t. charge_started_ms run = Some t \<and> unat t + 3600 \<le> unat elapsed) \<and>
       survival_station (survival_phase run) = Some (survival_position run)) \<and>
     (\<forall>t. charge_started_ms run' = Some t \<longrightarrow>
       t = elapsed \<or> charge_started_ms run = Some t \<and> survival_place run = survival_place run') \<and>
     (\<forall>t. reserve_started_ms run' = Some t \<longrightarrow>
       t = elapsed \<or> reserve_started_ms run = Some t \<and> survival_position run = survival_position run')"

lemma survival_step_accepts:
  assumes good: "survival_good run" and st: "survival_step (elapsed, action) run = (run', Some eff)"
  shows "survival_accepts elapsed run run' eff \<and> survival_good run'"
proof -
  obtain u where u: "survival_apply run elapsed action = Inr u" "run' = survival_next u" "eff = survival_effect u"
    using st by (auto split: sum.splits)
  from u(1) show ?thesis
  proof (cases rule: survival_apply_Inr)
    case defeated
    have "unat (survival_health run') = unat (survival_health run) - unat (survival_hit run elapsed)"
      using defeated(3) by (simp add: u(2) survival_shot_def unat_sat_sub)
    moreover have "survival_last_ms run \<le> elapsed" by (rule defeated(2))
    moreover have "survival_good run'"
      using good defeated(2,4) by (auto simp: u(2) defeated(3) survival_good_def survival_shot_def intro: order_trans)
    ultimately show ?thesis
      by (simp add: survival_accepts_def survival_place_def u(2,3) defeated(3,5) no_survival_effect_def)
        (simp add: survival_shot_def)
  next
    case (acted p mid eff0)
    note mid = survival_mid [OF good acted(2,6)]
    have alive: "survival_health run > survival_hit run elapsed"
      using acted(4) by (auto simp: survival_shot_def sat_sub_def not_less split: if_splits)
    have charge: "survival_charge elapsed (mid, eff0) = (run', eff)" using acted(7) u(2,3) by simp
    have going: "survival_phase mid \<noteq> SurvivalCompleted" using acted(3) mid(2) by simp
    have hold: "t \<le> elapsed \<and> survival_phase run \<in> {WestPhase, EastPhase} \<and>
        survival_station (survival_phase run) = Some (survival_position run)"
      if "charge_started_ms run = Some t" for t
      using good that acted(2) by (auto simp: survival_good_def intro: order_trans)
    have pad: "survival_position run = reserve_pad" if "reserve_started_ms run = Some t" for t
      using good that by (simp add: survival_good_def)
    have time: "unat t + 3600 \<le> unat elapsed"
      if "charge_started_ms run = Some t" "charge_ms \<le> elapsed - t" for t
      using hold_time [of t elapsed elapsed charge_ms] hold that by (simp add: charge_ms_def)
    from charge going show ?thesis
    proof (cases rule: survival_charge_cases)
      case away
      then show ?thesis using mid alive acted(2) pad
        by (auto simp: survival_accepts_def survival_good_def)
    next
      case (charging t)
      then show ?thesis using mid alive acted(2) pad hold
        by (auto simp: survival_accepts_def survival_good_def survival_place_def)
    next
      case (charged t phase c)
      then show ?thesis using mid alive acted(2) pad hold [of t] time [of t]
        by (auto simp: survival_accepts_def survival_good_def)
    next
      case returned
      then show ?thesis using mid alive acted(2) pad
        by (auto simp: survival_accepts_def survival_good_def)
    qed
  qed
qed

lemma survival_step_None: "survival_step c run = (run', None) \<Longrightarrow> run' = run"
  by (cases c) (auto split: sum.splits)

lemma survival_step_good: "survival_good run \<Longrightarrow> survival_good (fst (survival_step c run))"
proof (cases "snd (survival_step c run)")
  case None
  assume "survival_good run"
  moreover have "fst (survival_step c run) = run" by (rule survival_step_None [of c]) (simp add: prod_eq_iff None)
  ultimately show ?thesis by simp
next
  case (Some eff)
  assume "survival_good run"
  moreover have "survival_step (fst c, snd c) run = (fst (survival_step c run), Some eff)"
    unfolding prod.collapse using Some by (simp add: prod_eq_iff)
  ultimately show ?thesis using survival_step_accepts by blast
qed

lemma survival_step_holds:
  assumes "survival_good run"
  shows "charge_started_ms (fst (survival_step c run)) = Some t \<Longrightarrow>
      t = survival_last_ms (fst (survival_step c run)) \<or>
      charge_started_ms run = Some t \<and> survival_place run = survival_place (fst (survival_step c run))"
    and "reserve_started_ms (fst (survival_step c run)) = Some t \<Longrightarrow>
      t = survival_last_ms (fst (survival_step c run)) \<or>
      reserve_started_ms run = Some t \<and> survival_position run = survival_position (fst (survival_step c run))"
proof -
  obtain elapsed action where c: "c = (elapsed, action)" by (cases c)
  obtain run' r where st: "survival_step c run = (run', r)" by (cases "survival_step c run")
  have "survival_accepts elapsed run run' eff" if "r = Some eff" for eff
    using survival_step_accepts [OF assms] st c that by blast
  then have "run' = run \<or> survival_last_ms run' = elapsed \<and>
      (\<forall>t. charge_started_ms run' = Some t \<longrightarrow>
       t = elapsed \<or> charge_started_ms run = Some t \<and> survival_place run = survival_place run') \<and>
      (\<forall>t. reserve_started_ms run' = Some t \<longrightarrow>
       t = elapsed \<or> reserve_started_ms run = Some t \<and> survival_position run = survival_position run')"
    using survival_step_None st by (cases r) (auto simp: survival_accepts_def)
  then show "charge_started_ms (fst (survival_step c run)) = Some t \<Longrightarrow>
      t = survival_last_ms (fst (survival_step c run)) \<or>
      charge_started_ms run = Some t \<and> survival_place run = survival_place (fst (survival_step c run))"
    and "reserve_started_ms (fst (survival_step c run)) = Some t \<Longrightarrow>
      t = survival_last_ms (fst (survival_step c run)) \<or>
      reserve_started_ms run = Some t \<and> survival_position run = survival_position (fst (survival_step c run))"
    unfolding st by auto
qed

definition relay_charged :: "u64 \<times> survival_action \<Rightarrow> survival_run \<Rightarrow> bool" where
  "relay_charged c run \<longleftrightarrow>
     (\<exists>eff. snd (survival_step c run) = Some eff \<and>
       survival_checkpoint eff \<in> {Some WestCharged, Some EastCharged})"

definition reserve_restored :: "u64 \<times> survival_action \<Rightarrow> survival_run \<Rightarrow> bool" where
  "reserve_restored c run \<longleftrightarrow> (\<exists>eff. snd (survival_step c run) = Some eff \<and> recovered_health eff \<noteq> 0)"

lemma survival_effect_accepts:
  assumes "survival_good run" and "snd (survival_step c run) = Some eff"
  shows "survival_accepts (fst c) run (fst (survival_step c run)) eff"
proof -
  have "survival_step (fst c, snd c) run = (fst (survival_step c run), Some eff)"
    unfolding prod.collapse using assms(2) by (simp add: prod_eq_iff)
  then show ?thesis using survival_step_accepts [OF assms(1)] by blast
qed

interpretation relay: hold "\<lambda>c s. fst (survival_step c s)" survival_good survival_last_ms survival_place
  charge_started_ms relay_charged 3600
proof (unfold_locales, goal_cases)
  case (3 s c)
  then show ?case using survival_effect_accepts unfolding relay_charged_def survival_accepts_def by metis
qed (blast intro: survival_step_good dest: survival_step_holds)+

interpretation reserve: hold "\<lambda>c s. fst (survival_step c s)" survival_good survival_last_ms survival_position
  reserve_started_ms reserve_restored 1200
proof (unfold_locales, goal_cases)
  case (2 s c)
  then show ?case using survival_effect_accepts unfolding reserve_restored_def survival_accepts_def by metis
qed (blast intro: survival_step_good dest: survival_step_holds)+

section \<open>The ledger of a run\<close>

definition survival_total :: "(survival_effect \<Rightarrow> u32) \<Rightarrow> (u64 \<times> survival_effect) list \<Rightarrow> nat" where
  "survival_total part acts = (\<Sum>(t, eff) \<leftarrow> acts. unat (part eff))"

definition survival_reports :: "(u64 \<times> survival_effect) list \<Rightarrow> survival_checkpoint list" where
  "survival_reports acts = concat (map (\<lambda>(t, eff). option_list (survival_checkpoint eff)) acts)"

lemma survival_total_simps [simp]:
  "survival_total part [] = 0"
  "survival_total part ((t, eff) # acts) = unat (part eff) + survival_total part acts"
  by (simp_all add: survival_total_def)

lemma survival_reports_simps [simp]:
  "survival_reports [] = []"
  "survival_reports ((t, eff) # acts) = option_list (survival_checkpoint eff) @ survival_reports acts"
  by (simp_all add: survival_reports_def)

lemma survival_over: "survival_health run = 0 \<Longrightarrow> run_brain survival_step fst es run = (run, [])"
proof (induction es)
  case (Cons c es)
  then have "survival_step c run = (run, None)" by (cases c) (auto simp: survival_apply_def)
  with Cons show ?case by simp
qed simp

lemma survival_run_ledger:
  assumes "run_brain survival_step fst es run = (run', acts)" and "survival_good run"
  shows "unat (survival_health run') =
      unat (survival_health run) + survival_total recovered_health acts - survival_total survival_damage acts \<and>
    survival_total recovered_health acts \<le> (if reserve_used run then 0 else 36) \<and>
    survival_passed (survival_phase run') = survival_passed (survival_phase run) @ survival_reports acts \<and>
    survival_max_health run' = survival_max_health run"
  using assms
proof (induction es arbitrary: run acts)
  case (Cons c es)
  obtain run1 r where st: "survival_step c run = (run1, r)" by (cases "survival_step c run")
  obtain run2 acts2 where rn: "run_brain survival_step fst es run1 = (run2, acts2)" by fastforce
  show ?case
  proof (cases r)
    case None
    then have "run1 = run" using st survival_step_None by blast
    then have "run_brain survival_step fst es run = (run', acts)" using Cons.prems(1) st rn None by simp
    then show ?thesis using Cons.prems(2) by (rule Cons.IH)
  next
    case (Some eff)
    obtain elapsed action where c: "c = (elapsed, action)" by (cases c)
    have acts: "acts = (elapsed, eff) # acts2" "run2 = run'" using Cons.prems(1) st rn Some c by auto
    have step: "survival_accepts elapsed run run1 eff" "survival_good run1"
      using survival_step_accepts [OF Cons.prems(2), of elapsed action run1 eff] st c Some by simp_all
    have IH: "unat (survival_health run') =
        unat (survival_health run1) + survival_total recovered_health acts2 - survival_total survival_damage acts2"
        "survival_total recovered_health acts2 \<le> (if reserve_used run1 then 0 else 36)"
        "survival_passed (survival_phase run') = survival_passed (survival_phase run1) @ survival_reports acts2"
        "survival_max_health run' = survival_max_health run1"
      using Cons.IH [OF rn [unfolded acts(2)] step(2)] by simp_all
    note facts = step(1) [unfolded survival_accepts_def]
    have "unat (survival_health run') =
        unat (survival_health run) + survival_total recovered_health acts - survival_total survival_damage acts"
    proof (cases "survival_health run1 = 0")
      case True
      then have "acts2 = []" "run' = run1" using survival_over [OF True, of es] rn acts(2) by simp_all
      then show ?thesis using facts True by (simp add: acts(1))
    next
      case False
      have h: "unat (survival_health run1) =
          unat (survival_health run) - unat (survival_damage eff) + unat (recovered_health eff)"
          "recovered_health eff \<noteq> 0 \<longrightarrow> survival_health run > survival_damage eff" using facts by simp_all
      have "unat (survival_health run1) \<noteq> 0" using False by (simp add: unat_eq_zero)
      then have "unat (survival_damage eff) \<le> unat (survival_health run)"
        using h by (cases "recovered_health eff = 0") (simp_all add: word_less_nat_alt)
      then show ?thesis using IH(1) h(1) by (simp add: acts(1))
    qed
    moreover have "survival_total recovered_health acts \<le> (if reserve_used run then 0 else 36)"
      using IH(2) facts by (auto simp: acts(1) word_le_nat_alt split: if_splits)
    ultimately show ?thesis using IH(3,4) facts by (simp add: acts(1))
  qed
qed simp

lemma new_survival_Inr:
  assumes "new_survival_run e = Inr start"
  shows "survival_good start" and "survival_health start = survival_max_health start"
    and "survival_phase start = WestPhase" and "\<not> reserve_used start"
    and "charge_started_ms start = None" and "reserve_started_ms start = None"
    and "80 \<le> unat (survival_health start)"
  using assms equipment_profile_health(1)
  by (auto simp: new_survival_run_def and_then_Inr survival_good_def)

text \<open>
  C27 (safety): the last reserve. Over any history of calls, accepted or refused: the
  player's health is what the build gave, plus what was restored, less the damage reported,
  stopping at zero; at most 36 points are ever restored; the checkpoints come in the order west,
  east, return, as far as the phase says. A relay is only reported charged after the player
  has stood on that relay in every state since an accepted call at least 3600 ms before.
\<close>

theorem survival_relays_held:
  assumes "new_survival_run e = Inr start"
    and "run_brain survival_step fst calls start = (run, acts)"
  shows "unat (survival_health run) =
      unat (survival_max_health start) + survival_total recovered_health acts - survival_total survival_damage acts \<and>
    survival_total recovered_health acts \<le> 36 \<and>
    survival_reports acts = survival_passed (survival_phase run) \<and>
    (\<forall>now action run' eff.
      survival_step (now, action) run = (run', Some eff) \<and>
      survival_checkpoint eff \<in> {Some WestCharged, Some EastCharged} \<longrightarrow>
      (\<exists>m \<le> length calls.
        unat (survival_last_ms (fst (run_brain survival_step fst (take m calls) start))) + 3600 \<le> unat now \<and>
        (\<forall>k. m \<le> k \<and> k \<le> length calls \<longrightarrow>
           survival_position (fst (run_brain survival_step fst (take k calls) start)) =
           (if survival_checkpoint eff = Some WestCharged then west_relay else east_relay))))"
proof (intro conjI allI impI)
  note new = new_survival_Inr [OF assms(1)]
  note ledger = survival_run_ledger [OF assms(2) new(1)]
  show "unat (survival_health run) =
      unat (survival_max_health start) + survival_total recovered_health acts - survival_total survival_damage acts"
    "survival_total recovered_health acts \<le> 36" "survival_reports acts = survival_passed (survival_phase run)"
    using ledger new by simp_all
  let ?step = "\<lambda>c s. fst (survival_step c s)"
  let ?at = "\<lambda>k. fst (run_brain survival_step fst (take k calls) start)"
  fix now action run' eff
  assume "survival_step (now, action) run = (run', Some eff) \<and>
      survival_checkpoint eff \<in> {Some WestCharged, Some EastCharged}"
  then have st: "survival_step (now, action) run = (run', Some eff)"
    and c: "survival_checkpoint eff \<in> {Some WestCharged, Some EastCharged}" by blast+
  have at: "?at k = fold ?step (take k calls) start" for k by (rule run_brain_fold)
  have last: "run = fold ?step calls start" using run_brain_fold [of survival_step fst calls start] assms(2) by simp
  have "relay_charged (now, action) (fold ?step calls start)"
    using st c last unfolding relay_charged_def by (simp del: survival_step.simps)
  from relay.fired_held [OF new(1) new(5) this] obtain m where m: "m \<le> length calls"
      "unat (survival_last_ms (?at m)) + 3600 \<le> unat (survival_last_ms run')"
      "\<And>k. m \<le> k \<Longrightarrow> k \<le> length calls \<Longrightarrow> survival_place (?at k) = survival_place run"
    unfolding at last [symmetric] st fst_conv by blast
  have good: "survival_good run" unfolding last by (rule relay.good_history [OF new(1)])
  have acc: "survival_accepts now run run' eff" using survival_step_accepts [OF good st] by blast
  have "survival_position run = (if survival_checkpoint eff = Some WestCharged then west_relay else east_relay)"
    using acc c unfolding survival_accepts_def
    by (cases "survival_phase run"; cases "survival_phase run'") auto
  moreover have "survival_last_ms run' = now" using acc by (simp add: survival_accepts_def)
  ultimately show "\<exists>m \<le> length calls. unat (survival_last_ms (?at m)) + 3600 \<le> unat now \<and>
        (\<forall>k. m \<le> k \<and> k \<le> length calls \<longrightarrow> survival_position (?at k) =
           (if survival_checkpoint eff = Some WestCharged then west_relay else east_relay))"
    using m by (auto simp: survival_place_def)
qed

section \<open>Example\<close>

lemma rifle_survival:
  obtains start where "new_survival_run rifle_equipment = Inr start"
    "survival_position start = (- 4, 0, 4)" "survival_health start = 100" "survival_max_health start = 100"
    "survival_phase start = WestPhase" "survival_last_ms start = 0" "survival_next_shot_ms start = 1800"
    "\<not> reserve_used start" "charge_started_ms start = None" "reserve_started_ms start = None"
proof (rule rifle_profile)
  fix b assume "equipment_profile rifle_equipment = Inr b" "eff_max_health b = 100"
  then have "new_survival_run rifle_equipment = Inr
      \<lparr> survival_position = (- 4, 0, 4), survival_health = 100, survival_max_health = 100,
        survival_phase = WestPhase, reserve_used = False, survival_last_ms = 0,
        survival_next_shot_ms = 1800, charge_started_ms = None, reserve_started_ms = None \<rparr>"
    by (simp add: new_survival_run_def survival_spawn_def signal_spawn_def shot_interval_ms_def)
  then show thesis by (rule that) simp_all
qed

lemma relay_way:
  "lane_step (- 7, 0, 4) (- 8, 0, 4)" "lane_step (- 8, 0, 4) (- 8, 0, 3)" "lane_step (- 8, 0, 3) (- 8, 0, 2)"
  "lane_step (- 8, 0, 2) (- 8, 0, 1)" "lane_step (- 8, 0, 1) (- 8, 0, 0)"
  "\<not> cover_blocks_segment (- 8, 0, 0) sentinel_position"
  by code_simp+

definition relay_walk :: "(u64 \<times> survival_action) list" where
  "relay_walk =
    [(1, SurvivalMove (- 5, 0, 4)), (2, SurvivalMove (- 6, 0, 4)), (3, SurvivalMove (- 7, 0, 4)),
     (4, SurvivalMove (- 8, 0, 4)), (5, SurvivalMove (- 8, 0, 3)), (6, SurvivalMove (- 8, 0, 2)),
     (7, SurvivalMove (- 8, 0, 1)), (8, SurvivalMove (- 8, 0, 0)), (1800, SurvivalObserve),
     (3608, SurvivalObserve)]"

text \<open>A move off the pads before the next shot.\<close>

lemma quiet_move:
  assumes "survival_health run \<noteq> 0" "survival_phase run \<noteq> SurvivalCompleted" "\<not> t < survival_last_ms run"
    and "t < survival_next_shot_ms run" "lane_step (survival_position run) q"
    and "q \<noteq> reserve_pad" "survival_station (survival_phase run) \<noteq> Some q"
  shows "survival_step (t, SurvivalMove q) run =
    (run\<lparr> survival_last_ms := t, survival_position := q, reserve_started_ms := None, charge_started_ms := None \<rparr>,
     Some no_survival_effect)"
  using assms
  by (cases "survival_phase run")
    (simp_all add: survival_apply_def survival_fire_def survival_recover_def survival_charge_def Let_def not_le)

theorem survival_relays_held_witness:
  "\<exists>start run acts. new_survival_run rifle_equipment = Inr start \<and>
     run_brain survival_step fst relay_walk start = (run, acts) \<and>
     survival_reports acts = [WestCharged] \<and> survival_phase run = EastPhase \<and>
     unat (survival_health run) = 100 - survival_total survival_damage acts"
proof -
  obtain start where start: "new_survival_run rifle_equipment = Inr start"
    "survival_position start = (- 4, 0, 4)" "survival_health start = 100" "survival_max_health start = 100"
    "survival_phase start = WestPhase" "survival_last_ms start = 0" "survival_next_shot_ms start = 1800"
    "\<not> reserve_used start" "charge_started_ms start = None" "reserve_started_ms start = None"
    by (rule rifle_survival)
  obtain run acts where run: "run_brain survival_step fst relay_walk start = (run, acts)" by fastforce
  have pads: "west_relay = (- 8, 0, 0)" "reserve_pad = (- 4, 0, 5)" by (simp_all add: west_relay_def reserve_pad_def)
  define north where "north = start\<lparr> survival_last_ms := 7, survival_position := (- 8, 0, 1) \<rparr>"
  have "run_brain survival_step fst (take 7 relay_walk) start =
      (north, map (\<lambda>t. (t, no_survival_effect)) [1, 2, 3, 4, 5, 6, 7])"
    using start(2-) lane_open relay_way
    by (simp add: relay_walk_def quiet_move north_def pads del: lane_step.simps survival_step.simps)
  moreover have "run_brain survival_step fst (drop 7 relay_walk) north =
      (north\<lparr> survival_last_ms := 3608, survival_position := (- 8, 0, 0), survival_health := 76,
         survival_next_shot_ms := 5408, survival_phase := EastPhase \<rparr>,
       [(8, no_survival_effect), (1800, no_survival_effect\<lparr> survival_damage := 12 \<rparr>),
        (3608, no_survival_effect\<lparr> survival_damage := 12, survival_checkpoint := Some WestCharged \<rparr>)])"
    using start(2-) relay_way
    by (simp add: relay_walk_def north_def survival_apply_def survival_fire_def survival_recover_def survival_charge_def
        Let_def pads shot_damage_def charge_ms_def shot_interval_ms_def sat_sub_def sat_add_def del: lane_step.simps)
  ultimately have "survival_phase run = EastPhase \<and> survival_total recovered_health acts = 0"
    using run run_brain_append [of survival_step fst "take 7 relay_walk" "drop 7 relay_walk" start]
    by (auto simp: no_survival_effect_def)
  then show ?thesis
    using survival_relays_held [OF start(1) run] start run by (intro exI conjI) (assumption | simp)+
qed

end
