(* ===== verification/Gauntlet.thy ===== *)
theory Gauntlet
  imports Challenges Holding Lancer Bulwark Prism Elite
begin

text \<open>
  The relay gauntlet (\<open>src/runtime/challenges/src/gauntlet.rs\<close>): three retained encounters in
  the order of the preset, with a held transfer between them that restores health, or one
  optional reserve. The outcomes of the encounters are inputs.
\<close>

section \<open>Stages\<close>

definition gauntlet_revision :: string where "gauntlet_revision = ''relay-gauntlet-v1''"
definition transfer_hold_ms :: u64 where "transfer_hold_ms = 1200"
definition transfer_health :: u32 where "transfer_health = 24"

fun stage_entrance :: "gauntlet_stage \<Rightarrow> pos" where
  "stage_entrance Support = (2, 0, 6)"
| "stage_entrance Bastion = composition_entrance elite_composition.BastionLink"
| "stage_entrance gauntlet_stage.Prism = (5, 0, 2)"

fun stage_walkable :: "gauntlet_stage \<Rightarrow> pos \<Rightarrow> bool" where
  "stage_walkable Support p = lancer_arena p"
| "stage_walkable Bastion p = bulwark_arena p"
| "stage_walkable gauntlet_stage.Prism p = prism_arena p"

fun stage_next :: "gauntlet_stage \<Rightarrow> gauntlet_stage option" where
  "stage_next Support = Some Bastion"
| "stage_next Bastion = Some gauntlet_stage.Prism"
| "stage_next gauntlet_stage.Prism = None"

fun stage_reserve_position :: "gauntlet_stage \<Rightarrow> pos option" where
  "stage_reserve_position Support = Some (3, 0, 6)"
| "stage_reserve_position Bastion = Some (6, 0, - 6)"
| "stage_reserve_position gauntlet_stage.Prism = None"

section \<open>The run\<close>

datatype gauntlet_phase =
  CombatPhase gauntlet_stage | TransferPhase gauntlet_stage | GauntletCompleted | GauntletDefeated

datatype gauntlet_error = GauntletClockReversed | GauntletWrongPhase | GauntletInvalidHealth

record gauntlet_run =
  gauntlet_preset :: preset
  gauntlet_phase :: gauntlet_phase
  gauntlet_health :: u32
  gauntlet_max_health :: u32
  gauntlet_last_ms :: u64
  transfer_started_ms :: "u64 option"
  pad_started_ms :: "u64 option"
  pad_used :: bool

record transfer_update =
  transfer_run :: gauntlet_run
  transfer_recovered :: u32
  transfer_stage :: "gauntlet_stage option"

definition gauntlet_with_preset :: "equipment \<Rightarrow> preset \<Rightarrow> challenge_error + gauntlet_run" where
  "gauntlet_with_preset e p =
    (if \<not> available_for p RelayGauntlet then Inl InvalidModifiers
     else
       and_then (equipment_profile e) (\<lambda>b.
       Inr \<lparr> gauntlet_preset = p, gauntlet_phase = CombatPhase (hd (gauntlet_stages p)),
             gauntlet_health = eff_max_health b, gauntlet_max_health = eff_max_health b,
             gauntlet_last_ms = 0, transfer_started_ms = None, pad_started_ms = None, pad_used = False \<rparr>))"

definition new_gauntlet_run :: "equipment \<Rightarrow> challenge_error + gauntlet_run" where
  "new_gauntlet_run e = gauntlet_with_preset e Baseline"

definition reserve_remaining_ms :: "gauntlet_run \<Rightarrow> u64 option" where
  "reserve_remaining_ms run =
    map_option (\<lambda>t. sat_sub (sat_add t transfer_hold_ms) (gauntlet_last_ms run)) (pad_started_ms run)"

definition pace_met :: "gauntlet_run \<Rightarrow> bool option" where
  "pace_met run =
    (if gauntlet_phase run \<noteq> GauntletCompleted then None
     else map_option (\<lambda>goal. gauntlet_last_ms run \<le> goal) (time_goal_ms (gauntlet_preset run) RelayGauntlet))"

text \<open>\<open>windows(2).find_map(..)\<close> over the stages of the preset.\<close>

definition next_stage :: "gauntlet_run \<Rightarrow> gauntlet_stage \<Rightarrow> gauntlet_stage option" where
  "next_stage run current =
    (let stages = gauntlet_stages (gauntlet_preset run) in
     map_option snd (find (\<lambda>(a, b). a = current) (zip stages (tl stages))))"

definition transfer_deadline_ms :: "gauntlet_run \<Rightarrow> u64 option" where
  "transfer_deadline_ms run = map_option (\<lambda>t. sat_add t transfer_hold_ms) (transfer_started_ms run)"

definition transfer_remaining_ms :: "gauntlet_run \<Rightarrow> u64 option" where
  "transfer_remaining_ms run = map_option (\<lambda>t. sat_sub t (gauntlet_last_ms run)) (transfer_deadline_ms run)"

definition observation_deadline_ms :: "gauntlet_run \<Rightarrow> u64 option" where
  "observation_deadline_ms run =
    (case transfer_deadline_ms run of
       Some t \<Rightarrow> Some t
     | None \<Rightarrow> map_option (\<lambda>t. sat_add t transfer_hold_ms) (pad_started_ms run))"

definition finish_encounter ::
  "gauntlet_run \<Rightarrow> u64 \<Rightarrow> gauntlet_stage \<Rightarrow> u32 \<Rightarrow> gauntlet_error + gauntlet_run" where
  "finish_encounter run elapsed stage hp =
    (if elapsed < gauntlet_last_ms run then Inl GauntletClockReversed
     else if gauntlet_phase run \<noteq> CombatPhase stage then Inl GauntletWrongPhase
     else if hp > gauntlet_health run then Inl GauntletInvalidHealth
     else Inr (run\<lparr> gauntlet_last_ms := elapsed, gauntlet_health := hp,
       gauntlet_phase :=
         (if hp = 0 then GauntletDefeated
          else if next_stage run stage \<noteq> None then TransferPhase stage
          else GauntletCompleted) \<rparr>))"

definition observe_transfer :: "gauntlet_run \<Rightarrow> u64 \<Rightarrow> bool \<Rightarrow> gauntlet_error + transfer_update" where
  "observe_transfer run elapsed at_exit =
    (if elapsed < gauntlet_last_ms run then Inl GauntletClockReversed
     else (case gauntlet_phase run of
       TransferPhase cleared \<Rightarrow>
         and_then (ok_or GauntletWrongPhase (next_stage run cleared)) (\<lambda>stage.
         let after = run\<lparr> gauntlet_last_ms := elapsed, pad_started_ms := None \<rparr> in
         if at_exit
         then
           let started = (case transfer_started_ms after of Some t \<Rightarrow> t | None \<Rightarrow> elapsed);
               after = after\<lparr> transfer_started_ms := Some started \<rparr> in
           if elapsed - started \<ge> transfer_hold_ms
           then
             let gain = (if \<not> has_modifier (gauntlet_preset run) SingleReserveMod
                         then min transfer_health (gauntlet_max_health run - gauntlet_health run) else 0) in
             Inr \<lparr> transfer_run = after\<lparr> gauntlet_health := gauntlet_health after + gain,
                                       gauntlet_phase := CombatPhase stage, transfer_started_ms := None \<rparr>,
                   transfer_recovered = gain, transfer_stage = Some stage \<rparr>
           else Inr \<lparr> transfer_run = after, transfer_recovered = 0, transfer_stage = None \<rparr>
         else Inr \<lparr> transfer_run = after\<lparr> transfer_started_ms := None \<rparr>, transfer_recovered = 0,
                    transfer_stage = None \<rparr>)
     | _ \<Rightarrow> Inl GauntletWrongPhase))"

definition observe_reserve :: "gauntlet_run \<Rightarrow> u64 \<Rightarrow> bool \<Rightarrow> gauntlet_error + transfer_update" where
  "observe_reserve run elapsed at_reserve =
    (if elapsed < gauntlet_last_ms run then Inl GauntletClockReversed
     else if (case gauntlet_phase run of TransferPhase _ \<Rightarrow> False | _ \<Rightarrow> True) \<or>
             \<not> has_modifier (gauntlet_preset run) SingleReserveMod
     then Inl GauntletWrongPhase
     else
       let after = run\<lparr> gauntlet_last_ms := elapsed, transfer_started_ms := None \<rparr> in
       if at_reserve \<and> \<not> pad_used run \<and> gauntlet_health run < gauntlet_max_health run
       then
         let started = (case pad_started_ms after of Some t \<Rightarrow> t | None \<Rightarrow> elapsed);
             after = after\<lparr> pad_started_ms := Some started \<rparr> in
         if elapsed - started \<ge> transfer_hold_ms
         then
           let gain = min transfer_health (gauntlet_max_health run - gauntlet_health run) in
           Inr \<lparr> transfer_run = after\<lparr> gauntlet_health := gauntlet_health after + gain,
                                     pad_used := True, pad_started_ms := None \<rparr>,
                 transfer_recovered = gain, transfer_stage = None \<rparr>
         else Inr \<lparr> transfer_run = after, transfer_recovered = 0, transfer_stage = None \<rparr>
       else Inr \<lparr> transfer_run = after\<lparr> pad_started_ms := None \<rparr>, transfer_recovered = 0,
                  transfer_stage = None \<rparr>)"

definition observe_at :: "gauntlet_run \<Rightarrow> u64 \<Rightarrow> pos \<Rightarrow> gauntlet_error + transfer_update" where
  "observe_at run elapsed p =
    (case gauntlet_phase run of
       TransferPhase stage \<Rightarrow>
         if has_modifier (gauntlet_preset run) SingleReserveMod \<and> stage_reserve_position stage = Some p
         then observe_reserve run elapsed True
         else observe_transfer run elapsed (p = stage_entrance stage)
     | _ \<Rightarrow> Inl GauntletWrongPhase)"

section \<open>Histories\<close>

datatype gauntlet_event =
  FinishEncounter u64 gauntlet_stage u32
| ObserveTransfer u64 bool
| ObserveReserve u64 bool
| ObserveAt u64 pos

fun gauntlet_time :: "gauntlet_event \<Rightarrow> u64" where
  "gauntlet_time (FinishEncounter now _ _) = now"
| "gauntlet_time (ObserveTransfer now _) = now"
| "gauntlet_time (ObserveReserve now _) = now"
| "gauntlet_time (ObserveAt now _) = now"

fun gauntlet_call :: "gauntlet_event \<Rightarrow> gauntlet_run \<Rightarrow> gauntlet_error + transfer_update" where
  "gauntlet_call (FinishEncounter now stage hp) run =
     and_then (finish_encounter run now stage hp) (\<lambda>run'.
     Inr \<lparr> transfer_run = run', transfer_recovered = 0, transfer_stage = None \<rparr>)"
| "gauntlet_call (ObserveTransfer now at_exit) run = observe_transfer run now at_exit"
| "gauntlet_call (ObserveReserve now at_reserve) run = observe_reserve run now at_reserve"
| "gauntlet_call (ObserveAt now p) run = observe_at run now p"

text \<open>The gateway keeps its run when a call is refused; an accepted call reports the health it
  restored and the stage it opened.\<close>

definition gauntlet_step ::
  "gauntlet_event \<Rightarrow> gauntlet_run \<Rightarrow> gauntlet_run \<times> (u32 \<times> gauntlet_stage option) option" where
  "gauntlet_step e run =
    (case gauntlet_call e run of
       Inl _ \<Rightarrow> (run, None)
     | Inr u \<Rightarrow> (transfer_run u, Some (transfer_recovered u, transfer_stage u)))"

definition gauntlet_good :: "gauntlet_run \<Rightarrow> bool" where
  "gauntlet_good run \<longleftrightarrow>
     gauntlet_health run \<le> gauntlet_max_health run \<and>
     (\<forall>t. transfer_started_ms run = Some t \<longrightarrow> t \<le> gauntlet_last_ms run) \<and>
     (\<forall>t. pad_started_ms run = Some t \<longrightarrow> t \<le> gauntlet_last_ms run) \<and>
     (transfer_started_ms run = None \<and> pad_started_ms run = None \<or>
      (\<exists>c. gauntlet_phase run = TransferPhase c))"

text \<open>The possible results of an accepted call, \<open>now\<close> being its time.\<close>

definition still_held :: "u64 option \<Rightarrow> u64 \<Rightarrow> u64 option \<Rightarrow> bool" where
  "still_held before now after \<longleftrightarrow> (\<forall>t. after = Some t \<longrightarrow> t = now \<or> before = Some t)"

definition transfer_quiet :: "gauntlet_run \<Rightarrow> u64 \<Rightarrow> transfer_update \<Rightarrow> bool" where
  "transfer_quiet run now u \<longleftrightarrow>
     (\<exists>ts ps. u = \<lparr> transfer_run = run\<lparr> gauntlet_last_ms := now, transfer_started_ms := ts, pad_started_ms := ps \<rparr>,
                    transfer_recovered = 0, transfer_stage = None \<rparr> \<and>
        still_held (transfer_started_ms run) now ts \<and> still_held (pad_started_ms run) now ps)"

definition transfer_done :: "gauntlet_run \<Rightarrow> u64 \<Rightarrow> transfer_update \<Rightarrow> bool" where
  "transfer_done run now u \<longleftrightarrow>
     (\<exists>t c stage gain. gauntlet_phase run = TransferPhase c \<and> next_stage run c = Some stage \<and>
        transfer_started_ms run = Some t \<and> transfer_hold_ms \<le> now - t \<and>
        gain \<le> 24 \<and> gain \<le> gauntlet_max_health run - gauntlet_health run \<and>
        (has_modifier (gauntlet_preset run) SingleReserveMod \<longrightarrow> gain = 0) \<and>
        u = \<lparr> transfer_run = run\<lparr> gauntlet_last_ms := now, gauntlet_health := gauntlet_health run + gain,
                 gauntlet_phase := CombatPhase stage, transfer_started_ms := None, pad_started_ms := None \<rparr>,
              transfer_recovered = gain, transfer_stage = Some stage \<rparr>)"

definition reserve_done :: "gauntlet_run \<Rightarrow> u64 \<Rightarrow> transfer_update \<Rightarrow> bool" where
  "reserve_done run now u \<longleftrightarrow>
     (\<exists>t c gain. gauntlet_phase run = TransferPhase c \<and> pad_started_ms run = Some t \<and>
        transfer_hold_ms \<le> now - t \<and> \<not> pad_used run \<and>
        has_modifier (gauntlet_preset run) SingleReserveMod \<and>
        gain \<le> 24 \<and> gain \<le> gauntlet_max_health run - gauntlet_health run \<and>
        u = \<lparr> transfer_run = run\<lparr> gauntlet_last_ms := now, gauntlet_health := gauntlet_health run + gain,
                 pad_used := True, transfer_started_ms := None, pad_started_ms := None \<rparr>,
              transfer_recovered = gain, transfer_stage = None \<rparr>)"

lemma fresh_hold: "\<not> transfer_hold_ms \<le> now - now"
  by (simp add: transfer_hold_ms_def)

lemma still_held_simps [simp]:
  "still_held b now None" "still_held b now b" "still_held b now (Some now)"
  by (simp_all add: still_held_def)

lemma observe_transfer_cases:
  assumes "observe_transfer run now at_exit = Inr u"
  shows "gauntlet_last_ms run \<le> now \<and> (\<exists>c. gauntlet_phase run = TransferPhase c) \<and>
    (transfer_quiet run now u \<or> transfer_done run now u)"
proof -
  obtain c stage where c: "gauntlet_last_ms run \<le> now" "gauntlet_phase run = TransferPhase c"
      "next_stage run c = Some stage"
    using assms by (auto simp: observe_transfer_def and_then_Inr ok_or_Inr not_less
        split: if_splits gauntlet_phase.splits)
  let ?after = "run\<lparr> gauntlet_last_ms := now, pad_started_ms := None \<rparr>"
  have step: "(if at_exit then
         let started = (case transfer_started_ms run of Some t \<Rightarrow> t | None \<Rightarrow> now) in
           if now - started \<ge> transfer_hold_ms
           then
             let gain = (if \<not> has_modifier (gauntlet_preset run) SingleReserveMod
                         then min transfer_health (gauntlet_max_health run - gauntlet_health run) else 0) in
             \<lparr> transfer_run = run\<lparr> gauntlet_last_ms := now, gauntlet_health := gauntlet_health run + gain,
                 gauntlet_phase := CombatPhase stage, transfer_started_ms := None, pad_started_ms := None \<rparr>,
               transfer_recovered = gain, transfer_stage = Some stage \<rparr>
           else \<lparr> transfer_run = run\<lparr> gauntlet_last_ms := now, transfer_started_ms := Some started, pad_started_ms := None \<rparr>,
                 transfer_recovered = 0, transfer_stage = None \<rparr>
       else \<lparr> transfer_run = run\<lparr> gauntlet_last_ms := now, transfer_started_ms := None, pad_started_ms := None \<rparr>,
              transfer_recovered = 0, transfer_stage = None \<rparr>) = u"
    using assms c by (cases run) (simp add: observe_transfer_def Let_def split: if_splits)
  show ?thesis
  proof (cases "at_exit")
    case False
    then have "transfer_quiet run now u" using step unfolding transfer_quiet_def
      by (intro exI [of _ None]) auto
    then show ?thesis using c by blast
  next
    case exit: True
    show ?thesis
    proof (cases "transfer_started_ms run")
      case None
      then have "transfer_quiet run now u" using step exit fresh_hold [of now] unfolding transfer_quiet_def
        by (intro exI [of _ "Some now"] exI [of _ None]) auto
      then show ?thesis using c by blast
    next
      case (Some t)
      show ?thesis
      proof (cases "now - t \<ge> transfer_hold_ms")
        case True
        let ?gain = "if \<not> has_modifier (gauntlet_preset run) SingleReserveMod
            then min transfer_health (gauntlet_max_health run - gauntlet_health run) else 0"
        have "transfer_done run now u"
          unfolding transfer_done_def using c step exit Some True
          by (intro exI [of _ t] exI [of _ c] exI [of _ stage] exI [of _ ?gain])
            (auto simp: transfer_health_def Let_def)
        then show ?thesis using c by blast
      next
        case False
        then have "transfer_quiet run now u" using step exit Some unfolding transfer_quiet_def
          by (intro exI [of _ "Some t"] exI [of _ None]) auto
        then show ?thesis using c by blast
      qed
    qed
  qed
qed

lemma observe_reserve_cases:
  assumes "observe_reserve run now at_reserve = Inr u"
  shows "gauntlet_last_ms run \<le> now \<and> (\<exists>c. gauntlet_phase run = TransferPhase c) \<and>
    (transfer_quiet run now u \<or> reserve_done run now u)"
proof -
  obtain c where c: "gauntlet_last_ms run \<le> now" "gauntlet_phase run = TransferPhase c"
      "has_modifier (gauntlet_preset run) SingleReserveMod"
    using assms by (auto simp: observe_reserve_def not_less split: if_splits gauntlet_phase.splits)
  let ?open = "at_reserve \<and> \<not> pad_used run \<and> gauntlet_health run < gauntlet_max_health run"
  let ?gain = "min transfer_health (gauntlet_max_health run - gauntlet_health run)"
  have step: "(if ?open then
         let started = (case pad_started_ms run of Some t \<Rightarrow> t | None \<Rightarrow> now) in
           if now - started \<ge> transfer_hold_ms
           then
             \<lparr> transfer_run = run\<lparr> gauntlet_last_ms := now, gauntlet_health := gauntlet_health run + ?gain,
                 pad_used := True, transfer_started_ms := None, pad_started_ms := None \<rparr>,
               transfer_recovered = ?gain, transfer_stage = None \<rparr>
           else \<lparr> transfer_run = run\<lparr> gauntlet_last_ms := now, transfer_started_ms := None, pad_started_ms := Some started \<rparr>,
                 transfer_recovered = 0, transfer_stage = None \<rparr>
       else \<lparr> transfer_run = run\<lparr> gauntlet_last_ms := now, transfer_started_ms := None, pad_started_ms := None \<rparr>,
              transfer_recovered = 0, transfer_stage = None \<rparr>) = u"
    using assms c by (cases ?open; cases run) (auto simp: observe_reserve_def Let_def split: if_splits)
  show ?thesis
  proof (cases ?open)
    case False
    then have "transfer_quiet run now u" using step unfolding transfer_quiet_def
      by (intro exI [of _ None]) auto
    then show ?thesis using c by blast
  next
    case pad: True
    show ?thesis
    proof (cases "pad_started_ms run")
      case None
      then have "transfer_quiet run now u" using step pad fresh_hold [of now] unfolding transfer_quiet_def
        by (intro exI [of _ None] exI [of _ "Some now"]) auto
      then show ?thesis using c by blast
    next
      case (Some t)
      show ?thesis
      proof (cases "now - t \<ge> transfer_hold_ms")
        case True
        have "reserve_done run now u"
          unfolding reserve_done_def using c step pad Some True
          by (intro exI [of _ t] exI [of _ c] exI [of _ ?gain]) (auto simp: transfer_health_def Let_def)
        then show ?thesis using c by blast
      next
        case False
        then have "transfer_quiet run now u" using step pad Some unfolding transfer_quiet_def
          by (intro exI [of _ None] exI [of _ "Some t"]) auto
        then show ?thesis using c by blast
      qed
    qed
  qed
qed

lemma gauntlet_call_cases:
  assumes "gauntlet_call e run = Inr u"
  obtains (fought) stage hp where "gauntlet_last_ms run \<le> gauntlet_time e"
      "gauntlet_phase run = CombatPhase stage" "hp \<le> gauntlet_health run"
      "u = \<lparr> transfer_run = run\<lparr> gauntlet_last_ms := gauntlet_time e, gauntlet_health := hp,
               gauntlet_phase := (if hp = 0 then GauntletDefeated
                 else if next_stage run stage \<noteq> None then TransferPhase stage else GauntletCompleted) \<rparr>,
             transfer_recovered = 0, transfer_stage = None \<rparr>"
  | (observed) c where "gauntlet_last_ms run \<le> gauntlet_time e" "gauntlet_phase run = TransferPhase c"
      "transfer_quiet run (gauntlet_time e) u \<or> transfer_done run (gauntlet_time e) u \<or>
       reserve_done run (gauntlet_time e) u"
proof (cases e)
  case (FinishEncounter now stage hp)
  then show ?thesis using assms fought
    by (auto simp: finish_encounter_def and_then_Inr not_less split: if_splits)
next
  case (ObserveTransfer now x)
  then show ?thesis using assms observed observe_transfer_cases [of run now x u] by auto
next
  case (ObserveReserve now x)
  then show ?thesis using assms observed observe_reserve_cases [of run now x u] by auto
next
  case (ObserveAt now p)
  then have "observe_reserve run now True = Inr u \<or> (\<exists>x. observe_transfer run now x = Inr u)"
    using assms by (auto simp: observe_at_def split: gauntlet_phase.splits if_splits)
  then show ?thesis
    using observed observe_reserve_cases [of run now True u] observe_transfer_cases [of run now _ u] ObserveAt by auto
qed

text \<open>The stages of a preset are three different ones.\<close>

lemma gauntlet_stages_three:
  obtains a b c where "gauntlet_stages p = [a, b, c]" "a \<noteq> b" "a \<noteq> c" "b \<noteq> c"
  by (cases "has_modifier p BastionFirstMod") (auto simp: gauntlet_stages_def)

lemma next_stage_nth:
  assumes "Suc i < length (gauntlet_stages (gauntlet_preset run))"
  shows "next_stage run (gauntlet_stages (gauntlet_preset run) ! i) =
    Some (gauntlet_stages (gauntlet_preset run) ! Suc i)"
proof -
  obtain a b c where s: "gauntlet_stages (gauntlet_preset run) = [a, b, c]" "a \<noteq> b" "a \<noteq> c" "b \<noteq> c"
    by (rule gauntlet_stages_three)
  then have "i = 0 \<or> i = 1" using assms by auto
  then show ?thesis using s by (auto simp: next_stage_def)
qed

lemma next_stage_last:
  assumes "Suc i = length (gauntlet_stages (gauntlet_preset run))"
  shows "next_stage run (gauntlet_stages (gauntlet_preset run) ! i) = None"
proof -
  obtain a b c where s: "gauntlet_stages (gauntlet_preset run) = [a, b, c]" "a \<noteq> b" "a \<noteq> c" "b \<noteq> c"
    by (rule gauntlet_stages_three)
  then have "i = 2" using assms by simp
  then show ?thesis using s by (auto simp: next_stage_def)
qed

section \<open>Invariants\<close>

text \<open>What one accepted call does, whichever it is.\<close>

definition gauntlet_accepts ::
  "u64 \<Rightarrow> gauntlet_run \<Rightarrow> gauntlet_run \<Rightarrow> u32 \<Rightarrow> gauntlet_stage option \<Rightarrow> bool" where
  "gauntlet_accepts now run run' gain opened \<longleftrightarrow>
     gauntlet_last_ms run' = now \<and> gauntlet_preset run' = gauntlet_preset run \<and>
     gauntlet_max_health run' = gauntlet_max_health run \<and> gain \<le> 24 \<and>
     (has_modifier (gauntlet_preset run) SingleReserveMod \<longrightarrow>
        gain = 0 \<and> pad_used run' = pad_used run \<or> \<not> pad_used run \<and> pad_used run') \<and>
     (\<not> has_modifier (gauntlet_preset run) SingleReserveMod \<longrightarrow> gain \<noteq> 0 \<longrightarrow> opened \<noteq> None) \<and>
     (case gauntlet_phase run of
        CombatPhase s \<Rightarrow> gauntlet_phase run' =
          (if gauntlet_health run' = 0 then GauntletDefeated
           else if next_stage run s \<noteq> None then TransferPhase s else GauntletCompleted) \<and> opened = None
      | TransferPhase s \<Rightarrow>
          (case opened of
             None \<Rightarrow> gauntlet_phase run' = gauntlet_phase run
           | Some x \<Rightarrow> next_stage run s = Some x \<and> gauntlet_phase run' = CombatPhase x)
      | _ \<Rightarrow> False) \<and>
     (opened \<noteq> None \<longrightarrow> (\<exists>t. transfer_started_ms run = Some t \<and> unat t + 1200 \<le> unat now)) \<and>
     (opened = None \<and> gain \<noteq> 0 \<longrightarrow> (\<exists>t. pad_started_ms run = Some t \<and> unat t + 1200 \<le> unat now)) \<and>
     (\<forall>t. transfer_started_ms run' = Some t \<longrightarrow>
        t = now \<or> transfer_started_ms run = Some t \<and> gauntlet_phase run' = gauntlet_phase run) \<and>
     (\<forall>t. pad_started_ms run' = Some t \<longrightarrow>
        t = now \<or> pad_started_ms run = Some t \<and> gauntlet_phase run' = gauntlet_phase run)"

lemma held_long:
  "t \<le> l \<Longrightarrow> l \<le> now \<Longrightarrow> transfer_hold_ms \<le> now - t \<Longrightarrow> unat t + 1200 \<le> unat now" for t l now :: u64
  by (simp add: transfer_hold_ms_def word_le_nat_alt unat_sub)

lemma healed:
  "h \<le> m \<Longrightarrow> g \<le> m - h \<Longrightarrow> h + g \<le> m" for h m g :: u32
proof -
  assume h: "h \<le> m" "g \<le> m - h"
  then have "unat h + unat g \<le> unat m" by (simp add: word_le_nat_alt unat_sub)
  moreover from this have "unat (h + g) = unat h + unat g"
    using unat_bound [of m] by (simp add: unat_word_ariths)
  ultimately show "h + g \<le> m" by (simp add: word_le_nat_alt)
qed

lemma gauntlet_step_accepts:
  assumes good: "gauntlet_good run" and st: "gauntlet_step e run = (run', Some (gain, opened))"
  shows "gauntlet_accepts (gauntlet_time e) run run' gain opened \<and> gauntlet_good run'"
proof -
  obtain u where u: "gauntlet_call e run = Inr u" and out: "run' = transfer_run u"
      "gain = transfer_recovered u" "opened = transfer_stage u"
    using st by (auto simp: gauntlet_step_def split: sum.splits)
  have ok: "gauntlet_health run \<le> gauntlet_max_health run"
      "\<And>t. transfer_started_ms run = Some t \<Longrightarrow> t \<le> gauntlet_last_ms run"
      "\<And>t. pad_started_ms run = Some t \<Longrightarrow> t \<le> gauntlet_last_ms run"
    and idle: "transfer_started_ms run = None \<and> pad_started_ms run = None \<or>
      (\<exists>c. gauntlet_phase run = TransferPhase c)"
    using good by (simp_all add: gauntlet_good_def)
  from u show ?thesis
  proof (cases rule: gauntlet_call_cases)
    case (fought stage hp)
    then have none: "transfer_started_ms run = None" "pad_started_ms run = None" using idle by auto
    have "hp \<le> gauntlet_max_health run" using fought(3) ok(1) by (rule order_trans)
    then show ?thesis using fought none by (simp add: out gauntlet_accepts_def gauntlet_good_def)
  next
    case (observed c)
    from observed(3) show ?thesis
    proof (elim disjE)
      assume "transfer_quiet run (gauntlet_time e) u"
      then obtain ts ps where "u = \<lparr> transfer_run = run\<lparr> gauntlet_last_ms := gauntlet_time e,
            transfer_started_ms := ts, pad_started_ms := ps \<rparr>, transfer_recovered = 0, transfer_stage = None \<rparr>"
          "still_held (transfer_started_ms run) (gauntlet_time e) ts" "still_held (pad_started_ms run) (gauntlet_time e) ps"
        by (auto simp: transfer_quiet_def)
      then show ?thesis using observed(1,2) ok
        by (auto simp: out gauntlet_accepts_def gauntlet_good_def still_held_def intro: order_trans)
    next
      assume "transfer_done run (gauntlet_time e) u"
      then obtain t stage g where d: "next_stage run c = Some stage" "transfer_started_ms run = Some t"
          "transfer_hold_ms \<le> gauntlet_time e - t" "g \<le> 24" "g \<le> gauntlet_max_health run - gauntlet_health run"
          "has_modifier (gauntlet_preset run) SingleReserveMod \<longrightarrow> g = 0"
          "u = \<lparr> transfer_run = run\<lparr> gauntlet_last_ms := gauntlet_time e, gauntlet_health := gauntlet_health run + g,
                 gauntlet_phase := CombatPhase stage, transfer_started_ms := None, pad_started_ms := None \<rparr>,
              transfer_recovered = g, transfer_stage = Some stage \<rparr>"
        using observed(2) by (auto simp: transfer_done_def)
      then show ?thesis using observed(1,2) healed [OF ok(1) d(5)] held_long [OF ok(2) [OF d(2)] observed(1) d(3)]
        by (simp add: out gauntlet_accepts_def gauntlet_good_def)
    next
      assume "reserve_done run (gauntlet_time e) u"
      then obtain t g where d: "pad_started_ms run = Some t" "transfer_hold_ms \<le> gauntlet_time e - t"
          "\<not> pad_used run" "has_modifier (gauntlet_preset run) SingleReserveMod"
          "g \<le> 24" "g \<le> gauntlet_max_health run - gauntlet_health run"
          "u = \<lparr> transfer_run = run\<lparr> gauntlet_last_ms := gauntlet_time e, gauntlet_health := gauntlet_health run + g,
                 pad_used := True, transfer_started_ms := None, pad_started_ms := None \<rparr>,
              transfer_recovered = g, transfer_stage = None \<rparr>"
        by (auto simp: reserve_done_def)
      then show ?thesis using observed(1,2) healed [OF ok(1) d(6)] held_long [OF ok(3) [OF d(1)] observed(1) d(2)]
        by (simp add: out gauntlet_accepts_def gauntlet_good_def)
    qed
  qed
qed

lemma gauntlet_step_None: "gauntlet_step e run = (run', None) \<Longrightarrow> run' = run"
  by (auto simp: gauntlet_step_def split: sum.splits)

lemma gauntlet_effect_accepts:
  assumes "gauntlet_good run"
  obtains (refused) "fst (gauntlet_step e run) = run" "snd (gauntlet_step e run) = None"
  | (accepted) gain opened where "snd (gauntlet_step e run) = Some (gain, opened)"
      "gauntlet_accepts (gauntlet_time e) run (fst (gauntlet_step e run)) gain opened"
      "gauntlet_good (fst (gauntlet_step e run))"
proof (cases "gauntlet_step e run")
  case (Pair run' r)
  show thesis
  proof (cases r)
    case None
    then show ?thesis using Pair gauntlet_step_None [of e run run'] refused by simp
  next
    case (Some x)
    then show ?thesis
      using Pair gauntlet_step_accepts [OF assms, of e run' "fst x" "snd x"] accepted [of "fst x" "snd x"] by simp
  qed
qed

definition exit_held :: "gauntlet_run \<Rightarrow> gauntlet_phase \<times> u64 option" where
  "exit_held run = (gauntlet_phase run, transfer_started_ms run)"

definition pad_held :: "gauntlet_run \<Rightarrow> gauntlet_phase \<times> u64 option" where
  "pad_held run = (gauntlet_phase run, pad_started_ms run)"

definition stage_opens :: "gauntlet_event \<Rightarrow> gauntlet_run \<Rightarrow> bool" where
  "stage_opens e run \<longleftrightarrow> (\<exists>gain x. snd (gauntlet_step e run) = Some (gain, Some x))"

definition pad_restores :: "gauntlet_event \<Rightarrow> gauntlet_run \<Rightarrow> bool" where
  "pad_restores e run \<longleftrightarrow> (\<exists>gain. gain \<noteq> 0 \<and> snd (gauntlet_step e run) = Some (gain, None))"

lemma gauntlet_good_step:
  assumes "gauntlet_good run"
  shows "gauntlet_good (fst (gauntlet_step e run))"
  using assms by (cases rule: gauntlet_effect_accepts [OF assms, of e]) simp_all

interpretation exit: hold "\<lambda>e s. fst (gauntlet_step e s)" gauntlet_good gauntlet_last_ms exit_held
  transfer_started_ms stage_opens 1200
proof (unfold_locales, goal_cases)
  case (1 s e)
  then show ?case by (rule gauntlet_good_step)
next
  case (2 s e t)
  from 2(1) show ?case using 2(2)
    by (cases rule: gauntlet_effect_accepts [of _ e]) (auto simp: exit_held_def gauntlet_accepts_def)
next
  case (3 s e)
  from 3(1) show ?case using 3(2)
    by (cases rule: gauntlet_effect_accepts [of _ e]) (auto simp: stage_opens_def gauntlet_accepts_def)
qed

interpretation pad: hold "\<lambda>e s. fst (gauntlet_step e s)" gauntlet_good gauntlet_last_ms pad_held
  pad_started_ms pad_restores 1200
proof (unfold_locales, goal_cases)
  case (1 s e t)
  from 1(1) show ?case using 1(2)
    by (cases rule: gauntlet_effect_accepts [of _ e]) (auto simp: pad_held_def gauntlet_accepts_def)
next
  case (2 s e)
  from 2(1) show ?case using 2(2)
    by (cases rule: gauntlet_effect_accepts [of _ e]) (auto simp: pad_restores_def gauntlet_accepts_def)
qed

section \<open>Order of the stages\<close>

fun opened_stages :: "(u64 \<times> u32 \<times> gauntlet_stage option) list \<Rightarrow> gauntlet_stage list" where
  "opened_stages [] = []"
| "opened_stages ((t, gain, opened) # acts) =
     (case opened of None \<Rightarrow> [] | Some x \<Rightarrow> [x]) @ opened_stages acts"

fun restored_health :: "(u64 \<times> u32 \<times> gauntlet_stage option) list \<Rightarrow> nat" where
  "restored_health [] = 0"
| "restored_health ((t, gain, opened) # acts) = unat gain + restored_health acts"

text \<open>The run is at the stage of index \<open>n\<close> of its preset.\<close>

definition stage_index :: "gauntlet_run \<Rightarrow> nat \<Rightarrow> bool" where
  "stage_index run n \<longleftrightarrow> n < 3 \<and>
    (case gauntlet_phase run of
       CombatPhase s \<Rightarrow> s = gauntlet_stages (gauntlet_preset run) ! n
     | TransferPhase s \<Rightarrow> s = gauntlet_stages (gauntlet_preset run) ! n \<and> n < 2
     | GauntletCompleted \<Rightarrow> n = 2
     | GauntletDefeated \<Rightarrow> True)"

lemma gauntlet_stages_length [simp]: "length (gauntlet_stages p) = 3"
  by (simp add: gauntlet_stages_def)

lemma stage_index_step:
  assumes "stage_index run n" and "gauntlet_accepts now run run' gain opened"
  shows "stage_index run' (n + length (case opened of None \<Rightarrow> [] | Some x \<Rightarrow> [x])) \<and>
    (\<forall>x. opened = Some x \<longrightarrow> n < 2 \<and> x = gauntlet_stages (gauntlet_preset run) ! Suc n)"
proof -
  let ?stages = "gauntlet_stages (gauntlet_preset run)"
  have same: "gauntlet_preset run' = gauntlet_preset run" using assms(2) by (simp add: gauntlet_accepts_def)
  have nxt: "n < 2 \<Longrightarrow> next_stage run (?stages ! n) = Some (?stages ! Suc n)"
    by (rule next_stage_nth) simp
  have fin: "n = 2 \<Longrightarrow> next_stage run (?stages ! n) = None" by (rule next_stage_last) simp
  show ?thesis
  proof (cases "gauntlet_phase run")
    case (CombatPhase s)
    then have s: "s = ?stages ! n" "n < 3" using assms(1) by (simp_all add: stage_index_def)
    have "opened = None" "gauntlet_phase run' =
          (if gauntlet_health run' = 0 then GauntletDefeated
           else if next_stage run s \<noteq> None then TransferPhase s else GauntletCompleted)"
      using assms(2) CombatPhase by (simp_all add: gauntlet_accepts_def)
    moreover have "n < 2 \<or> n = 2" using s(2) by linarith
    ultimately show ?thesis using s nxt fin by (auto simp: stage_index_def same)
  next
    case (TransferPhase s)
    then have s: "s = ?stages ! n" "n < 2" using assms(1) by (simp_all add: stage_index_def)
    then show ?thesis using assms(2) TransferPhase nxt
      by (cases opened) (simp_all add: gauntlet_accepts_def stage_index_def)
  qed (use assms(2) in \<open>simp_all add: gauntlet_accepts_def\<close>)
qed

lemma gauntlet_run_order:
  assumes "run_brain gauntlet_step gauntlet_time es run = (run', acts)" and "gauntlet_good run"
    and "stage_index run n"
  shows "\<exists>k. stage_index run' (n + k) \<and>
      opened_stages acts = take k (drop (Suc n) (gauntlet_stages (gauntlet_preset run))) \<and>
      length (opened_stages acts) = k \<and>
      restored_health acts \<le> (if has_modifier (gauntlet_preset run) SingleReserveMod
        then (if pad_used run then 0 else 24) else 24 * k) \<and>
      gauntlet_preset run' = gauntlet_preset run \<and>
      gauntlet_max_health run' = gauntlet_max_health run \<and> gauntlet_good run'"
  using assms
proof (induction es arbitrary: run acts n)
  case (Cons e es)
  let ?stages = "gauntlet_stages (gauntlet_preset run)"
  obtain run1 r where st: "gauntlet_step e run = (run1, r)" by (cases "gauntlet_step e run")
  obtain run2 acts2 where rn: "run_brain gauntlet_step gauntlet_time es run1 = (run2, acts2)" by fastforce
  show ?case
  proof (cases r)
    case None
    then have "run1 = run" using st gauntlet_step_None by blast
    then have "run_brain gauntlet_step gauntlet_time es run = (run', acts)" using Cons.prems(1) st rn None by simp
    then show ?thesis using Cons.prems(2,3) by (rule Cons.IH)
  next
    case (Some x)
    obtain gain opened where x: "x = (gain, opened)" by (cases x)
    have acts: "acts = (gauntlet_time e, gain, opened) # acts2" "run2 = run'"
      using Cons.prems(1) st rn Some x by auto
    have step: "gauntlet_accepts (gauntlet_time e) run run1 gain opened" "gauntlet_good run1"
      using gauntlet_step_accepts [OF Cons.prems(2), of e run1 gain opened] st Some x by simp_all
    let ?o = "case opened of None \<Rightarrow> [] | Some x \<Rightarrow> [x]"
    have idx: "stage_index run1 (n + length ?o)"
      and new: "\<And>x. opened = Some x \<Longrightarrow> n < 2 \<and> x = ?stages ! Suc n"
      using stage_index_step [OF Cons.prems(3) step(1)] by blast+
    have same: "gauntlet_preset run1 = gauntlet_preset run" "gauntlet_max_health run1 = gauntlet_max_health run"
      using step(1) by (simp_all add: gauntlet_accepts_def)
    obtain k where k: "stage_index run' (n + length ?o + k)"
        "opened_stages acts2 = take k (drop (Suc (n + length ?o)) ?stages)" "length (opened_stages acts2) = k"
        "restored_health acts2 \<le> (if has_modifier (gauntlet_preset run) SingleReserveMod
          then (if pad_used run1 then 0 else 24) else 24 * k)"
        "gauntlet_preset run' = gauntlet_preset run" "gauntlet_max_health run' = gauntlet_max_health run"
        "gauntlet_good run'"
      using Cons.IH [OF rn [unfolded acts(2)] step(2) idx] unfolding same by blast
    have gain: "unat gain \<le> 24" using step(1) by (simp add: gauntlet_accepts_def word_le_nat_alt)
    have once: "has_modifier (gauntlet_preset run) SingleReserveMod \<Longrightarrow>
        gain = 0 \<and> pad_used run1 = pad_used run \<or> \<not> pad_used run \<and> pad_used run1"
      and paid: "\<not> has_modifier (gauntlet_preset run) SingleReserveMod \<Longrightarrow> gain = 0 \<or> opened \<noteq> None"
      using step(1) by (auto simp: gauntlet_accepts_def)
    have order: "opened_stages acts = take (length ?o + k) (drop (Suc n) ?stages)"
    proof (cases opened)
      case None
      then show ?thesis using k(2) by (simp add: acts(1))
    next
      case (Some y)
      then have "drop (Suc n) ?stages = y # drop (Suc (Suc n)) ?stages"
        using new [OF Some] by (simp add: Cons_nth_drop_Suc)
      then show ?thesis using k(2) Some by (simp add: acts(1))
    qed
    have "restored_health acts \<le> (if has_modifier (gauntlet_preset run) SingleReserveMod
        then (if pad_used run then 0 else 24) else 24 * (length ?o + k))"
      using k(4) gain once paid by (cases opened) (auto simp: acts(1) split: if_splits)
    moreover have "length (opened_stages acts) = length ?o + k"
      using k(3) by (cases opened) (simp_all add: acts(1))
    moreover have "stage_index run' (n + (length ?o + k))" using k(1) by (simp only: add.assoc)
    ultimately show ?thesis using k(5-7) order by blast
  qed
qed (auto intro: exI [of _ 0])

lemma gauntlet_with_preset_Inr:
  assumes "gauntlet_with_preset e p = Inr start"
  shows "gauntlet_good start" "stage_index start 0" "gauntlet_preset start = p" "\<not> pad_used start"
    "transfer_started_ms start = None" "gauntlet_health start = gauntlet_max_health start"
  using assms
  by (auto simp: gauntlet_with_preset_def and_then_Inr gauntlet_good_def stage_index_def hd_conv_nth
      gauntlet_stages_def split: if_splits)

text \<open>
  C28 (invariant): the order of a gauntlet. Over any history of calls, accepted or refused: the
  stages opened after the first are the next ones of the preset in their order, and the phase is
  at the last opened stage, completed only at the third. Transfers restore at most 24 points
  each, a single reserve at most 24 in the whole run, and health never exceeds the maximum of
  the build. A stage is only opened when the same transfer timer was running in every state since
  an accepted call at least 1200 ms before.
\<close>

theorem gauntlet_stages_in_order:
  assumes "gauntlet_with_preset e p = Inr start"
    and "run_brain gauntlet_step gauntlet_time calls start = (run, acts)"
  shows "(\<exists>n < 3. opened_stages acts = take n (tl (gauntlet_stages p)) \<and>
      (case gauntlet_phase run of
         CombatPhase s \<Rightarrow> s = gauntlet_stages p ! n
       | TransferPhase s \<Rightarrow> s = gauntlet_stages p ! n \<and> n < 2
       | GauntletCompleted \<Rightarrow> n = 2
       | GauntletDefeated \<Rightarrow> True) \<and>
      restored_health acts \<le> (if has_modifier p SingleReserveMod then 24 else 24 * n)) \<and>
    gauntlet_health run \<le> gauntlet_max_health start \<and>
    (\<forall>call. stage_opens call run \<longrightarrow>
      (\<exists>m \<le> length calls.
        unat (gauntlet_last_ms (fst (run_brain gauntlet_step gauntlet_time (take m calls) start))) + 1200
          \<le> unat (gauntlet_time call) \<and>
        (\<forall>k. m \<le> k \<and> k \<le> length calls \<longrightarrow>
           exit_held (fst (run_brain gauntlet_step gauntlet_time (take k calls) start)) = exit_held run)))"
proof (intro conjI allI impI)
  note new = gauntlet_with_preset_Inr [OF assms(1)]
  have "\<exists>n. stage_index run n \<and> opened_stages acts = take n (drop (Suc 0) (gauntlet_stages p)) \<and>
      restored_health acts \<le> (if has_modifier p SingleReserveMod then 24 else 24 * n) \<and>
      gauntlet_preset run = p \<and> gauntlet_max_health run = gauntlet_max_health start \<and> gauntlet_good run"
    using gauntlet_run_order [OF assms(2) new(1,2)] new(4) unfolding new(3)
    by (simp only: add_0 if_False) blast
  then obtain n where n: "stage_index run n" "opened_stages acts = take n (drop (Suc 0) (gauntlet_stages p))"
      "restored_health acts \<le> (if has_modifier p SingleReserveMod then 24 else 24 * n)"
      "gauntlet_preset run = p" "gauntlet_max_health run = gauntlet_max_health start" "gauntlet_good run"
    by blast
  then show "\<exists>n < 3. opened_stages acts = take n (tl (gauntlet_stages p)) \<and>
      (case gauntlet_phase run of
         CombatPhase s \<Rightarrow> s = gauntlet_stages p ! n
       | TransferPhase s \<Rightarrow> s = gauntlet_stages p ! n \<and> n < 2
       | GauntletCompleted \<Rightarrow> n = 2
       | GauntletDefeated \<Rightarrow> True) \<and>
      restored_health acts \<le> (if has_modifier p SingleReserveMod then 24 else 24 * n)"
    by (auto simp: stage_index_def drop_Suc)
  show "gauntlet_health run \<le> gauntlet_max_health start" using n(5,6) by (simp add: gauntlet_good_def)
  let ?step = "\<lambda>c s. fst (gauntlet_step c s)"
  let ?at = "\<lambda>k. fst (run_brain gauntlet_step gauntlet_time (take k calls) start)"
  have at: "?at k = fold ?step (take k calls) start" for k by (rule run_brain_fold)
  have last: "run = fold ?step calls start" using run_brain_fold [of gauntlet_step gauntlet_time calls start] assms(2) by simp
  fix call assume "stage_opens call run"
  then have opens: "stage_opens call (fold ?step calls start)" by (simp only: last)
  from exit.fired_held [OF new(1,5) opens] obtain m where m: "m \<le> length calls"
      "unat (gauntlet_last_ms (?at m)) + 1200 \<le> unat (gauntlet_last_ms (fst (gauntlet_step call run)))"
      "\<And>k. m \<le> k \<Longrightarrow> k \<le> length calls \<Longrightarrow> exit_held (?at k) = exit_held run"
    unfolding at last [symmetric] by blast
  have "gauntlet_last_ms (fst (gauntlet_step call run)) = gauntlet_time call"
    using n(6) \<open>stage_opens call run\<close>
    by (cases rule: gauntlet_effect_accepts [of _ call]) (auto simp: stage_opens_def gauntlet_accepts_def)
  then show "\<exists>m \<le> length calls. unat (gauntlet_last_ms (?at m)) + 1200 \<le> unat (gauntlet_time call) \<and>
        (\<forall>k. m \<le> k \<and> k \<le> length calls \<longrightarrow> exit_held (?at k) = exit_held run)"
    using m by auto
qed
section \<open>Example\<close>

lemma baseline_modifiers [simp]: "\<not> has_modifier Baseline m"
  by (simp add: has_modifier_def)

lemma rifle_gauntlet:
  obtains start where "gauntlet_with_preset rifle_equipment Baseline = Inr start"
    "gauntlet_phase start = CombatPhase Support" "gauntlet_health start = 100" "gauntlet_max_health start = 100"
    "gauntlet_last_ms start = 0" "gauntlet_preset start = Baseline"
    "transfer_started_ms start = None" "pad_started_ms start = None" "\<not> pad_used start"
proof (rule rifle_profile)
  fix b assume "equipment_profile rifle_equipment = Inr b" "eff_max_health b = 100"
  then have "gauntlet_with_preset rifle_equipment Baseline = Inr
      \<lparr> gauntlet_preset = Baseline, gauntlet_phase = CombatPhase Support, gauntlet_health = 100,
        gauntlet_max_health = 100, gauntlet_last_ms = 0, transfer_started_ms = None,
        pad_started_ms = None, pad_used = False \<rparr>"
    by (simp add: gauntlet_with_preset_def gauntlet_stages_def)
  then show thesis by (rule that) simp_all
qed

theorem gauntlet_stages_in_order_witness:
  "\<exists>start run acts. gauntlet_with_preset rifle_equipment Baseline = Inr start \<and>
     run_brain gauntlet_step gauntlet_time
       [FinishEncounter 5000 Support 70, ObserveTransfer 6000 True, ObserveTransfer 7200 True] start = (run, acts) \<and>
     opened_stages acts = [Bastion] \<and> restored_health acts = 24 \<and> gauntlet_health run \<le> 100"
proof (rule rifle_gauntlet)
  fix start assume start: "gauntlet_with_preset rifle_equipment Baseline = Inr start"
    "gauntlet_phase start = CombatPhase Support" "gauntlet_health start = 100" "gauntlet_max_health start = 100"
    "gauntlet_last_ms start = 0" "gauntlet_preset start = Baseline"
    "transfer_started_ms start = None" "pad_started_ms start = None" "\<not> pad_used start"
  let ?calls = "[FinishEncounter 5000 Support 70, ObserveTransfer 6000 True, ObserveTransfer 7200 True]"
  obtain run acts where run: "run_brain gauntlet_step gauntlet_time ?calls start = (run, acts)" by fastforce
  have "next_stage r Support = Some Bastion" if "gauntlet_preset r = Baseline" for r
    using that by (simp add: next_stage_def gauntlet_stages_def)
  then have "acts = [(5000, 0, None), (6000, 0, None), (7200, 24, Some Bastion)]"
    using run start(2-)
    by (simp add: gauntlet_step_def finish_encounter_def observe_transfer_def ok_or_def transfer_hold_ms_def
        transfer_health_def Let_def)
  then show ?thesis using gauntlet_stages_in_order [OF start(1) run] start run by (intro exI conjI) (assumption | simp)+
qed

end
