(* ===== verification/Mastery.thy ===== *)
theory Mastery
  imports Challenges
begin

text \<open>
  Mastery goals (\<open>src/runtime/challenges/src/mastery.rs\<close>): distinctions derived from the
  finished attempts of a character, without a counter or a grant of their own. The lemmas show
  that the archive is a function of the set of the attempts it has seen, in whatever order and
  however often the history was read, and that a badge carries the earliest run at which its
  goals were complete.
\<close>

section \<open>Goals\<close>

definition mastery_revision :: string where "mastery_revision = ''m37-mastery-v1''"
definition west_route_move_limit :: u64 where "west_route_move_limit = 40"

datatype mastery_goal =
  BreacherGoal | MarksmanGoal | GuardGoal | RoutePlannerGoal | TargetPriorityGoal | PrismExecutionGoal

text \<open>\<open>derive(Ord)\<close> orders the goals as they are declared.\<close>

fun goal_rank :: "mastery_goal \<Rightarrow> nat" where
  "goal_rank BreacherGoal = 0"
| "goal_rank MarksmanGoal = 1"
| "goal_rank GuardGoal = 2"
| "goal_rank RoutePlannerGoal = 3"
| "goal_rank TargetPriorityGoal = 4"
| "goal_rank PrismExecutionGoal = 5"

lemma goal_rank_eq: "goal_rank a = goal_rank b \<longleftrightarrow> a = b"
  by (cases a; cases b) simp_all

instantiation mastery_goal :: linorder
begin

definition less_eq_mastery_goal :: "mastery_goal \<Rightarrow> mastery_goal \<Rightarrow> bool" where
  "less_eq_mastery_goal a b \<longleftrightarrow> goal_rank a \<le> goal_rank b"

definition less_mastery_goal :: "mastery_goal \<Rightarrow> mastery_goal \<Rightarrow> bool" where
  "less_mastery_goal a b \<longleftrightarrow> goal_rank a < goal_rank b"

instance
  by standard (auto simp: less_eq_mastery_goal_def less_mastery_goal_def goal_rank_eq [symmetric])

end

definition all_goals :: "mastery_goal list" where
  "all_goals = [BreacherGoal, MarksmanGoal, GuardGoal, RoutePlannerGoal, TargetPriorityGoal, PrismExecutionGoal]"

fun goal_as_str :: "mastery_goal \<Rightarrow> string" where
  "goal_as_str BreacherGoal = ''breacher''"
| "goal_as_str MarksmanGoal = ''marksman''"
| "goal_as_str GuardGoal = ''guard''"
| "goal_as_str RoutePlannerGoal = ''route_planner''"
| "goal_as_str TargetPriorityGoal = ''target_priority''"
| "goal_as_str PrismExecutionGoal = ''prism_execution''"

fun goal_contract :: "mastery_goal \<Rightarrow> contract_id" where
  "goal_contract BreacherGoal = CloseQuarters"
| "goal_contract MarksmanGoal = DistantSignal"
| "goal_contract GuardGoal = LastReserve"
| "goal_contract RoutePlannerGoal = MeridianCircuit"
| "goal_contract TargetPriorityGoal = BastionLink"
| "goal_contract PrismExecutionGoal = PrismDiscipline"

fun goal_build :: "mastery_goal \<Rightarrow> (string \<times> module_id list) option" where
  "goal_build BreacherGoal = Some (scatter_caster, [FocusLens, BreachShunt])"
| "goal_build MarksmanGoal = Some (rail_driver, [StandoffOptic, SkirmishDrive])"
| "goal_build GuardGoal = Some (pulse_rifle, [CycleBypass, AblativeShell])"
| "goal_build _ = None"

definition accepts_equipment :: "mastery_goal \<Rightarrow> equipment \<Rightarrow> bool" where
  "accepts_equipment g e =
    (case goal_build g of
       Some (weapon, modules) \<Rightarrow>
         weapon_id e = weapon \<and> list_all (\<lambda>m. m \<in> set (equipped_modules e)) modules
     | None \<Rightarrow> True)"

section \<open>Assessment\<close>

record facts =
  reserve_unused :: bool
  west_route_moves :: "u64 option"
  mender_before_bulwark_damage :: bool
  fact_prism_damage :: "u64 option"

definition default_facts :: facts where
  "default_facts = \<lparr> reserve_unused = False, west_route_moves = None,
     mender_before_bulwark_damage = False, fact_prism_damage = None \<rparr>"

datatype mastery_reason =
  Achieved | CompleteContract | UseBuild | PreserveReserve | UseWestRoute | ReduceRouteMoves
| MenderFirst | AvoidPrismDamage

fun reason_as_str :: "mastery_reason \<Rightarrow> string" where
  "reason_as_str Achieved = ''achieved''"
| "reason_as_str CompleteContract = ''complete_contract''"
| "reason_as_str UseBuild = ''use_build''"
| "reason_as_str PreserveReserve = ''preserve_reserve''"
| "reason_as_str UseWestRoute = ''use_west_route''"
| "reason_as_str ReduceRouteMoves = ''reduce_route_moves''"
| "reason_as_str MenderFirst = ''mender_first''"
| "reason_as_str AvoidPrismDamage = ''avoid_prism_damage''"

record assessment =
  assessed_goal :: mastery_goal
  assessed_reason :: mastery_reason

record mastery_attempt =
  attempt_run_id :: u64
  assessments :: "assessment list"
  attempt_route_moves :: "u64 option"
  attempt_prism_damage :: "u64 option"

definition goal_reason :: "facts \<Rightarrow> mastery_goal \<Rightarrow> mastery_reason" where
  "goal_reason facts g =
    (case g of
       GuardGoal \<Rightarrow> if \<not> reserve_unused facts then PreserveReserve else Achieved
     | RoutePlannerGoal \<Rightarrow>
         (case west_route_moves facts of
            None \<Rightarrow> UseWestRoute
          | Some moves \<Rightarrow>
              if moves = 0 then ReduceRouteMoves
              else if moves > west_route_move_limit then ReduceRouteMoves
              else Achieved)
     | TargetPriorityGoal \<Rightarrow> if \<not> mender_before_bulwark_damage facts then MenderFirst else Achieved
     | PrismExecutionGoal \<Rightarrow> if fact_prism_damage facts \<noteq> Some 0 then AvoidPrismDamage else Achieved
     | _ \<Rightarrow> Achieved)"

definition assess_goal :: "attempt_result \<Rightarrow> facts \<Rightarrow> mastery_goal \<Rightarrow> assessment" where
  "assess_goal res facts g =
    \<lparr> assessed_goal = g,
      assessed_reason =
        (if result_outcome res \<noteq> Completed then CompleteContract
         else if \<not> accepts_equipment g (run_equipment (result_run res)) then UseBuild
         else goal_reason facts g) \<rparr>"

definition assess :: "attempt_result \<Rightarrow> facts \<Rightarrow> mastery_attempt" where
  "assess res facts =
    (let run = result_run res in
     \<lparr> attempt_run_id = run_id run,
       assessments = map (assess_goal res facts)
         (filter (\<lambda>g. goal_contract g = contract (run_rules run)) all_goals),
       attempt_route_moves = west_route_moves facts,
       attempt_prism_damage = fact_prism_damage facts \<rparr>)"

section \<open>The archive\<close>

record mastery_record =
  record_goal :: mastery_goal
  record_run_id :: u64

record mastery_archive =
  archive_records :: "mastery_record list"
  last_attempt :: "mastery_attempt option"

definition default_archive :: mastery_archive where
  "default_archive = \<lparr> archive_records = [], last_attempt = None \<rparr>"

text \<open>Update the first record of the goal, or push one.\<close>

fun note_goal :: "u64 \<Rightarrow> mastery_goal \<Rightarrow> mastery_record list \<Rightarrow> mastery_record list" where
  "note_goal n g [] = [\<lparr> record_goal = g, record_run_id = n \<rparr>]"
| "note_goal n g (r # rs) =
     (if record_goal r = g then r\<lparr> record_run_id := min (record_run_id r) n \<rparr> # rs
      else r # note_goal n g rs)"

fun note_assessments :: "u64 \<Rightarrow> assessment list \<Rightarrow> mastery_record list \<Rightarrow> mastery_record list" where
  "note_assessments n [] rs = rs"
| "note_assessments n (a # as) rs =
     (if assessed_reason a \<noteq> Achieved then note_assessments n as rs
      else note_assessments n as (note_goal n (assessed_goal a) rs))"

definition archive_observe :: "mastery_attempt \<Rightarrow> mastery_archive \<Rightarrow> mastery_archive" where
  "archive_observe att ar =
    \<lparr> archive_records =
        sort_key record_goal (note_assessments (attempt_run_id att) (assessments att) (archive_records ar)),
      last_attempt =
        (if case last_attempt ar of None \<Rightarrow> True | Some latest \<Rightarrow> attempt_run_id latest < attempt_run_id att
         then Some att else last_attempt ar) \<rparr>"

datatype badge = ArsenalAdept | FieldTactician | PrismAdept

definition all_badges :: "badge list" where
  "all_badges = [ArsenalAdept, FieldTactician, PrismAdept]"

fun badge_as_str :: "badge \<Rightarrow> string" where
  "badge_as_str ArsenalAdept = ''arsenal_adept''"
| "badge_as_str FieldTactician = ''field_tactician''"
| "badge_as_str PrismAdept = ''prism_adept''"

fun badge_goals :: "badge \<Rightarrow> mastery_goal list" where
  "badge_goals ArsenalAdept = [BreacherGoal, MarksmanGoal, GuardGoal]"
| "badge_goals FieldTactician = [RoutePlannerGoal, TargetPriorityGoal]"
| "badge_goals PrismAdept = [PrismExecutionGoal]"

record badge_record =
  record_badge :: badge
  badge_run_id :: u64

text \<open>The run recorded for a goal, and those of a list of goals when every one has a record.\<close>

definition goal_run :: "mastery_record list \<Rightarrow> mastery_goal \<Rightarrow> u64 option" where
  "goal_run rs g = map_option record_run_id (find (\<lambda>r. record_goal r = g) rs)"

fun goal_runs :: "mastery_record list \<Rightarrow> mastery_goal list \<Rightarrow> u64 list option" where
  "goal_runs rs [] = Some []"
| "goal_runs rs (g # gs) =
     (case goal_run rs g of
        None \<Rightarrow> None
      | Some n \<Rightarrow> map_option (\<lambda>ns. n # ns) (goal_runs rs gs))"

definition badges :: "mastery_archive \<Rightarrow> badge_record list" where
  "badges ar =
    List.map_filter (\<lambda>b.
      case goal_runs (archive_records ar) (badge_goals b) of
        None \<Rightarrow> None
      | Some ns \<Rightarrow>
          if ns = [] then None
          else Some \<lparr> record_badge = b, badge_run_id = Max (set ns) \<rparr>) all_badges"
section \<open>What the archive remembers\<close>

definition achieves :: "mastery_attempt \<Rightarrow> mastery_goal \<Rightarrow> bool" where
  "achieves att g \<longleftrightarrow>
     list_ex (\<lambda>a. assessed_goal a = g \<and> assessed_reason a = Achieved) (assessments att)"

text \<open>The runs among the attempts that achieved the goal, and the earliest of them.\<close>

definition achieved_runs :: "mastery_attempt set \<Rightarrow> mastery_goal \<Rightarrow> u64 set" where
  "achieved_runs seen g = attempt_run_id ` {att \<in> seen. achieves att g}"

definition earliest_run :: "mastery_attempt set \<Rightarrow> mastery_goal \<Rightarrow> u64 option" where
  "earliest_run seen g = (if achieved_runs seen g = {} then None else Some (Min (achieved_runs seen g)))"

definition earlier :: "u64 \<Rightarrow> u64 option \<Rightarrow> u64" where
  "earlier n r = (case r of None \<Rightarrow> n | Some m \<Rightarrow> min m n)"

definition archive_ok :: "mastery_attempt set \<Rightarrow> mastery_archive \<Rightarrow> bool" where
  "archive_ok seen ar \<longleftrightarrow>
     finite seen \<and>
     sorted (map record_goal (archive_records ar)) \<and> distinct (map record_goal (archive_records ar)) \<and>
     goal_run (archive_records ar) = earliest_run seen \<and>
     (case last_attempt ar of
        None \<Rightarrow> seen = {}
      | Some att \<Rightarrow> att \<in> seen \<and> (\<forall>b \<in> seen. attempt_run_id b \<le> attempt_run_id att))"

lemma goal_run_simps [simp]:
  "goal_run [] g = None"
  "goal_run (r # rs) g = (if record_goal r = g then Some (record_run_id r) else goal_run rs g)"
  by (simp_all add: goal_run_def)

lemma goal_run_note_goal:
  "goal_run (note_goal n g rs) h = (if h = g then Some (earlier n (goal_run rs g)) else goal_run rs h)"
  by (induction rs) (auto simp: earlier_def)

lemma note_goal_goals: "set (map record_goal (note_goal n g rs)) = insert g (set (map record_goal rs))"
  by (induction rs) auto

lemma note_goal_distinct:
  "distinct (map record_goal rs) \<Longrightarrow> distinct (map record_goal (note_goal n g rs))"
  using note_goal_goals [of n g] by (induction rs) (auto simp del: set_map simp: image_iff)

lemma earlier_twice: "earlier n (Some (earlier n r)) = earlier n r"
  by (auto simp: earlier_def split: option.splits)

lemma goal_run_note_assessments:
  "goal_run (note_assessments n as rs) g =
    (if list_ex (\<lambda>a. assessed_goal a = g \<and> assessed_reason a = Achieved) as
     then Some (earlier n (goal_run rs g)) else goal_run rs g)"
  by (induction as arbitrary: rs) (auto simp: goal_run_note_goal earlier_twice)

lemma note_assessments_distinct:
  "distinct (map record_goal rs) \<Longrightarrow> distinct (map record_goal (note_assessments n as rs))"
  by (induction as arbitrary: rs) (simp_all add: note_goal_distinct)

lemma goal_run_in_set:
  assumes "distinct (map record_goal rs)"
  shows "goal_run rs g = Some n \<longleftrightarrow> \<lparr> record_goal = g, record_run_id = n \<rparr> \<in> set rs"
  using assms
proof (induction rs)
  case (Cons r rs)
  then show ?case by (cases r) (force simp: image_iff)
qed simp

lemma goal_run_same_set:
  assumes "distinct (map record_goal rs)" and "distinct (map record_goal rs')" and "set rs = set rs'"
  shows "goal_run rs = goal_run rs'"
proof
  fix g show "goal_run rs g = goal_run rs' g"
    using assms goal_run_in_set [of rs g] goal_run_in_set [of rs' g] by (metis option.exhaust)
qed

lemma goal_run_sort:
  assumes "distinct (map record_goal rs)"
  shows "goal_run (sort_key record_goal rs) = goal_run rs"
  using assms by (intro goal_run_same_set) (simp_all add: distinct_map)

text \<open>Sorted records without duplicates are determined by the runs they hold.\<close>

lemma records_canonical:
  assumes "sorted (map record_goal rs)" and "distinct (map record_goal rs)"
    and "sorted (map record_goal rs')" and "distinct (map record_goal rs')"
    and "goal_run rs = goal_run rs'"
  shows "rs = rs'"
proof -
  have "x \<in> set rs \<longleftrightarrow> x \<in> set rs'" for x
    using goal_run_in_set [OF assms(2)] goal_run_in_set [OF assms(4)] assms(5) by (cases x) metis
  then have same: "set rs = set rs'" by blast
  then have "map record_goal rs = map record_goal rs'"
    using assms(1-4) by (intro sorted_distinct_set_unique) simp_all
  moreover have "inj_on record_goal (set rs \<union> set rs')" using assms(2) same by (simp add: distinct_map)
  ultimately show ?thesis by (rule map_inj_on)
qed

lemma achieved_runs_insert:
  "achieved_runs (insert att seen) g =
    (if achieves att g then insert (attempt_run_id att) (achieved_runs seen g) else achieved_runs seen g)"
  by (auto simp: achieved_runs_def)

lemma earliest_run_insert:
  assumes "finite seen"
  shows "earliest_run (insert att seen) g =
    (if achieves att g then Some (earlier (attempt_run_id att) (earliest_run seen g)) else earliest_run seen g)"
proof -
  have "finite (achieved_runs seen g)" using assms by (simp add: achieved_runs_def)
  then show ?thesis by (auto simp: earliest_run_def earlier_def achieved_runs_insert min.commute)
qed

lemma archive_ok_observe:
  assumes "archive_ok seen ar"
  shows "archive_ok (insert att seen) (archive_observe att ar)"
proof -
  let ?noted = "note_assessments (attempt_run_id att) (assessments att) (archive_records ar)"
  have d: "distinct (map record_goal ?noted)"
    using assms by (simp add: archive_ok_def note_assessments_distinct)
  have "goal_run ?noted = earliest_run (insert att seen)"
  proof
    fix g show "goal_run ?noted g = earliest_run (insert att seen) g"
      using assms by (simp add: archive_ok_def goal_run_note_assessments earliest_run_insert achieves_def)
  qed
  then have runs: "goal_run (sort_key record_goal ?noted) = earliest_run (insert att seen)"
    using d by (simp add: goal_run_sort)
  have "case last_attempt (archive_observe att ar) of
      None \<Rightarrow> insert att seen = {}
    | Some x \<Rightarrow> x \<in> insert att seen \<and> (\<forall>b \<in> insert att seen. attempt_run_id b \<le> attempt_run_id x)"
    using assms by (auto simp: archive_ok_def archive_observe_def split: option.splits)
  moreover have "distinct (map record_goal (sort_key record_goal ?noted))"
    using d by (simp add: distinct_map)
  ultimately show ?thesis
    using assms runs by (simp add: archive_ok_def archive_observe_def)
qed

lemma archive_ok_fold: "archive_ok seen ar \<Longrightarrow> archive_ok (set ats \<union> seen) (fold archive_observe ats ar)"
proof (induction ats arbitrary: seen ar)
  case (Cons att ats)
  from Cons.IH [OF archive_ok_observe [OF Cons.prems, of att]] show ?case by simp
qed simp

lemma archive_ok_history: "archive_ok (set ats) (fold archive_observe ats default_archive)"
proof -
  have "archive_ok {} default_archive"
    by (auto simp: archive_ok_def default_archive_def earliest_run_def achieved_runs_def)
  from archive_ok_fold [OF this] show ?thesis by simp
qed

lemma archive_ok_unique:
  assumes "archive_ok seen a" and "archive_ok seen b" and "inj_on attempt_run_id seen"
  shows "a = b"
proof -
  have "archive_records a = archive_records b"
    using assms(1,2) by (intro records_canonical) (simp_all add: archive_ok_def)
  moreover have "last_attempt a = last_attempt b"
  proof (cases "last_attempt a")
    case None
    then show ?thesis using assms(1,2) by (auto simp: archive_ok_def split: option.splits)
  next
    case (Some x)
    then obtain y where y: "last_attempt b = Some y"
      using assms(1,2) by (auto simp: archive_ok_def split: option.splits)
    have "attempt_run_id x = attempt_run_id y" "x \<in> seen" "y \<in> seen"
      using assms(1,2) Some y by (auto simp: archive_ok_def intro: antisym)
    then show ?thesis using Some y assms(3) by (simp add: inj_on_eq_iff)
  qed
  ultimately show ?thesis by simp
qed

section \<open>Badges\<close>

text \<open>By run \<open>m\<close> every goal of the badge has been achieved.\<close>

definition badge_earned :: "mastery_attempt set \<Rightarrow> badge \<Rightarrow> u64 \<Rightarrow> bool" where
  "badge_earned seen b m \<longleftrightarrow>
     (\<forall>g \<in> set (badge_goals b). \<exists>att \<in> seen. achieves att g \<and> attempt_run_id att \<le> m)"

lemma goal_runs_Some:
  "goal_runs rs gs = Some ns \<longleftrightarrow> (\<forall>g \<in> set gs. goal_run rs g \<noteq> None) \<and> ns = map (\<lambda>g. the (goal_run rs g)) gs"
  by (induction gs arbitrary: ns) (auto split: option.splits)

lemma badge_goals_nonempty [simp]: "badge_goals b \<noteq> []"
  by (cases b) simp_all

lemma all_badges_set [simp]: "set all_badges = UNIV"
  by (auto simp: all_badges_def intro: badge.exhaust)

lemma in_map_filter: "y \<in> set (List.map_filter f xs) \<longleftrightarrow> (\<exists>x \<in> set xs. f x = Some y)"
  by (induction xs) (auto simp: List.map_filter_simps split: option.splits)

lemma badges_set:
  "r \<in> set (badges ar) \<longleftrightarrow>
     (\<forall>g \<in> set (badge_goals (record_badge r)). goal_run (archive_records ar) g \<noteq> None) \<and>
     badge_run_id r = Max ((\<lambda>g. the (goal_run (archive_records ar) g)) ` set (badge_goals (record_badge r)))"
proof -
  let ?gs = "badge_goals (record_badge r)"
  have "r \<in> set (badges ar) \<longleftrightarrow> (\<exists>ns. goal_runs (archive_records ar) ?gs = Some ns \<and> ns \<noteq> [] \<and>
      badge_run_id r = Max (set ns))"
    by (cases r) (auto simp: badges_def in_map_filter split: option.splits)
  then show ?thesis by (simp add: goal_runs_Some)
qed

lemma earliest_run_le:
  assumes "finite seen"
  shows "(\<exists>n. earliest_run seen g = Some n \<and> n \<le> m) \<longleftrightarrow> (\<exists>att \<in> seen. achieves att g \<and> attempt_run_id att \<le> m)"
proof -
  have "finite (achieved_runs seen g)" using assms by (simp add: achieved_runs_def)
  then show ?thesis by (auto simp: earliest_run_def Min_le_iff) (auto simp: achieved_runs_def)
qed

lemma badge_earned_iff:
  assumes "archive_ok seen ar"
  shows "badge_earned seen b m \<longleftrightarrow>
    (\<forall>g \<in> set (badge_goals b). \<exists>n. goal_run (archive_records ar) g = Some n \<and> n \<le> m)"
  using assms by (simp add: badge_earned_def archive_ok_def earliest_run_le)

lemma badges_exact:
  assumes "archive_ok seen ar"
  shows "\<lparr> record_badge = b, badge_run_id = m \<rparr> \<in> set (badges ar) \<longleftrightarrow>
    badge_earned seen b m \<and> (\<forall>n. badge_earned seen b n \<longrightarrow> m \<le> n)" (is "?l \<longleftrightarrow> ?r")
proof -
  let ?run = "\<lambda>g. the (goal_run (archive_records ar) g)" and ?gs = "set (badge_goals b)"
  define top where "top = Max (?run ` ?gs)"
  have least: "badge_earned seen b n \<longleftrightarrow>
      (\<forall>g \<in> ?gs. goal_run (archive_records ar) g \<noteq> None) \<and> top \<le> n" for n
    by (fastforce simp: badge_earned_iff [OF assms] top_def)
  show ?thesis
    unfolding badges_set least by (auto simp: top_def [symmetric] intro: antisym)
qed

text \<open>
  C29 (equivalence): the archive of a character is a function of the set of its attempts. Two
  readings of a history with the same attempts, in any order and with any repetitions, build
  the same archive (the attempts being told apart by their run identifier); its records are
  sorted by goal, each goal is held with the earliest run that achieved it, and a badge is
  listed with a run exactly when that run is the first by which all its goals were achieved.
\<close>

theorem mastery_archive_canonical:
  assumes "set ats = set ats'" and "inj_on attempt_run_id (set ats)"
  shows "fold archive_observe ats default_archive = fold archive_observe ats' default_archive \<and>
    sorted (map record_goal (archive_records (fold archive_observe ats default_archive))) \<and>
    (\<forall>g. goal_run (archive_records (fold archive_observe ats default_archive)) g = earliest_run (set ats) g) \<and>
    (\<forall>b m. \<lparr> record_badge = b, badge_run_id = m \<rparr> \<in> set (badges (fold archive_observe ats default_archive)) \<longleftrightarrow>
      badge_earned (set ats) b m \<and> (\<forall>n. badge_earned (set ats) b n \<longrightarrow> m \<le> n))"
proof (intro conjI allI)
  have a: "archive_ok (set ats) (fold archive_observe ats default_archive)" by (rule archive_ok_history)
  have "archive_ok (set ats) (fold archive_observe ats' default_archive)"
    unfolding assms(1) by (rule archive_ok_history)
  from archive_ok_unique [OF a this assms(2)]
  show "fold archive_observe ats default_archive = fold archive_observe ats' default_archive" .
  show "sorted (map record_goal (archive_records (fold archive_observe ats default_archive)))"
    "goal_run (archive_records (fold archive_observe ats default_archive)) g = earliest_run (set ats) g" for g
    using a by (simp_all add: archive_ok_def)
  show "(\<lparr> record_badge = b, badge_run_id = m \<rparr> \<in> set (badges (fold archive_observe ats default_archive))) =
      (badge_earned (set ats) b m \<and> (\<forall>n. badge_earned (set ats) b n \<longrightarrow> m \<le> n))" for b m
    by (rule badges_exact [OF a])
qed

section \<open>Example\<close>

definition breach_run :: "u64 \<Rightarrow> attempt_result" where
  "breach_run n =
    \<lparr> result_run = \<lparr> run_id = n, run_rules = contract_rules PrismDiscipline,
        run_equipment = rifle_equipment, objectives = 1, elapsed_ms = None \<rparr>,
      result_outcome = Completed \<rparr>"

definition clean_facts :: facts where
  "clean_facts = default_facts\<lparr> fact_prism_damage := Some 0 \<rparr>"

theorem mastery_archive_canonical_witness:
  "let early = assess (breach_run 3) clean_facts; late = assess (breach_run 9) clean_facts in
   fold archive_observe [late, early, late] default_archive = fold archive_observe [early, late] default_archive \<and>
   goal_run (archive_records (fold archive_observe [late, early, late] default_archive)) PrismExecutionGoal = Some 3"
proof -
  let ?early = "assess (breach_run 3) clean_facts" and ?late = "assess (breach_run 9) clean_facts"
  have ids: "attempt_run_id ?early = 3" "attempt_run_id ?late = 9"
    by (simp_all add: assess_def breach_run_def)
  have same: "set [?late, ?early, ?late] = set [?early, ?late]" by auto
  have inj: "inj_on attempt_run_id (set [?late, ?early, ?late])" using ids by (auto simp: inj_on_def)
  have "achieves ?early PrismExecutionGoal" "achieves ?late PrismExecutionGoal"
    by (simp_all add: achieves_def assess_def breach_run_def contract_rules_def all_goals_def assess_goal_def accepts_equipment_def
        goal_reason_def clean_facts_def default_facts_def)
  then have "earliest_run (set [?late, ?early, ?late]) PrismExecutionGoal = Some 3"
    using ids by (simp add: earliest_run_def achieved_runs_insert) (simp add: achieved_runs_def min_def)
  moreover note mastery_archive_canonical [OF same inj]
  ultimately show ?thesis unfolding Let_def by (intro conjI) metis+
qed

end
