(* ===== verification/Wire.thy ===== *)
theory Wire
  imports Prelude
begin

text \<open>
  Message framing (\<open>src/runtime/protocol/src/lib.rs\<close>): a message is its MessagePack encoding
  behind a four-byte big-endian length of at most 64 KiB. The codec is not in the repository: it
  is the pair of arguments \<open>encode\<close> and \<open>decode\<close>. A writer and a reader are what the operations of
  \<open>std::io::Write\<close> and \<open>std::io::Read\<close> make of them; the instances are the growing buffer
  \<open>Vec<u8>\<close> and the byte slice \<open>&[u8]\<close>.
\<close>

section \<open>Bytes\<close>

definition max_frame_size :: nat where "max_frame_size = 64 * 1024"

text \<open>\<open>u32::to_be_bytes\<close> and \<open>u32::from_be_bytes\<close>.\<close>

definition u32_to_be :: "u32 \<Rightarrow> u8 list" where
  "u32_to_be w = [ucast (drop_bit 24 w), ucast (drop_bit 16 w), ucast (drop_bit 8 w), ucast w]"

fun u32_from_be :: "u8 list \<Rightarrow> u32" where
  "u32_from_be bs = foldl (\<lambda>w b. w * 256 + ucast b) 0 bs"

definition u32_try_of_nat :: "nat \<Rightarrow> u32 option" where
  "u32_try_of_nat n = (if n < 2 ^ 32 then Some (of_nat n) else None)"

section \<open>Frames\<close>

datatype ('x, 'e, 'd) protocol_error =
  ProtocolIo 'x | ProtocolEncode 'e | ProtocolDecode 'd | FrameTooLarge nat

definition write_message ::
  "('w \<Rightarrow> u8 list \<Rightarrow> 'x + 'w) \<Rightarrow> ('w \<Rightarrow> 'x + 'w) \<Rightarrow> ('m \<Rightarrow> 'e + u8 list) \<Rightarrow> 'w \<Rightarrow> 'm \<Rightarrow>
   ('x, 'e, 'd) protocol_error + 'w" where
  "write_message write_all flush encode w m =
     and_then (map_err ProtocolEncode (encode m)) (\<lambda>payload.
     if length payload > max_frame_size then Inl (FrameTooLarge (length payload))
     else
       and_then (ok_or (FrameTooLarge (length payload)) (u32_try_of_nat (length payload))) (\<lambda>size.
       and_then (map_err ProtocolIo (write_all w (u32_to_be size))) (\<lambda>w.
       and_then (map_err ProtocolIo (write_all w payload)) (\<lambda>w.
       map_err ProtocolIo (flush w)))))"

definition read_message ::
  "('r \<Rightarrow> nat \<Rightarrow> 'x + u8 list \<times> 'r) \<Rightarrow> (u8 list \<Rightarrow> 'd + 'm) \<Rightarrow> 'r \<Rightarrow>
   ('x, 'e, 'd) protocol_error + 'm \<times> 'r" where
  "read_message read_exact decode r =
     and_then (map_err ProtocolIo (read_exact r 4)) (\<lambda>(size_bytes, r).
     let size = unat (u32_from_be size_bytes) in
     if size > max_frame_size then Inl (FrameTooLarge size)
     else
       and_then (map_err ProtocolIo (read_exact r size)) (\<lambda>(payload, r).
       and_then (map_err ProtocolDecode (decode payload)) (\<lambda>m. Inr (m, r))))"

text \<open>Several messages one after the other, until the first error.\<close>

fun write_messages ::
  "('w \<Rightarrow> u8 list \<Rightarrow> 'x + 'w) \<Rightarrow> ('w \<Rightarrow> 'x + 'w) \<Rightarrow> ('m \<Rightarrow> 'e + u8 list) \<Rightarrow> 'w \<Rightarrow> 'm list \<Rightarrow>
   ('x, 'e, 'd) protocol_error + 'w" where
  "write_messages write_all flush encode w [] = Inr w"
| "write_messages write_all flush encode w (m # ms) =
     and_then (write_message write_all flush encode w m) (\<lambda>w.
     write_messages write_all flush encode w ms)"

fun read_messages ::
  "('r \<Rightarrow> nat \<Rightarrow> 'x + u8 list \<times> 'r) \<Rightarrow> (u8 list \<Rightarrow> 'd + 'm) \<Rightarrow> nat \<Rightarrow> 'r \<Rightarrow>
   ('x, 'e, 'd) protocol_error + 'm list \<times> 'r" where
  "read_messages read_exact decode 0 r = Inr ([], r)"
| "read_messages read_exact decode (Suc n) r =
     and_then (read_message read_exact decode r) (\<lambda>(m, r).
     and_then (read_messages read_exact decode n r) (\<lambda>(ms, r). Inr (m # ms, r)))"

section \<open>Streams of the standard library\<close>

text \<open>\<open>impl Write for Vec<u8>\<close> never fails; \<open>impl Read for &[u8]\<close> fails at the end of the data.\<close>

datatype io_error = UnexpectedEof

definition vec_write_all :: "u8 list \<Rightarrow> u8 list \<Rightarrow> io_error + u8 list" where
  "vec_write_all w bs = Inr (w @ bs)"

definition vec_flush :: "u8 list \<Rightarrow> io_error + u8 list" where
  "vec_flush w = Inr w"

definition slice_read_exact :: "u8 list \<Rightarrow> nat \<Rightarrow> io_error + u8 list \<times> u8 list" where
  "slice_read_exact r n = (if n \<le> length r then Inr (take n r, drop n r) else Inl UnexpectedEof)"

lemma length_u32_to_be [simp]: "length (u32_to_be w) = 4"
  by (simp add: u32_to_be_def)

lemma base_256: "a = ((a div 2 ^ 24 * 256 + a div 2 ^ 16 mod 256) * 256 + a div 2 ^ 8 mod 256) * 256 + a mod 256"
  for a :: nat
proof -
  have "a div 2 ^ 16 = a div 256 div 256" "a div 2 ^ 24 = a div 256 div 256 div 256"
    by (simp_all add: div_mult2_eq [symmetric])
  moreover have "x = x div 256 * 256 + x mod 256" for x :: nat by simp
  from this [of a] this [of "a div 256"] this [of "a div 256 div 256"]
  have "a = ((a div 256 div 256 div 256 * 256 + a div 256 div 256 mod 256) * 256 + a div 256 mod 256) * 256 + a mod 256"
    by presburger
  ultimately show ?thesis by simp
qed

lemma u32_be_nat:
  "unat w = ((unat (ucast (drop_bit 24 w) :: u8) * 256 + unat (ucast (drop_bit 16 w) :: u8)) * 256 +
     unat (ucast (drop_bit 8 w) :: u8)) * 256 + unat (ucast w :: u8)" for w :: u32
proof -
  have b: "unat w < 2 ^ 32" using unat_bound [of w] by simp
  have "take_bit 32 (unat w) = unat w" using b by (simp add: take_bit_nat_eq_self)
  then have "unat (ucast (drop_bit n w) :: u8) = take_bit 8 (drop_bit n (unat w))" for n
    by (simp add: unsigned_ucast_eq unsigned_drop_bit_eq)
  then have byte: "unat (ucast (drop_bit n w) :: u8) = unat w div 2 ^ n mod 256" for n
    by (simp add: take_bit_eq_mod drop_bit_eq_div)
  have "unat (ucast w :: u8) = unat w mod 256" using byte [of 0] by simp
  moreover have "unat w div 2 ^ 24 mod 256 = unat w div 2 ^ 24" using b by simp
  ultimately show ?thesis using base_256 [of "unat w"] byte [of 24] byte [of 16] byte [of 8] by simp
qed

lemma u32_be_roundtrip [simp]: "u32_from_be (u32_to_be w) = w"
proof -
  have ext: "ucast b = (of_nat (unat b) :: u32)" for b :: u8 by simp
  have "u32_from_be (u32_to_be w) = of_nat (unat w)"
    unfolding u32_be_nat [of w] by (simp add: u32_to_be_def ext del: of_nat_unat)
  then show ?thesis by simp
qed

lemma u32_from_be_bound: "unat (u32_from_be bs) < 2 ^ 32"
  using unat_bound [of "u32_from_be bs"] by simp

section \<open>What readers and writers promise\<close>

locale byte_sink =
  fixes write_all :: "'w \<Rightarrow> u8 list \<Rightarrow> 'x + 'w"
    and flush :: "'w \<Rightarrow> 'x + 'w"
    and written :: "'w \<Rightarrow> u8 list"
  assumes write_appends: "\<exists>w'. write_all w bs = Inr w' \<and> written w' = written w @ bs"
    and flush_keeps: "\<exists>w'. flush w = Inr w' \<and> written w' = written w"

locale byte_source =
  fixes read_exact :: "'r \<Rightarrow> nat \<Rightarrow> 'x + u8 list \<times> 'r"
    and remaining :: "'r \<Rightarrow> u8 list"
    and at_end :: 'x
  assumes read_enough: "n \<le> length (remaining r) \<Longrightarrow>
      \<exists>r'. read_exact r n = Inr (take n (remaining r), r') \<and> remaining r' = drop n (remaining r)"
    and read_short: "length (remaining r) < n \<Longrightarrow> read_exact r n = Inl at_end"

interpretation vec: byte_sink vec_write_all vec_flush "\<lambda>w. w"
  by unfold_locales (simp_all add: vec_write_all_def vec_flush_def)

interpretation slice: byte_source slice_read_exact "\<lambda>r. r" UnexpectedEof
  by unfold_locales (simp_all add: slice_read_exact_def)

text \<open>The frame of a payload, and those of a list of messages.\<close>

definition wire_frame :: "u8 list \<Rightarrow> u8 list" where
  "wire_frame payload = u32_to_be (of_nat (length payload)) @ payload"

definition frames :: "('m \<Rightarrow> 'e + u8 list) \<Rightarrow> 'm list \<Rightarrow> u8 list" where
  "frames encode ms = concat (map (\<lambda>m. wire_frame (projr (encode m))) ms)"

definition sendable :: "('m \<Rightarrow> 'e + u8 list) \<Rightarrow> (u8 list \<Rightarrow> 'd + 'm) \<Rightarrow> 'm \<Rightarrow> bool" where
  "sendable encode decode m \<longleftrightarrow>
     (case encode m of
        Inl _ \<Rightarrow> False
      | Inr p \<Rightarrow> decode p = Inr m \<and> length p \<le> 65536)"

lemma frames_simps [simp]:
  "frames encode [] = []"
  "frames encode (m # ms) = wire_frame (projr (encode m)) @ frames encode ms"
  by (simp_all add: frames_def)

lemma size_bytes:
  "n \<le> 65536 \<Longrightarrow> u32_from_be (u32_to_be (of_nat n)) = (of_nat n :: u32) \<and> unat (of_nat n :: u32) = n"
  by (simp add: unat_of_nat del: u32_from_be.simps)

context byte_sink begin

lemma write_message_frame:
  assumes "encode m = Inr p" and "length p \<le> 65536"
  shows "\<exists>w'. write_message write_all flush encode w m = Inr w' \<and> written w' = written w @ wire_frame p"
proof -
  obtain w1 where w1: "write_all w (u32_to_be (of_nat (length p))) = Inr w1"
      "written w1 = written w @ u32_to_be (of_nat (length p))"
    using write_appends by blast
  obtain w2 where w2: "write_all w1 p = Inr w2" "written w2 = written w1 @ p" using write_appends by blast
  obtain w3 where w3: "flush w2 = Inr w3" "written w3 = written w2" using flush_keeps by blast
  from w1 w2 w3 assms show ?thesis
    by (simp add: write_message_def max_frame_size_def u32_try_of_nat_def wire_frame_def)
qed

lemma write_messages_frames:
  fixes encode :: "'m \<Rightarrow> 'e + u8 list" and decode :: "u8 list \<Rightarrow> 'd + 'm"
  assumes "list_all (sendable encode decode) ms"
  shows "\<exists>w'. (write_messages write_all flush encode w ms :: ('x, 'e, 'd) protocol_error + 'w) = Inr w' \<and> written w' = written w @ frames encode ms"
  using assms
proof (induction ms arbitrary: w)
  case (Cons m ms)
  from Cons.prems obtain p where p: "encode m = Inr p" "length p \<le> 65536"
    by (auto simp: sendable_def split: sum.splits)
  from write_message_frame [where encode = encode and m = m and p = p and w = w, OF p] obtain w1
    where w1: "(write_message write_all flush encode w m :: ('x, 'e, 'd) protocol_error + 'w) = Inr w1" "written w1 = written w @ wire_frame p"
    by blast
  from Cons.IH [of w1] Cons.prems w1 p show ?case by auto
qed simp

end

context byte_source begin

lemma read_message_frame:
  assumes "remaining r = wire_frame p @ rest" and "decode p = Inr m" and "length p \<le> 65536"
  shows "\<exists>r'. read_message read_exact decode r = Inr (m, r') \<and> remaining r' = rest"
proof -
  have "4 \<le> length (remaining r)" using assms(1) by (simp add: wire_frame_def)
  from read_enough [OF this] obtain r1 where r1:
      "read_exact r 4 = Inr (u32_to_be (of_nat (length p)), r1)" "remaining r1 = p @ rest"
    using assms(1) by (auto simp: wire_frame_def)
  have "length p \<le> length (remaining r1)" using r1(2) by simp
  from read_enough [OF this] obtain r2 where "read_exact r1 (length p) = Inr (p, r2)" "remaining r2 = rest"
    using r1(2) by auto
  with r1 assms size_bytes [OF assms(3)] show ?thesis
    by (simp add: read_message_def max_frame_size_def Let_def del: u32_from_be.simps)
qed

lemma read_message_cut:
  assumes "remaining r = take n (wire_frame p)" and "n < length (wire_frame p)" and "length p \<le> 65536"
  shows "read_message read_exact decode r = Inl (ProtocolIo at_end)"
proof (cases "n < 4")
  case True
  then have "length (remaining r) < 4" using assms(1,2) by simp
  then show ?thesis by (simp add: read_message_def read_short)
next
  case False
  then have "4 \<le> length (remaining r)" using assms(1,2) by simp
  from read_enough [OF this] obtain r1 where r1:
      "read_exact r 4 = Inr (u32_to_be (of_nat (length p)), r1)" "remaining r1 = take (n - 4) p"
    using assms(1) False by (auto simp: wire_frame_def)
  then have "length (remaining r1) < length p" using assms(2) False by (simp add: wire_frame_def)
  with r1 assms(3) size_bytes [OF assms(3)] show ?thesis
    by (simp add: read_message_def max_frame_size_def Let_def read_short del: u32_from_be.simps)
qed

lemma read_messages_frames:
  fixes encode :: "'m \<Rightarrow> 'e + u8 list" and decode :: "u8 list \<Rightarrow> 'd + 'm"
  assumes "list_all (sendable encode decode) ms" and "remaining r = frames encode ms @ rest"
  shows "\<exists>r'. (read_messages read_exact decode (length ms) r :: ('x, 'e, 'd) protocol_error + 'm list \<times> 'r) = Inr (ms, r') \<and> remaining r' = rest"
  using assms
proof (induction ms arbitrary: r)
  case (Cons m ms)
  from Cons.prems obtain p where p: "encode m = Inr p" "decode p = Inr m" "length p \<le> 65536"
    by (auto simp: sendable_def split: sum.splits)
  have "remaining r = wire_frame p @ (frames encode ms @ rest)" using Cons.prems(2) p by simp
  from read_message_frame [where decode = decode and m = m, OF this p(2,3)] obtain r1 where
    r1: "(read_message read_exact decode r :: ('x, 'e, 'd) protocol_error + 'm \<times> 'r) = Inr (m, r1)"
      "remaining r1 = frames encode ms @ rest" by blast
  from Cons.IH [OF _ r1(2)] Cons.prems(1) r1(1) show ?case by auto
qed simp

lemma read_messages_cut:
  fixes encode :: "'m \<Rightarrow> 'e + u8 list" and decode :: "u8 list \<Rightarrow> 'd + 'm"
  assumes "list_all (sendable encode decode) ms" and "n < length (frames encode ms)"
    and "remaining r = take n (frames encode ms)"
  shows "(read_messages read_exact decode (length ms) r :: ('x, 'e, 'd) protocol_error + 'm list \<times> 'r) =
    Inl (ProtocolIo at_end)"
  using assms
proof (induction ms arbitrary: r n)
  case (Cons m ms)
  from Cons.prems obtain p where p: "encode m = Inr p" "decode p = Inr m" "length p \<le> 65536"
    by (auto simp: sendable_def split: sum.splits)
  show ?case
  proof (cases "n < length (wire_frame p)")
    case True
    then have "remaining r = take n (wire_frame p)" using Cons.prems(3) p by simp
    from read_message_cut [OF this True p(3), of decode]
    have "(read_message read_exact decode r :: ('x, 'e, 'd) protocol_error + 'm \<times> 'r) = Inl (ProtocolIo at_end)" .
    then show ?thesis by simp
  next
    case False
    then have "remaining r = wire_frame p @ take (n - length (wire_frame p)) (frames encode ms)"
      using Cons.prems(3) p by simp
    from read_message_frame [where decode = decode and m = m, OF this p(2,3)] obtain r1 where
      r1: "(read_message read_exact decode r :: ('x, 'e, 'd) protocol_error + 'm \<times> 'r) = Inr (m, r1)"
        "remaining r1 = take (n - length (wire_frame p)) (frames encode ms)" by blast
    have "n - length (wire_frame p) < length (frames encode ms)" using Cons.prems(2) False p by simp
    from Cons.IH [OF _ this r1(2)] Cons.prems(1) r1(1) show ?thesis by simp
  qed
qed simp

end

lemma read_message_bounded:
  assumes "read_message slice_read_exact decode r = Inr (m, r')"
  shows "\<exists>p. r = take 4 r @ p @ r' \<and> length p \<le> 65536 \<and> decode p = Inr m \<and>
    length p = unat (u32_from_be (take 4 r))"
proof -
  let ?n = "unat (u32_from_be (take 4 r))"
  have r: "4 \<le> length r" "?n \<le> 65536" "?n \<le> length r - 4" "r' = drop (?n + 4) r"
      "decode (take ?n (drop 4 r)) = Inr m"
    using assms by (auto simp: read_message_def slice_read_exact_def and_then_Inr max_frame_size_def Let_def
        simp del: u32_from_be.simps split: if_splits elim!: map_err.elims)
  then have "r = take 4 r @ take ?n (drop 4 r) @ r'"
    by (simp only: r(4) drop_drop [symmetric] append_take_drop_id)
  with r show ?thesis by (intro exI [of _ "take ?n (drop 4 r)"]) simp
qed

text \<open>
  C30 (roundtrip): messages whose encodings decode to them and fit a frame, written one after the
  other, are read back in order with exactly the bytes that follow them left; a stream that ends
  anywhere inside them is reported as an I/O error and never as fewer or other messages. A
  payload over 64 KiB is refused by the writer before a byte is written and by the reader before
  a byte of it is read.
\<close>

theorem wire_messages_roundtrip:
  fixes encode :: "'m \<Rightarrow> 'e + u8 list" and decode :: "u8 list \<Rightarrow> 'd + 'm"
    and send :: "u8 list \<Rightarrow> 'm list \<Rightarrow> (io_error, 'e, 'd) protocol_error + u8 list"
    and receive :: "nat \<Rightarrow> u8 list \<Rightarrow> (io_error, 'e, 'd) protocol_error + 'm list \<times> u8 list"
  defines "send \<equiv> write_messages vec_write_all vec_flush encode"
    and "receive \<equiv> read_messages slice_read_exact decode"
  assumes "list_all (sendable encode decode) ms"
  shows "(\<exists>bytes. send w ms = Inr (w @ bytes) \<and> receive (length ms) (bytes @ rest) = Inr (ms, rest) \<and>
      (\<forall>n < length bytes. receive (length ms) (take n bytes) = Inl (ProtocolIo UnexpectedEof))) \<and>
    (\<forall>m p. encode m = Inr p \<and> 65536 < length p \<longrightarrow> send w [m] = Inl (FrameTooLarge (length p))) \<and>
    (\<forall>size. 65536 < unat size \<longrightarrow> receive 1 (u32_to_be size @ rest) = Inl (FrameTooLarge (unat size)))"
  unfolding send_def receive_def
proof (intro conjI allI impI)
  let ?send = "write_messages vec_write_all vec_flush encode :: u8 list \<Rightarrow> 'm list \<Rightarrow> (io_error, 'e, 'd) protocol_error + _"
  let ?receive = "read_messages slice_read_exact decode :: nat \<Rightarrow> u8 list \<Rightarrow> (io_error, 'e, 'd) protocol_error + _"
  have "?send w ms = Inr (w @ frames encode ms)"
    using vec.write_messages_frames [OF assms(3)] by simp
  moreover have "?receive (length ms) (frames encode ms @ rest) = Inr (ms, rest)"
    using slice.read_messages_frames [OF assms(3) refl] by simp
  moreover have "\<forall>n < length (frames encode ms). ?receive (length ms) (take n (frames encode ms)) = Inl (ProtocolIo UnexpectedEof)"
    using slice.read_messages_cut [OF assms(3) _ refl] by simp
  ultimately show "\<exists>bytes. ?send w ms = Inr (w @ bytes) \<and> ?receive (length ms) (bytes @ rest) = Inr (ms, rest) \<and>
      (\<forall>n < length bytes. ?receive (length ms) (take n bytes) = Inl (ProtocolIo UnexpectedEof))"
    by blast
next
  fix m p assume "encode m = Inr p \<and> 65536 < length p"
  then show "write_messages vec_write_all vec_flush encode w [m] = Inl (FrameTooLarge (length p))"
    by (simp add: write_message_def max_frame_size_def)
next
  fix size :: u32 assume "65536 < unat size"
  then show "read_messages slice_read_exact decode 1 (u32_to_be size @ rest) = Inl (FrameTooLarge (unat size))"
    by (simp add: read_message_def slice_read_exact_def max_frame_size_def Let_def del: u32_from_be.simps)
qed

text \<open>With the codec that sends a text as its bytes.\<close>

definition text_encode :: "u8 list \<Rightarrow> string + u8 list" where
  "text_encode m = Inr m"

definition text_decode :: "u8 list \<Rightarrow> string + u8 list" where
  "text_decode p = Inr p"

theorem wire_messages_roundtrip_witness:
  "\<exists>bytes. (write_messages vec_write_all vec_flush text_encode [] [[7, 8], []] ::
       (io_error, string, string) protocol_error + u8 list) = Inr bytes \<and>
     (read_messages slice_read_exact text_decode (length [[7, 8 :: u8], []]) (bytes @ [9]) ::
       (io_error, string, string) protocol_error + _) = Inr ([[7, 8], []], [9])"
proof -
  have "list_all (sendable text_encode text_decode) [[7, 8], []]"
    by (simp add: sendable_def text_encode_def text_decode_def)
  from wire_messages_roundtrip [OF this, of "[]" "[9]"] show ?thesis unfolding append_Nil by blast
qed

end
