(* ===== verification/Replay_Events.thy ===== *)
theory Replay_Events
  imports Prelude
begin

text \<open>
  The events of a recorded session (\<open>src/runtime/replay/src/lib.rs\<close>): their kinds with the
  names they are stored under, the event record and the order of a session. A payload is the
  text that was stored; the JSON evidence in it is read by functions the validators take as an
  argument, because \<open>serde_json\<close> is not part of the repository.
\<close>

section \<open>Kinds\<close>

datatype replay_event_kind =
  PlayerJoinedKind | ActivityStartedKind | EnemySpawnedKind | EnemyDiedKind | BossSpawnedKind
| ActivityCompletedKind | LootGrantedKind | ProgressionGrantedKind | EquipmentChangedKind
| FieldActivityKind | ModuleStateSnapshotKind | ModuleCombinedKind | ModuleLoadoutChangedKind
| AcquisitionClaimedKind | CampaignCheckpointKind | CampaignResumedKind | CampaignObjectiveKind
| CampaignStoryKind | ChallengeCheckpointKind | ChallengeObjectiveKind | RouteSelectedKind
| RouteOperationSucceededKind | RouteOperationFailedKind | CooperationStartedKind
| CooperationPingedKind | PlayerDownedKind | PlayerRevivedKind | CooperationSucceededKind
| CooperationFailedKind

fun is_module_event :: "replay_event_kind \<Rightarrow> bool" where
  "is_module_event ModuleStateSnapshotKind = True"
| "is_module_event ModuleCombinedKind = True"
| "is_module_event ModuleLoadoutChangedKind = True"
| "is_module_event _ = False"

fun is_route_event :: "replay_event_kind \<Rightarrow> bool" where
  "is_route_event RouteSelectedKind = True"
| "is_route_event RouteOperationSucceededKind = True"
| "is_route_event RouteOperationFailedKind = True"
| "is_route_event _ = False"

fun is_cooperation_event :: "replay_event_kind \<Rightarrow> bool" where
  "is_cooperation_event CooperationStartedKind = True"
| "is_cooperation_event CooperationPingedKind = True"
| "is_cooperation_event PlayerDownedKind = True"
| "is_cooperation_event PlayerRevivedKind = True"
| "is_cooperation_event CooperationSucceededKind = True"
| "is_cooperation_event CooperationFailedKind = True"
| "is_cooperation_event _ = False"

fun kind_str :: "replay_event_kind \<Rightarrow> string" where
  "kind_str PlayerJoinedKind = ''player_joined''"
| "kind_str ActivityStartedKind = ''activity_started''"
| "kind_str EnemySpawnedKind = ''enemy_spawned''"
| "kind_str EnemyDiedKind = ''enemy_died''"
| "kind_str BossSpawnedKind = ''boss_spawned''"
| "kind_str ActivityCompletedKind = ''activity_completed''"
| "kind_str LootGrantedKind = ''loot_granted''"
| "kind_str ProgressionGrantedKind = ''progression_granted''"
| "kind_str EquipmentChangedKind = ''equipment_changed''"
| "kind_str FieldActivityKind = ''field_activity''"
| "kind_str ModuleStateSnapshotKind = ''module_state_snapshot''"
| "kind_str ModuleCombinedKind = ''module_combined''"
| "kind_str ModuleLoadoutChangedKind = ''module_loadout_changed''"
| "kind_str AcquisitionClaimedKind = ''acquisition_claimed''"
| "kind_str CampaignCheckpointKind = ''campaign_checkpoint''"
| "kind_str CampaignResumedKind = ''campaign_resumed''"
| "kind_str CampaignObjectiveKind = ''campaign_objective''"
| "kind_str CampaignStoryKind = ''campaign_story''"
| "kind_str ChallengeCheckpointKind = ''challenge_checkpoint''"
| "kind_str ChallengeObjectiveKind = ''challenge_objective''"
| "kind_str RouteSelectedKind = ''route_selected''"
| "kind_str RouteOperationSucceededKind = ''route_operation_succeeded''"
| "kind_str RouteOperationFailedKind = ''route_operation_failed''"
| "kind_str CooperationStartedKind = ''cooperation_started''"
| "kind_str CooperationPingedKind = ''cooperation_pinged''"
| "kind_str PlayerDownedKind = ''player_downed''"
| "kind_str PlayerRevivedKind = ''player_revived''"
| "kind_str CooperationSucceededKind = ''cooperation_succeeded''"
| "kind_str CooperationFailedKind = ''cooperation_failed''"

datatype unknown_replay_event_kind = UnknownReplayEventKind string

definition kind_from_str :: "string \<Rightarrow> unknown_replay_event_kind + replay_event_kind" where
  "kind_from_str s =
    (if s = ''player_joined'' then Inr PlayerJoinedKind
     else if s = ''activity_started'' then Inr ActivityStartedKind
     else if s = ''enemy_spawned'' then Inr EnemySpawnedKind
     else if s = ''enemy_died'' then Inr EnemyDiedKind
     else if s = ''boss_spawned'' then Inr BossSpawnedKind
     else if s = ''activity_completed'' then Inr ActivityCompletedKind
     else if s = ''loot_granted'' then Inr LootGrantedKind
     else if s = ''progression_granted'' then Inr ProgressionGrantedKind
     else if s = ''equipment_changed'' then Inr EquipmentChangedKind
     else if s = ''field_activity'' then Inr FieldActivityKind
     else if s = ''module_state_snapshot'' then Inr ModuleStateSnapshotKind
     else if s = ''module_combined'' then Inr ModuleCombinedKind
     else if s = ''module_loadout_changed'' then Inr ModuleLoadoutChangedKind
     else if s = ''acquisition_claimed'' then Inr AcquisitionClaimedKind
     else if s = ''campaign_checkpoint'' then Inr CampaignCheckpointKind
     else if s = ''campaign_resumed'' then Inr CampaignResumedKind
     else if s = ''campaign_objective'' then Inr CampaignObjectiveKind
     else if s = ''campaign_story'' then Inr CampaignStoryKind
     else if s = ''challenge_checkpoint'' then Inr ChallengeCheckpointKind
     else if s = ''challenge_objective'' then Inr ChallengeObjectiveKind
     else if s = ''route_selected'' then Inr RouteSelectedKind
     else if s = ''route_operation_succeeded'' then Inr RouteOperationSucceededKind
     else if s = ''route_operation_failed'' then Inr RouteOperationFailedKind
     else if s = ''cooperation_started'' then Inr CooperationStartedKind
     else if s = ''cooperation_pinged'' then Inr CooperationPingedKind
     else if s = ''player_downed'' then Inr PlayerDownedKind
     else if s = ''player_revived'' then Inr PlayerRevivedKind
     else if s = ''cooperation_succeeded'' then Inr CooperationSucceededKind
     else if s = ''cooperation_failed'' then Inr CooperationFailedKind
     else Inl (UnknownReplayEventKind s))"

text \<open>Kinds and their stored names determine each other.\<close>

lemma kind_from_str_kind [simp]: "kind_from_str (kind_str k) = Inr k"
  by (cases k) (simp_all add: kind_from_str_def)

lemma kind_str_from_str: "kind_from_str s = Inr k \<longleftrightarrow> kind_str k = s"
proof
  assume "kind_from_str s = Inr k"
  then show "kind_str k = s" by (simp add: kind_from_str_def split: if_splits)
qed auto

section \<open>Events\<close>

record replay_event =
  event_id :: int
  event_kind :: replay_event_kind
  event_timestamp :: string
  event_session :: string
  event_account :: string
  event_activity :: "string option"
  event_actor :: "u64 option"
  event_payload :: string

datatype replay_error =
  EmptySession | MixedSessions | NonIncreasingAppendId
| InvalidModuleEvidence string | InvalidRouteEvidence string | InvalidCooperationEvidence string
| InvalidFieldActivityEvidence

fun validate_order_from :: "int option \<Rightarrow> string \<Rightarrow> replay_event list \<Rightarrow> replay_error + unit" where
  "validate_order_from prior session [] = Inr ()"
| "validate_order_from prior session (e # es) =
     (if event_session e \<noteq> session then Inl MixedSessions
      else if (case prior of None \<Rightarrow> False | Some n \<Rightarrow> event_id e \<le> n) then Inl NonIncreasingAppendId
      else validate_order_from (Some (event_id e)) session es)"

definition validate_event_order :: "replay_event list \<Rightarrow> string \<Rightarrow> replay_error + unit" where
  "validate_event_order es session = validate_order_from None session es"

text \<open>The order check accepts exactly one session with strictly increasing identifiers.\<close>

lemma validate_order_from_exact:
  "validate_order_from prior session es = Inr () \<longleftrightarrow>
     (\<forall>e \<in> set es. event_session e = session) \<and> sorted_wrt (<) (map event_id es) \<and>
     (\<forall>n. prior = Some n \<longrightarrow> (\<forall>e \<in> set es. n < event_id e))"
proof (induction es arbitrary: prior)
  case (Cons e es)
  show ?case
    by (cases prior) (auto simp: Cons.IH split: if_splits)
qed simp

lemma validate_event_order_exact:
  "validate_event_order es session = Inr () \<longleftrightarrow>
     (\<forall>e \<in> set es. event_session e = session) \<and> sorted_wrt (<) (map event_id es)"
  by (simp add: validate_event_order_def validate_order_from_exact)

text \<open>\<open>str::starts_with\<close> and the rest of a text after a prefix it has.\<close>

definition starts_with :: "string \<Rightarrow> string \<Rightarrow> bool" where
  "starts_with s p \<longleftrightarrow> take (length p) s = p"

definition after_prefix :: "string \<Rightarrow> string \<Rightarrow> string" where
  "after_prefix s p = drop (length p) s"

lemma starts_with_append [simp]: "starts_with (p @ s) p"
  by (simp add: starts_with_def)

lemma after_prefix_append [simp]: "after_prefix (p @ s) p = s"
  by (simp add: after_prefix_def)

text \<open>The states of an encounter a validator reports, which the code holds as static strings.\<close>

datatype encounter_status = StatusActive | StatusCompleted | StatusFailed

fun status_str :: "encounter_status \<Rightarrow> string" where
  "status_str StatusActive = ''Active''"
| "status_str StatusCompleted = ''Completed''"
| "status_str StatusFailed = ''Failed''"

text \<open>Events that advance the main mission.\<close>

definition main_progress :: "replay_event \<Rightarrow> bool" where
  "main_progress e \<longleftrightarrow> event_kind e \<in> {BossSpawnedKind, ActivityCompletedKind}"

text \<open>The player an encounter belongs to: the only join, of the same account and before it.\<close>

definition sole_player :: "replay_event list \<Rightarrow> replay_event \<Rightarrow> u64 option" where
  "sole_player events e =
    (case filter (\<lambda>x. event_kind x = PlayerJoinedKind) events of
       [p] \<Rightarrow> if event_account p \<noteq> event_account e \<or> event_id e \<le> event_id p then None else event_actor p
     | _ \<Rightarrow> None)"

text \<open>Events that may not share a session with an encounter whose payloads have the prefix.\<close>

definition foreign_event :: "string \<Rightarrow> replay_event \<Rightarrow> bool" where
  "foreign_event pre e \<longleftrightarrow>
     is_route_event (event_kind e) \<or> is_cooperation_event (event_kind e) \<or>
     event_kind e = FieldActivityKind \<and> \<not> starts_with (event_payload e) pre"

end
