(* ===== verification/Session.thy ===== *)
theory Session
  imports Controller Arsenal Routes Replay_Events
begin

text \<open>
  The part of the gateway's shared session (\<open>src/runtime/gateway/src/lib.rs\<close>) that the live
  encounters work on: the actors, the combat runtime, the route of the mission, the log of
  recorded events and the messages sent to the players. Every encounter extends the record with
  its own state. Clocks are arguments. The event store of the persistence service is the argument
  \<open>store\<close>: whether it takes a row after those it holds.
\<close>

section \<open>State\<close>

datatype session_stage =
  WaitingStage | DroneStage | StabilizerStage | DoorStage | BossStage | CompleteStage | FailedStage

record admitted_weapon =
  aw_item :: string
  aw_damage :: u32
  aw_range :: int
  aw_cooldown_ms :: u64

record live_participant =
  part_account :: string
  part_actor :: u64
  part_weapon :: string
  part_weapons :: "admitted_weapon list"
  encounter_capable :: bool
  route_capable :: bool
  bulwark_capable :: bool

record route_runtime =
  route_operation :: route_state
  warden_counter_count :: u8
  total_hostile_damage :: u32

type_synonym live_row = "replay_event_kind \<times> string \<times> u64 option \<times> string"

text \<open>The messages the encounters send; the constant warning times of the telegraphs are left out. All
  participants are sent a message, but for the route state, which carries the actors it is sent to.\<close>

datatype server_message =
  ActorSpawnMessage actor
| ActorDestroyMessage u64
| ActorUpdateMessage u64 pos "(pos \<times> bool) option" "((int \<times> int) \<times> bool) option"
| DamageAppliedMessage u64 u64 u32 u32 bool
| ObjectiveUpdateMessage string string string u32 u32
| RouteStateMessage "u64 list" string

record live_session =
  expected_players :: nat
  live_participants :: "live_participant list"
  live_actors :: registry
  live_next_id :: u64
  live_combat :: combat_runtime
  live_enemy_ai :: "ai_controller option"
  live_enemy :: "u64 option"
  live_stage :: session_stage
  live_route :: "route_runtime option"
  live_log :: "live_row list"
  live_sent :: "server_message list"

datatype session_error =
  SessionHasNoOwner | ActorIdOutOfRange | EventNotStored | EvidenceNotEncoded | NoAdmittedWeapon
| AttackerMissing | TargetMissing | NeedsSeparation | InvalidEncounterTarget
| AttackRefused combat_error | RouteRefused route_error | RouteNotProjected

type_synonym event_store = "live_row list \<Rightarrow> live_row \<Rightarrow> bool"

section \<open>Operations\<close>

definition owner_account :: "'z live_session_scheme \<Rightarrow> session_error + string" where
  "owner_account s =
    (case live_participants s of [] \<Rightarrow> Inl SessionHasNoOwner | p # _ \<Rightarrow> Inr (part_account p))"

text \<open>A challenge of the relay gauntlet records its combat elsewhere; this session has no challenge.\<close>

definition append_event ::
  "event_store \<Rightarrow> replay_event_kind \<Rightarrow> string \<Rightarrow> u64 option \<Rightarrow> string \<Rightarrow> 'z live_session_scheme \<Rightarrow>
   (session_error, unit, 'z live_session_scheme) outcome" where
  "append_event store k account actor payload s =
    (if (case actor of None \<Rightarrow> False | Some i \<Rightarrow> 2 ^ 63 \<le> unat i) then (Inl ActorIdOutOfRange, s)
     else
       let row = (k, account, actor, payload) in
       if store (live_log s) row then (Inr (), s\<lparr> live_log := live_log s @ [row] \<rparr>)
       else (Inl EventNotStored, s))"

text \<open>Every participant is sent the message; a closed connection is ignored.\<close>

definition broadcast :: "server_message \<Rightarrow> 'z live_session_scheme \<Rightarrow> 'z live_session_scheme" where
  "broadcast m s = s\<lparr> live_sent := live_sent s @ [m] \<rparr>"

definition admitted_weapon_of :: "live_participant \<Rightarrow> admitted_weapon option" where
  "admitted_weapon_of p = find (\<lambda>w. aw_item w = part_weapon p) (part_weapons p)"

definition positioned_attack_profile ::
  "u64 \<Rightarrow> u64 \<Rightarrow> 'z live_session_scheme \<Rightarrow> session_error + attack_profile" where
  "positioned_attack_profile player target s =
     and_then (ok_or NoAdmittedWeapon
       (Option.bind (find (\<lambda>p. part_actor p = player) (live_participants s)) admitted_weapon_of)) (\<lambda>w.
     and_then (ok_or AttackerMissing (get_actor (live_actors s) player)) (\<lambda>a.
     and_then (ok_or TargetMissing (get_actor (live_actors s) target)) (\<lambda>t.
     and_then (ok_or NeedsSeparation
       (positioned_damage (aw_item w) (aw_damage w) (squared_distance (position a) (position t)))) (\<lambda>d.
     Inr \<lparr> damage = d, attack_range = aw_range w, cooldown_ms = aw_cooldown_ms w \<rparr>))))"

text \<open>\<open>apply_ai_event\<close> for the events an encounter feeds it: hostile attacks.\<close>

definition hostile_attacked ::
  "u64 \<Rightarrow> u64 \<Rightarrow> u32 \<Rightarrow> u32 \<Rightarrow> bool \<Rightarrow> 'z live_session_scheme \<Rightarrow> 'z live_session_scheme" where
  "hostile_attacked source target d remaining fatal s =
     broadcast (DamageAppliedMessage source target d remaining fatal)
       (case live_route s of
          None \<Rightarrow> s
        | Some r \<Rightarrow>
            s\<lparr> live_route := Some (r\<lparr>
                 total_hostile_damage := sat_add (total_hostile_damage r) d,
                 warden_counter_count :=
                   (if live_stage s = BossStage then sat_add (warden_counter_count r) 1
                    else warden_counter_count r) \<rparr>) \<rparr>)"

text \<open>\<open>self.route.as_mut().unwrap().operation.lock_baseline()?\<close>\<close>

definition lock_session_route ::
  "'z live_session_scheme \<Rightarrow> (session_error, unit, 'z live_session_scheme) outcome" where
  "lock_session_route s =
    (case live_route s of
       None \<Rightarrow> (Inr (), s)
     | Some r \<Rightarrow>
         (case lock_baseline (route_operation r) of
            (Inl e, op') \<Rightarrow> (Inl (RouteRefused e), s\<lparr> live_route := Some (r\<lparr> route_operation := op' \<rparr>) \<rparr>)
          | (Inr _, op') \<Rightarrow> (Inr (), s\<lparr> live_route := Some (r\<lparr> route_operation := op' \<rparr>) \<rparr>)))"

definition route_choice_open :: "'z live_session_scheme \<Rightarrow> bool" where
  "route_choice_open s =
    (case live_route s of None \<Rightarrow> False | Some r \<Rightarrow> route_phase (route_operation r) = ChoiceOpen)"

text \<open>The route state is projected for the players and sent to those whose client knows routes;
  \<open>projected\<close> says whether the projection succeeds.\<close>

definition broadcast_route_state ::
  "bool \<Rightarrow> string \<Rightarrow> 'z live_session_scheme \<Rightarrow> (session_error, unit, 'z live_session_scheme) outcome" where
  "broadcast_route_state projected message s =
    (if projected
     then (Inr (), s\<lparr> live_sent := live_sent s @
       [RouteStateMessage (map part_actor (filter route_capable (live_participants s))) message] \<rparr>)
     else (Inl RouteNotProjected, s))"

section \<open>Recorded rows as replay events\<close>

definition row_of :: "replay_event \<Rightarrow> live_row" where
  "row_of e = (event_kind e, event_account e, event_actor e, event_payload e)"

text \<open>Events that store the rows of a log, in order and under increasing identifiers.\<close>

definition stores :: "live_row list \<Rightarrow> replay_event list \<Rightarrow> bool" where
  "stores rows events \<longleftrightarrow> map row_of events = rows \<and> sorted_wrt (<) (map event_id events)"

definition join_row :: "live_row \<Rightarrow> bool" where
  "join_row row \<longleftrightarrow> fst row = PlayerJoinedKind"

lemma row_of_eq [simp]: "row_of e = (k, a, i, p) \<longleftrightarrow>
    event_kind e = k \<and> event_account e = a \<and> event_actor e = i \<and> event_payload e = p"
  by (auto simp: row_of_def)

lemma stores_snoc:
  "stores (rows @ [row]) events \<longleftrightarrow>
     (\<exists>es e. events = es @ [e] \<and> stores rows es \<and> row_of e = row \<and> (\<forall>x \<in> set es. event_id x < event_id e))"
  by (cases events rule: rev_cases) (auto simp: stores_def sorted_wrt_append)

fun number_rows :: "int \<Rightarrow> live_row list \<Rightarrow> replay_event list" where
  "number_rows n [] = []"
| "number_rows n ((k, account, actor, payload) # rows) =
     \<lparr> event_id = n, event_kind = k, event_timestamp = [], event_session = [], event_account = account,
       event_activity = None, event_actor = actor, event_payload = payload \<rparr> # number_rows (n + 1) rows"

lemma number_rows_stores: "stores rows (number_rows n rows) \<and> (\<forall>e \<in> set (number_rows n rows). n \<le> event_id e)"
proof (induction n rows rule: number_rows.induct)
  case (2 n k account actor payload rows)
  then show ?case by (force simp: stores_def row_of_def)
qed (simp add: stores_def)

lemma stores_exist: "\<exists>events. stores rows events"
  using number_rows_stores by blast

lemma append_event_Inr:
  "append_event store k account actor payload s = (Inr u, s') \<Longrightarrow>
     s' = s\<lparr> live_log := live_log s @ [(k, account, actor, payload)] \<rparr>"
  by (auto simp: append_event_def Let_def split: if_splits)

lemma append_event_Inl:
  "append_event store k account actor payload s = (Inl e, s') \<Longrightarrow> s' = s"
  by (auto simp: append_event_def Let_def split: if_splits)

definition route_sane :: "'z live_session_scheme \<Rightarrow> bool" where
  "route_sane s \<longleftrightarrow> (\<forall>r. live_route s = Some r \<longrightarrow> routes_ok (route_operation r))"

text \<open>While the choice is open the route can be locked, so a recorded spawn is never left without
  its encounter.\<close>

lemma lock_session_route_open:
  assumes "route_sane s" and "route_choice_open s"
  shows "\<exists>r. lock_session_route s = (Inr (), s\<lparr> live_route := Some r \<rparr>) \<and> routes_ok (route_operation r)"
proof -
  obtain r where r: "live_route s = Some r" "route_phase (route_operation r) = ChoiceOpen"
    using assms(2) by (auto simp: route_choice_open_def split: option.splits)
  then have ok: "routes_ok (route_operation r)" using assms(1) by (simp add: route_sane_def)
  then have "selection (route_operation r) = None" using r(2) by (auto simp: routes_ok_def split: option.splits)
  then have lock: "lock_baseline (route_operation r) = (Inr (), route_operation r\<lparr> route_phase := BaselineLocked \<rparr>)"
    using r(2) by (simp add: lock_baseline_def)
  from lock_baseline_ok [OF ok this] lock r(1) show ?thesis by (auto simp: lock_session_route_def)
qed

text \<open>The joins of a log decide whose encounter it is.\<close>

lemma sole_player_stored:
  assumes "stores rows es" and "filter join_row rows = [(PlayerJoinedKind, owner, player, payload)]"
    and "filter (\<lambda>x. event_kind x = PlayerJoinedKind) all = filter (\<lambda>x. event_kind x = PlayerJoinedKind) es"
    and "\<forall>x \<in> set es. event_id x < event_id e" and "event_account e = owner"
  shows "sole_player all e = player"
proof -
  have "map row_of (filter (\<lambda>x. event_kind x = PlayerJoinedKind) es) = filter join_row (map row_of es)"
    by (simp add: filter_map o_def row_of_def join_row_def)
  then have "map row_of (filter (\<lambda>x. event_kind x = PlayerJoinedKind) es) = [(PlayerJoinedKind, owner, player, payload)]"
    using assms(1,2) by (simp add: stores_def)
  then obtain p where p: "filter (\<lambda>x. event_kind x = PlayerJoinedKind) es = [p]"
      "row_of p = (PlayerJoinedKind, owner, player, payload)" by auto
  then have "p \<in> set es" by (metis list.set_intros(1) mem_Collect_eq set_filter)
  with p assms(3-5) show ?thesis by (auto simp: sole_player_def)
qed

text \<open>The state of an objective as the players were last told.\<close>

fun told :: "string \<Rightarrow> server_message list \<Rightarrow> string option" where
  "told i [] = None"
| "told i (m # ms) =
     (case told i ms of
        Some state \<Rightarrow> Some state
      | None \<Rightarrow>
          (case m of
             ObjectiveUpdateMessage j _ state _ _ \<Rightarrow> if j = i then Some state else None
           | _ \<Rightarrow> None))"

lemma told_append [simp]:
  "told i (ms @ ms') = (case told i ms' of None \<Rightarrow> told i ms | Some state \<Rightarrow> Some state)"
  by (induction ms) (auto split: option.splits)

text \<open>A session of one player, whose join is the only one recorded.\<close>

definition solo_session :: "string \<Rightarrow> u64 \<Rightarrow> 'z live_session_scheme \<Rightarrow> bool" where
  "solo_session owner player s \<longleftrightarrow>
     (\<exists>p. live_participants s = [p] \<and> part_account p = owner \<and> part_actor p = player) \<and>
     (\<exists>payload. filter join_row (live_log s) = [(PlayerJoinedKind, owner, Some player, payload)])"

lemma solo_owner: "solo_session owner player s \<Longrightarrow> owner_account s = Inr owner"
  by (auto simp: solo_session_def owner_account_def)

text \<open>
  Following a log with a check: \<open>check all e c\<close> checks one event of the session \<open>all\<close>, \<open>sync s c\<close>
  relates the state of the check to the live session. The check of a stored log is followed from
  row to row; rows that were refused change nothing.
\<close>

definition followed ::
  "(replay_event list \<Rightarrow> replay_event list \<Rightarrow> 'c \<Rightarrow> replay_error + 'c) \<Rightarrow> 'c \<Rightarrow> live_row list \<Rightarrow> ('c \<Rightarrow> bool) \<Rightarrow> bool" where
  "followed checks start rows P \<longleftrightarrow>
     (\<forall>es all. stores rows es \<and>
        filter (\<lambda>x. event_kind x = PlayerJoinedKind) all = filter (\<lambda>x. event_kind x = PlayerJoinedKind) es \<longrightarrow>
        (\<exists>c. checks all es start = Inr c \<and> P c))"

locale log_check =
  fixes check :: "replay_event list \<Rightarrow> replay_event \<Rightarrow> 'c \<Rightarrow> replay_error + 'c"
    and checks :: "replay_event list \<Rightarrow> replay_event list \<Rightarrow> 'c \<Rightarrow> replay_error + 'c"
    and start :: 'c
  assumes checks_Nil: "checks all [] c = Inr c"
    and checks_Cons: "checks all (e # es) c = and_then (check all e c) (checks all es)"
begin

lemma checks_append:
  "checks all (es @ es') c = and_then (checks all es c) (checks all es')"
proof (induction es arbitrary: c)
  case (Cons e es)
  then show ?case by (cases "check all e c") (simp_all add: checks_Cons)
qed (simp add: checks_Nil)

lemma checks_snoc: "checks all (es @ [e]) c = and_then (checks all es c) (check all e)"
proof -
  have "and_then x (checks all []) = x" for x by (cases x) (simp_all add: checks_Nil)
  then show ?thesis by (cases "checks all es c") (simp_all add: checks_append checks_Cons)
qed

lemma followed_weaken: "followed checks start rows P \<Longrightarrow> (\<And>c. P c \<Longrightarrow> Q c) \<Longrightarrow> followed checks start rows Q"
  by (fastforce simp: followed_def)

lemma followed_row:
  assumes "followed checks start rows P" and "fst row \<noteq> PlayerJoinedKind"
    and "filter join_row rows = [(PlayerJoinedKind, owner, player, payload)]"
    and step: "\<And>all e c. P c \<Longrightarrow> row_of e = row \<Longrightarrow> (event_account e = owner \<Longrightarrow> sole_player all e = player) \<Longrightarrow>
      \<exists>c'. check all e c = Inr c' \<and> Q c'"
  shows "followed checks start (rows @ [row]) Q"
  unfolding followed_def
proof (intro allI impI, elim conjE)
  fix es all assume st: "stores (rows @ [row]) es"
    and joins: "filter (\<lambda>x. event_kind x = PlayerJoinedKind) all = filter (\<lambda>x. event_kind x = PlayerJoinedKind) es"
  from st obtain es' e where es: "es = es' @ [e]" "stores rows es'" "row_of e = row"
      "\<forall>x \<in> set es'. event_id x < event_id e" by (auto simp: stores_snoc)
  have "event_kind e \<noteq> PlayerJoinedKind" using es(3) assms(2) by (auto simp: row_of_def)
  then have joins': "filter (\<lambda>x. event_kind x = PlayerJoinedKind) all = filter (\<lambda>x. event_kind x = PlayerJoinedKind) es'"
    using joins es(1) by simp
  then obtain c where c: "checks all es' start = Inr c" "P c" using assms(1) es(2) by (auto simp: followed_def)
  have "sole_player all e = player" if "event_account e = owner"
    using sole_player_stored [OF es(2) assms(3) joins' es(4) that] .
  from step [OF c(2) es(3) this] obtain c' where "check all e c = Inr c'" "Q c'" by blast
  then show "\<exists>c. checks all es start = Inr c \<and> Q c" using c(1) es(1) by (auto simp: checks_snoc)
qed

end

end
