(* ===== verification/Replay_Lancer.thy ===== *)
theory Replay_Lancer
  imports Replay_Events Lancer
begin

text \<open>
  Replay of the glass lancer encounter (\<open>src/runtime/replay/src/lancer.rs\<close>): the recorded windups
  and charges are checked against the geometry and the timing of the brain, the chain of health
  values and the order of the encounter. \<open>decode\<close> is \<open>serde_json::from_str\<close> on the evidence.
\<close>

section \<open>Evidence\<close>

definition lancer_prefix :: string where "lancer_prefix = ''lancer-v1:''"

datatype lancer_evidence =
  LancerWindup pos pos u64
| LancerResolved pos pos pos u64 u32 u32 u32
| LancerAbandoned u64

definition encode_lancer_evidence :: "(lancer_evidence \<Rightarrow> 'e + string) \<Rightarrow> lancer_evidence \<Rightarrow> 'e + string" where
  "encode_lancer_evidence encode e = and_then (encode e) (\<lambda>s. Inr (lancer_prefix @ s))"

section \<open>The check of a session\<close>

record lancer_check =
  lc_encounter :: "(string \<times> u64 option) option"
  lc_state :: "encounter_status option"
  lc_locked :: "(pos \<times> pos \<times> u64) option"
  lc_position :: pos
  lc_next_windup :: u64
  lc_last_time :: u64
  lc_player :: "u64 option"
  lc_last_health :: "u32 option"
  lc_main_progressed :: bool

definition lancer_spawn :: pos where "lancer_spawn = (9, 0, 8)"
definition lancer_entrance :: pos where "lancer_entrance = (4, 0, 8)"

definition initial_lancer_check :: lancer_check where
  "initial_lancer_check =
    \<lparr> lc_encounter = None, lc_state = None, lc_locked = None, lc_position = lancer_spawn,
      lc_next_windup = 700, lc_last_time = 0, lc_player = None, lc_last_health = None,
      lc_main_progressed = False \<rparr>"

text \<open>One piece of evidence: the new state and its time.\<close>

definition lancer_evidence_step ::
  "lancer_evidence \<Rightarrow> lancer_check \<Rightarrow> replay_error + lancer_check \<times> u64" where
  "lancer_evidence_step ev c =
    (case ev of
       LancerWindup origin target elapsed \<Rightarrow>
         if lc_locked c \<noteq> None \<or> origin \<noteq> lc_position c \<or> \<not> lancer_arena target \<or>
            (fst origin \<noteq> fst target \<and> snd (snd origin) \<noteq> snd (snd target)) \<or>
            elapsed < lc_next_windup c
         then Inl InvalidFieldActivityEvidence
         else Inr (c\<lparr> lc_locked := Some (origin, target, elapsed) \<rparr>, elapsed)
     | LancerResolved origin target player elapsed damage before after \<Rightarrow>
         and_then (ok_or InvalidFieldActivityEvidence (lc_locked c)) (\<lambda>(start, goal, started).
         if origin \<noteq> start \<or> target \<noteq> goal \<or> elapsed < sat_add started lancer_windup_ms \<or>
            \<not> lancer_arena player \<or> before = 0 \<or> sat_sub before damage \<noteq> after \<or>
            (case lc_last_health c of None \<Rightarrow> False | Some h \<Rightarrow> h \<noteq> before) \<or>
            damage \<noteq> (if charge_hits origin target player then lancer_damage else 0)
         then Inl InvalidFieldActivityEvidence
         else
           Inr (c\<lparr> lc_locked := None, lc_position := target, lc_last_health := Some after,
                   lc_state := (if after = 0 then Some StatusFailed else lc_state c),
                   lc_next_windup := sat_add elapsed lancer_recovery_ms \<rparr>, elapsed))
     | LancerAbandoned elapsed \<Rightarrow> Inr (c\<lparr> lc_state := Some StatusFailed \<rparr>, elapsed))"

definition lancer_check_event ::
  "(string \<Rightarrow> lancer_evidence option) \<Rightarrow> replay_event list \<Rightarrow> replay_event \<Rightarrow> lancer_check \<Rightarrow>
   replay_error + lancer_check" where
  "lancer_check_event decode events e c0 =
    (let c = c0\<lparr> lc_main_progressed := lc_main_progressed c0 \<or> main_progress e \<rparr> in
     if event_kind e = EnemySpawnedKind \<and> event_payload e = ''enemy spawned: glass-lancer'' then
       if lc_encounter c \<noteq> None \<or> event_actor e = None \<or> lc_main_progressed c
       then Inl InvalidFieldActivityEvidence
       else
         and_then (ok_or InvalidFieldActivityEvidence (sole_player events e)) (\<lambda>player.
         Inr (c\<lparr> lc_encounter := Some (event_account e, event_actor e), lc_player := Some player,
                 lc_state := Some StatusActive \<rparr>))
     else if event_kind e = EnemyDiedKind \<and> event_payload e = ''enemy died: glass-lancer'' then
       if lc_encounter c \<noteq> Some (event_account e, event_actor e) \<or> lc_state c \<noteq> Some StatusActive
       then Inl InvalidFieldActivityEvidence
       else Inr (c\<lparr> lc_state := Some StatusCompleted \<rparr>)
     else if event_kind e = FieldActivityKind \<and> starts_with (event_payload e) lancer_prefix then
       if lc_state c \<noteq> Some StatusActive \<or> event_actor e \<noteq> lc_player c \<or>
          map_option fst (lc_encounter c) \<noteq> Some (event_account e) \<or> length (event_payload e) > 1024
       then Inl InvalidFieldActivityEvidence
       else
         and_then (ok_or InvalidFieldActivityEvidence (decode (after_prefix (event_payload e) lancer_prefix))) (\<lambda>ev.
         and_then (lancer_evidence_step ev c) (\<lambda>(c', time).
         if time < lc_last_time c then Inl InvalidFieldActivityEvidence
         else Inr (c'\<lparr> lc_last_time := time \<rparr>)))
     else if (lc_state c = Some StatusActive \<or> lc_last_health c = Some 0) \<and> main_progress e
     then Inl InvalidFieldActivityEvidence
     else Inr c)"

fun lancer_check_events ::
  "(string \<Rightarrow> lancer_evidence option) \<Rightarrow> replay_event list \<Rightarrow> replay_event list \<Rightarrow> lancer_check \<Rightarrow>
   replay_error + lancer_check" where
  "lancer_check_events decode events [] c = Inr c"
| "lancer_check_events decode events (e # es) c =
     and_then (lancer_check_event decode events e c) (lancer_check_events decode events es)"

definition validate_lancer ::
  "(string \<Rightarrow> lancer_evidence option) \<Rightarrow> replay_event list \<Rightarrow> replay_error + encounter_status option" where
  "validate_lancer decode events =
     and_then (lancer_check_events decode events events initial_lancer_check) (\<lambda>c.
     if lc_encounter c \<noteq> None \<and> list_ex (foreign_event lancer_prefix) events
     then Inl InvalidFieldActivityEvidence
     else Inr (lc_state c))"

section \<open>Accepted sessions are runs of the brain\<close>

text \<open>What the brain was shown, and what it did, when a piece of evidence was recorded. The windup
  does not keep the position of the player; any one on the lane, such as its end, explains it.\<close>

fun evidence_move :: "lancer_evidence \<Rightarrow> (lancer_event \<times> charge_action) option" where
  "evidence_move (LancerWindup origin target t) = Some (LancerTick t origin target, Windup origin target)"
| "evidence_move (LancerResolved origin target player t damage before after) =
     Some (LancerTick t origin player, Resolved origin target damage)"
| "evidence_move (LancerAbandoned t) = None"

fun evidence_health :: "lancer_evidence \<Rightarrow> (u32 \<times> u32 \<times> u32) option" where
  "evidence_health (LancerResolved origin target player t damage before after) = Some (before, damage, after)"
| "evidence_health _ = None"

definition lancer_recorded :: "(string \<Rightarrow> lancer_evidence option) \<Rightarrow> replay_event \<Rightarrow> lancer_evidence option" where
  "lancer_recorded decode e =
    (if event_kind e = FieldActivityKind \<and> starts_with (event_payload e) lancer_prefix
     then decode (after_prefix (event_payload e) lancer_prefix) else None)"

definition lancer_trace :: "(string \<Rightarrow> lancer_evidence option) \<Rightarrow> replay_event list \<Rightarrow> lancer_evidence list" where
  "lancer_trace decode events = List.map_filter (lancer_recorded decode) events"

definition lancer_moves :: "lancer_evidence list \<Rightarrow> (lancer_event \<times> charge_action) list" where
  "lancer_moves evs = List.map_filter evidence_move evs"

fun health_chain :: "u32 option \<Rightarrow> (u32 \<times> u32 \<times> u32) list \<Rightarrow> bool" where
  "health_chain prior [] \<longleftrightarrow> True"
| "health_chain prior ((before, damage, after) # hs) \<longleftrightarrow>
     (\<forall>h. prior = Some h \<longrightarrow> h = before) \<and> before \<noteq> 0 \<and> after = sat_sub before damage \<and>
     health_chain (Some after) hs"

fun final_health :: "u32 option \<Rightarrow> (u32 \<times> u32 \<times> u32) list \<Rightarrow> u32 option" where
  "final_health prior [] = prior"
| "final_health prior ((before, damage, after) # hs) = final_health (Some after) hs"

lemma health_chain_alive:
  assumes "health_chain prior hs" and "final_health prior hs \<noteq> Some 0" and "(before, damage, after) \<in> set hs"
  shows "after \<noteq> 0"
  using assms
proof (induction prior hs arbitrary: before damage after rule: health_chain.induct)
  case (2 prior b d a hs)
  have "a \<noteq> 0" using 2(2,3) by (cases hs) auto
  then show ?case using 2 by auto
qed simp

definition lancer_healths :: "lancer_evidence list \<Rightarrow> (u32 \<times> u32 \<times> u32) list" where
  "lancer_healths evs = List.map_filter evidence_health evs"

definition lancer_brain :: "lancer_check \<Rightarrow> glass_lancer" where
  "lancer_brain c =
    (case lc_locked c of
       None \<Rightarrow> \<lparr> lancer_ready_at = lc_next_windup c, locked = None \<rparr>
     | Some (origin, target, started) \<Rightarrow>
         \<lparr> lancer_ready_at = sat_add started lancer_windup_ms, locked = Some (origin, target) \<rparr>)"

definition lancer_placed :: "lancer_check \<Rightarrow> bool" where
  "lancer_placed c \<longleftrightarrow> lancer_arena (lc_position c) \<and>
     (\<forall>origin target t. lc_locked c = Some (origin, target, t) \<longrightarrow>
        origin = lc_position c \<and> lancer_arena target)"

lemma map_filter_Cons:
  "List.map_filter f (x # xs) = (case f x of None \<Rightarrow> List.map_filter f xs | Some y \<Rightarrow> y # List.map_filter f xs)"
  by (simp add: List.map_filter_simps)

lemma lane_end:
  assumes "lancer_arena origin" and "lancer_arena target"
    and "fst origin = fst target \<or> snd (snd origin) = snd (snd target)"
  shows "charge_target origin target = target"
  using assms by (cases origin; cases target) auto

lemma lancer_brain_same:
  "lc_locked c' = lc_locked c \<Longrightarrow> lc_next_windup c' = lc_next_windup c \<Longrightarrow> lancer_brain c' = lancer_brain c"
  "lc_locked c' = lc_locked c \<Longrightarrow> lc_position c' = lc_position c \<Longrightarrow> lancer_placed c' = lancer_placed c"
  by (auto simp: lancer_brain_def lancer_placed_def split: option.splits)

lemma lancer_evidence_accepted:
  assumes "lancer_evidence_step ev c = Inr (c', t)" and "lancer_placed c"
  shows "lancer_placed c' \<and> lc_encounter c' = lc_encounter c \<and> lc_player c' = lc_player c \<and>
    lc_last_time c' = lc_last_time c \<and> lc_main_progressed c' = lc_main_progressed c \<and>
    (case evidence_move ev of
       None \<Rightarrow> lancer_brain c' = lancer_brain c
     | Some (e, a) \<Rightarrow> lancer_time e = t \<and> lancer_step e (lancer_brain c) = (lancer_brain c', Some a)) \<and>
    (case evidence_health ev of
       None \<Rightarrow> lc_last_health c' = lc_last_health c \<and> (lc_state c' = lc_state c \<or> lc_state c' = Some StatusFailed)
     | Some (before, damage, after) \<Rightarrow>
         (\<forall>h. lc_last_health c = Some h \<longrightarrow> h = before) \<and> before \<noteq> 0 \<and> after = sat_sub before damage \<and>
         lc_last_health c' = Some after \<and>
         lc_state c' = (if after = 0 then Some StatusFailed else lc_state c))"
proof (cases ev)
  case (LancerWindup origin target elapsed)
  then have ok: "lc_locked c = None" "origin = lc_position c" "lancer_arena target" "\<not> elapsed < lc_next_windup c"
      "fst origin = fst target \<or> snd (snd origin) = snd (snd target)"
      "c' = c\<lparr> lc_locked := Some (origin, target, elapsed) \<rparr>" "t = elapsed"
    using assms(1) by (auto simp: lancer_evidence_step_def simp del: not_None_eq split: if_splits)
  have "charge_target origin target = target"
    using lane_end [of origin target] ok assms(2) by (auto simp: lancer_placed_def)
  moreover have "lancer_arena (lc_position c)" using assms(2) by (simp add: lancer_placed_def)
  ultimately show ?thesis using LancerWindup ok(1-4,6,7)
    by (simp add: lancer_placed_def lancer_brain_def lancer_tick_def del: split_paired_All)
next
  case (LancerResolved origin target player elapsed damage before after)
  then obtain started where ok: "lc_locked c = Some (origin, target, started)"
      "\<not> elapsed < sat_add started lancer_windup_ms" "lancer_arena player" "before \<noteq> 0"
      "sat_sub before damage = after" "\<forall>h. lc_last_health c = Some h \<longrightarrow> h = before"
      "damage = (if charge_hits origin target player then lancer_damage else 0)"
      "c' = c\<lparr> lc_locked := None, lc_position := target, lc_last_health := Some after,
                lc_state := (if after = 0 then Some StatusFailed else lc_state c),
                lc_next_windup := sat_add elapsed lancer_recovery_ms \<rparr>" "t = elapsed"
    using assms(1) by (auto simp: lancer_evidence_step_def and_then_Inr ok_or_Inr split: if_splits option.splits)
  moreover from ok(1) have "lancer_arena origin" "lancer_arena target"
    using assms(2) by (simp_all add: lancer_placed_def del: split_paired_All)
  ultimately show ?thesis using LancerResolved
    by (simp add: lancer_placed_def lancer_brain_def lancer_tick_def not_less)
next
  case (LancerAbandoned elapsed)
  then show ?thesis
    using assms lancer_brain_same [of "c\<lparr> lc_state := Some StatusFailed \<rparr>" c] by (auto simp: lancer_evidence_step_def)
qed

text \<open>One event: evidence is a step of the brain, everything else leaves it alone.\<close>

lemma lancer_check_event_cases:
  assumes "lancer_check_event decode events e c = Inr c'"
  obtains (evidence) ev c1 t where "lancer_recorded decode e = Some ev" "lc_state c = Some StatusActive"
      "lancer_evidence_step ev (c\<lparr> lc_main_progressed := lc_main_progressed c \<or> main_progress e \<rparr>) = Inr (c1, t)"
      "lc_last_time c \<le> t" "c' = c1\<lparr> lc_last_time := t \<rparr>"
  | (other) "lancer_recorded decode e = None" "lc_locked c' = lc_locked c" "lc_position c' = lc_position c"
      "lc_next_windup c' = lc_next_windup c" "lc_last_time c' = lc_last_time c"
      "lc_last_health c' = lc_last_health c"
      "lc_state c' = lc_state c \<and> lc_encounter c' = lc_encounter c \<or>
       lc_encounter c = None \<and> lc_encounter c' \<noteq> None \<and> lc_state c' = Some StatusActive \<or>
       lc_encounter c' = lc_encounter c \<and> lc_state c = Some StatusActive \<and> lc_state c' = Some StatusCompleted \<and>
       event_kind e = EnemyDiedKind \<and> event_payload e = ''enemy died: glass-lancer''"
proof -
  let ?c = "c\<lparr> lc_main_progressed := lc_main_progressed c \<or> main_progress e \<rparr>"
  consider (spawn) "event_kind e = EnemySpawnedKind \<and> event_payload e = ''enemy spawned: glass-lancer''"
    | (died) "event_kind e = EnemyDiedKind \<and> event_payload e = ''enemy died: glass-lancer''"
    | (evid) "event_kind e = FieldActivityKind \<and> starts_with (event_payload e) lancer_prefix"
    | (quiet) "\<not> (event_kind e = EnemySpawnedKind \<and> event_payload e = ''enemy spawned: glass-lancer'')"
        "\<not> (event_kind e = EnemyDiedKind \<and> event_payload e = ''enemy died: glass-lancer'')"
        "\<not> (event_kind e = FieldActivityKind \<and> starts_with (event_payload e) lancer_prefix)"
    by blast
  then show thesis
  proof cases
    case spawn
    then obtain player where "lc_encounter c = None" "c' = ?c\<lparr> lc_encounter := Some (event_account e, event_actor e),
        lc_player := Some player, lc_state := Some StatusActive \<rparr>"
      using assms by (auto simp: lancer_check_event_def and_then_Inr ok_or_Inr Let_def simp del: not_None_eq split: if_splits)
    then show thesis using spawn by (intro other) (simp_all add: lancer_recorded_def)
  next
    case died
    then have "lc_state c = Some StatusActive" "c' = ?c\<lparr> lc_state := Some StatusCompleted \<rparr>"
        "lc_encounter c = Some (event_account e, event_actor e)"
      using assms by (simp_all add: lancer_check_event_def Let_def split: if_splits)
    then show thesis using died by (intro other) (simp_all add: lancer_recorded_def)
  next
    case evid
    then obtain ev c1 t where "decode (after_prefix (event_payload e) lancer_prefix) = Some ev"
        "lc_state c = Some StatusActive" "lancer_evidence_step ev ?c = Inr (c1, t)" "lc_last_time c \<le> t"
        "c' = c1\<lparr> lc_last_time := t \<rparr>"
      using assms by (auto simp: lancer_check_event_def and_then_Inr ok_or_Inr Let_def not_less split: if_splits)
    then show thesis using evid by (intro evidence [of ev c1 t]) (simp_all add: lancer_recorded_def)
  next
    case quiet
    then have "c' = ?c" using assms by (simp add: lancer_check_event_def Let_def split: if_splits)
    then show thesis using quiet by (intro other) (auto simp: lancer_recorded_def simp del: not_None_eq)
  qed
qed

text \<open>What the check knows of the encounter between events.\<close>

definition lancer_known :: "lancer_check \<Rightarrow> bool" where
  "lancer_known c \<longleftrightarrow> lancer_placed c \<and> (lc_encounter c = None \<longrightarrow> lc_state c = None \<and> lc_last_health c = None) \<and>
     (lc_state c \<in> {Some StatusActive, Some StatusCompleted} \<longrightarrow> lc_last_health c \<noteq> Some 0)"

lemma lancer_trace_Cons:
  "lancer_trace decode (e # es) =
    (case lancer_recorded decode e of None \<Rightarrow> lancer_trace decode es | Some ev \<Rightarrow> ev # lancer_trace decode es)"
  unfolding lancer_trace_def map_filter_Cons ..

lemma lancer_moves_simps [simp]:
  "lancer_moves [] = []"
  "lancer_moves (ev # evs) = (case evidence_move ev of None \<Rightarrow> lancer_moves evs | Some m \<Rightarrow> m # lancer_moves evs)"
  unfolding lancer_moves_def map_filter_Cons by (simp_all add: List.map_filter_simps)

lemma lancer_healths_simps [simp]:
  "lancer_healths [] = []"
  "lancer_healths (ev # evs) = (case evidence_health ev of None \<Rightarrow> lancer_healths evs | Some h \<Rightarrow> h # lancer_healths evs)"
  unfolding lancer_healths_def map_filter_Cons by (simp_all add: List.map_filter_simps)

lemma clocked_earlier: "clocked time t es \<Longrightarrow> s \<le> t \<Longrightarrow> clocked time s es"
  by (cases es) auto

lemma lancer_check_run:
  assumes "lancer_check_events decode events es c = Inr c'" and "lancer_known c"
  shows "run_brain lancer_step lancer_time (map fst (lancer_moves (lancer_trace decode es))) (lancer_brain c) =
      (lancer_brain c', map (\<lambda>(e, a). (lancer_time e, a)) (lancer_moves (lancer_trace decode es))) \<and>
    clocked lancer_time (lc_last_time c) (map fst (lancer_moves (lancer_trace decode es))) \<and>
    health_chain (lc_last_health c) (lancer_healths (lancer_trace decode es)) \<and>
    lc_last_health c' = final_health (lc_last_health c) (lancer_healths (lancer_trace decode es)) \<and>
    lancer_known c' \<and>
    (lc_state c' = Some StatusCompleted \<longrightarrow> lc_state c = Some StatusCompleted \<or>
      (\<exists>e \<in> set es. event_kind e = EnemyDiedKind \<and> event_payload e = ''enemy died: glass-lancer''))"
  using assms
proof (induction es arbitrary: c)
  case Nil
  then show ?case by (simp add: lancer_trace_def List.map_filter_simps)
next
  case (Cons e es)
  from Cons.prems(1) obtain c1 where one: "lancer_check_event decode events e c = Inr c1"
      and rest: "lancer_check_events decode events es c1 = Inr c'" by (auto simp: and_then_Inr)
  from one show ?case
  proof (cases rule: lancer_check_event_cases)
    case (evidence ev c2 t)
    let ?c = "c\<lparr> lc_main_progressed := lc_main_progressed c \<or> main_progress e \<rparr>"
    have "lancer_placed ?c" "lancer_brain ?c = lancer_brain c"
      using Cons.prems(2) lancer_brain_same [of ?c c] by (simp_all add: lancer_known_def)
    note step = lancer_evidence_accepted [OF evidence(3) this(1)]
    have same: "lancer_brain c1 = lancer_brain c2" "lancer_placed c1 = lancer_placed c2"
      using evidence(5) lancer_brain_same [of c1 c2] by simp_all
    have "lancer_known c1"
      using step Cons.prems(2) evidence(2,5) same by (cases ev) (auto simp: lancer_known_def)
    note IH = Cons.IH [OF rest this]
    have active: "lc_state c' = Some StatusCompleted \<Longrightarrow> lc_state c1 \<noteq> Some StatusCompleted"
      using step evidence(2,5) by (cases ev) (auto split: if_splits)
    have heads: "lancer_trace decode (e # es) = ev # lancer_trace decode es"
      using evidence(1) by (simp add: lancer_trace_Cons)
    have clock: "lc_last_time c1 = t" using evidence(5) by simp
    have chain: "health_chain (lc_last_health c) (lancer_healths (ev # lancer_trace decode es))"
        "lc_last_health c' = final_health (lc_last_health c) (lancer_healths (ev # lancer_trace decode es))"
      using IH step evidence(5) by (cases ev; simp)+
    show ?thesis
    proof (cases "evidence_move ev")
      case None
      then show ?thesis
        using IH active chain step evidence(4) clocked_earlier [of lancer_time t _ "lc_last_time c"] clock same
          \<open>lancer_brain ?c = lancer_brain c\<close>
        by (auto simp: heads)
    next
      case (Some m)
      obtain ev' a where m: "m = (ev', a)" by (cases m)
      have now: "lancer_time ev' = t" "lancer_step ev' (lancer_brain c) = (lancer_brain c1, Some a)"
        using step Some m same \<open>lancer_brain ?c = lancer_brain c\<close> by simp_all
      then show ?thesis
        using IH active chain evidence(4) clock Some m by (auto simp: heads)
    qed
  next
    case other
    have same: "lancer_brain c1 = lancer_brain c" "lancer_placed c1 = lancer_placed c"
      using other lancer_brain_same [of c1 c] by simp_all
    have "lancer_known c1" using Cons.prems(2) other same by (auto simp: lancer_known_def)
    from Cons.IH [OF rest this] show ?thesis
      using other same by (auto simp: lancer_trace_Cons)
  qed
qed

lemma initial_lancer_known: "lancer_known initial_lancer_check"
  by (simp add: lancer_known_def lancer_placed_def initial_lancer_check_def lancer_spawn_def)

lemma initial_lancer_brain: "lancer_brain initial_lancer_check = new_lancer"
  by (simp add: lancer_brain_def initial_lancer_check_def new_lancer_def)

text \<open>
  C31 (refinement): a recorded lancer encounter is accepted only if it is one the brain can
  fight. Shown what the evidence records, at the recorded times, a fresh brain takes exactly the
  recorded actions: every charge was announced on its own lane 1800 ms before and followed by
  its recovery; the health values form a chain in which every charge takes the damage it
  reports; and a session counts as completed only with the death of the lancer recorded and the
  player alive after every charge.
\<close>

theorem lancer_replay_is_a_fight:
  assumes "validate_lancer decode events = Inr status"
  shows "snd (run_brain lancer_step lancer_time (map fst (lancer_moves (lancer_trace decode events))) new_lancer) =
      map (\<lambda>(e, a). (lancer_time e, a)) (lancer_moves (lancer_trace decode events)) \<and>
    announced charge_warns charge_strikes (\<lambda>_. 1800) None
      (map (\<lambda>(e, a). (lancer_time e, a)) (lancer_moves (lancer_trace decode events))) \<and>
    spaced charge_gap (map (\<lambda>(e, a). (lancer_time e, a)) (lancer_moves (lancer_trace decode events))) \<and>
    health_chain None (lancer_healths (lancer_trace decode events)) \<and>
    (status = Some StatusCompleted \<longrightarrow>
      (\<exists>e \<in> set events. event_kind e = EnemyDiedKind \<and> event_payload e = ''enemy died: glass-lancer'') \<and>
      (\<forall>(before, damage, after) \<in> set (lancer_healths (lancer_trace decode events)). after \<noteq> 0))"
proof -
  obtain c where c: "lancer_check_events decode events events initial_lancer_check = Inr c" "status = lc_state c"
    using assms by (auto simp: validate_lancer_def and_then_Inr split: if_splits)
  note run = lancer_check_run [OF c(1) initial_lancer_known, unfolded initial_lancer_brain]
  let ?acts = "map (\<lambda>(e, a). (lancer_time e, a)) (lancer_moves (lancer_trace decode events))"
  have brain: "run_brain lancer_step lancer_time (map fst (lancer_moves (lancer_trace decode events))) new_lancer =
      (lancer_brain c, ?acts)" using run by blast
  have "announced charge_warns charge_strikes (\<lambda>_. 1800) None ?acts"
    using lancer_sign.strikes_announced [OF TrueI brain, of None] by (simp add: new_lancer_def lancer_windup_ms_def)
  moreover have "spaced charge_gap ?acts" using lancer_pace.actions_spaced [OF TrueI _ brain] run by blast
  moreover have "health_chain None (lancer_healths (lancer_trace decode events))"
    using run by (simp add: initial_lancer_check_def)
  moreover have "(\<exists>e \<in> set events. event_kind e = EnemyDiedKind \<and> event_payload e = ''enemy died: glass-lancer'') \<and>
      (\<forall>(before, damage, after) \<in> set (lancer_healths (lancer_trace decode events)). after \<noteq> 0)"
    if "status = Some StatusCompleted"
  proof
    have "final_health None (lancer_healths (lancer_trace decode events)) \<noteq> Some 0"
      using run that c(2) unfolding lancer_known_def by (simp add: initial_lancer_check_def) metis
    then show "\<forall>(before, damage, after) \<in> set (lancer_healths (lancer_trace decode events)). after \<noteq> 0"
      using run health_chain_alive [of None] by (fastforce simp: initial_lancer_check_def)
  qed (use run that c(2) in \<open>auto simp: initial_lancer_check_def\<close>)
  ultimately show ?thesis using brain by simp
qed

section \<open>Example\<close>

definition demo_evidence :: "string \<Rightarrow> lancer_evidence option" where
  "demo_evidence s =
    (if s = ''windup'' then Some (LancerWindup (9, 0, 8) (4, 0, 8) 700)
     else if s = ''missed'' then Some (LancerResolved (9, 0, 8) (4, 0, 8) (4, 0, 9) 2500 0 90 90)
     else None)"

definition demo_row :: "int \<Rightarrow> replay_event_kind \<Rightarrow> u64 \<Rightarrow> string \<Rightarrow> replay_event" where
  "demo_row n k actor payload =
    \<lparr> event_id = n, event_kind = k, event_timestamp = [], event_session = ''lancer-test'',
      event_account = ''local:lancer'', event_activity = None, event_actor = Some actor, event_payload = payload \<rparr>"

definition demo_session :: "replay_event list" where
  "demo_session =
    [demo_row 1 PlayerJoinedKind 1 ''player joined'',
     demo_row 2 EnemySpawnedKind 2 ''enemy spawned: glass-lancer'',
     demo_row 3 FieldActivityKind 1 ''lancer-v1:windup'',
     demo_row 4 FieldActivityKind 1 ''lancer-v1:missed'',
     demo_row 5 EnemyDiedKind 2 ''enemy died: glass-lancer'']"

theorem lancer_replay_is_a_fight_witness:
  "validate_lancer demo_evidence demo_session = Inr (Some StatusCompleted) \<and>
   announced charge_warns charge_strikes (\<lambda>_. 1800) None
     (map (\<lambda>(e, a). (lancer_time e, a)) (lancer_moves (lancer_trace demo_evidence demo_session)))"
proof -
  have ok: "validate_lancer demo_evidence demo_session = Inr (Some StatusCompleted)"
    by (simp add: validate_lancer_def demo_session_def demo_row_def lancer_check_event_def Let_def
        initial_lancer_check_def sole_player_def main_progress_def starts_with_def after_prefix_def
        lancer_prefix_def demo_evidence_def lancer_evidence_step_def lancer_spawn_def lancer_windup_ms_def
        sat_add_def sat_sub_def foreign_event_def)
  from lancer_replay_is_a_fight [OF this] ok show ?thesis by blast
qed

end
