(* ===== verification/Live_Lancer.thy ===== *)
theory Live_Lancer
  imports Session Replay_Lancer
begin

text \<open>
  The live glass lancer encounter (\<open>src/runtime/gateway/src/lancer.rs\<close>): how movement starts
  and abandons it, what a tick of its brain does to the actors, and the attacks on it. Each step
  is recorded before it takes effect. The lemmas show that whatever the calls and the refusals of
  the store, the recorded session is accepted by its replay, with the state the players were told.
\<close>

section \<open>The encounter\<close>

record lancer_encounter =
  lancer_enemy :: u64
  lancer_player :: u64
  lancer_active :: bool
  lancer_ai :: glass_lancer

record lancer_session = live_session +
  live_lancer :: "lancer_encounter option"

definition lancer_fighting :: "lancer_session \<Rightarrow> bool" where
  "lancer_fighting s = (case live_lancer s of None \<Rightarrow> False | Some enc \<Rightarrow> lancer_active enc)"

definition lancer_objective :: "string \<Rightarrow> server_message" where
  "lancer_objective state =
    ObjectiveUpdateMessage ''glass_lancer'' ''KillActors'' state (if state = ''Completed'' then 1 else 0) 1"

definition record_lancer ::
  "event_store \<Rightarrow> (lancer_evidence \<Rightarrow> session_error + string) \<Rightarrow> u64 \<Rightarrow> lancer_evidence \<Rightarrow> lancer_session \<Rightarrow>
   (session_error, unit, lancer_session) outcome" where
  "record_lancer store encode player ev s =
     require (owner_account s) s (\<lambda>owner.
     require (encode_lancer_evidence encode ev) s (\<lambda>payload.
     append_event store FieldActivityKind owner (Some player) payload s))"

definition handle_lancer_movement ::
  "event_store \<Rightarrow> (lancer_evidence \<Rightarrow> session_error + string) \<Rightarrow> bool \<Rightarrow> u64 \<Rightarrow> pos \<Rightarrow> u64 \<Rightarrow> lancer_session \<Rightarrow>
   (session_error, bool, lancer_session) outcome" where
  "handle_lancer_movement store encode projected player p elapsed s =
    (if lancer_fighting s then
       if lancer_arena p then (Inr True, s)
       else
         let enc = the (live_lancer s) in
         attempt (record_lancer store encode (lancer_player enc) (LancerAbandoned elapsed) s) (\<lambda>_ s.
         (Inr False,
          broadcast (lancer_objective ''Failed'') (broadcast (ActorDestroyMessage (lancer_enemy enc))
            (s\<lparr> live_lancer := Some (enc\<lparr> lancer_active := False \<rparr>),
               live_actors := snd (destroy (lancer_enemy enc) (live_actors s)), live_enemy := None \<rparr>))))
     else
       let available = live_lancer s = None \<and> live_stage s = DoorStage \<and> expected_players s = 1 \<and>
             length (live_participants s) = 1 \<and> encounter_capable (hd (live_participants s)) \<and>
             route_choice_open s in
       if \<not> available \<or> p \<noteq> lancer_entrance then (Inr False, s)
       else
         let (enemy, next_id, actors) =
               spawn Enemy ''glass-lancer'' lancer_spawn lancer_health (live_next_id s) (live_actors s);
             s = s\<lparr> live_next_id := next_id \<rparr> in
         require (owner_account s) s (\<lambda>owner.
         attempt (append_event store EnemySpawnedKind owner (Some (actor_id enemy))
                    ''enemy spawned: glass-lancer'' s) (\<lambda>_ s.
         attempt (lock_session_route s) (\<lambda>_ s.
         let s = s\<lparr> live_actors := actors,
                    live_lancer := Some \<lparr> lancer_enemy = actor_id enemy, lancer_player = player,
                                          lancer_active = True, lancer_ai = new_lancer \<rparr>,
                    live_enemy := Some (actor_id enemy), live_enemy_ai := None, live_combat := new_combat \<rparr>;
             s = broadcast (lancer_objective ''Active'') (broadcast (ActorSpawnMessage enemy) s) in
         attempt (broadcast_route_state projected ''Glass Lancer selected; standard mission rewards'' s)
           (\<lambda>_ s. (Inr True, s))))))"

text \<open>The effects of a charge that hit: the damage, and the end of the mission when it is fatal.\<close>

definition lancer_struck :: "lancer_encounter \<Rightarrow> u32 \<Rightarrow> lancer_session \<Rightarrow> lancer_session" where
  "lancer_struck enc d s =
    (case apply_damage (lancer_player enc) d (live_actors s) of
       (None, _) \<Rightarrow> s
     | (Some victim, actors) \<Rightarrow>
         let s = hostile_attacked (lancer_enemy enc) (lancer_player enc) d (health victim) (health victim = 0)
                   (s\<lparr> live_actors := actors \<rparr>) in
         if health victim = 0
         then broadcast (lancer_objective ''Failed'')
                (s\<lparr> live_stage := FailedStage,
                   live_lancer := map_option (\<lambda>e. e\<lparr> lancer_active := False \<rparr>) (live_lancer s) \<rparr>)
         else s)"

definition tick_lancer_at ::
  "event_store \<Rightarrow> (lancer_evidence \<Rightarrow> session_error + string) \<Rightarrow> u64 \<Rightarrow> u64 \<Rightarrow> lancer_session \<Rightarrow>
   (session_error, unit, lancer_session) outcome" where
  "tick_lancer_at store encode elapsed confirmed s =
    (if \<not> lancer_fighting s \<or> live_stage s = FailedStage then (Inr (), s)
     else
       let enc = the (live_lancer s) in
       case (get_actor (live_actors s) (lancer_enemy enc), get_actor (live_actors s) (lancer_player enc)) of
         (Some enemy, Some player) \<Rightarrow>
           if health enemy = 0 \<or> health player = 0 then (Inr (), s)
           else
             (case lancer_tick elapsed (position enemy) (position player) (lancer_ai enc) of
                (_, None) \<Rightarrow> (Inr (), s)
              | (proposed, Some action) \<Rightarrow>
                  attempt
                    (case action of
                       Windup origin target \<Rightarrow>
                         attempt (record_lancer store encode (lancer_player enc) (LancerWindup origin target elapsed) s)
                           (\<lambda>_ s. (Inr (origin, target, True), s))
                     | Resolved origin target d \<Rightarrow>
                         attempt (record_lancer store encode (lancer_player enc)
                             (LancerResolved origin target (position player) elapsed d (health player)
                               (sat_sub (health player) d)) s) (\<lambda>_ s.
                         let s = s\<lparr> live_actors := snd (update_position (lancer_enemy enc) target (live_actors s)) \<rparr> in
                         (Inr (target, target, False), if d > 0 then lancer_struck enc d s else s)))
                    (\<lambda>(p, target, winding) s.
                     (Inr (),
                      broadcast (ActorUpdateMessage (lancer_enemy enc) p (Some (target, winding)) None)
                        (s\<lparr> live_lancer := map_option (\<lambda>e. e\<lparr> lancer_ai :=
                             lancer_confirm_at (max confirmed elapsed) proposed \<rparr>) (live_lancer s) \<rparr>))))
       | _ \<Rightarrow> (Inr (), s))"

definition attack_lancer ::
  "event_store \<Rightarrow> u64 \<Rightarrow> u64 \<Rightarrow> u64 \<Rightarrow> lancer_session \<Rightarrow> (session_error, unit, lancer_session) outcome" where
  "attack_lancer store player target elapsed s =
    (let enc = the (live_lancer s) in
     if lancer_player enc \<noteq> player \<or> lancer_enemy enc \<noteq> target then (Inl InvalidEncounterTarget, s)
     else
       require (positioned_attack_profile player target s) s (\<lambda>profile.
       case attack player target elapsed profile (live_combat s) (live_actors s) of
         (Inl e, _, _) \<Rightarrow> (Inl (AttackRefused e), s)
       | (Inr result, combat, actors) \<Rightarrow>
           attempt
             (if killed result
              then require (owner_account s) s (\<lambda>owner.
                   append_event store EnemyDiedKind owner (Some target) ''enemy died: glass-lancer'' s)
              else (Inr (), s)) (\<lambda>_ s.
           let s = broadcast (DamageAppliedMessage player target (dealt result) (remaining_health result) (killed result))
                     (s\<lparr> live_actors := actors, live_combat := combat \<rparr>) in
           (Inr (),
            if killed result
            then broadcast (lancer_objective ''Completed'') (broadcast (ActorDestroyMessage target)
                   (s\<lparr> live_lancer := map_option (\<lambda>e. e\<lparr> lancer_active := False \<rparr>) (live_lancer s),
                      live_actors := snd (destroy target (live_actors s)), live_enemy := None \<rparr>))
            else s))))"
section \<open>Histories\<close>

text \<open>
  What reaches a session of one player: the movement of the player with the clock of the
  encounter, the ticks with the time they start and the time they are confirmed, and the attacks
  with the clock of the combat. An accepted or ignored movement is applied to the player.
\<close>

datatype lancer_call =
  LancerMove pos u64 bool
| LancerTickAt u64 u64
| LancerAttack u64 u64

fun lancer_call_step ::
  "event_store \<Rightarrow> (lancer_evidence \<Rightarrow> session_error + string) \<Rightarrow> u64 \<Rightarrow> lancer_call \<Rightarrow> lancer_session \<Rightarrow> lancer_session" where
  "lancer_call_step store encode player (LancerMove p elapsed projected) s =
     (case handle_lancer_movement store encode projected player p elapsed s of
        (Inl _, s) \<Rightarrow> s
      | (Inr _, s) \<Rightarrow> s\<lparr> live_actors := snd (update_position player p (live_actors s)) \<rparr>)"
| "lancer_call_step store encode player (LancerTickAt elapsed confirmed) s =
     snd (tick_lancer_at store encode elapsed confirmed s)"
| "lancer_call_step store encode player (LancerAttack target elapsed) s =
     (if lancer_fighting s then snd (attack_lancer store player target elapsed s) else s)"

fun lancer_call_time :: "lancer_call \<Rightarrow> u64 option" where
  "lancer_call_time (LancerMove p elapsed projected) = Some elapsed"
| "lancer_call_time (LancerTickAt elapsed confirmed) = Some elapsed"
| "lancer_call_time (LancerAttack target elapsed) = None"

text \<open>A text codec that reads back what it wrote, within the bound of the replay.\<close>

definition lancer_codec ::
  "(lancer_evidence \<Rightarrow> session_error + string) \<Rightarrow> (string \<Rightarrow> lancer_evidence option) \<Rightarrow> bool" where
  "lancer_codec encode decode \<longleftrightarrow>
     (\<forall>ev body. encode ev = Inr body \<longrightarrow> decode body = Some ev \<and> length body \<le> 1000)"

section \<open>The live encounter and its replay\<close>

definition lancer_sync :: "string \<Rightarrow> u64 \<Rightarrow> u64 \<Rightarrow> lancer_session \<Rightarrow> lancer_check \<Rightarrow> bool" where
  "lancer_sync owner player t s c \<longleftrightarrow>
     lancer_placed c \<and> \<not> lc_main_progressed c \<and>
     map_option status_str (lc_state c) = told ''glass_lancer'' (live_sent s) \<and>
     (case live_lancer s of
        None \<Rightarrow> c = initial_lancer_check
      | Some enc \<Rightarrow>
          lc_encounter c = Some (owner, Some (lancer_enemy enc)) \<and> lc_player c = Some player \<and>
          lancer_player enc = player \<and> lancer_enemy enc \<noteq> player \<and>
          (if lancer_active enc
           then lc_state c = Some StatusActive \<and> lc_last_time c \<le> t \<and>
             locked (lancer_ai enc) = locked (lancer_brain c) \<and>
             lancer_ready_at (lancer_brain c) \<le> lancer_ready_at (lancer_ai enc) \<and>
             map_option position (live_actors s (lancer_enemy enc)) = Some (lc_position c) \<and>
             (\<forall>h. lc_last_health c = Some h \<longrightarrow> map_option health (live_actors s player) = Some h)
           else lc_state c = Some StatusCompleted \<or> lc_state c = Some StatusFailed))"

interpretation lancer_log: log_check "lancer_check_event decode" "lancer_check_events decode" initial_lancer_check
  by unfold_locales simp_all

text \<open>The rows of the encounter as the check reads them.\<close>

lemma lancer_evidence_row:
  assumes "lancer_codec encode decode" and "encode ev = Inr body"
    and "row_of e = (FieldActivityKind, owner, Some player, lancer_prefix @ body)"
    and "lc_state c = Some StatusActive" and "lc_player c = Some player"
    and "lc_encounter c = Some (owner, enemy)" and "\<not> lc_main_progressed c"
    and "lancer_evidence_step ev c = Inr (c', t)" and "lc_last_time c \<le> t"
  shows "lancer_check_event decode all e c = Inr (c'\<lparr> lc_last_time := t \<rparr>)"
proof -
  have "decode body = Some ev" "length body \<le> 1000"
    using assms(1,2) by (simp_all add: lancer_codec_def)
  moreover have "length lancer_prefix = 10" by (simp add: lancer_prefix_def)
  ultimately show ?thesis
    using assms(3-9) by (cases c) (simp add: lancer_check_event_def main_progress_def Let_def)
qed

lemma lancer_spawn_row:
  assumes "row_of e = (EnemySpawnedKind, owner, Some enemy, ''enemy spawned: glass-lancer'')"
    and "sole_player all e = Some player"
  shows "lancer_check_event decode all e initial_lancer_check =
    Inr (initial_lancer_check\<lparr> lc_encounter := Some (owner, Some enemy), lc_player := Some player,
           lc_state := Some StatusActive \<rparr>)"
  using assms by (simp add: lancer_check_event_def main_progress_def initial_lancer_check_def)

lemma lancer_death_row:
  assumes "row_of e = (EnemyDiedKind, owner, Some enemy, ''enemy died: glass-lancer'')"
    and "lc_encounter c = Some (owner, Some enemy)" and "lc_state c = Some StatusActive"
    and "\<not> lc_main_progressed c"
  shows "lancer_check_event decode all e c = Inr (c\<lparr> lc_state := Some StatusCompleted \<rparr>)"
  using assms by (cases c) (simp add: lancer_check_event_def main_progress_def Let_def)

lemma record_lancer_cases:
  assumes "record_lancer store encode player ev s = (r, s')" and "solo_session owner player' s"
  obtains (refused) e where "r = Inl e" "s' = s"
  | (stored) body where "r = Inr ()" "encode ev = Inr body"
      "s' = s\<lparr> live_log := live_log s @ [(FieldActivityKind, owner, Some player, lancer_prefix @ body)] \<rparr>"
proof (cases "encode ev")
  case (Inl e)
  then show thesis using assms refused by (auto simp: record_lancer_def solo_owner encode_lancer_evidence_def)
next
  case (Inr body)
  show thesis
  proof (cases r)
    case (Inl e)
    then show thesis
      using assms Inr append_event_Inl refused
      by (simp add: record_lancer_def solo_owner encode_lancer_evidence_def) blast
  next
    case (Inr u)
    then have "append_event store FieldActivityKind owner (Some player) (lancer_prefix @ body) s = (Inr u, s')"
      using assms \<open>encode ev = Inr body\<close> by (simp add: record_lancer_def solo_owner encode_lancer_evidence_def)
    from append_event_Inr [OF this] Inr \<open>encode ev = Inr body\<close> show thesis by (intro stored) simp_all
  qed
qed
text \<open>Rows that may not share a session with the encounter, and rows the check passes over.\<close>

fun lancer_foreign :: "live_row \<Rightarrow> bool" where
  "lancer_foreign (k, account, actor, payload) \<longleftrightarrow>
     is_route_event k \<or> is_cooperation_event k \<or>
     k = FieldActivityKind \<and> \<not> starts_with payload lancer_prefix"

fun lancer_quiet :: "live_row \<Rightarrow> bool" where
  "lancer_quiet (k, account, actor, payload) \<longleftrightarrow>
     \<not> is_route_event k \<and> \<not> is_cooperation_event k \<and>
     k \<noteq> FieldActivityKind \<and> k \<noteq> BossSpawnedKind \<and> k \<noteq> ActivityCompletedKind \<and>
     payload \<noteq> ''enemy spawned: glass-lancer'' \<and> payload \<noteq> ''enemy died: glass-lancer''"

lemma lancer_quiet_row:
  "lancer_quiet (row_of e) \<Longrightarrow> lancer_check_event decode all e initial_lancer_check = Inr initial_lancer_check"
  by (auto simp: row_of_def lancer_check_event_def main_progress_def initial_lancer_check_def Let_def)

lemma lancer_quiet_rows:
  assumes "list_all lancer_quiet (map row_of es)"
  shows "lancer_check_events decode all es initial_lancer_check = Inr initial_lancer_check"
  using assms by (induction es) (simp_all add: lancer_quiet_row)

text \<open>A session of one player, followed by the check of its log; at most \<open>n\<close> more calls are to come.\<close>

definition lancer_live ::
  "(string \<Rightarrow> lancer_evidence option) \<Rightarrow> string \<Rightarrow> u64 \<Rightarrow> nat \<Rightarrow> u64 \<Rightarrow> lancer_session \<Rightarrow> bool" where
  "lancer_live decode owner player n t s \<longleftrightarrow>
     solo_session owner player s \<and> live_actors s player \<noteq> None \<and> route_sane s \<and>
     list_all (\<lambda>row. \<not> lancer_foreign row) (live_log s) \<and>
     (\<forall>enc. live_lancer s = Some enc \<longrightarrow> lancer_player enc = player \<and> lancer_enemy enc \<noteq> player) \<and>
     (live_lancer s = None \<longrightarrow> player < live_next_id s \<and> unat (live_next_id s) + n < 2 ^ 64) \<and>
     followed (lancer_check_events decode) initial_lancer_check (live_log s) (lancer_sync owner player t s)"

lemma lancer_live_mono:
  assumes "lancer_live decode owner player m t s" and "n \<le> m" and "t \<le> u"
  shows "lancer_live decode owner player n u s"
proof -
  have "lancer_sync owner player u s c" if "lancer_sync owner player t s c" for c
    using that assms(3) by (auto simp: lancer_sync_def split: option.splits)
  then show ?thesis using assms(1,2) lancer_log.followed_weaken by (fastforce simp: lancer_live_def)
qed

lemmas lancer_live_later = lancer_live_mono [OF _ le_SucI [OF order_refl]]

text \<open>Changes the check does not see: the log, the messages about the encounter and the encounter
  stay, the enemy keeps its place and the player the health.\<close>

lemma lancer_live_quiet:
  assumes "lancer_live decode owner player n t s"
    and "live_participants s' = live_participants s" and "live_log s' = live_log s"
    and "live_lancer s' = live_lancer s" and "live_next_id s' = live_next_id s" and "live_route s' = live_route s"
    and "told ''glass_lancer'' (live_sent s') = told ''glass_lancer'' (live_sent s)"
    and "\<And>i. i \<noteq> player \<Longrightarrow> map_option position (live_actors s' i) = map_option position (live_actors s i)"
    and "map_option health (live_actors s' player) = map_option health (live_actors s player)"
  shows "lancer_live decode owner player n t s'"
proof -
  have "lancer_sync owner player t s' c" if "lancer_sync owner player t s c" for c
    using that assms(4,7-9) by (cases "live_lancer s") (auto simp: lancer_sync_def simp del: map_option_eq_Some)
  then have "followed (lancer_check_events decode) initial_lancer_check (live_log s) (lancer_sync owner player t s')"
    using assms(1) lancer_log.followed_weaken by (fastforce simp: lancer_live_def)
  moreover have "live_actors s' player \<noteq> None"
    using assms(1,9) by (cases "live_actors s' player") (auto simp: lancer_live_def)
  ultimately show ?thesis using assms by (simp add: lancer_live_def solo_session_def route_sane_def)
qed

lemma actor_after_move:
  "snd (update_position i p reg) j = (if j = i then map_option (\<lambda>a. a\<lparr> position := p \<rparr>) (reg j) else reg j)"
  by (auto simp: update_position_def Let_def split: option.splits)

lemma actor_after_damage:
  "snd (apply_damage i d reg) j = (if j = i then map_option (\<lambda>a. a\<lparr> health := sat_sub (health a) d \<rparr>) (reg j) else reg j)"
  by (auto simp: apply_damage_def Let_def split: option.splits)

lemma actor_after_destroy: "snd (destroy i reg) j = (if j = i then None else reg j)"
  by (simp add: destroy_def)

lemmas actor_changes = actor_after_move actor_after_damage actor_after_destroy

lemma lancer_moved:
  assumes "lancer_live decode owner player n t s"
  shows "lancer_live decode owner player n t (s\<lparr> live_actors := snd (update_position player p (live_actors s)) \<rparr>)"
  using assms by (rule lancer_live_quiet) (simp_all add: actor_changes option.map_comp o_def)

text \<open>A stored row: the log grows by it and the check follows.\<close>

lemma lancer_live_row:
  assumes live: "lancer_live decode owner player n t s"
    and same: "live_participants s' = live_participants s" "live_log s' = live_log s @ [row]"
      "live_actors s' player \<noteq> None" "route_sane s'" "live_lancer s' = Some enc"
      "lancer_player enc = player" "lancer_enemy enc \<noteq> player"
    and row: "fst row \<noteq> PlayerJoinedKind" "\<not> lancer_foreign row"
    and step: "\<And>all e c. lancer_sync owner player t s c \<Longrightarrow> row_of e = row \<Longrightarrow>
      (event_account e = owner \<Longrightarrow> sole_player all e = Some player) \<Longrightarrow>
      \<exists>c'. lancer_check_event decode all e c = Inr c' \<and> lancer_sync owner player u s' c'"
  shows "lancer_live decode owner player n u s'"
proof -
  obtain payload where "filter join_row (live_log s) = [(PlayerJoinedKind, owner, Some player, payload)]"
    using live by (auto simp: lancer_live_def solo_session_def)
  with live step row have "followed (lancer_check_events decode) initial_lancer_check (live_log s @ [row])
      (lancer_sync owner player u s')"
    by (intro lancer_log.followed_row [of decode "live_log s" "lancer_sync owner player t s" row owner "Some player" payload])
      (auto simp: lancer_live_def)
  then show ?thesis using live same row by (auto simp: lancer_live_def solo_session_def join_row_def)
qed
section \<open>Every call keeps the log in step\<close>

lemma lancer_sync_active:
  assumes "lancer_sync owner player t s c" and "live_lancer s = Some enc" and "lancer_active enc"
  shows "lancer_placed c" "\<not> lc_main_progressed c" "lc_encounter c = Some (owner, Some (lancer_enemy enc))"
    "lc_player c = Some player" "lancer_player enc = player" "lancer_enemy enc \<noteq> player"
    "lc_state c = Some StatusActive" "lc_last_time c \<le> t"
    "locked (lancer_ai enc) = locked (lancer_brain c)"
    "lancer_ready_at (lancer_brain c) \<le> lancer_ready_at (lancer_ai enc)"
    "map_option position (live_actors s (lancer_enemy enc)) = Some (lc_position c)"
    "\<forall>h. lc_last_health c = Some h \<longrightarrow> map_option health (live_actors s player) = Some h"
    "told ''glass_lancer'' (live_sent s) = Some ''Active''"
  using assms by (auto simp: lancer_sync_def simp del: map_option_eq_Some)

lemma lancer_abandoned:
  assumes live: "lancer_live decode owner player (Suc n) t s" and later: "t \<le> u"
    and codec: "lancer_codec encode decode"
    and enc: "live_lancer s = Some enc" "lancer_active enc" "lancer_player enc = player" "lancer_enemy enc \<noteq> player"
    and st: "attempt (record_lancer store encode player (LancerAbandoned u) s) (\<lambda>_ s.
         (Inr False,
          broadcast (lancer_objective ''Failed'') (broadcast (ActorDestroyMessage (lancer_enemy enc))
            (s\<lparr> live_lancer := Some (enc\<lparr> lancer_active := False \<rparr>),
               live_actors := snd (destroy (lancer_enemy enc) (live_actors s)), live_enemy := None \<rparr>)))) = (r, s')"
  shows "lancer_live decode owner player n u s'"
proof -
  have solo: "solo_session owner player s" using live by (simp add: lancer_live_def)
  obtain r1 s1 where rec: "record_lancer store encode player (LancerAbandoned u) s = (r1, s1)" by fastforce
  from rec solo show ?thesis
  proof (cases rule: record_lancer_cases)
    case (refused e)
    then show ?thesis using st rec lancer_live_later [OF live later] by simp
  next
    case (stored body)
    then have s': "s' = broadcast (lancer_objective ''Failed'') (broadcast (ActorDestroyMessage (lancer_enemy enc))
            (s1\<lparr> live_lancer := Some (enc\<lparr> lancer_active := False \<rparr>),
               live_actors := snd (destroy (lancer_enemy enc) (live_actors s1)), live_enemy := None \<rparr>))"
      using st rec by simp
    show ?thesis
    proof (rule lancer_live_row [OF lancer_live_later [OF live later], where enc = "enc\<lparr> lancer_active := False \<rparr>"])
      fix all e c
      assume sync: "lancer_sync owner player u s c"
        and row: "row_of e = (FieldActivityKind, owner, Some player, lancer_prefix @ body)"
      note a = lancer_sync_active [OF sync enc(1,2)]
      have "lancer_evidence_step (LancerAbandoned u) c = Inr (c\<lparr> lc_state := Some StatusFailed \<rparr>, u)"
        by (simp add: lancer_evidence_step_def)
      from lancer_evidence_row [OF codec stored(2) row a(7,4,3,2) this a(8)]
      show "\<exists>c'. lancer_check_event decode all e c = Inr c' \<and> lancer_sync owner player u s' c'"
        using a enc lancer_brain_same(2) [of "c\<lparr> lc_state := Some StatusFailed, lc_last_time := u \<rparr>" c]
        by (simp add: s' stored(3) lancer_sync_def broadcast_def lancer_objective_def)
    qed (use live enc in \<open>auto simp: s' stored(3) broadcast_def lancer_live_def actor_changes route_sane_def\<close>)
  qed
qed

lemma lancer_started:
  assumes live: "lancer_live decode owner player (Suc n) t s" and idle: "\<not> lancer_fighting s"
    and st: "handle_lancer_movement store encode projected player p u s = (r, s')"
  shows "lancer_live decode owner player n t s'"
proof (cases "s' = s")
  case True
  then show ?thesis using lancer_live_later [OF live order_refl] by simp
next
  case False
  have solo: "solo_session owner player s" and sane: "route_sane s" and here: "live_actors s player \<noteq> None"
    using live by (simp_all add: lancer_live_def)
  have new: "live_lancer s = None" and choice: "route_choice_open s" and there: "p = lancer_entrance"
    using st idle False by (auto simp: handle_lancer_movement_def Let_def split: if_splits)
  have room: "player < live_next_id s" "unat (live_next_id s) + Suc n < 2 ^ 64" using live new by (auto simp: lancer_live_def)
  then have next_id: "unat (live_next_id s + 1) = unat (live_next_id s) + 1"
    by (intro unat_succ) (auto simp: unat_minus_one_word_pow)
  have available: "live_stage s = DoorStage" "expected_players s = 1" "length (live_participants s) = 1"
      "encounter_capable (hd (live_participants s))"
    using st idle False new there by (auto simp: handle_lancer_movement_def Let_def split: if_splits)
  define i where "i = live_next_id s"
  define enemy where "enemy = \<lparr> actor_id = i, kind = Enemy, archetype = ''glass-lancer'', position = lancer_spawn,
      health = lancer_health, max_health = lancer_health \<rparr>"
  define s1 where "s1 = s\<lparr> live_next_id := i + 1 \<rparr>"
  obtain r2 s2 where app: "append_event store EnemySpawnedKind owner (Some i) ''enemy spawned: glass-lancer'' s1 = (r2, s2)"
    by fastforce
  have owner: "owner_account s1 = Inr owner" using solo by (auto simp: s1_def solo_session_def owner_account_def)
  have spawned: "spawn Enemy ''glass-lancer'' lancer_spawn lancer_health (live_next_id s) (live_actors s) =
      (enemy, i + 1, (live_actors s)(i \<mapsto> enemy))"
    by (simp add: spawn_def allocate_actor_id_def insert_actor_def enemy_def i_def Let_def)
  define ready where "ready z = broadcast (lancer_objective ''Active'') (broadcast (ActorSpawnMessage enemy)
      (z\<lparr> live_actors := (live_actors s)(i \<mapsto> enemy),
         live_lancer := Some \<lparr> lancer_enemy = i, lancer_player = player, lancer_active = True, lancer_ai = new_lancer \<rparr>,
         live_enemy := Some i, live_enemy_ai := None, live_combat := new_combat \<rparr>))" for z :: lancer_session
  have run: "attempt (append_event store EnemySpawnedKind owner (Some i) ''enemy spawned: glass-lancer'' s1) (\<lambda>_ s2.
       attempt (lock_session_route s2) (\<lambda>_ s3.
       attempt (broadcast_route_state projected ''Glass Lancer selected; standard mission rewards'' (ready s3))
         (\<lambda>_ s. (Inr True, s)))) = (r, s')"
    using st idle spawned new available choice there owner
    by (simp add: handle_lancer_movement_def Let_def ready_def s1_def i_def enemy_def broadcast_def)
  show ?thesis
  proof (cases r2)
    case (Inl e)
    then have "s' = s1" using run app append_event_Inl [of store EnemySpawnedKind owner "Some i" _ s1] by simp
    moreover have "lancer_live decode owner player n t s1"
    proof -
      have "lancer_sync owner player t s1 = lancer_sync owner player t s"
        using new by (intro ext) (simp add: s1_def lancer_sync_def)
      moreover have "player < i + 1" "unat (i + 1) + n < 2 ^ 64"
        using room next_id by (simp_all add: i_def word_less_nat_alt)
      ultimately show ?thesis
        using live unfolding lancer_live_def by (simp add: s1_def solo_session_def route_sane_def)
    qed
    ultimately show ?thesis by simp
  next
    case (Inr x)
    have s2: "s2 = s1\<lparr> live_log := live_log s @ [(EnemySpawnedKind, owner, Some i, ''enemy spawned: glass-lancer'')] \<rparr>"
      using append_event_Inr [OF app [unfolded Inr]] by (simp add: s1_def)
    have "route_sane s2" "route_choice_open s2" using sane choice by (simp_all add: s2 s1_def route_sane_def route_choice_open_def)
    from lock_session_route_open [OF this] obtain route where lock: "lock_session_route s2 = (Inr (), s2\<lparr> live_route := Some route \<rparr>)"
        and route: "routes_ok (route_operation route)" by blast
    then have "s' = ready (s2\<lparr> live_route := Some route \<rparr>) \<or>
        s' = (let u = ready (s2\<lparr> live_route := Some route \<rparr>) in u\<lparr> live_sent := live_sent u @
          [RouteStateMessage (map part_actor (filter route_capable (live_participants u)))
             ''Glass Lancer selected; standard mission rewards''] \<rparr>)"
      using run app Inr by (auto simp: broadcast_route_state_def split: if_splits)
    moreover have "lancer_live decode owner player n t (ready (s2\<lparr> live_route := Some route \<rparr>))"
    proof (rule lancer_live_row [OF lancer_live_later [OF live order_refl]])
      fix all e c
      assume sync: "lancer_sync owner player t s c"
        and row: "row_of e = (EnemySpawnedKind, owner, Some i, ''enemy spawned: glass-lancer'')"
        and sole: "event_account e = owner \<Longrightarrow> sole_player all e = Some player"
      have c: "c = initial_lancer_check" using sync new by (simp add: lancer_sync_def)
      have "sole_player all e = Some player" using sole row by simp
      note spawn_row = lancer_spawn_row [OF row this]
      let ?c' = "initial_lancer_check\<lparr> lc_encounter := Some (owner, Some i), lc_player := Some player,
          lc_state := Some StatusActive \<rparr>"
      have "lancer_placed ?c'" "lancer_brain ?c' = new_lancer"
        using initial_lancer_known initial_lancer_brain lancer_brain_same [of ?c' initial_lancer_check]
        by (simp_all add: lancer_known_def)
      then have "lancer_sync owner player t (ready (s2\<lparr> live_route := Some route \<rparr>)) ?c'"
        using room by (simp add: ready_def lancer_sync_def broadcast_def lancer_objective_def enemy_def i_def)
          (simp add: initial_lancer_check_def)
      then show "\<exists>c'. lancer_check_event decode all e c = Inr c' \<and>
          lancer_sync owner player t (ready (s2\<lparr> live_route := Some route \<rparr>)) c'"
        using spawn_row c by blast
    qed (use live here room i_def route in \<open>auto simp: ready_def s2 s1_def broadcast_def route_sane_def\<close>)
    ultimately show ?thesis
      using lancer_live_quiet [of decode owner player n t "ready (s2\<lparr> live_route := Some route \<rparr>)" s']
      by (auto simp: broadcast_def Let_def)
  qed
qed
text \<open>The brain of the encounter answers like the brain the check follows.\<close>

lemma lancer_windup_followed:
  assumes a: "lancer_tick u origin player (lancer_ai enc) = (proposed, Some (Windup from target))"
    and agree: "locked (lancer_ai enc) = locked (lancer_brain c)"
      "lancer_ready_at (lancer_brain c) \<le> lancer_ready_at (lancer_ai enc)"
    and placed: "lancer_placed c" "origin = lc_position c"
  shows "from = origin \<and> lancer_evidence_step (LancerWindup from target u) c =
      Inr (c\<lparr> lc_locked := Some (from, target, u) \<rparr>, u) \<and>
    locked proposed = Some (from, target) \<and> lancer_ready_at proposed = sat_add u lancer_windup_ms \<and>
    lancer_placed (c\<lparr> lc_locked := Some (from, target, u) \<rparr>)"
proof -
  have t: "lancer_ready_at (lancer_ai enc) \<le> u" "lancer_arena origin" "lancer_arena player" "locked (lancer_ai enc) = None"
      "from = origin" "target = charge_target origin player" "locked proposed = Some (from, target)"
      "lancer_ready_at proposed = sat_add u lancer_windup_ms"
    using a by (auto simp: lancer_tick_def not_less Let_def split: if_splits option.splits)
  have free: "lc_locked c = None" using t(4) agree(1) by (auto simp: lancer_brain_def split: option.splits)
  then have "lc_next_windup c \<le> u" using t(1) agree(2) by (simp add: lancer_brain_def)
  moreover have "charge_lane (origin, target)" using charge_target_lane [OF t(2,3)] t(6) by simp
  ultimately show ?thesis using t free placed
    by (auto simp: lancer_evidence_step_def charge_lane_def lancer_placed_def)
qed

lemma lancer_resolved_followed:
  assumes a: "lancer_tick u origin p (lancer_ai enc) = (proposed, Some (Resolved from target d))"
    and agree: "locked (lancer_ai enc) = locked (lancer_brain c)"
      "lancer_ready_at (lancer_brain c) \<le> lancer_ready_at (lancer_ai enc)"
    and placed: "lancer_placed c" "origin = lc_position c"
    and health: "hp \<noteq> 0" "\<forall>h. lc_last_health c = Some h \<longrightarrow> h = hp"
  shows "from = origin \<and> lancer_evidence_step (LancerResolved from target p u d hp (sat_sub hp d)) c =
      Inr (c\<lparr> lc_locked := None, lc_position := target, lc_last_health := Some (sat_sub hp d),
              lc_state := (if sat_sub hp d = 0 then Some StatusFailed else lc_state c),
              lc_next_windup := sat_add u lancer_recovery_ms \<rparr>, u) \<and>
    locked proposed = None \<and> lancer_ready_at proposed = sat_add u lancer_recovery_ms \<and>
    lancer_arena target"
proof -
  have t: "lancer_ready_at (lancer_ai enc) \<le> u" "lancer_arena p" "locked (lancer_ai enc) = Some (from, target)"
      "d = (if charge_hits from target p then lancer_damage else 0)" "locked proposed = None"
      "lancer_ready_at proposed = sat_add u lancer_recovery_ms"
    using a by (auto simp: lancer_tick_def not_less Let_def split: if_splits option.splits)
  obtain started where start: "lc_locked c = Some (from, target, started)"
    using t(3) agree(1) by (auto simp: lancer_brain_def split: option.splits)
  then have "sat_add started lancer_windup_ms \<le> u" using t(1) agree(2) by (simp add: lancer_brain_def)
  moreover have "from = lc_position c" "lancer_arena target"
    using start placed(1) unfolding lancer_placed_def by blast+
  ultimately show ?thesis using t start placed(2) health
    by (cases "lc_last_health c") (simp_all add: lancer_evidence_step_def not_less)
qed

lemma lancer_confirmed:
  "locked (lancer_confirm_at u b) = locked b" "lancer_ready_at b \<le> lancer_ready_at (lancer_confirm_at u b)"
  by (simp_all add: lancer_confirm_at_def Let_def)
lemma lancer_struck_changes:
  assumes "live_actors s (lancer_player enc) = Some p" and "live_lancer s = Some enc" and "lancer_active enc"
  shows "live_participants (lancer_struck enc d s) = live_participants s"
    "live_log (lancer_struck enc d s) = live_log s"
    "live_actors (lancer_struck enc d s) = snd (apply_damage (lancer_player enc) d (live_actors s))"
    "live_lancer (lancer_struck enc d s) = Some (enc\<lparr> lancer_active := sat_sub (health p) d \<noteq> 0 \<rparr>)"
    "told ''glass_lancer'' (live_sent (lancer_struck enc d s)) =
      (if sat_sub (health p) d = 0 then Some ''Failed'' else told ''glass_lancer'' (live_sent s))"
    "route_sane s \<Longrightarrow> route_sane (lancer_struck enc d s)"
proof -
  obtain reg where hit: "apply_damage (lancer_player enc) d (live_actors s) = (Some (p\<lparr> health := sat_sub (health p) d \<rparr>), reg)"
    using assms(1) by (simp add: apply_damage_def Let_def)
  have same: "enc\<lparr> lancer_active := True \<rparr> = enc" using assms(3) by simp
  note defs = lancer_struck_def hit hostile_attacked_def broadcast_def lancer_objective_def Let_def
  show "live_participants (lancer_struck enc d s) = live_participants s"
    "live_log (lancer_struck enc d s) = live_log s"
    "live_actors (lancer_struck enc d s) = snd (apply_damage (lancer_player enc) d (live_actors s))"
    "told ''glass_lancer'' (live_sent (lancer_struck enc d s)) =
      (if sat_sub (health p) d = 0 then Some ''Failed'' else told ''glass_lancer'' (live_sent s))"
    by (simp_all add: defs split: option.split)
  show "live_lancer (lancer_struck enc d s) = Some (enc\<lparr> lancer_active := sat_sub (health p) d \<noteq> 0 \<rparr>)"
    using assms(2,3) same by (simp add: defs split: option.split)
  show "route_sane s \<Longrightarrow> route_sane (lancer_struck enc d s)"
    by (auto simp: defs route_sane_def split: option.split)
qed

lemma lancer_ticked:
  assumes live: "lancer_live decode owner player (Suc n) t s" and later: "t \<le> u"
    and codec: "lancer_codec encode decode" and st: "tick_lancer_at store encode u confirmed s = (r, s')"
  shows "lancer_live decode owner player n u s'"
proof (cases "s' = s")
  case True
  then show ?thesis using lancer_live_later [OF live later] by simp
next
  case False
  have now: "lancer_live decode owner player n u s" by (rule lancer_live_later [OF live later])
  have solo: "solo_session owner player s" using live by (simp add: lancer_live_def)
  obtain enc where enc: "live_lancer s = Some enc" "lancer_active enc"
    using st False by (auto simp: tick_lancer_at_def lancer_fighting_def split: option.splits if_splits)
  obtain enemy where e: "live_actors s (lancer_enemy enc) = Some enemy"
    using st False enc by (auto simp: tick_lancer_at_def lancer_fighting_def get_actor_def Let_def split: option.splits if_splits)
  obtain p where p: "live_actors s (lancer_player enc) = Some p"
    using st False enc by (auto simp: tick_lancer_at_def lancer_fighting_def get_actor_def Let_def split: option.splits if_splits)
  obtain proposed action where act: "lancer_tick u (position enemy) (position p) (lancer_ai enc) = (proposed, Some action)"
      and alive: "health enemy \<noteq> 0" "health p \<noteq> 0" "live_stage s \<noteq> FailedStage"
    using st False enc e p by (auto simp: tick_lancer_at_def lancer_fighting_def get_actor_def Let_def
        split: option.splits if_splits prod.splits)
  let ?finish = "\<lambda>(q, target, winding) z. (Inr () :: session_error + unit,
      broadcast (ActorUpdateMessage (lancer_enemy enc) q (Some (target, winding)) None)
        (z\<lparr> live_lancer := map_option (\<lambda>e. e\<lparr> lancer_ai :=
             lancer_confirm_at (max confirmed u) proposed \<rparr>) (live_lancer z) \<rparr>))"
  show ?thesis
  proof (cases action)
    case (Windup origin target)
    have run: "attempt (attempt (record_lancer store encode (lancer_player enc) (LancerWindup origin target u) s)
        (\<lambda>_ s. (Inr (origin, target, True), s))) ?finish = (r, s')"
      using st enc e p act alive Windup by (simp add: tick_lancer_at_def lancer_fighting_def get_actor_def Let_def)
    obtain r1 s1 where rec: "record_lancer store encode (lancer_player enc) (LancerWindup origin target u) s = (r1, s1)"
      by fastforce
    from rec solo show ?thesis
    proof (cases rule: record_lancer_cases)
      case (refused x)
      then show ?thesis using run rec now by simp
    next
      case (stored body)
      have s': "s' = broadcast (ActorUpdateMessage (lancer_enemy enc) origin (Some (target, True)) None)
          (s1\<lparr> live_lancer := Some (enc\<lparr> lancer_ai := lancer_confirm_at (max confirmed u) proposed \<rparr>) \<rparr>)"
        using run rec stored enc by simp
      show ?thesis
      proof (rule lancer_live_row [OF now])
        fix all ev c
        assume sync: "lancer_sync owner player u s c"
          and row: "row_of ev = (FieldActivityKind, owner, Some (lancer_player enc), lancer_prefix @ body)"
        note a = lancer_sync_active [OF sync enc]
        have "position enemy = lc_position c" using a(11) e by simp
        note w = lancer_windup_followed [OF act [unfolded Windup] a(9,10,1) this]
        have player: "lc_player c = Some (lancer_player enc)" using a(4,5) by simp
        have "lancer_evidence_step (LancerWindup origin target u) c = Inr (c\<lparr> lc_locked := Some (origin, target, u) \<rparr>, u)"
          using w by blast
        from lancer_evidence_row [OF codec stored(2) row a(7) player a(3,2) this a(8)]
        have "lancer_check_event decode all ev c = Inr (c\<lparr> lc_locked := Some (origin, target, u), lc_last_time := u \<rparr>)"
          by simp
        moreover have w': "origin = position enemy" "locked proposed = Some (origin, target)"
            "lancer_ready_at proposed = sat_add u lancer_windup_ms" "lancer_placed (c\<lparr> lc_locked := Some (origin, target, u) \<rparr>)"
          using w by blast+
        have "lancer_sync owner player u s' (c\<lparr> lc_locked := Some (origin, target, u), lc_last_time := u \<rparr>)"
          using a w'(2-4) enc stored(3) lancer_confirmed [where u = "max confirmed u" and b = proposed]
            lancer_brain_same(2) [of "c\<lparr> lc_locked := Some (origin, target, u), lc_last_time := u \<rparr>" "c\<lparr> lc_locked := Some (origin, target, u) \<rparr>"]
          by (simp add: s' lancer_sync_def broadcast_def lancer_brain_def)
        ultimately show "\<exists>c'. lancer_check_event decode all ev c = Inr c' \<and> lancer_sync owner player u s' c'" by blast
      qed (use live enc stored(3) in \<open>auto simp: s' broadcast_def lancer_live_def route_sane_def\<close>)
    qed
  next
    case (Resolved origin target d)
    let ?moved = "\<lambda>z. z\<lparr> live_actors := snd (update_position (lancer_enemy enc) target (live_actors z)) \<rparr>"
    have run: "attempt (attempt (record_lancer store encode (lancer_player enc)
          (LancerResolved origin target (position p) u d (health p) (sat_sub (health p) d)) s)
        (\<lambda>_ z. (Inr (target, target, False), if d > 0 then lancer_struck enc d (?moved z) else ?moved z))) ?finish = (r, s')"
      using st enc e p act alive Resolved by (simp add: tick_lancer_at_def lancer_fighting_def get_actor_def Let_def)
    obtain r1 s1 where rec: "record_lancer store encode (lancer_player enc)
        (LancerResolved origin target (position p) u d (health p) (sat_sub (health p) d)) s = (r1, s1)" by fastforce
    from rec solo show ?thesis
    proof (cases rule: record_lancer_cases)
      case (refused x)
      then show ?thesis using run rec now by simp
    next
      case (stored body)
      have same: "lancer_player enc = player" "lancer_enemy enc \<noteq> player"
        using live enc by (simp_all add: lancer_live_def)
      define s2 where "s2 = (if d > 0 then lancer_struck enc d (?moved s1) else ?moved s1)"
      have s2: "live_participants s2 = live_participants s" "live_log s2 = live_log s1"
          "live_lancer s2 = Some (enc\<lparr> lancer_active := sat_sub (health p) d \<noteq> 0 \<rparr>)"
          "told ''glass_lancer'' (live_sent s2) =
            (if sat_sub (health p) d = 0 then Some ''Failed'' else told ''glass_lancer'' (live_sent s))"
          "route_sane s2" "live_actors s2 (lancer_enemy enc) = Some (enemy\<lparr> position := target \<rparr>)"
          "live_actors s2 player = Some (p\<lparr> health := sat_sub (health p) d \<rparr>)"
      proof -
        have z: "live_actors (?moved s1) (lancer_player enc) = Some p" "live_lancer (?moved s1) = Some enc"
          using stored(3) enc p same by (simp_all add: actor_changes)
        have none: "d = 0 \<Longrightarrow> sat_sub (health p) d = health p" by (simp add: sat_sub_def)
        have sane: "route_sane (?moved s1)" using live stored(3) by (simp add: lancer_live_def route_sane_def)
        note struck = lancer_struck_changes [OF z enc(2), of d]
        have all: "live_participants s2 = live_participants s \<and> live_log s2 = live_log s1 \<and>
            live_lancer s2 = Some (enc\<lparr> lancer_active := sat_sub (health p) d \<noteq> 0 \<rparr>) \<and>
            told ''glass_lancer'' (live_sent s2) =
              (if sat_sub (health p) d = 0 then Some ''Failed'' else told ''glass_lancer'' (live_sent s)) \<and>
            route_sane s2 \<and> live_actors s2 (lancer_enemy enc) = Some (enemy\<lparr> position := target \<rparr>) \<and>
            live_actors s2 player = Some (p\<lparr> health := sat_sub (health p) d \<rparr>)"
        proof (cases "d > 0")
          case True
          then have "s2 = lancer_struck enc d (?moved s1)" by (simp add: s2_def)
          then show ?thesis using struck sane stored(3) e p same by (simp add: actor_changes)
        next
          case False
          then have "s2 = ?moved s1" "d = 0" by (simp_all add: s2_def word_gt_0)
          then show ?thesis using sane stored(3) e p same z(2) alive(2) enc(2) none by (simp add: actor_changes)
        qed
        then show "live_participants s2 = live_participants s" "live_log s2 = live_log s1"
            "live_lancer s2 = Some (enc\<lparr> lancer_active := sat_sub (health p) d \<noteq> 0 \<rparr>)"
            "told ''glass_lancer'' (live_sent s2) =
              (if sat_sub (health p) d = 0 then Some ''Failed'' else told ''glass_lancer'' (live_sent s))"
            "route_sane s2" "live_actors s2 (lancer_enemy enc) = Some (enemy\<lparr> position := target \<rparr>)"
            "live_actors s2 player = Some (p\<lparr> health := sat_sub (health p) d \<rparr>)"
          by blast+
      qed
      have s': "s' = broadcast (ActorUpdateMessage (lancer_enemy enc) target (Some (target, False)) None)
          (s2\<lparr> live_lancer := map_option (\<lambda>e. e\<lparr> lancer_ai := lancer_confirm_at (max confirmed u) proposed \<rparr>) (live_lancer s2) \<rparr>)"
        using run rec stored(1) by (simp add: s2_def)
      show ?thesis
      proof (rule lancer_live_row [OF now, where enc = "enc\<lparr> lancer_active := sat_sub (health p) d \<noteq> 0,
            lancer_ai := lancer_confirm_at (max confirmed u) proposed \<rparr>"])
        fix all ev c
        assume sync: "lancer_sync owner player u s c"
          and row: "row_of ev = (FieldActivityKind, owner, Some (lancer_player enc), lancer_prefix @ body)"
        note a = lancer_sync_active [OF sync enc]
        have at: "position enemy = lc_position c" using a(11) e by simp
        have hp: "\<forall>h. lc_last_health c = Some h \<longrightarrow> h = health p" using a(5,12) p by auto
        note w = lancer_resolved_followed [OF act [unfolded Resolved] a(9,10,1) at alive(2) hp]
        have player: "lc_player c = Some (lancer_player enc)" using a(4,5) by simp
        let ?c1 = "c\<lparr> lc_locked := None, lc_position := target, lc_last_health := Some (sat_sub (health p) d),
              lc_state := (if sat_sub (health p) d = 0 then Some StatusFailed else lc_state c),
              lc_next_windup := sat_add u lancer_recovery_ms \<rparr>"
        have "lancer_evidence_step (LancerResolved origin target (position p) u d (health p) (sat_sub (health p) d)) c = Inr (?c1, u)"
          using w by blast
        from lancer_evidence_row [OF codec stored(2) row a(7) player a(3,2) this a(8)]
        have "lancer_check_event decode all ev c = Inr (?c1\<lparr> lc_last_time := u \<rparr>)" .
        moreover have "lancer_sync owner player u s' (?c1\<lparr> lc_last_time := u \<rparr>)"
        proof -
          have w': "locked proposed = None" "lancer_ready_at proposed = sat_add u lancer_recovery_ms" "lancer_arena target"
            using w by blast+
          have brain: "lancer_brain (?c1\<lparr> lc_last_time := u \<rparr>) = \<lparr> lancer_ready_at = sat_add u lancer_recovery_ms, locked = None \<rparr>"
              "lancer_placed (?c1\<lparr> lc_last_time := u \<rparr>)"
            using w'(3) by (simp_all add: lancer_brain_def lancer_placed_def)
          show ?thesis
            using a(2-8,13) brain w'(1,2) enc s2 lancer_confirmed [where u = "max confirmed u" and b = proposed] e p same
            by (auto simp: s' lancer_sync_def broadcast_def actor_changes)
        qed
        ultimately show "\<exists>c'. lancer_check_event decode all ev c = Inr c' \<and> lancer_sync owner player u s' c'" by blast
      qed (use s2 stored(3) same in \<open>auto simp: s' broadcast_def route_sane_def\<close>)
    qed
  qed
qed
lemma lancer_attacked:
  assumes live: "lancer_live decode owner player (Suc n) t s" and fighting: "lancer_fighting s"
    and st: "attack_lancer store player target now s = (r, s')"
  shows "lancer_live decode owner player n t s'"
proof (cases "s' = s")
  case True
  then show ?thesis using lancer_live_later [OF live order_refl] by simp
next
  case False
  have later: "lancer_live decode owner player n t s" by (rule lancer_live_later [OF live order_refl])
  have solo: "solo_session owner player s" using live by (simp add: lancer_live_def)
  obtain enc where enc: "live_lancer s = Some enc" "lancer_active enc"
    using fighting by (auto simp: lancer_fighting_def split: option.splits)
  have same: "lancer_player enc = player" "lancer_enemy enc \<noteq> player"
    using live enc by (simp_all add: lancer_live_def)
  have target: "target = lancer_enemy enc"
    using st False enc same by (auto simp: attack_lancer_def Let_def split: if_splits)
  obtain profile where profile: "positioned_attack_profile player target s = Inr profile"
    using st False enc target same by (cases "positioned_attack_profile player target s") (auto simp: attack_lancer_def Let_def)
  obtain res combat actors where hit:
      "attack player target now profile (live_combat s) (live_actors s) = (Inr res, combat, actors)"
    using st False enc target same profile
    by (cases "attack player target now profile (live_combat s) (live_actors s)"; cases "fst (attack player target now profile (live_combat s) (live_actors s))")
      (auto simp: attack_lancer_def Let_def)
  have actors: "actors = snd (apply_damage target (damage profile) (live_actors s))" using attack_Inr [OF hit] by simp
  define after where "after z = broadcast (DamageAppliedMessage player target (dealt res) (remaining_health res) (killed res))
      (z\<lparr> live_actors := actors, live_combat := combat \<rparr>)" for z :: lancer_session
  define dead where "dead z = broadcast (lancer_objective ''Completed'') (broadcast (ActorDestroyMessage target)
      (z\<lparr> live_lancer := map_option (\<lambda>e. e\<lparr> lancer_active := False \<rparr>) (live_lancer z),
         live_actors := snd (destroy target (live_actors z)), live_enemy := None \<rparr>))" for z :: lancer_session
  show ?thesis
  proof (cases "killed res")
    case False
    then have s': "s' = after s"
      using st enc target same profile hit by (simp add: attack_lancer_def Let_def after_def)
    show ?thesis
      by (rule lancer_live_quiet [OF later])
        (use target same in \<open>auto simp: s' after_def broadcast_def actors actor_changes option.map_comp o_def\<close>)
  next
    case True
    obtain r1 s1 where app: "append_event store EnemyDiedKind owner (Some target) ''enemy died: glass-lancer'' s = (r1, s1)"
      by fastforce
    show ?thesis
    proof (cases r1)
      case (Inl e)
      then have "s' = s"
        using st enc target same profile hit True app append_event_Inl [OF app [unfolded Inl]] solo_owner [OF solo]
        by (simp add: attack_lancer_def Let_def)
      with False show ?thesis by simp
    next
      case (Inr x)
      note s1 = append_event_Inr [OF app [unfolded Inr]]
      have s': "s' = dead (after s1)"
        using st enc target same profile hit True app Inr solo_owner [OF solo]
        by (simp add: attack_lancer_def Let_def after_def dead_def)
      show ?thesis
      proof (rule lancer_live_row [OF later, where enc = "enc\<lparr> lancer_active := False \<rparr>"])
        fix all e c
        assume sync: "lancer_sync owner player t s c"
          and row: "row_of e = (EnemyDiedKind, owner, Some target, ''enemy died: glass-lancer'')"
        note a = lancer_sync_active [OF sync enc]
        have "lc_encounter c = Some (owner, Some target)" using a(3) target by simp
        from lancer_death_row [OF row this a(7,2)]
        show "\<exists>c'. lancer_check_event decode all e c = Inr c' \<and> lancer_sync owner player t s' c'"
          using a enc lancer_brain_same(2) [of "c\<lparr> lc_state := Some StatusCompleted \<rparr>" c]
          by (simp add: s' s1 dead_def after_def lancer_sync_def broadcast_def lancer_objective_def)
      qed (use live enc same target in \<open>auto simp: s' s1 dead_def after_def broadcast_def lancer_live_def
          actors actor_changes route_sane_def\<close>)
    qed
  qed
qed

lemma lancer_call_kept:
  assumes live: "lancer_live decode owner player (Suc n) t s" and codec: "lancer_codec encode decode"
    and later: "\<And>u. lancer_call_time call = Some u \<Longrightarrow> t \<le> u"
  shows "lancer_live decode owner player n (case lancer_call_time call of None \<Rightarrow> t | Some u \<Rightarrow> u)
    (lancer_call_step store encode player call s)"
proof (cases call)
  case (LancerTickAt u confirmed)
  then show ?thesis using lancer_ticked [OF live _ codec surjective_pairing] later by simp
next
  case (LancerAttack target now)
  then show ?thesis
    using lancer_attacked [OF live _ surjective_pairing] lancer_live_later [OF live order_refl] by simp
next
  case (LancerMove p u projected)
  then have tu: "t \<le> u" using later by simp
  obtain r s' where st: "handle_lancer_movement store encode projected player p u s = (r, s')" by fastforce
  have "lancer_live decode owner player n u s'"
  proof (cases "lancer_fighting s")
    case False
    from lancer_started [OF live this st] show ?thesis using tu by (rule lancer_live_mono [OF _ order_refl])
  next
    case True
    then obtain enc where enc: "live_lancer s = Some enc" "lancer_active enc"
      by (auto simp: lancer_fighting_def split: option.splits)
    have same: "lancer_player enc = player" "lancer_enemy enc \<noteq> player"
      using live enc by (simp_all add: lancer_live_def)
    show ?thesis
    proof (cases "lancer_arena p")
      case True
      then show ?thesis
        using st \<open>lancer_fighting s\<close> lancer_live_later [OF live tu] by (simp add: handle_lancer_movement_def)
    next
      case False
      then show ?thesis
        using st \<open>lancer_fighting s\<close> enc same lancer_abandoned [OF live tu codec enc same]
        by (simp add: handle_lancer_movement_def Let_def)
    qed
  qed
  then show ?thesis using LancerMove st lancer_moved [of decode owner player n u s' p]
    by (cases r) simp_all
qed

lemma lancer_history_kept:
  assumes "lancer_live decode owner player (length calls + n) t s" and "lancer_codec encode decode"
    and "sorted (t # List.map_filter lancer_call_time calls)"
  shows "\<exists>u. lancer_live decode owner player n u (fold (lancer_call_step store encode player) calls s)"
  using assms
proof (induction calls arbitrary: t s)
  case (Cons call calls)
  have live: "lancer_live decode owner player (Suc (length calls + n)) t s" using Cons.prems(1) by simp
  let ?u = "case lancer_call_time call of None \<Rightarrow> t | Some u \<Rightarrow> u"
  have "lancer_live decode owner player (length calls + n) ?u (lancer_call_step store encode player call s)"
    using lancer_call_kept [OF live Cons.prems(2)] Cons.prems(3) by (auto simp: map_filter_Cons)
  moreover have "sorted (?u # List.map_filter lancer_call_time calls)"
    using Cons.prems(3) by (auto simp: map_filter_Cons split: option.splits)
  ultimately show ?case using Cons.IH [OF _ Cons.prems(2)] by simp
qed auto

text \<open>
  C32 (refinement): the live lancer and its replay agree. Take a session of one player whose
  earlier log is free of other encounters, and feed it any movements, ticks and attacks on a
  clock that does not run backwards, with a store that may refuse any row. The events stored for
  its log, under whatever increasing identifiers, are accepted by the replay of the encounter,
  and the state it reconstructs is the one the player was last told.
\<close>

theorem live_lancer_replays:
  assumes "lancer_codec encode decode"
    and "solo_session owner player start" and "live_actors start player \<noteq> None" and "route_sane start"
    and "live_lancer start = None" and "told ''glass_lancer'' (live_sent start) = None"
    and "list_all lancer_quiet (live_log start)"
    and "player < live_next_id start" and "unat (live_next_id start) + length calls < 2 ^ 64"
    and "sorted (List.map_filter lancer_call_time calls)"
    and "s = fold (lancer_call_step store encode player) calls start" and "stores (live_log s) events"
  shows "\<exists>status. validate_lancer decode events = Inr status \<and>
    map_option status_str status = told ''glass_lancer'' (live_sent s)"
proof -
  have "followed (lancer_check_events decode) initial_lancer_check (live_log start) (lancer_sync owner player 0 start)"
    unfolding followed_def
  proof (intro allI impI, elim conjE)
    fix es all assume "stores (live_log start) es"
    then have "list_all lancer_quiet (map row_of es)" using assms(7) by (simp add: stores_def)
    moreover have "lancer_sync owner player 0 start initial_lancer_check"
      using initial_lancer_known assms(5,6) by (simp add: lancer_sync_def lancer_known_def) (simp add: initial_lancer_check_def)
    ultimately show "\<exists>c. lancer_check_events decode all es initial_lancer_check = Inr c \<and> lancer_sync owner player 0 start c"
      using lancer_quiet_rows by blast
  qed
  moreover have "list_all (\<lambda>row. \<not> lancer_foreign row) (live_log start)"
    using assms(7) by (auto simp: list_all_iff)
  ultimately have "lancer_live decode owner player (length calls + 0) 0 start"
    using assms by (simp add: lancer_live_def)
  from lancer_history_kept [OF this assms(1)] assms(10) obtain u where
    live: "lancer_live decode owner player 0 u s" by (auto simp: assms(11))
  then obtain c where c: "lancer_check_events decode events events initial_lancer_check = Inr c"
      "lancer_sync owner player u s c" using assms(12) unfolding lancer_live_def followed_def by blast
  have "list_all (\<lambda>row. \<not> lancer_foreign row) (map row_of events)"
    using live assms(12) by (simp add: lancer_live_def stores_def)
  then have "\<not> list_ex (foreign_event lancer_prefix) events"
    by (auto simp: list_all_iff list_ex_iff foreign_event_def row_of_def)
  with c show ?thesis by (auto simp: validate_lancer_def lancer_sync_def)
qed

section \<open>Example\<close>

definition demo_encode :: "lancer_evidence \<Rightarrow> session_error + string" where
  "demo_encode ev =
    (if ev = LancerWindup (9, 0, 8) (4, 0, 8) 700 then Inr ''windup'' else Inl EvidenceNotEncoded)"

definition demo_lancer_session :: lancer_session where
  "demo_lancer_session =
    \<lparr> expected_players = 1,
      live_participants = [\<lparr> part_account = ''local:lancer'', part_actor = 1, part_weapon = pulse_rifle,
        part_weapons = [], encounter_capable = True, route_capable = True, bulwark_capable = False \<rparr>],
      live_actors = [1 \<mapsto> \<lparr> actor_id = 1, kind = Player, archetype = [], position = (3, 0, 8),
        health = 90, max_health = 90 \<rparr>],
      live_next_id = 2, live_combat = new_combat, live_enemy_ai = None, live_enemy = None,
      live_stage = DoorStage,
      live_route = Some \<lparr> route_operation = \<lparr> participants = [\<lparr> participant_id = ''p'', capable = True \<rparr>],
        route_phase = ChoiceOpen, selection = None, terminal = None \<rparr>,
        warden_counter_count = 0, total_hostile_damage = 0 \<rparr>,
      live_log = [(PlayerJoinedKind, ''local:lancer'', Some 1, ''player joined'')], live_sent = [],
      live_lancer = None \<rparr>"

theorem live_lancer_replays_witness:
  "\<exists>s events. s = fold (lancer_call_step (\<lambda>_ _. True) demo_encode 1)
       [LancerMove (4, 0, 8) 0 True, LancerTickAt 700 700] demo_lancer_session \<and>
     length (live_log s) = 3 \<and> stores (live_log s) events \<and>
     validate_lancer demo_evidence events = Inr (Some StatusActive)"
proof -
  let ?calls = "[LancerMove (4, 0, 8) 0 True, LancerTickAt 700 700]"
  define s where "s = fold (lancer_call_step (\<lambda>_ _. True) demo_encode 1) ?calls demo_lancer_session"
  have codec: "lancer_codec demo_encode demo_evidence"
    by (auto simp: lancer_codec_def demo_encode_def demo_evidence_def split: if_splits)
  have start: "solo_session ''local:lancer'' 1 demo_lancer_session" "live_actors demo_lancer_session 1 \<noteq> None"
      "route_sane demo_lancer_session" "live_lancer demo_lancer_session = None"
      "told ''glass_lancer'' (live_sent demo_lancer_session) = None"
      "list_all lancer_quiet (live_log demo_lancer_session)" "1 < live_next_id demo_lancer_session"
      "unat (live_next_id demo_lancer_session) + length ?calls < 2 ^ 64"
      "sorted (List.map_filter lancer_call_time ?calls)"
    by (simp_all add: demo_lancer_session_def solo_session_def route_sane_def routes_ok_def join_row_def
        List.map_filter_simps)
  have run: "length (live_log s) = 3 \<and> told ''glass_lancer'' (live_sent s) = Some ''Active''"
    by (simp add: s_def demo_lancer_session_def handle_lancer_movement_def lancer_fighting_def Let_def
        route_choice_open_def lancer_entrance_def spawn_def allocate_actor_id_def insert_actor_def owner_account_def
        append_event_def lock_session_route_def lock_baseline_def broadcast_def lancer_objective_def
        broadcast_route_state_def update_position_def tick_lancer_at_def get_actor_def lancer_spawn_def
        lancer_health_def new_lancer_def lancer_tick_def record_lancer_def encode_lancer_evidence_def demo_encode_def
        lancer_prefix_def)
  obtain events where events: "stores (live_log s) events" using stores_exist by blast
  from live_lancer_replays [OF codec start s_def events] obtain status where
    "validate_lancer demo_evidence events = Inr status" "map_option status_str status = Some ''Active''"
    using run by auto
  moreover from this(2) have "status = Some StatusActive" by (cases "the status") auto
  ultimately show ?thesis using s_def run events by blast
qed

end
