(* ===== verification/Lua.thy ===== *)
theory Lua
  imports Prelude
begin

text \<open>
  What \<open>runtime/activities/src/authoring.rs\<close> relies on of the embedded Lua interpreter, and the
  first check it makes of a value that a script has returned. The interpreter is not part of the
  repository: evaluating a script is a parameter, and so are the conversions of a value to a
  Rust type (record \<open>lua_casts\<close>). Tables live in a heap, so that a value may be cyclic or share
  tables; the iteration of a table yields its pairs as they are (the conversion of a pair to a Lua value
  does not fail), so the error that \<open>pairs\<close> could return has no case. \<open>static_graph_exact\<close> shows that \<open>validate_static_graph\<close> accepts exactly the values that
  are small trees of plain data.

  \<open>usize\<close> counters are \<open>nat\<close>: the limits are checked after every single step, long before a
  counter could overflow.
\<close>

section \<open>Texts\<close>

text \<open>\<open>str::from_utf8\<close>: the well-formed byte sequences of the Unicode standard.\<close>

definition continuation :: "char \<Rightarrow> bool" where
  "continuation c \<longleftrightarrow> 128 \<le> byte c \<and> byte c < 192"

fun valid_utf8 :: "string \<Rightarrow> bool" where
  "valid_utf8 [] = True"
| "valid_utf8 (a # s) =
    (if byte a < 128 then valid_utf8 s
     else if 194 \<le> byte a \<and> byte a < 224 then
       (case s of b # s \<Rightarrow> continuation b \<and> valid_utf8 s | _ \<Rightarrow> False)
     else if 224 \<le> byte a \<and> byte a < 240 then
       (case s of b # c # s \<Rightarrow>
            (if byte a = 224 then 160 \<le> byte b \<and> byte b < 192
             else if byte a = 237 then 128 \<le> byte b \<and> byte b < 160
             else continuation b) \<and> continuation c \<and> valid_utf8 s
        | _ \<Rightarrow> False)
     else if 240 \<le> byte a \<and> byte a < 245 then
       (case s of b # c # d # s \<Rightarrow>
            (if byte a = 240 then 144 \<le> byte b \<and> byte b < 192
             else if byte a = 244 then 128 \<le> byte b \<and> byte b < 144
             else continuation b) \<and> continuation c \<and> continuation d \<and> valid_utf8 s
        | _ \<Rightarrow> False)
     else False)"

section \<open>Values\<close>

datatype lua_value =
    LuaNil | LuaBoolean bool | LuaInteger int | LuaString string | LuaTable nat | LuaOther string

text \<open>The pairs of a table in the order of its iteration, what \<open>raw_len\<close> answers, and whether the
  table has a metatable.\<close>

record lua_table =
  table_pairs :: "(lua_value \<times> lua_value) list"
  table_len :: nat
  has_metatable :: bool

type_synonym lua_heap = "nat \<Rightarrow> lua_table"

fun lua_type_name :: "lua_value \<Rightarrow> string" where
  "lua_type_name LuaNil = ''nil''"
| "lua_type_name (LuaBoolean b) = ''boolean''"
| "lua_type_name (LuaInteger n) = ''integer''"
| "lua_type_name (LuaString s) = ''string''"
| "lua_type_name (LuaTable p) = ''table''"
| "lua_type_name (LuaOther t) = t"

text \<open>A table without a metatable answers \<open>get\<close> with the value stored under the key, or nil.\<close>

definition lua_get :: "lua_heap \<Rightarrow> nat \<Rightarrow> lua_value \<Rightarrow> lua_value" where
  "lua_get h p key = (case map_of (table_pairs (h p)) key of None \<Rightarrow> LuaNil | Some v \<Rightarrow> v)"

text \<open>\<open>sequence_values\<close>: the values at 1, 2, ... up to the first nil.\<close>

definition lua_sequence :: "lua_heap \<Rightarrow> nat \<Rightarrow> lua_value list" where
  "lua_sequence h p = takeWhile (\<lambda>v. v \<noteq> LuaNil)
     (map (\<lambda>i. lua_get h p (LuaInteger (int i))) [1..<Suc (Suc (length (table_pairs (h p))))])"

text \<open>The conversions of the interpreter's bindings, with the texts of their errors.\<close>

record lua_casts =
  cast_string :: "lua_value \<Rightarrow> string + string"
  cast_u32 :: "lua_value \<Rightarrow> string + u32"
  cast_u64 :: "lua_value \<Rightarrow> string + u64"
  cast_bool :: "lua_value \<Rightarrow> string + bool"
  table_error :: "lua_value \<Rightarrow> string"

definition cast_table :: "lua_casts \<Rightarrow> lua_value \<Rightarrow> string + nat" where
  "cast_table c v = (case v of LuaTable p \<Rightarrow> Inr p | _ \<Rightarrow> Inl (table_error c v))"

section \<open>Limits\<close>

definition max_activity_lua_bytes :: nat where "max_activity_lua_bytes = 64 * 1024"
definition max_activity_lua_memory_bytes :: nat where "max_activity_lua_memory_bytes = 1024 * 1024"
definition max_activity_lua_instructions :: u32 where "max_activity_lua_instructions = 100000"
definition max_activity_id_bytes :: nat where "max_activity_id_bytes = 32"
definition max_authoring_string_bytes :: nat where "max_authoring_string_bytes = 128"
definition max_authoring_tables :: nat where "max_authoring_tables = 64"
definition max_authoring_values :: nat where "max_authoring_values = 256"
definition max_authoring_depth :: nat where "max_authoring_depth = 8"

lemmas lua_limits = max_activity_lua_bytes_def max_activity_id_bytes_def
  max_authoring_string_bytes_def max_authoring_tables_def max_authoring_values_def
  max_authoring_depth_def

section \<open>The static graph\<close>

text \<open>\<open>ActivityError\<close> wraps the text of the error.\<close>

type_synonym activity_error = string

definition validate_lua_string :: "string \<Rightarrow> activity_error + unit" where
  "validate_lua_string s =
    (if length s > max_authoring_string_bytes
     then Inl (''activity string exceeds '' @ show_nat max_authoring_string_bytes @ '' bytes'')
     else if \<not> valid_utf8 s then Inl ''activity strings must be valid UTF-8''
     else Inr ())"

record static_graph_state =
  graph_tables :: "nat list"
  graph_values :: nat

definition validate_static_key :: "lua_value \<Rightarrow> activity_error + unit" where
  "validate_static_key k =
    (case k of
       LuaInteger _ \<Rightarrow> Inr ()
     | LuaString s \<Rightarrow> validate_lua_string s
     | other \<Rightarrow> Inl (''activity table key type '' @ lua_type_name other @ '' is not declarative''))"

function visit_static_value ::
    "lua_heap \<Rightarrow> lua_value \<Rightarrow> nat \<Rightarrow> static_graph_state \<Rightarrow> activity_error + static_graph_state"
  and visit_static_pairs ::
    "lua_heap \<Rightarrow> (lua_value \<times> lua_value) list \<Rightarrow> nat \<Rightarrow> static_graph_state \<Rightarrow>
     activity_error + static_graph_state" where
  "visit_static_value h v depth s =
    (let s = s\<lparr> graph_values := graph_values s + 1 \<rparr> in
     if graph_values s > max_authoring_values
     then Inl (''activity static graph exceeds '' @ show_nat max_authoring_values @ '' values'')
     else
       (case v of
          LuaNil \<Rightarrow> Inr s
        | LuaBoolean _ \<Rightarrow> Inr s
        | LuaInteger _ \<Rightarrow> Inr s
        | LuaString b \<Rightarrow> and_then (validate_lua_string b) (\<lambda>_. Inr s)
        | LuaTable p \<Rightarrow>
            if depth \<ge> max_authoring_depth then Inl ''activity static graph is nested too deeply''
            else if has_metatable (h p) then Inl ''activity tables cannot have metatables''
            else if p \<in> set (graph_tables s)
            then Inl ''activity tables must be acyclic and cannot be aliased''
            else
              let s = s\<lparr> graph_tables := p # graph_tables s \<rparr> in
              if length (graph_tables s) > max_authoring_tables
              then Inl (''activity static graph exceeds '' @ show_nat max_authoring_tables @ '' tables'')
              else visit_static_pairs h (table_pairs (h p)) (depth + 1) s
        | LuaOther t \<Rightarrow> Inl (''activity value type '' @ t @ '' is not declarative'')))"
| "visit_static_pairs h [] depth s = Inr s"
| "visit_static_pairs h ((key, nested) # ps) depth s =
    (case validate_static_key key of
       Inl e \<Rightarrow> Inl e
     | Inr _ \<Rightarrow>
         (case visit_static_value h nested depth s of
            Inl e \<Rightarrow> Inl e
          | Inr s \<Rightarrow> visit_static_pairs h ps depth s))"
  by pat_completeness auto

text \<open>A table is entered only below the greatest depth, so the walk ends on cyclic values too.\<close>

termination
  by (relation "measures [\<lambda>x. case x of Inl (_, _, d, _) \<Rightarrow> max_authoring_depth + 1 - d
        | Inr (_, _, d, _) \<Rightarrow> max_authoring_depth + 1 - d,
      \<lambda>x. case x of Inl _ \<Rightarrow> 0 | Inr (_, ps, _, _) \<Rightarrow> Suc (length ps)]") auto

definition validate_static_graph :: "lua_heap \<Rightarrow> lua_value \<Rightarrow> activity_error + unit" where
  "validate_static_graph h v =
    and_then (visit_static_value h v 0 \<lparr> graph_tables = [], graph_values = 0 \<rparr>) (\<lambda>_. Inr ())"

declare visit_static_value.simps [simp del]

section \<open>Accepted values are trees\<close>

text \<open>What a value denotes when it is followed through the heap, as a finite tree that keeps the
  identity of every table.\<close>

datatype lua_tree = Leaf lua_value | Node nat "(lua_value \<times> lua_tree) list"

fun unfolds :: "lua_heap \<Rightarrow> lua_value \<Rightarrow> lua_tree \<Rightarrow> bool"
  and unfolds_pairs :: "lua_heap \<Rightarrow> (lua_value \<times> lua_value) list \<Rightarrow> (lua_value \<times> lua_tree) list \<Rightarrow> bool" where
  "unfolds h v (Leaf w) \<longleftrightarrow> v = w \<and> (\<forall>p. w \<noteq> LuaTable p)"
| "unfolds h v (Node p ts) \<longleftrightarrow> v = LuaTable p \<and> unfolds_pairs h (table_pairs (h p)) ts"
| "unfolds_pairs h ps [] \<longleftrightarrow> ps = []"
| "unfolds_pairs h ps ((k, t) # ts) \<longleftrightarrow>
     (\<exists>v qs. ps = (k, v) # qs \<and> unfolds h v t \<and> unfolds_pairs h qs ts)"

text \<open>Plain data: booleans, integers, nil, short UTF-8 strings, and tables without a metatable
  whose keys are integers or short UTF-8 strings.\<close>

definition plain_string :: "string \<Rightarrow> bool" where
  "plain_string s \<longleftrightarrow> length s \<le> 128 \<and> valid_utf8 s"

fun plain_leaf :: "lua_value \<Rightarrow> bool" where
  "plain_leaf (LuaString s) = plain_string s"
| "plain_leaf (LuaOther t) = False"
| "plain_leaf (LuaTable p) = False"
| "plain_leaf v = True"

fun plain_key :: "lua_value \<Rightarrow> bool" where
  "plain_key (LuaInteger n) = True"
| "plain_key (LuaString s) = plain_string s"
| "plain_key v = False"

fun plain :: "lua_heap \<Rightarrow> lua_tree \<Rightarrow> bool"
  and plain_pairs :: "lua_heap \<Rightarrow> (lua_value \<times> lua_tree) list \<Rightarrow> bool" where
  "plain h (Leaf v) \<longleftrightarrow> plain_leaf v"
| "plain h (Node p ts) \<longleftrightarrow> \<not> has_metatable (h p) \<and> plain_pairs h ts"
| "plain_pairs h [] \<longleftrightarrow> True"
| "plain_pairs h ((k, t) # ts) \<longleftrightarrow> plain_key k \<and> plain h t \<and> plain_pairs h ts"

fun tree_values :: "lua_tree \<Rightarrow> nat" and pairs_values :: "(lua_value \<times> lua_tree) list \<Rightarrow> nat" where
  "tree_values (Leaf v) = 1"
| "tree_values (Node p ts) = 1 + pairs_values ts"
| "pairs_values [] = 0"
| "pairs_values ((k, t) # ts) = tree_values t + pairs_values ts"

fun tree_depth :: "lua_tree \<Rightarrow> nat" and pairs_depth :: "(lua_value \<times> lua_tree) list \<Rightarrow> nat" where
  "tree_depth (Leaf v) = 0"
| "tree_depth (Node p ts) = 1 + pairs_depth ts"
| "pairs_depth [] = 0"
| "pairs_depth ((k, t) # ts) = max (tree_depth t) (pairs_depth ts)"

text \<open>The tables of a tree, the last one entered first.\<close>

fun tree_tables :: "lua_tree \<Rightarrow> nat list" and pairs_tables :: "(lua_value \<times> lua_tree) list \<Rightarrow> nat list" where
  "tree_tables (Leaf v) = []"
| "tree_tables (Node p ts) = pairs_tables ts @ [p]"
| "pairs_tables [] = []"
| "pairs_tables ((k, t) # ts) = pairs_tables ts @ tree_tables t"

text \<open>A tree, or the rest of a table, that the walk accepts in a state.\<close>

definition room :: "nat \<Rightarrow> nat \<Rightarrow> nat list \<Rightarrow> nat \<Rightarrow> static_graph_state \<Rightarrow> bool" where
  "room vs deep tabs depth s \<longleftrightarrow>
     graph_values s + vs \<le> 256 \<and> (deep \<noteq> 0 \<longrightarrow> depth + deep \<le> 8) \<and>
     distinct (tabs @ graph_tables s) \<and> length (tabs @ graph_tables s) \<le> 64"

definition walked :: "nat \<Rightarrow> nat list \<Rightarrow> static_graph_state \<Rightarrow> static_graph_state" where
  "walked vs tabs s = \<lparr> graph_tables = tabs @ graph_tables s, graph_values = graph_values s + vs \<rparr>"

lemma validate_lua_string_plain: "validate_lua_string s = Inr u \<longleftrightarrow> plain_string s"
  by (auto simp: validate_lua_string_def plain_string_def lua_limits not_less)

lemma validate_static_key_plain: "validate_static_key k = Inr u \<longleftrightarrow> plain_key k"
  by (cases k) (auto simp: validate_static_key_def validate_lua_string_plain)

lemma unfolds_leaf: "(\<forall>p. v \<noteq> LuaTable p) \<Longrightarrow> unfolds h v t \<longleftrightarrow> t = Leaf v"
  by (cases t) auto

lemma unfolds_table:
  "unfolds h (LuaTable p) t \<longleftrightarrow> (\<exists>ts. t = Node p ts \<and> unfolds_pairs h (table_pairs (h p)) ts)"
  by (cases t) auto

lemma unfolds_pairs_Nil: "unfolds_pairs h [] ts \<longleftrightarrow> ts = []"
  by (cases ts) auto

lemma unfolds_pairs_Cons:
  "unfolds_pairs h ((k, v) # ps) ts \<longleftrightarrow>
     (\<exists>t us. ts = (k, t) # us \<and> unfolds h v t \<and> unfolds_pairs h ps us)"
  by (cases ts) auto

lemma ex_unfolds_pairs_Cons:
  "(\<exists>ts. unfolds_pairs h ((k, v) # ps) ts \<and> P ts) \<longleftrightarrow>
   (\<exists>t us. unfolds h v t \<and> unfolds_pairs h ps us \<and> P ((k, t) # us))"
  by (auto simp: unfolds_pairs_Cons)

lemma walked_walked: "walked vs tabs (walked vs' tabs' s) = walked (vs' + vs) (tabs @ tabs') s"
  by (simp add: walked_def)

lemma room_walked:
  "room vs deep tabs d s \<and> room vs' deep' tabs' d (walked vs tabs s) \<longleftrightarrow>
   room (vs + vs') (max deep deep') (tabs' @ tabs) d s"
  by (auto simp: room_def walked_def max_def)

lemma room_value: "room 0 0 [] depth s \<Longrightarrow> room 1 0 [] depth s \<longleftrightarrow> graph_values s + 1 \<le> 256"
  by (auto simp: room_def)

lemma room_node:
  "room 0 0 [] depth s \<Longrightarrow>
   room (1 + vs) (1 + deep) (tabs @ [p]) depth s \<longleftrightarrow>
     graph_values s + 1 \<le> 256 \<and> depth < 8 \<and> p \<notin> set (graph_tables s) \<and>
     length (graph_tables s) < 64 \<and> room vs deep tabs (depth + 1) (walked 1 [p] s)"
  by (auto simp: room_def walked_def)

lemma room_empty: "room vs deep tabs depth s \<Longrightarrow> room 0 0 [] depth' (walked vs tabs s)"
  by (auto simp: room_def walked_def)

lemma walked_table: "s\<lparr> graph_values := Suc (graph_values s), graph_tables := p # graph_tables s \<rparr> =
  \<lparr> graph_tables = p # graph_tables s, graph_values = Suc (graph_values s) \<rparr>"
  by (cases s) simp

lemma visit_static_exact:
  "room 0 0 [] depth s \<longrightarrow> (\<forall>s'. visit_static_value h v depth s = Inr s' \<longleftrightarrow>
      (\<exists>t. unfolds h v t \<and> plain h t \<and> room (tree_values t) (tree_depth t) (tree_tables t) depth s \<and>
        s' = walked (tree_values t) (tree_tables t) s))"
  "room 0 0 [] depth s \<longrightarrow> (\<forall>s'. visit_static_pairs h ps depth s = Inr s' \<longleftrightarrow>
      (\<exists>ts. unfolds_pairs h ps ts \<and> plain_pairs h ts \<and>
        room (pairs_values ts) (pairs_depth ts) (pairs_tables ts) depth s \<and>
        s' = walked (pairs_values ts) (pairs_tables ts) s))"
proof (induction h v depth s and h ps depth s rule: visit_static_value_visit_static_pairs.induct)
  case (1 h v depth s)
  show ?case
  proof (intro impI allI)
    fix s' assume r: "room 0 0 [] depth s"
    let ?s = "walked 1 [] s"
    show "visit_static_value h v depth s = Inr s' \<longleftrightarrow>
      (\<exists>t. unfolds h v t \<and> plain h t \<and> room (tree_values t) (tree_depth t) (tree_tables t) depth s \<and>
        s' = walked (tree_values t) (tree_tables t) s)"
    proof (cases "\<exists>p. v = LuaTable p")
      case False
      then show ?thesis
        by (subst visit_static_value.simps)
          (auto simp: unfolds_leaf room_value [OF r, simplified] Let_def lua_limits walked_def and_then_Inr
            validate_lua_string_plain split: lua_value.split)
    next
      case True
      then obtain p where v: "v = LuaTable p" by blast
      let ?t = "walked 1 [p] s"
      have step: "visit_static_value h v depth s = Inr s' \<longleftrightarrow>
          graph_values s + 1 \<le> 256 \<and> depth < 8 \<and> \<not> has_metatable (h p) \<and>
          p \<notin> set (graph_tables s) \<and> length (graph_tables s) < 64 \<and>
          visit_static_pairs h (table_pairs (h p)) (depth + 1) ?t = Inr s'"
        by (subst visit_static_value.simps) (auto simp: v Let_def lua_limits walked_def walked_table)
      show ?thesis
      proof (cases "graph_values s + 1 \<le> 256 \<and> depth < 8 \<and> \<not> has_metatable (h p) \<and>
          p \<notin> set (graph_tables s) \<and> length (graph_tables s) < 64")
        case False
        then show ?thesis
          unfolding step by (auto simp: v unfolds_table room_node [OF r, simplified])
      next
        case ok: True
        have "room 0 0 [] (depth + 1) ?t" using ok r by (auto simp: room_def walked_def)
        moreover have "?t = s\<lparr> graph_values := graph_values s + 1, graph_tables := p # graph_tables s \<rparr>"
          by (simp add: walked_def walked_table)
        ultimately have "visit_static_pairs h (table_pairs (h p)) (depth + 1) ?t = Inr s' \<longleftrightarrow>
          (\<exists>ts. unfolds_pairs h (table_pairs (h p)) ts \<and> plain_pairs h ts \<and>
            room (pairs_values ts) (pairs_depth ts) (pairs_tables ts) (depth + 1) ?t \<and>
            s' = walked (pairs_values ts) (pairs_tables ts) ?t)"
          using 1 [OF refl _ v _ _ _ refl] ok by (simp add: lua_limits)
        then show ?thesis
          unfolding step using ok
          by (auto simp: v unfolds_table room_node [OF r, simplified] walked_walked)
      qed
    qed
  qed
next
  case (2 h depth s)
  then show ?case by (auto simp: unfolds_pairs_Nil walked_def)
next
  case (3 h key nested ps depth s)
  show ?case
  proof (intro impI allI)
    fix s' assume r: "room 0 0 [] depth s"
    show "visit_static_pairs h ((key, nested) # ps) depth s = Inr s' \<longleftrightarrow>
      (\<exists>ts. unfolds_pairs h ((key, nested) # ps) ts \<and> plain_pairs h ts \<and>
        room (pairs_values ts) (pairs_depth ts) (pairs_tables ts) depth s \<and>
        s' = walked (pairs_values ts) (pairs_tables ts) s)"
    proof (cases "validate_static_key key")
      case (Inl e)
      then have "\<not> plain_key key" by (metis validate_static_key_plain sum.distinct(1))
      with Inl show ?thesis by (auto simp: unfolds_pairs_Cons)
    next
      case key: (Inr u)
      then have pk: "plain_key key" by (simp add: validate_static_key_plain)
      have nest: "visit_static_value h nested depth s = Inr s1 \<longleftrightarrow>
          (\<exists>t. unfolds h nested t \<and> plain h t \<and>
            room (tree_values t) (tree_depth t) (tree_tables t) depth s \<and>
            s1 = walked (tree_values t) (tree_tables t) s)" for s1
        using 3(1) [OF key] r by blast
      have rest: "visit_static_pairs h ps depth s1 = Inr s' \<longleftrightarrow>
          (\<exists>ts. unfolds_pairs h ps ts \<and> plain_pairs h ts \<and>
            room (pairs_values ts) (pairs_depth ts) (pairs_tables ts) depth s1 \<and>
            s' = walked (pairs_values ts) (pairs_tables ts) s1)"
        if "visit_static_value h nested depth s = Inr s1" for s1
        using 3(2) [OF key that] that room_empty unfolding nest by blast
      have "visit_static_pairs h ((key, nested) # ps) depth s = Inr s' \<longleftrightarrow>
          (\<exists>s1. visit_static_value h nested depth s = Inr s1 \<and> visit_static_pairs h ps depth s1 = Inr s')"
        by (simp add: key split: sum.split)
      also have "\<dots> \<longleftrightarrow> (\<exists>t ts. unfolds h nested t \<and> plain h t \<and> unfolds_pairs h ps ts \<and> plain_pairs h ts \<and>
          room (tree_values t + pairs_values ts) (max (tree_depth t) (pairs_depth ts))
            (pairs_tables ts @ tree_tables t) depth s \<and>
          s' = walked (tree_values t + pairs_values ts) (pairs_tables ts @ tree_tables t) s)"
        unfolding room_walked [symmetric] walked_walked [symmetric]
        using rest nest by (smt (verit))
      also have "\<dots> \<longleftrightarrow> (\<exists>ts. unfolds_pairs h ((key, nested) # ps) ts \<and> plain_pairs h ts \<and>
        room (pairs_values ts) (pairs_depth ts) (pairs_tables ts) depth s \<and>
        s' = walked (pairs_values ts) (pairs_tables ts) s)"
        unfolding ex_unfolds_pairs_Cons by (simp add: pk) blast
      finally show ?thesis .
    qed
  qed
qed

text \<open>C33 (equivalence): the first check of an activity accepts a value of the interpreter exactly
  when following it through the heap gives a finite tree of plain data: at most 256 values and 64
  tables, nested at most eight deep, no table met twice (so no cycle and no sharing), no
  metatable, every key an integer or a short UTF-8 string, every leaf nil, a boolean, an integer or
  a short UTF-8 string. On every heap, cyclic ones included, the check ends.\<close>

theorem static_graph_exact:
  "validate_static_graph h v = Inr () \<longleftrightarrow>
     (\<exists>t. unfolds h v t \<and> plain h t \<and> tree_values t \<le> 256 \<and> tree_depth t \<le> 8 \<and>
        distinct (tree_tables t) \<and> length (tree_tables t) \<le> 64)"
proof -
  let ?s = "\<lparr> graph_tables = [], graph_values = 0 \<rparr>"
  have "room 0 0 [] 0 ?s" by (simp add: room_def)
  then have "(\<exists>s'. visit_static_value h v 0 ?s = Inr s') \<longleftrightarrow>
      (\<exists>t. unfolds h v t \<and> plain h t \<and> room (tree_values t) (tree_depth t) (tree_tables t) 0 ?s)"
    using visit_static_exact(1) by blast
  then show ?thesis by (auto simp: validate_static_graph_def and_then_Inr room_def)
qed

end
