(* ===== verification/Objectives.thy ===== *)
theory Objectives
  imports Prelude
begin

text \<open>
  The vocabulary of missions: objectives and world triggers (\<open>runtime/objectives/src/lib.rs\<close>) and
  the experience they pay (\<open>runtime/progression/src/lib.rs\<close>).
\<close>

section \<open>Objectives\<close>

datatype objective_kind = KillActors | ReachArea | BossKind

datatype objective_state = PendingState | ActiveState | CompletedState | FailedState

record objective =
  objective_id :: string
  objective_kind :: objective_kind
  objective_state :: objective_state
  objective_progress :: u32
  objective_target :: u32

datatype world_trigger = ActorGroupDead string | AreaReached string

section \<open>Experience\<close>

definition experience_per_level :: u64 where "experience_per_level = 500"
definition max_activity_experience :: u64 where "max_activity_experience = 10000"

datatype experience_reward = ExperienceReward (experience_of: u64)

datatype progression_error = ZeroExperience | ExcessiveExperience u64

definition experience_validated :: "u64 \<Rightarrow> progression_error + experience_reward" where
  "experience_validated e =
    (if e = 0 then Inl ZeroExperience
     else if e > max_activity_experience then Inl (ExcessiveExperience e)
     else Inr (ExperienceReward e))"

record progression =
  progression_level :: u32
  progression_experience :: u64

definition from_experience :: "u64 \<Rightarrow> progression" where
  "from_experience e =
    \<lparr> progression_level =
        (case u32_try_of (1 + e div experience_per_level) of Some l \<Rightarrow> l | None \<Rightarrow> - 1),
      progression_experience = e \<rparr>"

definition grant :: "progression \<Rightarrow> experience_reward \<Rightarrow> progression" where
  "grant p r = from_experience (sat_add (progression_experience p) (experience_of r))"

text \<open>The level follows from the total, whatever the order of the rewards, and never falls.\<close>

lemma unat_level:
  "unat (progression_level (from_experience e)) = min (1 + unat e div 500) (2 ^ 32 - 1)"
proof -
  have d: "unat (e div experience_per_level) = unat e div 500"
    by (simp add: experience_per_level_def unat_div_distrib)
  have "unat e \<le> 2 ^ 64 - 1" using unat_bound [of e] by simp
  then have "unat e div 500 \<le> (2 ^ 64 - 1) div 500" by (rule div_le_mono)
  then have s: "unat (1 + e div experience_per_level) = 1 + unat e div 500"
    using d by (subst unat_word_ariths) simp
  show ?thesis
  proof (cases "u32_try_of (1 + e div experience_per_level)")
    case None
    then have "2 ^ 32 \<le> 1 + unat e div 500"
      using s by (simp add: u32_try_of_def split: if_splits)
    with None show ?thesis by (simp add: from_experience_def unat_minus_one_word_pow)
  next
    case (Some l)
    then have l: "unat l = 1 + unat e div 500" using s by (simp add: u32_try_of_Some)
    moreover have "unat l < 2 ^ 32" using unat_bound [of l] by simp
    ultimately show ?thesis using Some by (simp add: from_experience_def)
  qed
qed

lemma granted_total:
  "unat (progression_experience (fold (\<lambda>r p. grant p r) rs (from_experience e))) =
     min (unat e + (\<Sum>r\<leftarrow>rs. unat (experience_of r))) (2 ^ 64 - 1)"
proof (induction rs arbitrary: e)
  case Nil
  then show ?case using unat_bound [of e] by (simp add: from_experience_def)
next
  case (Cons r rs)
  have "grant (from_experience e) r = from_experience (sat_add e (experience_of r))"
    by (simp add: grant_def from_experience_def)
  then show ?case using Cons [of "sat_add e (experience_of r)"] by (simp add: unat_sat_add min_def)
qed

end
