(* ===== verification/Activity_Graph.thy ===== *)
theory Activity_Graph
  imports Lua Objectives Route_Catalog "HOL-Library.List_Lexorder" "HOL-Library.Char_ord"
    "HOL-Library.Product_Lexorder"
begin

text \<open>
  The objective graph of an authored activity (\<open>validate_objective_graph\<close> and \<open>validate_acyclic\<close>
  of \<open>runtime/activities/src/authoring.rs\<close>): every objective is completed by one trigger, the
  edges from completed to activated objectives have no cycle, and every objective is reached.

  A \<open>HashMap\<close> of objectives is an association list; its order stands for the unspecified order of
  the iteration, which only decides which objective an error names. A \<open>BTreeSet\<close> is its ascending
  list.
\<close>

type_synonym objectives = "(string \<times> objective) list"

record trigger_definition =
  trigger_event :: string
  trigger_subject :: string
  trigger_complete :: "string list"
  trigger_activate :: "string list"
  trigger_open_door :: "string option"
  trigger_spawn_boss :: "string option"
  trigger_complete_activity :: bool

record authoring_route_event =
  authored_event :: event_id
  authored_health_basis_points :: u32
  authored_counter_damage :: u32

record authoring_route =
  authored_route :: route_id
  authored_duration_ms :: u64
  authored_reward_item :: string
  authored_reward_quantity :: u32
  authored_experience :: u64
  authored_path :: "objective_id list"
  authored_events :: "authoring_route_event list"

section \<open>Cycles\<close>

text \<open>The number of edges into each objective.\<close>

fun count_edges :: "(string \<times> string) list \<Rightarrow> (string \<rightharpoonup> nat) \<Rightarrow> activity_error + (string \<rightharpoonup> nat)" where
  "count_edges [] indegree = Inr indegree"
| "count_edges ((_, to) # edges) indegree =
    (case indegree to of
       None \<Rightarrow> Inl ''objective graph edge target is unknown''
     | Some n \<Rightarrow> count_edges edges (indegree(to \<mapsto> n + 1)))"

text \<open>The edges out of a visited objective are taken away; a target without others is queued.\<close>

fun release ::
  "string list \<Rightarrow> (string \<rightharpoonup> nat) \<Rightarrow> string list \<Rightarrow> activity_error + (string \<rightharpoonup> nat) \<times> string list" where
  "release [] indegree queue = Inr (indegree, queue)"
| "release (to # targets) indegree queue =
    (case indegree to of
       None \<Rightarrow> Inl ''objective graph target disappeared''
     | Some n \<Rightarrow>
         if n = 0 then Inl ''objective graph indegree underflowed''
         else release targets (indegree(to \<mapsto> n - 1)) (if n - 1 = 0 then queue @ [to] else queue))"

definition edge_targets :: "(string \<times> string) list \<Rightarrow> string \<Rightarrow> string list" where
  "edge_targets edges i = map snd (filter (\<lambda>(from, _). from = i) edges)"

definition degree :: "(string \<rightharpoonup> nat) \<Rightarrow> string \<Rightarrow> nat" where
  "degree indegree i = (case indegree i of None \<Rightarrow> 0 | Some n \<Rightarrow> n)"

definition degree_sum :: "string list \<Rightarrow> (string \<rightharpoonup> nat) \<Rightarrow> nat" where
  "degree_sum targets indegree = (\<Sum>i\<leftarrow>targets. degree indegree i)"

lemma degree_sum_mono:
  "(\<And>i. degree g i \<le> degree h i) \<Longrightarrow> degree_sum ts g \<le> degree_sum ts h"
  by (simp add: degree_sum_def sum_list_mono)

lemma degree_sum_less:
  assumes "\<And>i. degree g i \<le> degree h i" and "t \<in> set ts" and "degree g t < degree h t"
  shows "degree_sum ts g < degree_sum ts h"
  using assms(2)
proof (induction ts)
  case (Cons x ts)
  have "degree_sum ts g \<le> degree_sum ts h" by (rule degree_sum_mono) (rule assms(1))
  then show ?case
    using Cons assms(1) [of x] assms(3) by (auto simp: degree_sum_def add_le_less_mono add_less_le_mono)
qed simp

lemma release_shrinks:
  assumes "release ts g q = Inr (g', q')" and "set ts \<subseteq> set all"
  shows "2 * degree_sum all g' + length q' \<le> 2 * degree_sum all g + length q"
  using assms
proof (induction ts g q rule: release.induct)
  case (2 t ts g q)
  then obtain n where n: "g t = Some n" "n \<noteq> 0" by (auto split: option.splits if_splits)
  let ?g = "g(t \<mapsto> n - 1)" and ?q = "if n - 1 = 0 then q @ [t] else q"
  have "degree_sum all ?g < degree_sum all g"
    using 2(3) n by (intro degree_sum_less [where t = t]) (auto simp: degree_def)
  moreover have "2 * degree_sum all g' + length q' \<le> 2 * degree_sum all ?g + length ?q"
    using 2(1) [OF n] 2(2,3) n by (simp del: fun_upd_apply)
  ultimately show ?case by (simp del: fun_upd_apply split: if_splits)
qed simp

function visit_queue ::
  "(string \<times> string) list \<Rightarrow> (string \<rightharpoonup> nat) \<Rightarrow> string list \<Rightarrow> nat \<Rightarrow> activity_error + nat" where
  "visit_queue edges indegree [] visited = Inr visited"
| "visit_queue edges indegree (i # queue) visited =
    (case release (edge_targets edges i) indegree queue of
       Inl e \<Rightarrow> Inl e
     | Inr (indegree, queue) \<Rightarrow> visit_queue edges indegree queue (visited + 1))"
  by pat_completeness auto

termination
proof (relation "measure (\<lambda>(edges, g, q, _). 2 * degree_sum (map snd edges) g + length q)", goal_cases)
  case (2 edges g i queue visited r g' q')
  then have "2 * degree_sum (map snd edges) g' + length q' \<le>
      2 * degree_sum (map snd edges) g + length queue"
    by (intro release_shrinks [where ts = "edge_targets edges i"]) (auto simp: edge_targets_def)
  then show ?case by simp
qed simp

definition validate_acyclic :: "objectives \<Rightarrow> (string \<times> string) list \<Rightarrow> activity_error + unit" where
  "validate_acyclic objectives edges =
    and_then (count_edges edges (\<lambda>i. if i \<in> fst ` set objectives then Some 0 else None)) (\<lambda>indegree.
    let queue = filter (\<lambda>i. indegree i = Some 0) (sort (map fst objectives)) in
    and_then (visit_queue edges indegree queue 0) (\<lambda>visited.
    if visited \<noteq> length objectives then Inl ''objective graph contains a cycle'' else Inr ()))"

section \<open>Reachability\<close>

definition reach_pass :: "(string \<times> string) list \<Rightarrow> string list \<Rightarrow> string list" where
  "reach_pass edges reachable =
    fold (\<lambda>(from, to) r. if from \<in> set r then List.insert to r else r) edges reachable"

lemma reach_pass_Cons:
  "reach_pass ((f, t) # edges) r = reach_pass edges (if f \<in> set r then List.insert t r else r)"
  by (simp add: reach_pass_def)

lemma reach_pass_Nil [simp]: "reach_pass [] r = r"
  by (simp add: reach_pass_def)

lemma reach_pass_sub: "set r \<subseteq> set (reach_pass edges r)"
proof (induction edges arbitrary: r)
  case (Cons e edges)
  obtain f t where "e = (f, t)" by fastforce
  then show ?case
    using Cons [of r] Cons [of "List.insert t r"] by (auto simp: reach_pass_Cons)
qed simp

lemma reach_pass_targets: "set (reach_pass edges r) \<subseteq> set r \<union> snd ` set edges"
proof (induction edges arbitrary: r)
  case (Cons e edges)
  obtain f t where "e = (f, t)" by fastforce
  then show ?case
    using Cons [of r] Cons [of "List.insert t r"] by (auto simp: reach_pass_Cons)
qed simp

lemma reach_pass_length: "length r \<le> length (reach_pass edges r)"
proof (induction edges arbitrary: r)
  case (Cons e edges)
  obtain f t where e: "e = (f, t)" by fastforce
  have "length r \<le> length (List.insert t r)" by (simp add: List.insert_def)
  then show ?case
    using Cons [of r] Cons [of "List.insert t r"] by (auto simp: e reach_pass_Cons)
qed simp

lemma reach_pass_stable: "length (reach_pass edges r) = length r \<Longrightarrow> reach_pass edges r = r"
proof (induction edges arbitrary: r)
  case (Cons e edges)
  obtain f t where e: "e = (f, t)" by fastforce
  show ?case
  proof (cases "f \<in> set r \<and> t \<notin> set r")
    case True
    then have "length r < length (reach_pass edges (List.insert t r))"
      using reach_pass_length [of "List.insert t r" edges] by simp
    with Cons(2) True show ?thesis by (simp add: e reach_pass_Cons)
  next
    case False
    then have "(if f \<in> set r then List.insert t r else r) = r" by auto
    then show ?thesis using Cons by (simp add: e reach_pass_Cons)
  qed
qed simp

lemma reach_pass_distinct: "distinct r \<Longrightarrow> distinct (reach_pass edges r)"
proof (induction edges arbitrary: r)
  case (Cons e edges)
  obtain f t where "e = (f, t)" by fastforce
  then show ?case
    using Cons(1) [of r] Cons(1) [of "List.insert t r"] Cons(2) by (simp add: reach_pass_Cons)
qed simp

lemma reach_pass_new:
  "length (reach_pass edges r) \<noteq> length r \<Longrightarrow> \<exists>t \<in> snd ` set edges. t \<notin> set r \<and> t \<in> set (reach_pass edges r)"
proof (induction edges arbitrary: r)
  case (Cons e edges)
  obtain f t where e: "e = (f, t)" by fastforce
  show ?case
  proof (cases "f \<in> set r \<and> t \<notin> set r")
    case True
    then have "t \<in> set (reach_pass edges (List.insert t r))"
      using reach_pass_sub [of "List.insert t r" edges] by auto
    with True show ?thesis by (auto simp: e reach_pass_Cons)
  next
    case False
    then have "(if f \<in> set r then List.insert t r else r) = r" by auto
    then show ?thesis using Cons by (auto simp: e reach_pass_Cons)
  qed
qed simp

function saturate :: "(string \<times> string) list \<Rightarrow> string list \<Rightarrow> string list" where
  "saturate edges reachable =
    (let r = reach_pass edges reachable in
     if length r = length reachable then r else saturate edges r)"
  by pat_completeness auto

termination
proof (relation "measure (\<lambda>(edges, r). card (snd ` set edges - set r))", goal_cases)
  case (2 edges reachable r)
  then obtain t where "t \<in> snd ` set edges" "t \<notin> set reachable" "t \<in> set r"
    using reach_pass_new by metis
  then have "snd ` set edges - set r \<subset> snd ` set edges - set reachable"
    using reach_pass_sub [of reachable edges] 2 by blast
  then show ?case by (simp add: psubset_card_mono)
qed simp

declare saturate.simps [simp del]

lemma rtrancl_Image_idem: "R\<^sup>* `` (R\<^sup>* `` A) = R\<^sup>* `` A"
  by (metis relcomp_Image rtrancl_idemp_self_comp)

lemma reach_pass_closed: "set (reach_pass edges r) \<subseteq> (set edges)\<^sup>* `` set r"
proof (induction edges arbitrary: r)
  case (Cons e edges)
  obtain f t where e: "e = (f, t)" by fastforce
  let ?s = "if f \<in> set r then List.insert t r else r" and ?R = "(set (e # edges))\<^sup>*"
  have "set (reach_pass edges ?s) \<subseteq> ?R `` set ?s"
    using Cons [of ?s] rtrancl_mono [of "set edges" "set (e # edges)"] by (simp only: set_simps) blast
  also have "set ?s \<subseteq> ?R `` set r" using e by auto
  then have "?R `` set ?s \<subseteq> ?R `` set r" using rtrancl_Image_idem [of "set (e # edges)" "set r"] by blast
  finally show ?case by (simp add: e reach_pass_Cons)
qed auto

lemma set_saturate: "set (saturate edges r) = (set edges)\<^sup>* `` set r"
proof (induction edges r rule: saturate.induct)
  case (1 edges r)
  let ?r = "reach_pass edges r"
  show ?case
  proof (cases "length ?r = length r")
    case True
    then have r: "?r = r" by (rule reach_pass_stable)
    have "t \<in> set r" if ft: "(f, t) \<in> set edges" "f \<in> set r" for f t
    proof -
      obtain es es' where edges: "edges = es @ (f, t) # es'" using ft by (meson split_list)
      have "reach_pass edges r = reach_pass es' (List.insert t (reach_pass es r))"
        using ft reach_pass_sub [of r es] by (auto simp: edges reach_pass_def)
      then show ?thesis using r reach_pass_sub [of "List.insert t (reach_pass es r)" es'] by auto
    qed
    then have "set edges `` set r \<subseteq> set r" by blast
    then have "(set edges)\<^sup>* `` set r = set r" by (rule Image_closed_trancl)
    then show ?thesis using True r by (subst saturate.simps) (simp add: Let_def)
  next
    case False
    then have "set (saturate edges r) = (set edges)\<^sup>* `` set ?r"
      using 1 by (subst saturate.simps) (simp add: Let_def)
    moreover have "(set edges)\<^sup>* `` set ?r = (set edges)\<^sup>* `` set r"
    proof
      show "(set edges)\<^sup>* `` set ?r \<subseteq> (set edges)\<^sup>* `` set r"
        using reach_pass_closed [of edges r] rtrancl_Image_idem [of "set edges" "set r"] by blast
      show "(set edges)\<^sup>* `` set r \<subseteq> (set edges)\<^sup>* `` set ?r"
        using reach_pass_sub by blast
    qed
    ultimately show ?thesis by simp
  qed
qed

section \<open>The cycle check is exact\<close>

text \<open>The edges into an objective whose source has not been visited.\<close>

definition waiting :: "(string \<times> string) list \<Rightarrow> string list \<Rightarrow> string \<Rightarrow> nat" where
  "waiting edges visited i = length (filter (\<lambda>(f, t). t = i \<and> f \<notin> set visited) edges)"

text \<open>Every objective of the list comes before its predecessors: the last visited one is first.\<close>

fun visit_order :: "(string \<times> string) set \<Rightarrow> string list \<Rightarrow> bool" where
  "visit_order E [] = True"
| "visit_order E (i # is) \<longleftrightarrow> (\<forall>f. (f, i) \<in> E \<longrightarrow> f \<in> set is) \<and> visit_order E is"

definition queue_ok ::
  "string set \<Rightarrow> (string \<times> string) list \<Rightarrow> string list \<Rightarrow> string list \<Rightarrow> (string \<rightharpoonup> nat) \<Rightarrow> bool" where
  "queue_ok N edges visited queue g \<longleftrightarrow>
     distinct (queue @ visited) \<and> set (queue @ visited) \<subseteq> N \<and>
     g = (\<lambda>i. if i \<in> N then Some (waiting edges visited i) else None) \<and>
     (\<forall>i \<in> N. waiting edges visited i = 0 \<longleftrightarrow> i \<in> set (queue @ visited)) \<and>
     visit_order (set edges) visited"

lemma waiting_0: "waiting edges visited i = 0 \<longleftrightarrow> (\<forall>f. (f, i) \<in> set edges \<longrightarrow> f \<in> set visited)"
  by (auto simp: waiting_def filter_empty_conv)

lemma waiting_visit:
  "i \<notin> set visited \<Longrightarrow>
   waiting edges visited t = waiting edges (i # visited) t + count_list (edge_targets edges i) t"
  by (induction edges) (auto simp: waiting_def edge_targets_def)

lemma count_edges_total:
  "snd ` set edges \<subseteq> dom g \<Longrightarrow>
   count_edges edges g = Inr (\<lambda>i. map_option (\<lambda>n. n + count_list (map snd edges) i) (g i))"
proof (induction edges g rule: count_edges.induct)
  case (1 g)
  then show ?case by (simp add: option.map_id [unfolded id_def])
next
  case (2 f t edges g)
  then obtain n where n: "g t = Some n" by auto
  have "snd ` set edges \<subseteq> dom (g(t \<mapsto> n + 1))" using 2(2) by auto
  from 2(1) [OF n this] n show ?case by (simp del: fun_upd_apply) (auto simp: fun_eq_iff)
qed

lemma release_total:
  assumes "\<forall>t \<in> set ts. \<exists>n. g t = Some n \<and> count_list ts t \<le> n"
  shows "\<exists>new. release ts g q = Inr (\<lambda>i. map_option (\<lambda>n. n - count_list ts i) (g i), q @ new) \<and>
    distinct new \<and> set new = {t \<in> set ts. g t = Some (count_list ts t)}"
  using assms
proof (induction ts arbitrary: g q)
  case Nil
  then show ?case by (simp add: option.map_id [unfolded id_def])
next
  case (Cons t ts)
  then obtain n where n: "g t = Some n" "Suc (count_list ts t) \<le> n" by auto
  let ?g = "g(t \<mapsto> n - 1)" and ?q = "if n - 1 = 0 then q @ [t] else q"
  have "\<forall>u \<in> set ts. \<exists>m. ?g u = Some m \<and> count_list ts u \<le> m"
    using Cons(2) n by auto
  from Cons(1) [OF this, of ?q] obtain new where new:
    "release ts ?g ?q = Inr (\<lambda>i. map_option (\<lambda>n. n - count_list ts i) (?g i), ?q @ new)"
    "distinct new" "set new = {u \<in> set ts. ?g u = Some (count_list ts u)}" by blast
  have g: "(\<lambda>i. map_option (\<lambda>n. n - count_list ts i) (?g i)) =
      (\<lambda>i. map_option (\<lambda>n. n - count_list (t # ts) i) (g i))"
    using n by (auto simp: fun_eq_iff)
  have step: "release (t # ts) g q =
      Inr (\<lambda>i. map_option (\<lambda>n. n - count_list (t # ts) i) (g i), ?q @ new)"
    using n new(1) unfolding g by simp
  show ?case
  proof (cases "n = 1")
    case True
    then have "t \<notin> set ts" using n by (simp add: count_list_0_iff)
    then have new_set: "set new = {u \<in> set ts. g u = Some (count_list ts u)}"
      unfolding new(3) by (intro Collect_cong) (auto simp del: count_list.simps)
    have "distinct (t # new)" using new(2) new_set \<open>t \<notin> set ts\<close> by simp
    moreover have "set (t # new) = {u \<in> set (t # ts). g u = Some (count_list (t # ts) u)}"
    proof (intro set_eqI iffI)
      fix u assume "u \<in> set (t # new)"
      then show "u \<in> {u \<in> set (t # ts). g u = Some (count_list (t # ts) u)}"
        using new_set n(1) True \<open>t \<notin> set ts\<close> by (cases "u = t") simp_all
    next
      fix u assume "u \<in> {u \<in> set (t # ts). g u = Some (count_list (t # ts) u)}"
      then show "u \<in> set (t # new)"
        using new_set \<open>t \<notin> set ts\<close> by (cases "u = t") simp_all
    qed
    ultimately show ?thesis using step True by (intro exI [of _ "t # new"]) simp
  next
    case False
    have "t \<in> set ts" if "g t = Some (Suc (count_list ts t))"
      using that n False count_notin [of t ts] by fastforce
    then have "set new = {u \<in> set (t # ts). g u = Some (count_list (t # ts) u)}"
      unfolding new(3) using n by (intro Collect_cong) (case_tac "u = t", auto)
    then show ?thesis using step new(2) False n by (intro exI [of _ new]) simp
  qed
qed

lemma queue_ok_step:
  assumes ok: "queue_ok N edges visited (i # queue) g" and N: "set edges \<subseteq> N \<times> N"
  shows "\<exists>g' queue'. release (edge_targets edges i) g queue = Inr (g', queue') \<and>
    queue_ok N edges (i # visited) queue' g'"
proof -
  let ?ts = "edge_targets edges i"
  have i: "i \<in> N" "i \<notin> set visited" "i \<notin> set queue" and w0: "waiting edges visited i = 0"
    and g: "g = (\<lambda>i. if i \<in> N then Some (waiting edges visited i) else None)"
    and iff: "\<And>j. j \<in> N \<Longrightarrow> waiting edges visited j = 0 \<longleftrightarrow> j \<in> set (i # queue @ visited)"
    using ok by (auto simp: queue_ok_def)
  note w = waiting_visit [OF i(2), of edges]
  have ts: "set ?ts \<subseteq> N" using N by (auto simp: edge_targets_def)
  then have "\<forall>t \<in> set ?ts. \<exists>n. g t = Some n \<and> count_list ?ts t \<le> n"
    using w by (auto simp: g)
  from release_total [OF this, of queue] obtain new where new:
    "release ?ts g queue = Inr (\<lambda>i. map_option (\<lambda>n. n - count_list ?ts i) (g i), queue @ new)"
    "distinct new" "set new = {t \<in> set ?ts. g t = Some (count_list ?ts t)}" by blast
  have g': "(\<lambda>j. map_option (\<lambda>n. n - count_list ?ts j) (g j)) =
      (\<lambda>j. if j \<in> N then Some (waiting edges (i # visited) j) else None)"
    using w by (auto simp: g fun_eq_iff)
  have set_new: "j \<in> set new \<longleftrightarrow> j \<in> set ?ts \<and> waiting edges (i # visited) j = 0" for j
    using ts w [of j] by (auto simp: new(3) g)
  have fresh: "waiting edges visited j \<noteq> 0" if "j \<in> set ?ts" for j
    using that w [of j] by (simp add: count_list_0_iff)
  have "set ?ts \<inter> set (i # queue @ visited) = {}" using fresh iff ts by blast
  then have "distinct ((queue @ new) @ i # visited)"
    using ok new(2) set_new by (auto simp: queue_ok_def)
  moreover have "waiting edges (i # visited) j = 0 \<longleftrightarrow> j \<in> set ((queue @ new) @ i # visited)" if "j \<in> N" for j
    using iff [OF that] w [of j] by (auto simp: set_new count_list_0_iff)
  moreover have "set ((queue @ new) @ i # visited) \<subseteq> N"
    using ok ts set_new by (auto simp: queue_ok_def)
  moreover have "visit_order (set edges) (i # visited)"
    using ok w0 by (simp add: queue_ok_def waiting_0)
  ultimately have "queue_ok N edges (i # visited) (queue @ new)
      (\<lambda>j. map_option (\<lambda>n. n - count_list ?ts j) (g j))"
    unfolding queue_ok_def g' by blast
  with new(1) show ?thesis by blast
qed

lemma visit_queue_ok:
  assumes "queue_ok N edges visited queue g" and "set edges \<subseteq> N \<times> N"
  shows "\<exists>order g'. visit_queue edges g queue (length visited) = Inr (length order) \<and>
    queue_ok N edges order [] g'"
  using assms
proof (induction edges g queue "length visited" arbitrary: visited rule: visit_queue.induct)
  case (1 edges g)
  then show ?case by auto
next
  case (2 edges g i queue)
  from queue_ok_step [OF 2(2,3)] obtain g' queue' where
    r: "release (edge_targets edges i) g queue = Inr (g', queue')"
    and ok: "queue_ok N edges (i # visited) queue' g'" by blast
  have "\<exists>order g''. visit_queue edges g' queue' (length (i # visited)) = Inr (length order) \<and>
      queue_ok N edges order [] g''"
    using 2(1) [OF r refl _ ok 2(3)] by simp
  then show ?case by (simp add: r)
qed

lemma visit_order_rank:
  "visit_order E is \<Longrightarrow> distinct is \<Longrightarrow> t \<in> set is \<Longrightarrow> (f, t) \<in> E \<Longrightarrow>
   length (dropWhile (\<lambda>j. j \<noteq> f) is) < length (dropWhile (\<lambda>j. j \<noteq> t) is) \<and> f \<in> set is"
proof (induction "is")
  case (Cons i "is")
  have "length (dropWhile (\<lambda>j. j \<noteq> f) is) \<le> length is" by (rule length_dropWhile_le)
  with Cons show ?case by auto
qed simp

lemma cycle_check_exact:
  assumes "distinct (map fst objectives)" and "set edges \<subseteq> (fst ` set objectives) \<times> (fst ` set objectives)"
  shows "validate_acyclic objectives edges = Inr () \<longleftrightarrow> acyclic (set edges)"
proof -
  let ?N = "fst ` set objectives"
  let ?g = "\<lambda>i. if i \<in> ?N then Some (waiting edges [] i) else None"
  let ?q = "filter (\<lambda>i. ?g i = Some 0) (sort (map fst objectives))"
  have "count_list (map snd edges) i = waiting edges [] i" for i
    by (induction edges) (auto simp: waiting_def)
  then have count: "count_edges edges (\<lambda>i. if i \<in> ?N then Some 0 else None) = Inr ?g"
    using assms(2) by (subst count_edges_total) (auto simp: dom_def fun_eq_iff)
  have "queue_ok ?N edges [] ?q ?g"
    using assms(1) by (auto simp: queue_ok_def split: if_splits)
  from visit_queue_ok [OF this assms(2)] obtain order g' where
    visit: "visit_queue edges ?g ?q 0 = Inr (length order)" and ok: "queue_ok ?N edges order [] g'"
    by auto
  have "validate_acyclic objectives edges = Inr () \<longleftrightarrow> length order = length objectives"
    using visit by (simp add: validate_acyclic_def count)
  also have "length objectives = card ?N" using distinct_card [OF assms(1)] by simp
  also have "length order = card (set order)" using ok by (simp add: queue_ok_def distinct_card)
  also have "card (set order) = card ?N \<longleftrightarrow> set order = ?N"
    using card_subset_eq [of ?N "set order"] ok by (auto simp only: queue_ok_def append_Nil finite_imageI finite_set)
  also have "\<dots> \<longleftrightarrow> acyclic (set edges)"
  proof
    assume all: "set order = ?N"
    have "(f, t) \<in> measure (\<lambda>i. length (dropWhile (\<lambda>j. j \<noteq> i) order))" if "(f, t) \<in> set edges" for f t
    proof -
      have "t \<in> set order" using assms(2) that all by blast
      with visit_order_rank [of "set edges" order t f] ok that show ?thesis by (simp add: queue_ok_def)
    qed
    then have "set edges \<subseteq> measure (\<lambda>i. length (dropWhile (\<lambda>j. j \<noteq> i) order))" by auto
    then show "acyclic (set edges)" by (intro wf_acyclic wf_subset [OF wf_measure])
  next
    assume "acyclic (set edges)"
    then have wf: "wf (set edges)" by (simp add: finite_acyclic_wf)
    show "set order = ?N"
    proof (rule ccontr)
      assume "set order \<noteq> ?N"
      then obtain j where "j \<in> ?N - set order" using ok by (auto simp: queue_ok_def)
      from wfE_min [OF wf this] obtain i where i: "i \<in> ?N - set order"
        and min: "\<And>f. (f, i) \<in> set edges \<Longrightarrow> f \<notin> ?N - set order" by blast
      then have "waiting edges order i = 0" using assms(2) by (auto simp: waiting_0)
      then show False using ok i by (auto simp: queue_ok_def)
    qed
  qed
  finally show ?thesis .
qed

text \<open>C34 (equivalence): the queue that takes objectives without open predecessors visits all of
  them exactly when the graph has no cycle, for any objectives with different names and any edges
  between them.\<close>

theorem validate_acyclic_exact:
  assumes "distinct (map fst objectives)" and "set edges \<subseteq> (fst ` set objectives) \<times> (fst ` set objectives)"
  shows "validate_acyclic objectives edges = Inr () \<longleftrightarrow> acyclic (set edges)"
  by (rule cycle_check_exact [OF assms])

theorem validate_acyclic_exact_witness:
  "\<exists>x. validate_acyclic [(''a'', x), (''b'', x)] [(''a'', ''b''), (''b'', ''a'')] \<noteq> Inr ()"
proof -
  have "(''a'', ''a'') \<in> {(''a'', ''b''), (''b'', ''a'')}\<^sup>+"
    by (meson insertI1 insert_iff trancl.intros)
  then have "\<not> acyclic (set [(''a'', ''b''), (''b'', ''a'')])" by (auto simp: acyclic_def)
  then show ?thesis
    using validate_acyclic_exact [of "[(''a'', x), (''b'', x)]" "[(''a'', ''b''), (''b'', ''a'')]" for x] by auto
qed

section \<open>The whole graph\<close>

fun add_completed :: "string list \<Rightarrow> string list \<Rightarrow> activity_error + string list" where
  "add_completed [] completed = Inr completed"
| "add_completed (i # ids) completed =
    (if i \<in> set completed
     then Inl (''objective has multiple completion transitions: '' @ i)
     else add_completed ids (i # completed))"

fun add_edges ::
  "string \<Rightarrow> string list \<Rightarrow> (string \<times> string) list \<Rightarrow> activity_error + (string \<times> string) list" where
  "add_edges from [] edges = Inr edges"
| "add_edges from (to # targets) edges =
    (if from = to \<or> (from, to) \<in> set edges
     then Inl ''objective graph contains a self-edge or duplicate edge''
     else add_edges from targets (insort (from, to) edges))"

fun add_trigger_edges ::
  "string list \<Rightarrow> string list \<Rightarrow> (string \<times> string) list \<Rightarrow> activity_error + (string \<times> string) list" where
  "add_trigger_edges [] targets edges = Inr edges"
| "add_trigger_edges (from # sources) targets edges =
    and_then (add_edges from targets edges) (add_trigger_edges sources targets)"

fun collect_edges ::
  "trigger_definition list \<Rightarrow> string list \<times> (string \<times> string) list \<Rightarrow>
   activity_error + string list \<times> (string \<times> string) list" where
  "collect_edges [] acc = Inr acc"
| "collect_edges (d # triggers) (completed, edges) =
    and_then (add_completed (trigger_complete d) completed) (\<lambda>completed.
    and_then (add_trigger_edges (trigger_complete d) (trigger_activate d) edges) (\<lambda>edges.
    collect_edges triggers (completed, edges)))"

definition validate_activity_kind ::
  "string \<Rightarrow> objectives \<Rightarrow> trigger_definition list \<Rightarrow> authoring_route list \<Rightarrow> trigger_definition \<Rightarrow>
   activity_error + unit" where
  "validate_activity_kind activity_kind objectives triggers routes terminal =
    (if activity_kind = ''field_excursion'' then
       ensure (routes = [] \<and> length (trigger_complete terminal) = 1 \<and> trigger_activate terminal = [] \<and>
           (\<forall>(_, x) \<in> set objectives. objective_kind x = ReachArea) \<and>
           (\<forall>d \<in> set triggers. trigger_event d = ''AreaReached'' \<and> trigger_spawn_boss d = None \<and>
              trigger_open_door d = None))
         ''field excursions require area objectives and one final terminal, without combat, doors, or routes''
     else if activity_kind = ''campaign_chapter'' then
       ensure (routes = [] \<and> length (trigger_complete terminal) = 1 \<and>
           (\<forall>d \<in> set triggers. trigger_spawn_boss d = None \<and> trigger_open_door d = None))
         ''campaign chapters require one final objective and gateway staging, without route or spawn side effects''
     else
       ensure (trigger_complete terminal = [objective_as_str DefeatWarden])
         ''terminal trigger must complete defeat_warden exactly'')"

definition initially_active :: "objectives \<Rightarrow> string list" where
  "initially_active objectives =
    map (\<lambda>(_, x). Objectives.objective_id x)
      (filter (\<lambda>(_, x). Objectives.objective_state x = ActiveState) objectives)"

definition validate_objective_graph ::
  "objectives \<Rightarrow> trigger_definition list \<Rightarrow> authoring_route list \<Rightarrow> string \<Rightarrow> activity_error + unit" where
  "validate_objective_graph objectives triggers routes activity_kind =
    and_then (collect_edges triggers ([], [])) (\<lambda>(completed, edges).
    if \<exists>i \<in> set (map fst objectives). i \<notin> set completed
    then Inl ''every objective must have one authored completion transition''
    else
    and_then (validate_acyclic objectives edges) (\<lambda>_.
    let reachable = saturate edges (remdups (initially_active objectives));
        reachable = reachable @ concat (map (\<lambda>r. map objective_as_str (authored_path r)) routes) in
    case find (\<lambda>i. i \<notin> set reachable) (map fst objectives) of
      Some i \<Rightarrow> Inl (''objective is unreachable from baseline or route path: '' @ i)
    | None \<Rightarrow>
        and_then (ok_or ''activity terminal trigger is missing'' (find trigger_complete_activity triggers))
          (validate_activity_kind activity_kind objectives triggers routes)))"

text \<open>The edges of the authored triggers.\<close>

definition trigger_edges :: "trigger_definition list \<Rightarrow> (string \<times> string) set" where
  "trigger_edges triggers = (\<Union>d \<in> set triggers. set (trigger_complete d) \<times> set (trigger_activate d))"

lemma add_completed_Inr:
  "add_completed ids completed = Inr c \<longleftrightarrow>
     distinct ids \<and> set ids \<inter> set completed = {} \<and> c = rev ids @ completed"
  by (induction ids completed rule: add_completed.induct) auto

lemma add_edges_Inr: "add_edges f ts es = Inr es' \<Longrightarrow> set es' = {f} \<times> set ts \<union> set es"
  by (induction f ts es rule: add_edges.induct) (auto simp: set_insort_key split: if_splits)

lemma add_trigger_edges_Inr:
  "add_trigger_edges fs ts es = Inr es' \<Longrightarrow> set es' = set fs \<times> set ts \<union> set es"
  by (induction fs ts es rule: add_trigger_edges.induct) (auto simp: and_then_Inr dest!: add_edges_Inr)

lemma collect_edges_Inr:
  "collect_edges triggers (completed, edges) = Inr (c, es) \<Longrightarrow> distinct completed \<Longrightarrow>
     distinct (concat (map trigger_complete triggers)) \<and>
     set (concat (map trigger_complete triggers)) \<inter> set completed = {} \<and>
     set c = set (concat (map trigger_complete triggers)) \<union> set completed \<and>
     set es = trigger_edges triggers \<union> set edges"
proof (induction triggers "(completed, edges)" arbitrary: completed edges rule: collect_edges.induct)
  case (2 d triggers completed edges)
  from 2(2) obtain es1 where c1: "distinct (trigger_complete d)" "set (trigger_complete d) \<inter> set completed = {}"
    and e1: "add_trigger_edges (trigger_complete d) (trigger_activate d) edges = Inr es1"
    and r: "collect_edges triggers (rev (trigger_complete d) @ completed, es1) = Inr (c, es)"
    by (auto simp: and_then_Inr add_completed_Inr)
  have "distinct (rev (trigger_complete d) @ completed)" using c1 2(3) by auto
  from 2(1) [OF r this] c1 add_trigger_edges_Inr [OF e1] show ?case
    by (auto simp: add_completed_Inr trigger_edges_def)
qed (auto simp: trigger_edges_def)

lemma find_Some_set: "find P xs = Some x \<Longrightarrow> x \<in> set xs \<and> P x"
  by (auto simp: find_Some_iff)

lemma objective_graph_facts:
  assumes "validate_objective_graph objectives triggers routes activity_kind = Inr ()"
    and "distinct (map fst objectives)"
    and "\<forall>d \<in> set triggers. set (trigger_complete d) \<union> set (trigger_activate d) \<subseteq> fst ` set objectives"
  shows "distinct (concat (map trigger_complete triggers))"
    and "set (concat (map trigger_complete triggers)) = fst ` set objectives"
    and "acyclic (trigger_edges triggers)"
    and "routes = [] \<longrightarrow>
      fst ` set objectives \<subseteq> (trigger_edges triggers)\<^sup>* `` set (initially_active objectives)"
    and "\<exists>d \<in> set triggers. trigger_complete_activity d"
proof -
  from assms(1) obtain c es where ce: "collect_edges triggers ([], []) = Inr (c, es)"
    and all: "fst ` set objectives \<subseteq> set c" and acyc: "validate_acyclic objectives es = Inr ()"
    and reached: "\<forall>x \<in> set objectives. fst x \<in> set (saturate es (remdups (initially_active objectives))) \<or>
        (\<exists>r \<in> set routes. fst x \<in> objective_as_str ` set (authored_path r))"
    and final: "\<exists>d \<in> set triggers. trigger_complete_activity d"
    by (auto simp: validate_objective_graph_def and_then_Inr find_None_iff ok_or_Inr image_subset_iff
        dest!: find_Some_set split: if_splits option.splits)
  from reached have reach: "routes = [] \<longrightarrow>
      fst ` set objectives \<subseteq> set (saturate es (remdups (initially_active objectives)))" by auto
  note f = collect_edges_Inr [OF ce distinct.simps(1) [THEN iffD2, OF TrueI], simplified]
  show "distinct (concat (map trigger_complete triggers))" using f by simp
  show "set (concat (map trigger_complete triggers)) = fst ` set objectives"
    using f all assms(3) by auto
  have "set es \<subseteq> (fst ` set objectives) \<times> (fst ` set objectives)"
    using f assms(3) by (auto simp: trigger_edges_def)
  then show "acyclic (trigger_edges triggers)"
    using cycle_check_exact [OF assms(2)] acyc f by simp
  show "routes = [] \<longrightarrow>
      fst ` set objectives \<subseteq> (trigger_edges triggers)\<^sup>* `` set (initially_active objectives)"
    using reach f by (simp add: set_saturate)
  show "\<exists>d \<in> set triggers. trigger_complete_activity d"
    by (rule final)
qed

end
