(* ===== verification/Activities.thy ===== *)
theory Activities
  imports Activity_Graph Arsenal "HOL-Library.AList" "HOL-Library.Multiset"
begin

text \<open>
  Authored activities: the parser of \<open>runtime/activities/src/authoring.rs\<close> from a value of the Lua
  interpreter to a validated activity with its manifest, and the runtime of
  \<open>runtime/activities/src/lib.rs\<close>, which answers world triggers. Reading the file and running the
  interpreter are left out; a heap and a value stand for what the script returned.
\<close>

section \<open>Fields of a table\<close>

definition max_objectives :: nat where "max_objectives = 8"
definition max_triggers :: nat where "max_triggers = 12"
definition max_routes :: nat where "max_routes = 2"
definition max_events_per_route :: nat where "max_events_per_route = 2"
definition max_objective_target :: u32 where "max_objective_target = 100"
definition catalog_revision :: string where "catalog_revision = ''m27-v1''"

lemmas activity_consts = max_objectives_def max_triggers_def max_routes_def
  max_events_per_route_def max_objective_target_def catalog_revision_def

fun validate_map_pairs :: "(lua_value \<times> lua_value) list \<Rightarrow> string list \<Rightarrow> string \<Rightarrow> activity_error + unit" where
  "validate_map_pairs [] allowed context = Inr ()"
| "validate_map_pairs ((key, _) # ps) allowed context =
    (case key of
       LuaString k \<Rightarrow>
         if \<not> valid_utf8 k then Inl (context @ '' field must be UTF-8'')
         else if k \<notin> set allowed then Inl (''unknown '' @ context @ '' field: '' @ k)
         else validate_map_pairs ps allowed context
     | _ \<Rightarrow> Inl (context @ '' must use named string fields''))"

definition validate_map_keys :: "lua_heap \<Rightarrow> nat \<Rightarrow> string list \<Rightarrow> string \<Rightarrow> activity_error + unit" where
  "validate_map_keys h p allowed context = validate_map_pairs (table_pairs (h p)) allowed context"

fun sequence_indices ::
  "(lua_value \<times> lua_value) list \<Rightarrow> nat \<Rightarrow> nat list \<Rightarrow> string \<Rightarrow> activity_error + nat list" where
  "sequence_indices [] len indices context = Inr indices"
| "sequence_indices ((key, _) # ps) len indices context =
    (case key of
       LuaInteger n \<Rightarrow>
         if n < 0 then Inl (context @ '' index is invalid'')
         else if n = 0 \<or> int len < n \<or> nat n \<in> set indices
         then Inl (context @ '' must be a dense sequence'')
         else sequence_indices ps len (nat n # indices) context
     | _ \<Rightarrow> Inl (context @ '' must be a dense sequence''))"

definition validate_sequence_shape :: "lua_heap \<Rightarrow> nat \<Rightarrow> nat \<Rightarrow> string \<Rightarrow> activity_error + unit" where
  "validate_sequence_shape h p maximum context =
    (if has_metatable (h p) then Inl (context @ '' cannot have a metatable'')
     else if table_len (h p) > maximum
     then Inl (context @ '' contains '' @ show_nat (table_len (h p)) @ '' entries; maximum is '' @ show_nat maximum)
     else
       and_then (sequence_indices (table_pairs (h p)) (table_len (h p)) [] context) (\<lambda>indices.
       if length indices \<noteq> table_len (h p) then Inl (context @ '' must be a dense sequence'') else Inr ()))"

definition required_field ::
  "(lua_value \<Rightarrow> string + 'a) \<Rightarrow> lua_heap \<Rightarrow> nat \<Rightarrow> string \<Rightarrow> string \<Rightarrow> activity_error + 'a" where
  "required_field cast h p key context =
    map_err (\<lambda>e. ''invalid or missing '' @ context @ ''.'' @ key @ '': '' @ e) (cast (lua_get h p (LuaString key)))"

text \<open>The conversion to an \<open>Option\<close> takes nil to \<open>None\<close>.\<close>

definition optional_field ::
  "(lua_value \<Rightarrow> string + 'a) \<Rightarrow> lua_heap \<Rightarrow> nat \<Rightarrow> string \<Rightarrow> string \<Rightarrow> activity_error + 'a option" where
  "optional_field cast h p key context =
    (let v = lua_get h p (LuaString key) in
     if v = LuaNil then Inr None
     else map_err (\<lambda>e. ''invalid '' @ context @ ''.'' @ key @ '': '' @ e) (and_then (cast v) (\<lambda>x. Inr (Some x))))"

definition required_table :: "lua_casts \<Rightarrow> lua_heap \<Rightarrow> nat \<Rightarrow> string \<Rightarrow> string \<Rightarrow> activity_error + nat" where
  "required_table c h p key context = required_field (cast_table c) h p key context"

definition validate_identifier :: "string \<Rightarrow> string \<Rightarrow> activity_error + unit" where
  "validate_identifier s context =
    ensure (s \<noteq> [] \<and> length s \<le> max_activity_id_bytes \<and>
        (\<forall>b \<in> set s. 97 \<le> byte b \<and> byte b \<le> 122 \<or> 48 \<le> byte b \<and> byte b \<le> 57 \<or> b = CHR ''_''))
      (context @ '' must match [a-z0-9_]{1,32}'')"

definition validate_unique_references :: "string list \<Rightarrow> string \<Rightarrow> activity_error + unit" where
  "validate_unique_references ids context =
    ensure (length (remdups ids) = length ids) (context @ '' contains a duplicate objective'')"

fun cast_identifiers :: "lua_casts \<Rightarrow> string \<Rightarrow> lua_value list \<Rightarrow> activity_error + string list" where
  "cast_identifiers c key [] = Inr []"
| "cast_identifiers c key (v # vs) =
    and_then (cast_string c v) (\<lambda>s.
    and_then (validate_identifier s key) (\<lambda>_.
    and_then (cast_identifiers c key vs) (\<lambda>ss. Inr (s # ss))))"

definition optional_string_sequence ::
  "lua_casts \<Rightarrow> lua_heap \<Rightarrow> nat \<Rightarrow> string \<Rightarrow> nat \<Rightarrow> string \<Rightarrow> activity_error + string list" where
  "optional_string_sequence c h p key maximum context =
    and_then (optional_field (cast_table c) h p key context) (\<lambda>t. case t of
      None \<Rightarrow> Inr []
    | Some t \<Rightarrow>
        and_then (validate_sequence_shape h t maximum key) (\<lambda>_.
        cast_identifiers c key (lua_sequence h t)))"

section \<open>Rewards\<close>

fun inventory_error_text :: "inventory_error \<Rightarrow> string" where
  "inventory_error_text (UnknownItem item) = ''unknown inventory item: '' @ item"
| "inventory_error_text ZeroQuantity = ''inventory quantity must be positive''"

fun progression_error_text :: "progression_error \<Rightarrow> string" where
  "progression_error_text ZeroExperience = ''experience reward must be positive''"
| "progression_error_text (ExcessiveExperience e) =
     ''experience reward exceeds server limit: '' @ show_nat (unat e)"

definition parse_reward ::
  "lua_casts \<Rightarrow> lua_heap \<Rightarrow> nat \<Rightarrow> string \<Rightarrow> activity_error + item_reward \<times> string \<times> u32" where
  "parse_reward c h p context =
    and_then (validate_map_keys h p [''item_id'', ''quantity''] context) (\<lambda>_.
    and_then (required_field (cast_string c) h p ''item_id'' context) (\<lambda>item.
    and_then (validate_identifier item ''reward item id'') (\<lambda>_.
    and_then (required_field (cast_u32 c) h p ''quantity'' context) (\<lambda>quantity.
    and_then (map_err inventory_error_text (reward_validated item quantity)) (\<lambda>reward.
    Inr (reward, item, quantity))))))"

definition parse_progression ::
  "lua_casts \<Rightarrow> lua_heap \<Rightarrow> nat \<Rightarrow> string \<Rightarrow> activity_error + experience_reward" where
  "parse_progression c h p context =
    and_then (validate_map_keys h p [''experience''] context) (\<lambda>_.
    and_then (required_field (cast_u64 c) h p ''experience'' context) (\<lambda>e.
    map_err progression_error_text (experience_validated e)))"

section \<open>Objectives\<close>

record authoring_objective =
  authored_id :: string
  authored_kind :: string
  authored_state :: string
  authored_target :: u32

definition parse_kind :: "string \<Rightarrow> activity_error + objective_kind" where
  "parse_kind text =
    (if text = ''KillActors'' then Inr KillActors
     else if text = ''ReachArea'' then Inr ReachArea
     else if text = ''Boss'' then Inr BossKind
     else Inl (''unknown objective kind: '' @ text))"

definition parse_state :: "string \<Rightarrow> activity_error + objective_state" where
  "parse_state text =
    (if text = ''Pending'' then Inr PendingState
     else if text = ''Active'' then Inr ActiveState
     else Inl (''invalid initial objective state: '' @ text))"

definition parse_objective ::
  "lua_casts \<Rightarrow> lua_heap \<Rightarrow> nat \<Rightarrow> nat \<Rightarrow> activity_error + objective \<times> authoring_objective" where
  "parse_objective c h index p =
    (let context = ''objective '' @ show_nat (index + 1) in
     and_then (validate_map_keys h p [''id'', ''kind'', ''state'', ''target''] context) (\<lambda>_.
     and_then (required_field (cast_string c) h p ''id'' context) (\<lambda>i.
     and_then (validate_identifier i ''objective id'') (\<lambda>_.
     and_then (required_field (cast_string c) h p ''kind'' context) (\<lambda>kind_text.
     and_then (parse_kind kind_text) (\<lambda>kind.
     and_then (required_field (cast_string c) h p ''state'' context) (\<lambda>state_text.
     and_then (parse_state state_text) (\<lambda>state.
     and_then (required_field (cast_u32 c) h p ''target'' context) (\<lambda>target.
     if target < 1 \<or> max_objective_target < target
     then Inl (''objective target must be 1-'' @ show_nat (unat max_objective_target))
     else Inr (\<lparr> objective_id = i, objective_kind = kind, objective_state = state,
                 objective_progress = 0, objective_target = target \<rparr>,
               \<lparr> authored_id = i, authored_kind = kind_text, authored_state = state_text,
                 authored_target = target \<rparr>))))))))))"

fun parse_objective_list ::
  "lua_casts \<Rightarrow> lua_heap \<Rightarrow> nat \<Rightarrow> lua_value list \<Rightarrow> objectives \<times> authoring_objective list \<times> nat \<Rightarrow>
   activity_error + objectives \<times> authoring_objective list \<times> nat" where
  "parse_objective_list c h index [] acc = Inr acc"
| "parse_objective_list c h index (v # vs) (objectives, manifest, active_count) =
    and_then (cast_table c v) (\<lambda>p.
    and_then (parse_objective c h index p) (\<lambda>(x, a).
    let i = objective_id x in
    if i \<in> fst ` set objectives then Inl (''duplicate objective id: '' @ i)
    else parse_objective_list c h (index + 1) vs
      (objectives @ [(i, x)], manifest @ [a],
       if objective_state x = ActiveState then active_count + 1 else active_count)))"

definition parse_objectives ::
  "lua_casts \<Rightarrow> lua_heap \<Rightarrow> nat \<Rightarrow> activity_error + objectives \<times> string list \<times> authoring_objective list" where
  "parse_objectives c h p =
    and_then (validate_sequence_shape h p max_objectives ''objectives'') (\<lambda>_.
    if table_len (h p) = 0 then Inl ''activity requires at least one objective''
    else
    and_then (parse_objective_list c h 0 (lua_sequence h p) ([], [], 0)) (\<lambda>(objectives, manifest, active_count).
    if active_count \<noteq> 1 then Inl ''activity must contain exactly one initially active objective''
    else Inr (objectives, map fst objectives, manifest)))"

section \<open>Triggers\<close>

text \<open>The manifest repeats a trigger field by field.\<close>

type_synonym authoring_trigger = trigger_definition

definition parse_trigger_effects ::
  "lua_casts \<Rightarrow> lua_heap \<Rightarrow> nat \<Rightarrow> string \<Rightarrow> string \<Rightarrow> string \<Rightarrow> string list \<Rightarrow> string list \<Rightarrow>
   activity_error + trigger_definition \<times> authoring_trigger" where
  "parse_trigger_effects c h p context event subject completes activates =
    and_then (optional_field (cast_string c) h p ''open_door'' context) (\<lambda>open_door.
    and_then (optional_field (cast_string c) h p ''spawn_boss'' context) (\<lambda>spawn_boss.
    and_then (case open_door of None \<Rightarrow> Inr () | Some i \<Rightarrow> validate_identifier i ''door id'') (\<lambda>_.
    and_then (case spawn_boss of None \<Rightarrow> Inr () | Some i \<Rightarrow> validate_identifier i ''boss archetype'') (\<lambda>_.
    and_then (optional_field (cast_bool c) h p ''complete_activity'' context) (\<lambda>flag.
    let complete_activity = (case flag of None \<Rightarrow> False | Some b \<Rightarrow> b) in
    if complete_activity \<and> (activates \<noteq> [] \<or> open_door \<noteq> None \<or> spawn_boss \<noteq> None)
    then Inl ''terminal trigger cannot activate or spawn later state''
    else if completes = [] \<and> activates = [] \<and> open_door = None \<and> spawn_boss = None \<and> \<not> complete_activity
    then Inl ''trigger must have one bounded effect''
    else
      let d = \<lparr> trigger_event = event, trigger_subject = subject, trigger_complete = completes,
                trigger_activate = activates, trigger_open_door = open_door,
                trigger_spawn_boss = spawn_boss, trigger_complete_activity = complete_activity \<rparr>
      in Inr (d, d))))))"

definition parse_trigger ::
  "lua_casts \<Rightarrow> lua_heap \<Rightarrow> nat \<Rightarrow> nat \<Rightarrow> objectives \<Rightarrow> activity_error + trigger_definition \<times> authoring_trigger" where
  "parse_trigger c h p index objectives =
    (let context = ''trigger '' @ show_nat (index + 1) in
     and_then (validate_map_keys h p
       [''event'', ''subject'', ''complete'', ''activate'', ''open_door'', ''spawn_boss'', ''complete_activity'']
       context) (\<lambda>_.
     and_then (required_field (cast_string c) h p ''event'' context) (\<lambda>event.
     and_then (ensure (event = ''ActorGroupDead'' \<or> event = ''AreaReached'')
       (''unknown trigger event: '' @ event)) (\<lambda>_.
     and_then (required_field (cast_string c) h p ''subject'' context) (\<lambda>subject.
     and_then (validate_identifier subject ''trigger subject'') (\<lambda>_.
     and_then (optional_string_sequence c h p ''complete'' max_objectives context) (\<lambda>completes.
     and_then (optional_string_sequence c h p ''activate'' max_objectives context) (\<lambda>activates.
     and_then (validate_unique_references completes ''trigger complete'') (\<lambda>_.
     and_then (validate_unique_references activates ''trigger activate'') (\<lambda>_.
     case find (\<lambda>i. i \<notin> fst ` set objectives) (completes @ activates) of
       Some i \<Rightarrow> Inl (''trigger references unknown objective: '' @ i)
     | None \<Rightarrow>
         if \<exists>i \<in> set completes. i \<in> set activates
         then Inl ''trigger cannot complete and activate the same objective''
         else parse_trigger_effects c h p context event subject completes activates))))))))))"

fun parse_trigger_list ::
  "lua_casts \<Rightarrow> lua_heap \<Rightarrow> objectives \<Rightarrow> nat \<Rightarrow> lua_value list \<Rightarrow>
   trigger_definition list \<times> authoring_trigger list \<times> (string \<times> string) list \<times> nat \<Rightarrow>
   activity_error + trigger_definition list \<times> authoring_trigger list \<times> (string \<times> string) list \<times> nat" where
  "parse_trigger_list c h objectives index [] acc = Inr acc"
| "parse_trigger_list c h objectives index (v # vs) (triggers, manifest, identities, terminal_count) =
    and_then (cast_table c v) (\<lambda>p.
    and_then (parse_trigger c h p index objectives) (\<lambda>(d, a).
    let i = (trigger_event d, trigger_subject d) in
    if i \<in> set identities
    then Inl (''duplicate trigger identity: '' @ trigger_event d @ ''/'' @ trigger_subject d)
    else parse_trigger_list c h objectives (index + 1) vs
      (triggers @ [d], manifest @ [a], i # identities,
       if trigger_complete_activity d then terminal_count + 1 else terminal_count)))"

definition parse_triggers ::
  "lua_casts \<Rightarrow> lua_heap \<Rightarrow> nat \<Rightarrow> objectives \<Rightarrow>
   activity_error + trigger_definition list \<times> authoring_trigger list" where
  "parse_triggers c h p objectives =
    and_then (validate_sequence_shape h p max_triggers ''triggers'') (\<lambda>_.
    if table_len (h p) = 0 then Inl ''activity requires at least one trigger''
    else
    and_then (parse_trigger_list c h objectives 0 (lua_sequence h p) ([], [], [], 0))
      (\<lambda>(triggers, manifest, _, terminal_count).
    if terminal_count \<noteq> 1 then Inl ''activity must contain exactly one terminal trigger''
    else Inr (triggers, manifest)))"

section \<open>Routes\<close>

definition route_objective_id :: "string \<Rightarrow> activity_error + objective_id" where
  "route_objective_id s =
    ok_or (''unknown route objective: '' @ s)
      (find (\<lambda>i. objective_as_str i = s) [ClearDroneGroup, ReachRelayStabilizer, ReachRelayDoor, DefeatWarden])"

definition route_event_id :: "string \<Rightarrow> activity_error + event_id" where
  "route_event_id s = ok_or (''unknown route event: '' @ s) (find (\<lambda>i. event_as_str i = s) all_events)"

fun parse_path_list ::
  "lua_casts \<Rightarrow> objectives \<Rightarrow> lua_value list \<Rightarrow> objective_id list \<Rightarrow> activity_error + objective_id list" where
  "parse_path_list c objectives [] path = Inr path"
| "parse_path_list c objectives (v # vs) path =
    and_then (cast_string c v) (\<lambda>s.
    if s \<notin> fst ` set objectives then Inl (''route path references unknown objective: '' @ s)
    else
    and_then (route_objective_id s) (\<lambda>i.
    if i \<in> set path then Inl (''route path repeats objective: '' @ s)
    else parse_path_list c objectives vs (path @ [i])))"

definition parse_route_objective_path ::
  "lua_casts \<Rightarrow> lua_heap \<Rightarrow> nat \<Rightarrow> objectives \<Rightarrow> activity_error + objective_id list" where
  "parse_route_objective_path c h p objectives =
    and_then (validate_sequence_shape h p max_route_objectives ''route objective path'') (\<lambda>_.
    if table_len (h p) < 3 then Inl ''route objective path requires three or four entries''
    else parse_path_list c objectives (lua_sequence h p) [])"

fun parse_event_list ::
  "lua_casts \<Rightarrow> lua_heap \<Rightarrow> route_id \<Rightarrow> nat \<Rightarrow> lua_value list \<Rightarrow> authoring_route_event list \<Rightarrow>
   activity_error + authoring_route_event list" where
  "parse_event_list c h r index [] events = Inr events"
| "parse_event_list c h r index (v # vs) events =
    and_then (cast_table c v) (\<lambda>p.
    let context = ''route event '' @ show_nat (index + 1);
        expected = (let (a, b) = def_events (route_definition_of r) in [a, b]) in
    and_then (validate_map_keys h p [''id'', ''warden_health_basis_points'', ''warden_counter_damage''] context) (\<lambda>_.
    and_then (required_field (cast_string c) h p ''id'' context) (\<lambda>s.
    and_then (route_event_id s) (\<lambda>e.
    if e \<noteq> expected ! index
    then Inl (''route '' @ route_as_str r @ '' events must use canonical catalog order'')
    else
    and_then (required_field (cast_u32 c) h p ''warden_health_basis_points'' context) (\<lambda>health.
    and_then (required_field (cast_u32 c) h p ''warden_counter_damage'' context) (\<lambda>counter.
    let effect = def_effect (event_definition_of e) in
    if health \<noteq> warden_health_basis_points effect \<or> counter \<noteq> warden_counter_damage effect
    then Inl (''event '' @ event_as_str e @ '' effect does not match '' @ catalog_revision)
    else parse_event_list c h r (index + 1) vs
      (events @ [\<lparr> authored_event = e, authored_health_basis_points = health,
                   authored_counter_damage = counter \<rparr>])))))))"

definition parse_route_events ::
  "lua_casts \<Rightarrow> lua_heap \<Rightarrow> nat \<Rightarrow> route_id \<Rightarrow> activity_error + authoring_route_event list" where
  "parse_route_events c h p r =
    and_then (validate_sequence_shape h p max_events_per_route ''route events'') (\<lambda>_.
    if table_len (h p) \<noteq> max_events_per_route then Inl ''route must contain exactly two event definitions''
    else parse_event_list c h r 0 (lua_sequence h p) [])"

definition route_error_text :: "route_error \<Rightarrow> string" where
  "route_error_text e = (case e of UnknownRoute s \<Rightarrow> ''unknown route: '' @ s | _ \<Rightarrow> [])"

fun parse_route_list ::
  "lua_casts \<Rightarrow> lua_heap \<Rightarrow> objectives \<Rightarrow> nat \<Rightarrow> lua_value list \<Rightarrow> authoring_route list \<Rightarrow>
   activity_error + authoring_route list" where
  "parse_route_list c h objectives index [] routes = Inr routes"
| "parse_route_list c h objectives index (v # vs) routes =
    and_then (cast_table c v) (\<lambda>p.
    let context = ''route '' @ show_nat (index + 1) in
    and_then (validate_map_keys h p
      [''id'', ''duration_ms'', ''reward'', ''progression'', ''objective_path'', ''events''] context) (\<lambda>_.
    and_then (required_field (cast_string c) h p ''id'' context) (\<lambda>s.
    and_then (map_err route_error_text (route_from_str s)) (\<lambda>r.
    if r \<noteq> all_routes ! index then Inl ''routes must use canonical catalog order''
    else
    let expected = route_definition_of r in
    and_then (required_field (cast_u64 c) h p ''duration_ms'' context) (\<lambda>duration.
    if duration \<noteq> def_duration_ms expected
    then Inl (''route '' @ route_as_str r @ '' duration does not match '' @ catalog_revision)
    else
    and_then (required_table c h p ''reward'' context) (\<lambda>reward_table.
    and_then (parse_reward c h reward_table ''route reward'') (\<lambda>(_, item, quantity).
    if item \<noteq> relay_core_fragment \<or> quantity \<noteq> reward_fragments (def_reward expected)
    then Inl (''route '' @ route_as_str r @ '' reward does not match '' @ catalog_revision)
    else
    and_then (required_table c h p ''progression'' context) (\<lambda>progression_table.
    and_then (parse_progression c h progression_table ''route progression'') (\<lambda>experience.
    if experience_of experience \<noteq> reward_experience (def_reward expected)
    then Inl (''route '' @ route_as_str r @ '' experience does not match '' @ catalog_revision)
    else
    and_then (required_table c h p ''objective_path'' context) (\<lambda>path_table.
    and_then (parse_route_objective_path c h path_table objectives) (\<lambda>path.
    if path \<noteq> def_objectives expected
    then Inl (''route '' @ route_as_str r @ '' objective path does not match '' @ catalog_revision)
    else
    and_then (required_table c h p ''events'' context) (\<lambda>event_table.
    and_then (parse_route_events c h event_table r) (\<lambda>events.
    parse_route_list c h objectives (index + 1) vs
      (routes @ [\<lparr> authored_route = r, authored_duration_ms = duration, authored_reward_item = item,
                   authored_reward_quantity = quantity, authored_experience = experience_of experience,
                   authored_path = path, authored_events = events \<rparr>]))))))))))))))"

definition parse_routes ::
  "lua_casts \<Rightarrow> lua_heap \<Rightarrow> nat \<Rightarrow> string option \<Rightarrow> objectives \<Rightarrow> activity_error + authoring_route list" where
  "parse_routes c h p revision objectives =
    and_then (optional_field (cast_table c) h p ''routes'' ''activity'') (\<lambda>tables.
    case (revision, tables) of
      (None, None) \<Rightarrow> Inr []
    | (None, Some _) \<Rightarrow> Inl ''routed activity requires an authoring revision''
    | (Some _, None) \<Rightarrow> Inl ''authoring revision requires exactly two routes''
    | (Some revision, Some t) \<Rightarrow>
        if revision \<noteq> catalog_revision then Inl (''unknown activity authoring revision: '' @ revision)
        else
        and_then (validate_sequence_shape h t max_routes ''routes'') (\<lambda>_.
        if table_len (h t) \<noteq> max_routes then Inl ''activity must contain exactly two routes''
        else parse_route_list c h objectives 0 (lua_sequence h t) []))"

section \<open>The whole activity\<close>

record authoring_limits =
  limit_source_bytes :: nat
  limit_memory_bytes :: nat
  limit_instructions :: u32
  limit_string_bytes :: nat
  limit_tables :: nat
  limit_values :: nat
  limit_objectives :: nat
  limit_triggers :: nat
  limit_routes :: nat
  limit_events_per_route :: nat
  limit_objectives_per_route :: nat

definition authoring_limits :: authoring_limits where
  "authoring_limits =
    \<lparr> limit_source_bytes = max_activity_lua_bytes, limit_memory_bytes = max_activity_lua_memory_bytes,
      limit_instructions = max_activity_lua_instructions, limit_string_bytes = max_authoring_string_bytes,
      limit_tables = max_authoring_tables, limit_values = max_authoring_values,
      limit_objectives = max_objectives, limit_triggers = max_triggers, limit_routes = max_routes,
      limit_events_per_route = max_events_per_route, limit_objectives_per_route = max_route_objectives \<rparr>"

record activity_manifest =
  manifest_schema :: string
  manifest_id :: string
  manifest_kind :: string
  manifest_revision :: "string option"
  supports_compatibility_baseline :: bool
  source_size_bytes :: nat
  manifest_reward_item :: string
  manifest_reward_quantity :: u32
  manifest_experience :: u64
  manifest_objectives :: "authoring_objective list"
  manifest_triggers :: "authoring_trigger list"
  manifest_routes :: "authoring_route list"
  manifest_limits :: authoring_limits

record parsed_activity =
  parsed_id :: string
  parsed_reward :: item_reward
  parsed_experience :: experience_reward
  parsed_objectives :: objectives
  parsed_order :: "string list"
  parsed_triggers :: "trigger_definition list"
  parsed_manifest :: activity_manifest

definition parse_activity_kind :: "string option \<Rightarrow> activity_error + string" where
  "parse_activity_kind kind =
    (case kind of
       None \<Rightarrow> Inr ''mission''
     | Some k \<Rightarrow>
         if k = ''field_excursion'' then Inr ''field_excursion''
         else if k = ''campaign_chapter'' then Inr ''campaign_chapter''
         else Inl ''unknown activity kind'')"

definition parse_definition :: "lua_casts \<Rightarrow> lua_heap \<Rightarrow> nat \<Rightarrow> nat \<Rightarrow> activity_error + parsed_activity" where
  "parse_definition c h p source_len =
    and_then (validate_map_keys h p
      [''id'', ''authoring_revision'', ''kind'', ''reward'', ''progression'', ''objectives'', ''triggers'', ''routes'']
      ''activity'') (\<lambda>_.
    and_then (required_field (cast_string c) h p ''id'' ''activity'') (\<lambda>i.
    and_then (validate_identifier i ''activity id'') (\<lambda>_.
    and_then (optional_field (cast_string c) h p ''kind'' ''activity'') (\<lambda>kind_text.
    and_then (parse_activity_kind kind_text) (\<lambda>kind.
    and_then (optional_field (cast_string c) h p ''authoring_revision'' ''activity'') (\<lambda>revision.
    and_then (required_table c h p ''reward'' ''activity'') (\<lambda>reward_table.
    and_then (parse_reward c h reward_table ''activity reward'') (\<lambda>(reward, item, quantity).
    and_then (required_table c h p ''progression'' ''activity'') (\<lambda>progression_table.
    and_then (parse_progression c h progression_table ''activity progression'') (\<lambda>experience.
    and_then (required_table c h p ''objectives'' ''activity'') (\<lambda>objective_tables.
    and_then (parse_objectives c h objective_tables) (\<lambda>(objectives, order, objective_manifest).
    and_then (required_table c h p ''triggers'' ''activity'') (\<lambda>trigger_tables.
    and_then (parse_triggers c h trigger_tables objectives) (\<lambda>(triggers, trigger_manifest).
    and_then (parse_routes c h p revision objectives) (\<lambda>routes.
    and_then (validate_objective_graph objectives triggers routes kind) (\<lambda>_.
    Inr \<lparr> parsed_id = i, parsed_reward = reward, parsed_experience = experience,
          parsed_objectives = objectives, parsed_order = order, parsed_triggers = triggers,
          parsed_manifest =
            \<lparr> manifest_schema = ''RevenantActivityAuthoringV1'', manifest_id = i, manifest_kind = kind,
              manifest_revision = revision, supports_compatibility_baseline = (kind = ''mission''),
              source_size_bytes = source_len, manifest_reward_item = item,
              manifest_reward_quantity = quantity, manifest_experience = experience_of experience,
              manifest_objectives = objective_manifest, manifest_triggers = trigger_manifest,
              manifest_routes = routes, manifest_limits = authoring_limits \<rparr> \<rparr>))))))))))))))))"

text \<open>The interpreter gives an error or a heap and a value; \<open>run\<close> stands for it.\<close>

definition parse_activity_source ::
  "lua_casts \<Rightarrow> (string \<Rightarrow> activity_error + lua_heap \<times> lua_value) \<Rightarrow> string \<Rightarrow> activity_error + parsed_activity" where
  "parse_activity_source c run source =
    (if length source > max_activity_lua_bytes
     then Inl (''activity Lua source is '' @ show_nat (length source) @ '' bytes; maximum is '' @
            show_nat max_activity_lua_bytes)
     else
     and_then (run source) (\<lambda>(h, v).
     and_then (validate_static_graph h v) (\<lambda>_.
     case v of
       LuaTable p \<Rightarrow> parse_definition c h p (length source)
     | _ \<Rightarrow> Inl ''activity Lua must return one declarative table'')))"

section \<open>The runtime\<close>

datatype activity_event =
    Started string
  | ObjectiveUpdated objective
  | DoorOpened string
  | BossRequested string
  | ActivityCompleted string

record scripted_activity =
  script_id :: string
  script_reward :: item_reward
  script_experience :: experience_reward
  script_objectives :: objectives
  script_order :: "string list"
  script_triggers :: "trigger_definition list"
  script_manifest :: activity_manifest

definition from_parsed :: "parsed_activity \<Rightarrow> scripted_activity" where
  "from_parsed a =
    \<lparr> script_id = parsed_id a, script_reward = parsed_reward a, script_experience = parsed_experience a,
      script_objectives = parsed_objectives a, script_order = parsed_order a,
      script_triggers = parsed_triggers a, script_manifest = parsed_manifest a \<rparr>"

definition activity_start :: "scripted_activity \<Rightarrow> activity_event list" where
  "activity_start s =
    Started (script_id s) #
      List.map_filter (\<lambda>i. case map_of (script_objectives s) i of
          None \<Rightarrow> None
        | Some x \<Rightarrow> if objective_state x = ActiveState then Some (ObjectiveUpdated x) else None)
        (script_order s)"

definition objective_snapshot :: "scripted_activity \<Rightarrow> activity_event list" where
  "objective_snapshot s =
    List.map_filter (\<lambda>i. map_option ObjectiveUpdated (map_of (script_objectives s) i)) (script_order s)"

definition complete_objective :: "objective \<Rightarrow> objective" where
  "complete_objective x = x\<lparr> objective_progress := objective_target x, objective_state := CompletedState \<rparr>"

definition activate_objective :: "objective \<Rightarrow> objective" where
  "activate_objective x = x\<lparr> objective_state := ActiveState \<rparr>"

text \<open>The loops over \<open>complete\<close> and \<open>activate\<close>: a change to every known objective of the list.\<close>

fun update_objectives ::
  "(objective \<Rightarrow> objective) \<Rightarrow> string list \<Rightarrow> objectives \<Rightarrow> activity_event list \<times> objectives" where
  "update_objectives f [] xs = ([], xs)"
| "update_objectives f (i # ids) xs =
    (case map_of xs i of
       None \<Rightarrow> update_objectives f ids xs
     | Some x \<Rightarrow>
         let (events, xs) = update_objectives f ids (AList.update i (f x) xs)
         in (ObjectiveUpdated (f x) # events, xs))"

definition trigger_key :: "world_trigger \<Rightarrow> string \<times> string" where
  "trigger_key w =
    (case w of ActorGroupDead g \<Rightarrow> (''ActorGroupDead'', g) | AreaReached a \<Rightarrow> (''AreaReached'', a))"

definition definition_key :: "trigger_definition \<Rightarrow> string \<times> string" where
  "definition_key d = (trigger_event d, trigger_subject d)"

definition apply_trigger :: "world_trigger \<Rightarrow> scripted_activity \<Rightarrow> activity_event list \<times> scripted_activity" where
  "apply_trigger w s =
    (case find (\<lambda>d. definition_key d = trigger_key w) (script_triggers s) of
       None \<Rightarrow> ([], s)
     | Some d \<Rightarrow>
         let (completed, xs) = update_objectives complete_objective (trigger_complete d) (script_objectives s);
             (activated, xs) = update_objectives activate_objective (trigger_activate d) xs
         in (completed @ activated
              @ (case trigger_open_door d of None \<Rightarrow> [] | Some i \<Rightarrow> [DoorOpened i])
              @ (case trigger_spawn_boss d of None \<Rightarrow> [] | Some b \<Rightarrow> [BossRequested b])
              @ (if trigger_complete_activity d then [ActivityCompleted (script_id s)] else []),
             s\<lparr> script_objectives := xs \<rparr>))"

text \<open>A history of world triggers.\<close>

fun play :: "world_trigger list \<Rightarrow> scripted_activity \<Rightarrow> activity_event list \<times> scripted_activity" where
  "play [] s = ([], s)"
| "play (w # ws) s =
    (let (events, s) = apply_trigger w s; (rest, s) = play ws s in (events @ rest, s))"

section \<open>What the parser guarantees\<close>

definition fresh_objectives :: "objectives \<Rightarrow> bool" where
  "fresh_objectives xs \<longleftrightarrow>
     distinct (map fst xs) \<and>
     (\<forall>(i, x) \<in> set xs. objective_id x = i \<and> objective_progress x = 0 \<and>
        objective_state x \<in> {PendingState, ActiveState} \<and> 0 < objective_target x)"

lemma parse_kind_state:
  "parse_state t = Inr s \<Longrightarrow> s \<in> {PendingState, ActiveState}"
  by (auto simp: parse_state_def split: if_splits)

lemma parse_objective_Inr:
  assumes "parse_objective c h n p = Inr (x, m)"
  shows "objective_progress x = 0 \<and> objective_state x \<in> {PendingState, ActiveState} \<and> 0 < objective_target x"
proof -
  from assms obtain st t where "parse_state t = Inr (objective_state x)" "objective_progress x = 0"
    "\<not> objective_target x < 1"
    by (auto simp: parse_objective_def Let_def and_then_Inr split: if_splits)
  then show ?thesis using parse_kind_state [of t] by (auto simp: word_less_1 word_gt_0)
qed

lemma parse_objective_list_Inr:
  "parse_objective_list c h n vs (xs, m, k) = Inr (xs', m', k') \<Longrightarrow> fresh_objectives xs \<Longrightarrow>
   fresh_objectives xs'"
proof (induction vs arbitrary: n xs m k)
  case (Cons v vs)
  from Cons(2) obtain p x a where x: "parse_objective c h n p = Inr (x, a)"
    and new: "objective_id x \<notin> fst ` set xs"
    and r: "parse_objective_list c h (n + 1) vs (xs @ [(objective_id x, x)], m @ [a],
       if objective_state x = ActiveState then k + 1 else k) = Inr (xs', m', k')"
    by (auto simp: and_then_Inr Let_def split: if_splits prod.splits)
  have "fresh_objectives (xs @ [(objective_id x, x)])"
    using Cons(3) new parse_objective_Inr [OF x] by (auto simp: fresh_objectives_def)
  then show ?case by (rule Cons(1) [OF r])
qed simp

lemma parse_trigger_effects_Inr:
  assumes "parse_trigger_effects c h p context event subject completes activates = Inr (d, a)"
  shows "trigger_event d = event \<and> trigger_complete d = completes \<and> trigger_activate d = activates \<and>
    (trigger_complete_activity d \<longrightarrow> activates = [] \<and> trigger_open_door d = None \<and> trigger_spawn_boss d = None)"
  using assms by (auto simp: parse_trigger_effects_def Let_def and_then_Inr split: if_splits)

lemma parse_trigger_Inr:
  assumes "parse_trigger c h p n xs = Inr (d, a)"
  shows "trigger_event d \<in> {''ActorGroupDead'', ''AreaReached''} \<and>
    set (trigger_complete d) \<union> set (trigger_activate d) \<subseteq> fst ` set xs \<and>
    set (trigger_complete d) \<inter> set (trigger_activate d) = {} \<and>
    (trigger_complete_activity d \<longrightarrow>
       trigger_activate d = [] \<and> trigger_open_door d = None \<and> trigger_spawn_boss d = None)"
proof -
  from assms obtain ctx event subject completes activates where
    e: "event = ''ActorGroupDead'' \<or> event = ''AreaReached''"
    and f: "find (\<lambda>i. i \<notin> fst ` set xs) (completes @ activates) = None"
    and g: "\<not> (\<exists>i \<in> set completes. i \<in> set activates)"
    and t: "parse_trigger_effects c h p ctx event subject completes activates = Inr (d, a)"
    unfolding parse_trigger_def Let_def and_then_Inr ensure_Inr
    by (elim exE conjE) (simp only: sum.distinct split: option.split_asm if_split_asm, blast)
  show ?thesis using e f g parse_trigger_effects_Inr [OF t] by (auto simp: find_None_iff)
qed

definition trigger_ok :: "objectives \<Rightarrow> trigger_definition \<Rightarrow> bool" where
  "trigger_ok xs d \<longleftrightarrow>
     trigger_event d \<in> {''ActorGroupDead'', ''AreaReached''} \<and>
     set (trigger_complete d) \<union> set (trigger_activate d) \<subseteq> fst ` set xs \<and>
     set (trigger_complete d) \<inter> set (trigger_activate d) = {} \<and>
     (trigger_complete_activity d \<longrightarrow>
        trigger_activate d = [] \<and> trigger_open_door d = None \<and> trigger_spawn_boss d = None)"

lemma parse_trigger_list_Inr:
  assumes "parse_trigger_list c h xs n vs (ds, m, ids, k) = Inr (ds', m', ids', k')"
    and "set ids = definition_key ` set ds" and "distinct (map definition_key ds)"
    and "\<forall>d \<in> set ds. trigger_ok xs d" and "k = length (filter trigger_complete_activity ds)"
  shows "distinct (map definition_key ds') \<and> (\<forall>d \<in> set ds'. trigger_ok xs d) \<and>
    k' = length (filter trigger_complete_activity ds')"
  using assms
proof (induction vs arbitrary: n ds m ids k)
  case (Cons v vs)
  from Cons(2) obtain p d a where d: "parse_trigger c h p n xs = Inr (d, a)"
    and new: "definition_key d \<notin> set ids"
    and r: "parse_trigger_list c h xs (n + 1) vs (ds @ [d], m @ [a], definition_key d # ids,
       if trigger_complete_activity d then k + 1 else k) = Inr (ds', m', ids', k')"
    by (auto simp: and_then_Inr Let_def definition_key_def split: if_splits prod.splits)
  have "trigger_ok xs d" using parse_trigger_Inr [OF d] by (simp add: trigger_ok_def)
  then show ?case
    using Cons(3-) new by (intro Cons(1) [OF r]) auto
qed simp

text \<open>Everything later sections use of an accepted activity.\<close>

locale authored_activity =
  fixes xs :: objectives and ds :: "trigger_definition list"
  assumes fresh: "fresh_objectives xs"
    and keys: "distinct (map definition_key ds)"
    and triggers_ok: "\<forall>d \<in> set ds. trigger_ok xs d"
    and one_terminal: "length (filter trigger_complete_activity ds) = 1"
    and completed_once: "distinct (concat (map trigger_complete ds))"
    and completed_all: "set (concat (map trigger_complete ds)) = fst ` set xs"
    and no_cycle: "acyclic (trigger_edges ds)"

lemma parse_definition_parts:
  assumes "parse_definition c h p n = Inr a"
  shows "\<exists>op r tp q kind u.
    parse_objectives c h op = Inr r \<and> parsed_objectives a = fst r \<and> parsed_order a = fst (snd r) \<and>
    parse_triggers c h tp (parsed_objectives a) = Inr q \<and> parsed_triggers a = fst q \<and>
    validate_objective_graph (parsed_objectives a) (parsed_triggers a)
      (manifest_routes (parsed_manifest a)) kind = Inr u"
  apply (insert assms)
  apply (unfold parse_definition_def and_then_Inr case_prod_beta)
  apply (elim exE conjE)
  apply (drule sum.inject(2) [THEN iffD1])
  apply (drule sym [where t = a])
  apply (simp only: parsed_activity.simps activity_manifest.simps)
  apply (intro exI conjI)
  apply (assumption | rule refl)+
  done

lemma parse_definition_facts:
  assumes "parse_definition c h p n = Inr a"
  shows "authored_activity (parsed_objectives a) (parsed_triggers a)"
    and "manifest_routes (parsed_manifest a) = [] \<Longrightarrow>
      fst ` set (parsed_objectives a) \<subseteq>
        (trigger_edges (parsed_triggers a))\<^sup>* `` set (initially_active (parsed_objectives a))"
    and "parsed_order a = map fst (parsed_objectives a)"
proof -
  from parse_definition_parts [OF assms] obtain op os om tp tm kind where
    o: "parse_objectives c h op = Inr (parsed_objectives a, os, om)" "parsed_order a = os"
    and t: "parse_triggers c h tp (parsed_objectives a) = Inr (parsed_triggers a, tm)"
    and g: "validate_objective_graph (parsed_objectives a) (parsed_triggers a)
        (manifest_routes (parsed_manifest a)) kind = Inr ()"
    by (metis old.unit.exhaust prod.collapse)
  have fresh: "fresh_objectives (parsed_objectives a)"
    using o(1) parse_objective_list_Inr [where xs = "[]"]
    by (auto simp: parse_objectives_def and_then_Inr split: if_splits prod.splits)
      (fastforce simp: fresh_objectives_def)
  from t obtain m ids where
    "parse_trigger_list c h (parsed_objectives a) 0 (lua_sequence h tp) ([], [], [], 0) =
       Inr (parsed_triggers a, m, ids, 1)"
    by (auto simp: parse_triggers_def and_then_Inr split: if_splits prod.splits)
  from parse_trigger_list_Inr [OF this] have
    ds: "distinct (map definition_key (parsed_triggers a))"
      "\<forall>d \<in> set (parsed_triggers a). trigger_ok (parsed_objectives a) d"
      "length (filter trigger_complete_activity (parsed_triggers a)) = 1"
    by simp_all
  have names: "distinct (map fst (parsed_objectives a))" using fresh by (simp add: fresh_objectives_def)
  have "\<forall>d \<in> set (parsed_triggers a).
      set (trigger_complete d) \<union> set (trigger_activate d) \<subseteq> fst ` set (parsed_objectives a)"
    using ds(2) by (simp add: trigger_ok_def)
  note gf = objective_graph_facts [OF g names this]
  show "authored_activity (parsed_objectives a) (parsed_triggers a)"
    using fresh ds gf by (intro authored_activity.intro) simp_all
  show "fst ` set (parsed_objectives a) \<subseteq>
        (trigger_edges (parsed_triggers a))\<^sup>* `` set (initially_active (parsed_objectives a))"
    if "manifest_routes (parsed_manifest a) = []"
    using gf(4) that by simp
  show "parsed_order a = map fst (parsed_objectives a)"
    using o by (auto simp: parse_objectives_def and_then_Inr split: if_splits prod.splits)
qed

section \<open>A schedule\<close>

lemma acyclic_order:
  fixes r :: "('a \<times> 'a) set"
  assumes "finite A" and "acyclic (r \<inter> A \<times> A)"
  shows "\<exists>xs. set xs = A \<and> distinct xs \<and> sorted_wrt (\<lambda>x y. (y, x) \<notin> r) xs"
  using assms
proof (induction "card A" arbitrary: A)
  case (Suc n)
  have "wf (r \<inter> A \<times> A)" using Suc(3,4) by (simp add: finite_acyclic_wf)
  moreover obtain a where "a \<in> A" using Suc(2) by fastforce
  ultimately obtain m where m: "m \<in> A" "\<And>y. (y, m) \<in> r \<inter> A \<times> A \<Longrightarrow> y \<notin> A"
    by (rule wfE_min) blast
  have "acyclic (r \<inter> (A - {m}) \<times> (A - {m}))" using Suc(4) by (rule acyclic_subset) auto
  moreover have "n = card (A - {m})" using Suc(2,3) m(1) by simp
  ultimately obtain xs where xs: "set xs = A - {m}" "distinct xs" "sorted_wrt (\<lambda>x y. (y, x) \<notin> r) xs"
    using Suc(1) [of "A - {m}"] Suc(3) by blast
  have "\<forall>y \<in> A. (y, m) \<notin> r" using m by blast
  with xs have "sorted_wrt (\<lambda>x y. (y, x) \<notin> r) (m # xs)" by simp
  moreover have "set (m # xs) = A" "distinct (m # xs)" using xs m(1) by auto
  ultimately show ?case by blast
qed simp

text \<open>A trigger comes before another when it activates an objective that the other completes.\<close>

definition trigger_before :: "(trigger_definition \<times> trigger_definition) set" where
  "trigger_before = {(d, e). set (trigger_activate d) \<inter> set (trigger_complete e) \<noteq> {}}"

context authored_activity begin

lemma before_edges:
  assumes "(d, e) \<in> (trigger_before \<inter> set ds \<times> set ds)\<^sup>+"
  shows "\<exists>i \<in> set (trigger_activate d). \<exists>j \<in> set (trigger_complete e). (i, j) \<in> (trigger_edges ds)\<^sup>*"
  using assms
proof induction
  case (base e)
  then show ?case by (auto simp: trigger_before_def)
next
  case (step e f)
  then obtain i j k where "i \<in> set (trigger_activate d)" "(i, j) \<in> (trigger_edges ds)\<^sup>*"
    "j \<in> set (trigger_complete e)" "e \<in> set ds" "k \<in> set (trigger_activate e)" "k \<in> set (trigger_complete f)"
    by (auto simp: trigger_before_def)
  moreover then have "(j, k) \<in> trigger_edges ds" by (auto simp: trigger_edges_def)
  ultimately show ?case by (meson rtrancl.rtrancl_into_rtrancl)
qed

lemma before_acyclic: "acyclic (trigger_before \<inter> set ds \<times> set ds)"
proof (unfold acyclic_def, intro allI notI)
  fix d assume d: "(d, d) \<in> (trigger_before \<inter> set ds \<times> set ds)\<^sup>+"
  from before_edges [OF d] obtain i j where ij: "i \<in> set (trigger_activate d)"
    "j \<in> set (trigger_complete d)" "(i, j) \<in> (trigger_edges ds)\<^sup>*" by blast
  have "d \<in> set ds" using d by (induction rule: trancl.induct) auto
  with ij have "(j, i) \<in> trigger_edges ds" by (auto simp: trigger_edges_def)
  then have "(j, j) \<in> (trigger_edges ds)\<^sup>+" using ij(3) by (rule rtrancl_into_trancl2)
  with no_cycle show False by (simp add: acyclic_def)
qed

lemma terminal_unique:
  "\<exists>t \<in> set ds. trigger_complete_activity t \<and> trigger_activate t = [] \<and>
     (\<forall>d \<in> set ds. trigger_complete_activity d \<longrightarrow> d = t)"
proof -
  obtain t where "filter trigger_complete_activity ds = [t]"
    using one_terminal by (metis One_nat_def length_0_conv length_Suc_conv)
  then have "set (filter trigger_complete_activity ds) = {t}" by simp
  then have t: "t \<in> set ds" "trigger_complete_activity t"
    and u: "\<forall>d \<in> set ds. trigger_complete_activity d \<longrightarrow> d = t" by auto
  moreover have "trigger_activate t = []" using t triggers_ok by (auto simp: trigger_ok_def)
  ultimately show ?thesis by blast
qed

text \<open>All triggers in an order in which what a trigger activates is completed later, the terminal
  trigger at the end.\<close>

lemma schedule:
  obtains es t where "set (es @ [t]) = set ds" "distinct (es @ [t])"
    "sorted_wrt (\<lambda>d e. (e, d) \<notin> trigger_before) (es @ [t])"
    "trigger_complete_activity t" "\<forall>d \<in> set es. \<not> trigger_complete_activity d"
proof -
  obtain t where t: "t \<in> set ds" "trigger_complete_activity t" "trigger_activate t = []"
    "\<forall>d \<in> set ds. trigger_complete_activity d \<longrightarrow> d = t" using terminal_unique by blast
  have "acyclic (trigger_before \<inter> (set ds - {t}) \<times> (set ds - {t}))"
    using before_acyclic by (rule acyclic_subset) auto
  then obtain es where es: "set es = set ds - {t}" "distinct es"
    "sorted_wrt (\<lambda>d e. (e, d) \<notin> trigger_before) es"
    using acyclic_order [of "set ds - {t}" trigger_before] by auto
  have "(t, d) \<notin> trigger_before" for d using t(3) by (simp add: trigger_before_def)
  then have "sorted_wrt (\<lambda>d e. (e, d) \<notin> trigger_before) (es @ [t])"
    using es(3) by (simp add: sorted_wrt_append)
  moreover have "set (es @ [t]) = set ds" "distinct (es @ [t])" using es(1,2) t(1) by auto
  moreover have "\<forall>d \<in> set es. \<not> trigger_complete_activity d" using es(1) t(4) by blast
  ultimately show ?thesis using that t(2) by blast
qed

end

section \<open>Playing the schedule\<close>

text \<open>What a trigger does to the objectives, as a map.\<close>

definition trigger_effect :: "trigger_definition \<Rightarrow> (string \<rightharpoonup> objective) \<Rightarrow> (string \<rightharpoonup> objective)" where
  "trigger_effect d m i =
    (let x = (if i \<in> set (trigger_complete d) then map_option complete_objective (m i) else m i)
     in if i \<in> set (trigger_activate d) then map_option activate_objective x else x)"

lemma trigger_effect_apply:
  "trigger_effect d m i =
    (if i \<in> set (trigger_activate d)
     then map_option activate_objective
       (if i \<in> set (trigger_complete d) then map_option complete_objective (m i) else m i)
     else if i \<in> set (trigger_complete d) then map_option complete_objective (m i) else m i)"
  by (simp add: trigger_effect_def Let_def)

lemma objective_changes [simp]:
  "complete_objective (complete_objective x) = complete_objective x"
  "activate_objective (activate_objective x) = activate_objective x"
  "objective_id (complete_objective x) = objective_id x"
  "objective_id (activate_objective x) = objective_id x"
  "objective_state (complete_objective x) = CompletedState"
  "objective_state (activate_objective x) = ActiveState"
  "objective_progress (complete_objective x) = objective_target x"
  "objective_progress (activate_objective x) = objective_progress x"
  "objective_target (complete_objective x) = objective_target x"
  "objective_target (activate_objective x) = objective_target x"
  "objective_kind (complete_objective x) = objective_kind x"
  "objective_kind (activate_objective x) = objective_kind x"
  by (simp_all add: complete_objective_def activate_objective_def)

lemma update_objectives_facts:
  assumes "\<And>x. f (f x) = f x"
  shows "map_of (snd (update_objectives f ids xs)) =
      (\<lambda>i. if i \<in> set ids then map_option f (map_of xs i) else map_of xs i) \<and>
    map fst (snd (update_objectives f ids xs)) = map fst xs \<and>
    fst (update_objectives f ids xs) =
      map ObjectiveUpdated (List.map_filter (\<lambda>i. map_option f (map_of xs i)) ids)"
proof (induction ids arbitrary: xs)
  case Nil
  then show ?case by (simp add: List.map_filter_def)
next
  case (Cons i ids)
  show ?case
  proof (cases "map_of xs i")
    case None
    with Cons [of xs] show ?thesis by (auto simp: fun_eq_iff map_filter_simps)
  next
    case (Some x)
    then have "i \<in> fst ` set xs" by (metis domI dom_map_of_conv_image_fst)
    then have keys: "map fst (AList.update i (f x) xs) = map fst xs"
      by (simp add: update_keys)
    have m: "map_of (AList.update i (f x) xs) = (map_of xs)(i \<mapsto> f x)" by (rule update_conv')
    have same: "(\<lambda>j. map_option f (map_of (AList.update i (f x) xs) j)) = (\<lambda>j. map_option f (map_of xs j))"
      using assms Some by (auto simp: fun_eq_iff m)
    have step: "update_objectives f (i # ids) xs =
        (ObjectiveUpdated (f x) # fst (update_objectives f ids (AList.update i (f x) xs)),
         snd (update_objectives f ids (AList.update i (f x) xs)))"
      using Some by (simp add: case_prod_beta)
    show ?thesis
      unfolding step fst_conv snd_conv using Cons [of "AList.update i (f x) xs"] keys Some assms
      unfolding same by (auto simp: fun_eq_iff m map_filter_simps)
  qed
qed

lemma apply_trigger_known:
  assumes "distinct (map definition_key (script_triggers s))" and "d \<in> set (script_triggers s)"
    and "trigger_key w = definition_key d" and "apply_trigger w s = (evs, s')"
  shows "map_of (script_objectives s') = trigger_effect d (map_of (script_objectives s))"
    and "map fst (script_objectives s') = map fst (script_objectives s)"
    and "script_triggers s' = script_triggers s" and "script_id s' = script_id s"
    and "\<exists>us. evs = map ObjectiveUpdated us
      @ (case trigger_open_door d of None \<Rightarrow> [] | Some i \<Rightarrow> [DoorOpened i])
      @ (case trigger_spawn_boss d of None \<Rightarrow> [] | Some b \<Rightarrow> [BossRequested b])
      @ (if trigger_complete_activity d then [ActivityCompleted (script_id s)] else [])"
proof -
  have "\<exists>e. find (\<lambda>d. definition_key d = trigger_key w) (script_triggers s) = Some e"
    using assms(2,3) by (cases "find (\<lambda>d. definition_key d = trigger_key w) (script_triggers s)")
      (auto simp: find_None_iff)
  then obtain e where e: "find (\<lambda>d. definition_key d = trigger_key w) (script_triggers s) = Some e" by blast
  then have "e \<in> set (script_triggers s)" "definition_key e = definition_key d"
    using find_Some_set [OF e] assms(3) by simp_all
  then have "e = d" using assms(1,2) by (auto simp: distinct_map dest: inj_onD)
  with e have f: "find (\<lambda>d. definition_key d = trigger_key w) (script_triggers s) = Some d" by simp
  note c = update_objectives_facts [of complete_objective "trigger_complete d" "script_objectives s",
      OF objective_changes(1)]
  note a = update_objectives_facts [of activate_objective "trigger_activate d"
      "snd (update_objectives complete_objective (trigger_complete d) (script_objectives s))",
      OF objective_changes(2)]
  have "apply_trigger w s =
     (fst (update_objectives complete_objective (trigger_complete d) (script_objectives s)) @
      fst (update_objectives activate_objective (trigger_activate d)
        (snd (update_objectives complete_objective (trigger_complete d) (script_objectives s))))
      @ (case trigger_open_door d of None \<Rightarrow> [] | Some i \<Rightarrow> [DoorOpened i])
      @ (case trigger_spawn_boss d of None \<Rightarrow> [] | Some b \<Rightarrow> [BossRequested b])
      @ (if trigger_complete_activity d then [ActivityCompleted (script_id s)] else []),
      s\<lparr> script_objectives := snd (update_objectives activate_objective (trigger_activate d)
      (snd (update_objectives complete_objective (trigger_complete d) (script_objectives s)))) \<rparr>)"
    (is "_ = (?evs, ?s)")
    by (simp only: apply_trigger_def f option.case Let_def case_prod_beta)
  then have r: "evs = ?evs" and s': "s' = ?s" using assms(4) by simp_all
  show "map_of (script_objectives s') = trigger_effect d (map_of (script_objectives s))"
    using a c by (simp add: s' trigger_effect_apply fun_eq_iff)
  show "map fst (script_objectives s') = map fst (script_objectives s)"
    using a c by (simp add: s')
  show "script_triggers s' = script_triggers s" "script_id s' = script_id s" by (simp_all add: s')
  show "\<exists>us. evs = map ObjectiveUpdated us
      @ (case trigger_open_door d of None \<Rightarrow> [] | Some i \<Rightarrow> [DoorOpened i])
      @ (case trigger_spawn_boss d of None \<Rightarrow> [] | Some b \<Rightarrow> [BossRequested b])
      @ (if trigger_complete_activity d then [ActivityCompleted (script_id s)] else [])"
    by (intro exI [of _ "List.map_filter (\<lambda>i. map_option complete_objective (map_of (script_objectives s) i))
          (trigger_complete d) @ List.map_filter (\<lambda>i. map_option activate_objective
          (map_of (snd (update_objectives complete_objective (trigger_complete d) (script_objectives s))) i))
          (trigger_activate d)"])
      (simp only: r a c objective_changes map_append append.assoc)
qed

text \<open>The world trigger that fires a definition.\<close>

definition fire :: "trigger_definition \<Rightarrow> world_trigger" where
  "fire d =
    (if trigger_event d = ''AreaReached'' then AreaReached (trigger_subject d)
     else ActorGroupDead (trigger_subject d))"

lemma fire_key: "trigger_ok xs d \<Longrightarrow> trigger_key (fire d) = definition_key d"
  by (auto simp: trigger_ok_def fire_def trigger_key_def definition_key_def)

lemma play_known:
  assumes "distinct (map definition_key (script_triggers s))"
    and "\<forall>d \<in> set es. d \<in> set (script_triggers s) \<and> trigger_ok xs d"
    and "play (map fire es) s = (evs, s')"
  shows "map_of (script_objectives s') = fold trigger_effect es (map_of (script_objectives s)) \<and>
    map fst (script_objectives s') = map fst (script_objectives s) \<and>
    script_triggers s' = script_triggers s \<and> script_id s' = script_id s \<and>
    ((\<forall>d \<in> set es. \<not> trigger_complete_activity d) \<longrightarrow> ActivityCompleted (script_id s) \<notin> set evs)"
  using assms
proof (induction es arbitrary: s evs)
  case (Cons d es)
  obtain evs1 s1 where 1: "apply_trigger (fire d) s = (evs1, s1)" by fastforce
  obtain evs2 where 2: "play (map fire es) s1 = (evs2, s')" "evs = evs1 @ evs2"
    using Cons(4) 1 by (auto split: prod.splits)
  have d: "d \<in> set (script_triggers s)" "trigger_key (fire d) = definition_key d"
    using Cons(3) fire_key by auto
  note k = apply_trigger_known [OF Cons(2) d 1]
  have "map_of (script_objectives s') = fold trigger_effect es (map_of (script_objectives s1)) \<and>
    map fst (script_objectives s') = map fst (script_objectives s1) \<and>
    script_triggers s' = script_triggers s1 \<and> script_id s' = script_id s1 \<and>
    ((\<forall>d \<in> set es. \<not> trigger_complete_activity d) \<longrightarrow> ActivityCompleted (script_id s1) \<notin> set evs2)"
    using Cons(2,3) by (intro Cons(1) [OF _ _ 2(1)]) (simp_all add: k)
  moreover have "\<not> trigger_complete_activity d \<Longrightarrow> ActivityCompleted (script_id s) \<notin> set evs1"
    using k(5) by (auto split: option.splits)
  ultimately show ?case by (simp add: k(1-4) 2(2))
qed simp

lemma play_append:
  "play (us @ ws) s = (let (a, s) = play us s; (b, s) = play ws s in (a @ b, s))"
  by (induction us arbitrary: s) (auto split: prod.splits)

lemma effect_completed:
  assumes "sorted_wrt (\<lambda>d e. (e, d) \<notin> trigger_before) es" and "\<forall>d \<in> set es. trigger_ok xs d"
    and "m i = Some x" and "\<exists>d \<in> set es. i \<in> set (trigger_complete d)"
  shows "\<exists>y. fold trigger_effect es m i = Some y \<and> objective_state y = CompletedState \<and>
    objective_progress y = objective_target y"
  using assms
proof (induction es rule: rev_induct)
  case (snoc d es)
  have dom: "\<exists>y. fold trigger_effect es m i = Some y"
  proof (induction es rule: rev_induct)
    case (snoc d es)
    then show ?case by (auto simp: trigger_effect_apply [of d])
  qed (simp add: snoc(4))
  have d: "set (trigger_complete d) \<inter> set (trigger_activate d) = {}"
    using snoc(3) by (simp add: trigger_ok_def)
  show ?case
  proof (cases "i \<in> set (trigger_complete d)")
    case True
    with d have "i \<notin> set (trigger_activate d)" by blast
    with True dom show ?thesis by (auto simp: trigger_effect_apply [of d])
  next
    case False
    then obtain e where e: "e \<in> set es" "i \<in> set (trigger_complete e)" using snoc(5) by auto
    then have "(d, e) \<notin> trigger_before" using snoc(2) by (auto simp: sorted_wrt_append)
    then have "i \<notin> set (trigger_activate d)" using e(2) by (auto simp: trigger_before_def)
    moreover have "\<exists>y. fold trigger_effect es m i = Some y \<and> objective_state y = CompletedState \<and>
        objective_progress y = objective_target y"
      using snoc e by (auto simp: sorted_wrt_append)
    ultimately show ?thesis using False by (auto simp: trigger_effect_apply [of d])
  qed
qed simp

lemma effect_active:
  assumes "\<forall>d \<in> set es. i \<notin> set (trigger_complete d)" and "m i = Some x"
    and "objective_state x = ActiveState \<or> (\<exists>d \<in> set es. i \<in> set (trigger_activate d))"
  shows "\<exists>y. fold trigger_effect es m i = Some y \<and> objective_state y = ActiveState"
  using assms
proof (induction es arbitrary: m x)
  case (Cons d es)
  let ?x = "if i \<in> set (trigger_activate d) then activate_objective x else x"
  have m: "trigger_effect d m i = Some ?x" using Cons(2,3) by (simp add: trigger_effect_apply [of d])
  have "objective_state ?x = ActiveState \<or> (\<exists>d \<in> set es. i \<in> set (trigger_activate d))"
    using Cons(4) by auto
  then show ?case
    using Cons(1) [where m = "trigger_effect d m" and x = ?x, OF _ m] Cons(2) by simp
qed simp

lemma distinct_concat_disjoint:
  "distinct (concat (map f ds)) \<Longrightarrow> d \<in> set ds \<Longrightarrow> e \<in> set ds \<Longrightarrow> e \<noteq> d \<Longrightarrow> set (f e) \<inter> set (f d) = {}"
  by (induction ds) auto

text \<open>The keys of \<open>initially_active\<close> are the objectives' own names.\<close>

lemma initially_active_known:
  "fresh_objectives xs \<Longrightarrow> i \<in> set (initially_active xs) \<Longrightarrow>
     \<exists>x. map_of xs i = Some x \<and> objective_state x = ActiveState"
  by (force simp: fresh_objectives_def initially_active_def)

context authored_activity begin

lemma schedule_activates:
  assumes sched: "sorted_wrt (\<lambda>d e. (e, d) \<notin> trigger_before) (us @ d # vs)"
    and all: "set (us @ d # vs) = set ds" "distinct (us @ d # vs)"
    and reach: "fst ` set xs \<subseteq> (trigger_edges ds)\<^sup>* `` set (initially_active xs)"
    and i: "i \<in> set (trigger_complete d)"
  shows "\<exists>y. fold trigger_effect us (map_of xs) i = Some y \<and> objective_state y = ActiveState"
proof -
  have d: "d \<in> set ds" using all by auto
  have ix: "i \<in> fst ` set xs" using d i triggers_ok by (auto simp: trigger_ok_def)
  then obtain x where x: "map_of xs i = Some x" by (metis domD dom_map_of_conv_image_fst)
  have other: "\<forall>e \<in> set us. i \<notin> set (trigger_complete e)"
  proof
    fix e assume e: "e \<in> set us"
    then have "e \<in> set ds" "e \<noteq> d" using all by auto
    then have "set (trigger_complete e) \<inter> set (trigger_complete d) = {}"
      using distinct_concat_disjoint [OF completed_once] d by blast
    then show "i \<notin> set (trigger_complete e)" using i by blast
  qed
  from ix reach obtain j where j: "j \<in> set (initially_active xs)" "(j, i) \<in> (trigger_edges ds)\<^sup>*" by blast
  then consider "i = j" | f where "(f, i) \<in> trigger_edges ds" by (metis rtranclE)
  then show ?thesis
  proof cases
    case 1
    have "objective_state x = ActiveState" using initially_active_known [OF fresh j(1)] x 1 by auto
    then show ?thesis by (intro effect_active [where m = "map_of xs" and x = x, OF other x]) simp
  next
    case (2 f)
    then obtain e where e: "e \<in> set ds" "i \<in> set (trigger_activate e)" by (auto simp: trigger_edges_def)
    have "e \<noteq> d" using e i triggers_ok by (auto simp: trigger_ok_def)
    moreover have "e \<notin> set vs"
      using sched e(2) i by (auto simp: sorted_wrt_append trigger_before_def)
    ultimately have "e \<in> set us" using e(1) all(1) by auto
    then show ?thesis using e(2) by (intro effect_active [where m = "map_of xs" and x = x, OF other x]) auto
  qed
qed

end

lemma play_terminal:
  assumes "distinct (map definition_key (script_triggers s))" and "t \<in> set (script_triggers s)"
    and "trigger_ok xs t" and "trigger_complete_activity t" and "apply_trigger (fire t) s = (evs, s')"
  shows "\<exists>us. evs = map ObjectiveUpdated us @ [ActivityCompleted (script_id s)]"
  using apply_trigger_known(5) [OF assms(1,2) fire_key [OF assms(3)] assms(5)] assms(3,4)
  by (auto simp: trigger_ok_def)

section \<open>Objectives keep their type\<close>

text \<open>What an objective of a script can become.\<close>

definition evolved :: "objective \<Rightarrow> objective \<Rightarrow> bool" where
  "evolved x y \<longleftrightarrow>
     objective_id y = objective_id x \<and> objective_kind y = objective_kind x \<and> objective_target y = objective_target x \<and>
     objective_progress y \<in> {0, objective_target x} \<and> objective_state y \<noteq> FailedState \<and>
     (objective_state y = CompletedState \<longrightarrow> objective_progress y = objective_target x) \<and>
     (objective_state y = PendingState \<longrightarrow> y = x)"

definition all_evolved :: "objectives \<Rightarrow> objectives \<Rightarrow> bool" where
  "all_evolved xs ys \<longleftrightarrow> map fst ys = map fst xs \<and>
     (\<forall>i y. map_of ys i = Some y \<longrightarrow> (\<exists>x. map_of xs i = Some x \<and> evolved x y))"

lemma evolved_changes:
  "evolved x y \<Longrightarrow> evolved x (complete_objective y)" "evolved x y \<Longrightarrow> evolved x (activate_objective y)"
  by (auto simp: evolved_def)

lemma all_evolved_start: "fresh_objectives xs \<Longrightarrow> all_evolved xs xs"
  by (force simp: all_evolved_def fresh_objectives_def evolved_def dest: map_of_SomeD)

lemma all_evolved_update:
  assumes "all_evolved xs ys" and "\<And>x y. evolved x y \<Longrightarrow> evolved x (f y)"
  shows "all_evolved xs (snd (update_objectives f ids ys)) \<and>
    (\<forall>e \<in> set (fst (update_objectives f ids ys)).
       \<exists>i x y. e = ObjectiveUpdated y \<and> map_of xs i = Some x \<and> evolved x y)"
  using assms(1)
proof (induction ids arbitrary: ys)
  case (Cons i ids)
  show ?case
  proof (cases "map_of ys i")
    case None
    then show ?thesis using Cons by simp
  next
    case (Some y)
    then have "\<exists>x. map_of xs i = Some x \<and> evolved x y" using Cons(2) by (simp add: all_evolved_def)
    then obtain x where x: "map_of xs i = Some x" "evolved x (f y)" using assms(2) by blast
    have "i \<in> fst ` set ys" using Some by (metis domI dom_map_of_conv_image_fst)
    then have "map fst (AList.update i (f y) ys) = map fst ys" by (simp add: update_keys)
    then have "all_evolved xs (AList.update i (f y) ys)"
      using Cons(2) x by (auto simp: all_evolved_def update_conv')
    then show ?thesis using Cons(1) [of "AList.update i (f y) ys"] Some x by (auto simp: case_prod_beta)
  qed
qed simp

lemma all_evolved_trigger:
  assumes "all_evolved xs (script_objectives s)" and "apply_trigger w s = (evs, s')"
  shows "all_evolved xs (script_objectives s') \<and> s' = s\<lparr> script_objectives := script_objectives s' \<rparr> \<and>
    (\<forall>y. ObjectiveUpdated y \<in> set evs \<longrightarrow> (\<exists>i x. map_of xs i = Some x \<and> evolved x y))"
proof (cases "find (\<lambda>d. definition_key d = trigger_key w) (script_triggers s)")
  case None
  then show ?thesis using assms by (auto simp: apply_trigger_def)
next
  case (Some d)
  let ?c = "update_objectives complete_objective (trigger_complete d) (script_objectives s)"
  let ?a = "update_objectives activate_objective (trigger_activate d) (snd ?c)"
  note c = all_evolved_update [where ids = "trigger_complete d", OF assms(1) evolved_changes(1)]
  note a = all_evolved_update [where ids = "trigger_activate d", OF c [THEN conjunct1] evolved_changes(2)]
  have "\<exists>rest. evs = fst ?c @ fst ?a @ rest \<and> (\<forall>y. ObjectiveUpdated y \<notin> set rest)" "s' = s\<lparr> script_objectives := snd ?a \<rparr>"
    using assms(2) Some by (auto simp: apply_trigger_def Let_def case_prod_beta split: option.splits)
  then show ?thesis using a c by fastforce
qed

text \<open>C35 (type): whatever world triggers an accepted activity gets, its state keeps the objectives of
  the script under their names, kinds and targets and changes nothing else; progress is none or the
  whole target, no objective fails, a completed one has its whole target and a pending one is as
  authored; every reported update is such an objective.\<close>

theorem authored_activity_typed:
  assumes "parse_definition c h p n = Inr a" and "play ws (from_parsed a) = (evs, s)"
  shows "s = (from_parsed a)\<lparr> script_objectives := script_objectives s \<rparr> \<and>
    all_evolved (parsed_objectives a) (script_objectives s) \<and>
    (\<forall>y. ObjectiveUpdated y \<in> set evs \<longrightarrow> (\<exists>i x. map_of (parsed_objectives a) i = Some x \<and> evolved x y))"
proof -
  have "all_evolved (parsed_objectives a) (script_objectives (from_parsed a))"
    using authored_activity.fresh [OF parse_definition_facts(1) [OF assms(1)]]
    by (simp add: from_parsed_def all_evolved_start)
  with assms(2) show ?thesis
  proof (induction ws arbitrary: evs s rule: rev_induct)
    case (snoc w ws)
    obtain evs1 s1 where 1: "play ws (from_parsed a) = (evs1, s1)" by fastforce
    obtain evs2 where 2: "apply_trigger w s1 = (evs2, s)" "evs = evs1 @ evs2"
      using snoc(2) by (auto simp: play_append 1 split: prod.splits)
    note IH = snoc(1) [OF 1 snoc(3)]
    then have e: "all_evolved (parsed_objectives a) (script_objectives s1)"
      and s1: "s1 = (from_parsed a)\<lparr> script_objectives := script_objectives s1 \<rparr>" by blast+
    from all_evolved_trigger [OF e 2(1)] have
      "s = s1\<lparr> script_objectives := script_objectives s \<rparr>" by blast
    then have "s = (from_parsed a)\<lparr> script_objectives := script_objectives s \<rparr>"
      by (subst (asm) s1) simp
    then show ?case using all_evolved_trigger [OF e 2(1)] IH 2(2) by auto
  qed simp
qed

section \<open>Every activity can be completed\<close>

context authored_activity begin

lemma schedule_completes:
  assumes "sorted_wrt (\<lambda>d e. (e, d) \<notin> trigger_before) es" and es: "set es = set ds"
    and ys: "map_of ys = fold trigger_effect es (map_of xs)" "map fst ys = map fst xs" "map_of ys i = Some x"
  shows "objective_state x = CompletedState \<and> objective_progress x = objective_target x"
proof -
  have "i \<in> set (map fst xs)" using map_of_SomeD [OF ys(3)] ys(2) by (metis fst_conv image_eqI list.set_map)
  then obtain y where y: "map_of xs i = Some y" and i: "i \<in> fst ` set xs"
    by (cases "map_of xs i") (auto simp: map_of_eq_None_iff)
  have "i \<in> (\<Union>d \<in> set ds. set (trigger_complete d))" using completed_all i by simp
  then have d: "\<exists>d \<in> set es. i \<in> set (trigger_complete d)" unfolding es by blast
  have "\<forall>d \<in> set es. trigger_ok xs d" using triggers_ok unfolding es .
  from effect_completed [OF assms(1) this, where m = "map_of xs", OF y d] ys(1,3) show ?thesis by auto
qed

text \<open>Playing a schedule from the authored objectives.\<close>

lemma schedule_plays:
  assumes s: "script_triggers s = ds" "script_objectives s = xs"
    and "set (es @ [t]) = set ds" and "trigger_complete_activity t" "\<forall>d \<in> set es. \<not> trigger_complete_activity d"
    and "play (map fire (es @ [t])) s = (evs, s')"
  shows "map_of (script_objectives s') = fold trigger_effect (es @ [t]) (map_of xs)"
    and "map fst (script_objectives s') = map fst xs"
    and "\<exists>us. evs = us @ [ActivityCompleted (script_id s)] \<and> ActivityCompleted (script_id s) \<notin> set us"
proof -
  have k: "distinct (map definition_key (script_triggers s))" using keys s(1) by simp
  have known: "\<forall>d \<in> set (es @ [t]). d \<in> set (script_triggers s) \<and> trigger_ok xs d"
    using assms(3) triggers_ok s(1) by blast
  from play_known [OF k known assms(6)]
  show "map_of (script_objectives s') = fold trigger_effect (es @ [t]) (map_of xs)"
    "map fst (script_objectives s') = map fst xs" by (simp_all only: s)
  obtain us1 s1 where 1: "play (map fire es) s = (us1, s1)" by fastforce
  obtain us2 where 2: "apply_trigger (fire t) s1 = (us2, s')" "evs = us1 @ us2"
    using assms(6) by (auto simp: play_append 1 split: prod.splits)
  have known1: "\<forall>d \<in> set es. d \<in> set (script_triggers s) \<and> trigger_ok xs d" using known by simp
  note k1 = play_known [OF k known1 1]
  then have t: "t \<in> set (script_triggers s1)" "distinct (map definition_key (script_triggers s1))"
    using known k by auto
  from play_terminal [OF t(2,1) _ assms(4) 2(1), of xs] obtain us where
    "us2 = map ObjectiveUpdated us @ [ActivityCompleted (script_id s)]" using known k1 by auto
  then show "\<exists>us. evs = us @ [ActivityCompleted (script_id s)] \<and> ActivityCompleted (script_id s) \<notin> set us"
    using k1 assms(5) 2(2) by (intro exI [of _ "us1 @ map ObjectiveUpdated us"]) auto
qed

lemma schedule_active:
  assumes s: "script_triggers s = ds" "script_objectives s = xs"
    and "sorted_wrt (\<lambda>d e. (e, d) \<notin> trigger_before) (us @ d # vs)"
    and all: "set (us @ d # vs) = set ds" "distinct (us @ d # vs)"
    and "fst ` set xs \<subseteq> (trigger_edges ds)\<^sup>* `` set (initially_active xs)" and "i \<in> set (trigger_complete d)"
  shows "\<exists>x. map_of (script_objectives (snd (play (map fire us) s))) i = Some x \<and> objective_state x = ActiveState"
proof -
  have k: "distinct (map definition_key (script_triggers s))" using keys s(1) by simp
  have "\<forall>d \<in> set us. d \<in> set (script_triggers s) \<and> trigger_ok xs d"
    using all(1) triggers_ok s(1) by auto
  from play_known [OF k this, of "fst (play (map fire us) s)" "snd (play (map fire us) s)"]
  have "map_of (script_objectives (snd (play (map fire us) s))) = fold trigger_effect us (map_of xs)"
    by (simp add: s)
  then show ?thesis using schedule_activates [OF assms(3-7)] by simp
qed

end

text \<open>C36 (liveness): every activity the parser accepts can be played to its end. There is an order
  of its triggers in which each of them is fired exactly once, by the world event that its definition
  names and no other definition has, after which every objective is completed with its whole target,
  and whose last event, and no earlier one, is the completion of the activity. Without routes every
  objective is active at the moment the trigger that completes it is fired.\<close>

theorem authored_activity_completable:
  assumes "parse_definition c h p n = Inr a"
  shows "\<exists>ds evs s. mset ds = mset (parsed_triggers a) \<and> distinct (map definition_key ds) \<and>
    (\<forall>d \<in> set ds. trigger_key (fire d) = definition_key d) \<and>
    play (map fire ds) (from_parsed a) = (evs, s) \<and>
    map fst (script_objectives s) = map fst (parsed_objectives a) \<and>
    (\<forall>i x. map_of (script_objectives s) i = Some x \<longrightarrow>
       objective_state x = CompletedState \<and> objective_progress x = objective_target x) \<and>
    (\<exists>es. evs = es @ [ActivityCompleted (parsed_id a)] \<and> ActivityCompleted (parsed_id a) \<notin> set es) \<and>
    (manifest_routes (parsed_manifest a) = [] \<longrightarrow>
       (\<forall>us d vs i. ds = us @ d # vs \<and> i \<in> set (trigger_complete d) \<longrightarrow>
          (\<exists>x. map_of (script_objectives (snd (play (map fire us) (from_parsed a)))) i = Some x \<and>
             objective_state x = ActiveState)))"
proof -
  let ?xs = "parsed_objectives a" and ?ds = "parsed_triggers a" and ?s = "from_parsed a"
  note auth = parse_definition_facts(1) [OF assms]
  note keys = authored_activity.keys [OF auth] and ok = authored_activity.triggers_ok [OF auth]
  have s0: "script_triggers ?s = ?ds" "script_objectives ?s = ?xs" "script_id ?s = parsed_id a"
    by (simp_all add: from_parsed_def)
  obtain es t where es: "set (es @ [t]) = set ?ds" "distinct (es @ [t])"
      "sorted_wrt (\<lambda>d e. (e, d) \<notin> trigger_before) (es @ [t])"
    and t: "trigger_complete_activity t" "\<forall>d \<in> set es. \<not> trigger_complete_activity d"
    by (rule authored_activity.schedule [OF auth])
  obtain evs s where r: "play (map fire (es @ [t])) ?s = (evs, s)" by fastforce
  note plays = authored_activity.schedule_plays [OF auth s0(1,2) es(1) t r, unfolded s0(3)]
  have once: "mset (es @ [t]) = mset ?ds"
    using es(1,2) keys set_eq_iff_mset_eq_distinct [of "es @ [t]" ?ds] by (simp add: distinct_map)
  have apart: "distinct (map definition_key (es @ [t]))"
    using es(1,2) keys unfolding distinct_map by metis
  have fires: "\<forall>d \<in> set (es @ [t]). trigger_key (fire d) = definition_key d"
    using ok fire_key unfolding es(1) by blast
  have done_all: "\<forall>i x. map_of (script_objectives s) i = Some x \<longrightarrow>
      objective_state x = CompletedState \<and> objective_progress x = objective_target x"
    using authored_activity.schedule_completes [OF auth es(3,1) plays(1,2)] by blast
  have "\<forall>us d vs i. es @ [t] = us @ d # vs \<and> i \<in> set (trigger_complete d) \<longrightarrow>
      (\<exists>x. map_of (script_objectives (snd (play (map fire us) ?s))) i = Some x \<and> objective_state x = ActiveState)"
    if "manifest_routes (parsed_manifest a) = []"
    using authored_activity.schedule_active [OF auth s0(1,2)] es parse_definition_facts(2) [OF assms that] by metis
  with once apart fires r plays(2) done_all plays(3) show ?thesis by blast
qed

end
