(* ===== verification/Field_Scripts.thy ===== *)
theory Field_Scripts
  imports Activities
begin

text \<open>
  The embedded scripts of the field activities (\<open>src/scripts/activities\<close>), as the tables they declare,
  what the parser makes of them, and the progress of a chain of areas under the triggers of
  \<open>runtime/activities/src/lib.rs\<close>.
\<close>

section \<open>Scripts\<close>

text \<open>A table with named fields, and a dense sequence.\<close>

definition lua_fields :: "(string \<times> lua_value) list \<Rightarrow> lua_table" where
  "lua_fields fs = \<lparr> table_pairs = map (\<lambda>(k, v). (LuaString k, v)) fs, table_len = 0, has_metatable = False \<rparr>"

definition lua_list :: "lua_value list \<Rightarrow> lua_table" where
  "lua_list vs = \<lparr> table_pairs = zip (map (\<lambda>i. LuaInteger (int (i + 1))) [0..<length vs]) vs,
     table_len = length vs, has_metatable = False \<rparr>"

definition script_heap :: "lua_table list \<Rightarrow> lua_heap" where
  "script_heap ts p = (if p < length ts then ts ! p else lua_list [])"

text \<open>A chain of areas, each of which completes itself and activates the one after it: the shape of
  all field excursions (\<open>src/scripts/activities\<close>). Table 0 is the activity, 1 its reward, 2 its
  progression, 3 the objectives, 4 the triggers; from 5 on each area has an objective, a trigger, a
  \<open>complete\<close> and an \<open>activate\<close> table.\<close>

definition area_objective :: "string \<Rightarrow> string \<Rightarrow> lua_table" where
  "area_objective state i = lua_fields [(''id'', LuaString i), (''kind'', LuaString ''ReachArea''),
     (''state'', LuaString state), (''target'', LuaInteger 1)]"

definition area_trigger :: "nat \<Rightarrow> string \<Rightarrow> bool \<Rightarrow> lua_table" where
  "area_trigger p i final = lua_fields ([(''event'', LuaString ''AreaReached''), (''subject'', LuaString i),
     (''complete'', LuaTable (p + 2))] @
     (if final then [(''complete_activity'', LuaBoolean True)] else [(''activate'', LuaTable (p + 3))]))"

fun area_tables :: "nat \<Rightarrow> string \<Rightarrow> string list \<Rightarrow> lua_table list" where
  "area_tables p state [] = []"
| "area_tables p state [i] =
     [area_objective state i, area_trigger p i True, lua_list [LuaString i], lua_list []]"
| "area_tables p state (i # j # is) =
     [area_objective state i, area_trigger p i False, lua_list [LuaString i], lua_list [LuaString j]]
     @ area_tables (p + 4) ''Pending'' (j # is)"

definition excursion_tables :: "string \<Rightarrow> string list \<Rightarrow> lua_table list" where
  "excursion_tables i areas =
    [lua_fields [(''id'', LuaString i), (''kind'', LuaString ''field_excursion''), (''reward'', LuaTable 1),
       (''progression'', LuaTable 2), (''objectives'', LuaTable 3), (''triggers'', LuaTable 4)],
     lua_fields [(''item_id'', LuaString ''relay_core_fragment''), (''quantity'', LuaInteger 1)],
     lua_fields [(''experience'', LuaInteger 100)],
     lua_list (map (\<lambda>k. LuaTable (5 + 4 * k)) [0..<length areas]),
     lua_list (map (\<lambda>k. LuaTable (6 + 4 * k)) [0..<length areas])]
    @ area_tables 5 ''Active'' areas"

definition coolant_tables :: "lua_table list" where
  "coolant_tables = excursion_tables ''coolant_run'' [''coolant_intake'', ''coolant_transfer'', ''coolant_delivery'']"

definition survey_tables :: "lua_table list" where
  "survey_tables = excursion_tables ''meridian_survey'' [''meridian_arrival'', ''meridian_lens'', ''meridian_gallery'']"

definition return_tables :: "lua_table list" where
  "return_tables = excursion_tables ''meridian_return'' [''meridian_log'', ''meridian_return'']"

text \<open>What the bindings document of the conversions these scripts need: a string is a string, an
  integer in range is that integer, a boolean is that boolean.\<close>

definition documented_casts :: "lua_casts \<Rightarrow> bool" where
  "documented_casts c \<longleftrightarrow>
     (\<forall>s. cast_string c (LuaString s) = Inr s) \<and>
     (\<forall>w. cast_u32 c (LuaInteger (uint w)) = Inr w) \<and>
     (\<forall>w. uint w < 2 ^ 63 \<longrightarrow> cast_u64 c (LuaInteger (uint w)) = Inr w) \<and>
     (\<forall>b. cast_bool c (LuaBoolean b) = Inr b)"

definition strict_casts :: lua_casts where
  "strict_casts =
    \<lparr> cast_string = (\<lambda>v. case v of LuaString s \<Rightarrow> Inr s | _ \<Rightarrow> Inl ''expected string''),
      cast_u32 = (\<lambda>v. case v of LuaInteger n \<Rightarrow> if 0 \<le> n \<and> n < 2 ^ 32 then Inr (of_int n) else Inl ''out of range''
        | _ \<Rightarrow> Inl ''expected u32''),
      cast_u64 = (\<lambda>v. case v of LuaInteger n \<Rightarrow> if 0 \<le> n \<and> n < 2 ^ 63 then Inr (of_int n) else Inl ''out of range''
        | _ \<Rightarrow> Inl ''expected u64''),
      cast_bool = (\<lambda>v. case v of LuaBoolean b \<Rightarrow> Inr b | _ \<Rightarrow> Inl ''expected boolean''),
      table_error = (\<lambda>_. ''expected table'') \<rparr>"

lemma documented_strict: "documented_casts strict_casts"
proof -
  have "uint w < 4294967296" for w :: u32 using uint_lt2p [of w] by simp
  then show ?thesis by (simp add: documented_casts_def strict_casts_def)
qed

section \<open>Loading\<close>

text \<open>\<open>objectives[id]\<close> panics on an unknown name; the order of a parsed activity has none.\<close>

definition ordered_objectives :: "scripted_activity \<Rightarrow> activity_event list" where
  "ordered_objectives s = map (\<lambda>i. ObjectiveUpdated (the (map_of (script_objectives s) i))) (script_order s)"

definition from_source ::
  "lua_casts \<Rightarrow> (string \<Rightarrow> activity_error + lua_heap \<times> lua_value) \<Rightarrow> string \<Rightarrow> activity_error + scripted_activity" where
  "from_source c run source =
    and_then (parse_activity_source c run source) (\<lambda>a. Inr (from_parsed a))"

fun is_objective_update :: "activity_event \<Rightarrow> bool" where
  "is_objective_update (ObjectiveUpdated x) = True"
| "is_objective_update e = False"

definition objective_active :: "string \<Rightarrow> scripted_activity \<Rightarrow> bool" where
  "objective_active i s =
    (case map_of (script_objectives s) i of None \<Rightarrow> False | Some x \<Rightarrow> objective_state x = ActiveState)"

section \<open>What the scripts parse to\<close>

lemmas script_defs = coolant_tables_def survey_tables_def return_tables_def excursion_tables_def
  area_objective_def area_trigger_def lua_fields_def lua_list_def script_heap_def

lemma documented_simps:
  assumes "documented_casts c"
  shows "cast_string c (LuaString s) = Inr s" "cast_u32 c (LuaInteger 1) = Inr 1"
    "cast_u64 c (LuaInteger 100) = Inr 100" "cast_bool c (LuaBoolean b) = Inr b"
    "cast_table c (LuaTable p) = Inr p"
proof -
  have "\<forall>w. cast_u32 c (LuaInteger (uint w)) = Inr w" "\<forall>w. uint w < 2 ^ 63 \<longrightarrow> cast_u64 c (LuaInteger (uint w)) = Inr w"
   using assms by (simp_all add: documented_casts_def)
  from this(1) [THEN spec, of 1] this(2) [THEN spec, of 100]
  show "cast_u32 c (LuaInteger 1) = Inr 1" "cast_u64 c (LuaInteger 100) = Inr 100" by simp_all
  qed (use assms in \<open>simp_all add: documented_casts_def cast_table_def\<close>)

lemmas parse_defs = parse_objectives_def validate_sequence_shape_def lua_sequence_def lua_get_def activity_consts lua_limits
    parse_objective_def Let_def validate_map_keys_def required_field_def validate_identifier_def byte_def parse_kind_def parse_state_def
  parse_triggers_def parse_trigger_def parse_trigger_effects_def optional_field_def optional_string_sequence_def
  validate_unique_references_def
  
definition area :: "objective_state \<Rightarrow> string \<Rightarrow> string \<times> objective" where
  "area st i = (i, \<lparr> objective_id = i, objective_kind = ReachArea, objective_state = st, objective_progress = 0, objective_target = 1 \<rparr>)"


fun area_triggers :: "string list \<Rightarrow> trigger_definition list" where
  "area_triggers [] = []"
| "area_triggers (i # is) =
    \<lparr> trigger_event = ''AreaReached'', trigger_subject = i, trigger_complete = [i],
      trigger_activate = take 1 is, trigger_open_door = None, trigger_spawn_boss = None,
      trigger_complete_activity = (is = []) \<rparr> # area_triggers is"

fun area_objectives :: "string list \<Rightarrow> objectives" where
  "area_objectives [] = []"
| "area_objectives (i # is) = area ActiveState i # map (area PendingState) is"


text \<open>The activity of a chain of areas.\<close>

definition excursion :: "string \<Rightarrow> string list \<Rightarrow> parsed_activity \<Rightarrow> bool" where
  "excursion i areas a \<longleftrightarrow> parsed_id a = i \<and> parsed_objectives a = area_objectives areas \<and>
     parsed_order a = areas \<and> parsed_triggers a = area_triggers areas"

definition coolant_areas :: "string list" where
  "coolant_areas = [''coolant_intake'', ''coolant_transfer'', ''coolant_delivery'']"

definition survey_areas :: "string list" where
  "survey_areas = [''meridian_arrival'', ''meridian_lens'', ''meridian_gallery'']"

definition return_areas :: "string list" where
  "return_areas = [''meridian_log'', ''meridian_return'']"

lemmas area_defs = coolant_areas_def survey_areas_def return_areas_def

lemma parse_excursion:
  assumes c: "documented_casts c" and h: "h = script_heap (excursion_tables i areas)"
    and "validate_identifier i ''activity id'' = Inr ()"
    and "parse_objectives c h 3 = Inr (area_objectives areas, areas, m)"
    and "parse_triggers c h 4 (area_objectives areas) = Inr (area_triggers areas, t)"
    and "validate_objective_graph (area_objectives areas) (area_triggers areas) [] ''field_excursion'' = Inr ()"
  shows "\<exists>a. parse_definition c h 0 n = Inr a \<and> excursion i areas a"
proof -
  note casts = documented_simps [OF c]
  have reward: "parse_reward c h 1 ''activity reward'' =
      Inr (\<lparr> reward_item = ''relay_core_fragment'', reward_quantity = 1 \<rparr>, ''relay_core_fragment'', 1)"
    by (simp add: parse_reward_def casts h parse_defs script_defs reward_validated_def relay_core_fragment_def)
  have progress: "parse_progression c h 2 ''activity progression'' = Inr (ExperienceReward 100)"
    by (simp add: parse_progression_def casts h parse_defs script_defs experience_validated_def
        max_activity_experience_def)
  have fields: "lua_get h 0 (LuaString ''id'') = LuaString i"
    "lua_get h 0 (LuaString ''kind'') = LuaString ''field_excursion''"
    "lua_get h 0 (LuaString ''reward'') = LuaTable 1" "lua_get h 0 (LuaString ''progression'') = LuaTable 2"
    "lua_get h 0 (LuaString ''objectives'') = LuaTable 3" "lua_get h 0 (LuaString ''triggers'') = LuaTable 4"
    "lua_get h 0 (LuaString ''authoring_revision'') = LuaNil" "lua_get h 0 (LuaString ''routes'') = LuaNil"
    by (simp_all add: h script_defs lua_get_def)
  have keys: "validate_map_keys h 0
      [''id'', ''authoring_revision'', ''kind'', ''reward'', ''progression'', ''objectives'', ''triggers'', ''routes'']
      ''activity'' = Inr ()"
    by (simp add: h script_defs validate_map_keys_def byte_def)
  show ?thesis
    using assms(3-)
    by (simp add: parse_definition_def keys fields casts reward [simplified] progress required_field_def required_table_def
        optional_field_def parse_activity_kind_def parse_routes_def excursion_def)
qed

lemma coolant_parses:
  assumes "documented_casts c"
  shows "\<exists>a. parse_definition c (script_heap coolant_tables) 0 n = Inr a \<and>
    excursion ''coolant_run'' coolant_areas a"
proof (unfold coolant_tables_def coolant_areas_def, rule parse_excursion [OF assms refl])
  show "validate_objective_graph (area_objectives [''coolant_intake'', ''coolant_transfer'', ''coolant_delivery''])
      (area_triggers [''coolant_intake'', ''coolant_transfer'', ''coolant_delivery'']) [] ''field_excursion'' = Inr ()"
    by code_simp
qed (simp_all add: documented_simps [OF assms] parse_defs script_defs upt_rec area_def)

lemma survey_parses:
  assumes "documented_casts c"
  shows "\<exists>a. parse_definition c (script_heap survey_tables) 0 n = Inr a \<and>
    excursion ''meridian_survey'' survey_areas a"
proof (unfold survey_tables_def survey_areas_def, rule parse_excursion [OF assms refl])
  show "validate_objective_graph (area_objectives [''meridian_arrival'', ''meridian_lens'', ''meridian_gallery''])
      (area_triggers [''meridian_arrival'', ''meridian_lens'', ''meridian_gallery'']) [] ''field_excursion'' = Inr ()"
    by code_simp
qed (simp_all add: documented_simps [OF assms] parse_defs script_defs upt_rec area_def)

lemma return_parses:
  assumes "documented_casts c"
  shows "\<exists>a. parse_definition c (script_heap return_tables) 0 n = Inr a \<and>
    excursion ''meridian_return'' return_areas a"
proof (unfold return_tables_def return_areas_def, rule parse_excursion [OF assms refl])
  show "validate_objective_graph (area_objectives [''meridian_log'', ''meridian_return''])
      (area_triggers [''meridian_log'', ''meridian_return'']) [] ''field_excursion'' = Inr ()"
    by code_simp
qed (simp_all add: documented_simps [OF assms] parse_defs script_defs upt_rec area_def)

lemma static_tables:
  "validate_static_graph (script_heap coolant_tables) (LuaTable 0) = Inr ()"
  "validate_static_graph (script_heap survey_tables) (LuaTable 0) = Inr ()"
  "validate_static_graph (script_heap return_tables) (LuaTable 0) = Inr ()"
  by code_simp+

text \<open>A source whose evaluation gives the tables of its script.\<close>

definition runs_to :: "(string \<Rightarrow> activity_error + lua_heap \<times> lua_value) \<Rightarrow> string \<Rightarrow> lua_table list \<Rightarrow> bool" where
  "runs_to run source tables \<longleftrightarrow>
     length source \<le> max_activity_lua_bytes \<and> run source = Inr (script_heap tables, LuaTable 0)"

lemma from_source_excursion:
  assumes "runs_to run source tables"
    and "validate_static_graph (script_heap tables) (LuaTable 0) = Inr ()"
    and "\<And>n. \<exists>a. parse_definition c (script_heap tables) 0 n = Inr a \<and> excursion i areas a"
  shows "\<exists>s. from_source c run source = Inr s \<and> script_id s = i \<and> script_objectives s = area_objectives areas \<and>
    script_order s = areas \<and> script_triggers s = area_triggers areas"
proof -
  obtain a where "parse_definition c (script_heap tables) 0 (length source) = Inr a" "excursion i areas a"
    using assms(3) by blast
  with assms(1,2) show ?thesis
    by (auto simp: from_source_def parse_activity_source_def runs_to_def excursion_def from_parsed_def)
qed

text \<open>An interpreter that knows the three scripts by name.\<close>

definition field_run :: "string \<Rightarrow> activity_error + lua_heap \<times> lua_value" where
  "field_run name =
    (if name = ''coolant_run'' then Inr (script_heap coolant_tables, LuaTable 0)
     else if name = ''meridian_survey'' then Inr (script_heap survey_tables, LuaTable 0)
     else if name = ''meridian_return'' then Inr (script_heap return_tables, LuaTable 0)
     else Inl ''unknown script'')"

lemma field_runs:
  "runs_to field_run ''coolant_run'' coolant_tables"
  "runs_to field_run ''meridian_survey'' survey_tables"
  "runs_to field_run ''meridian_return'' return_tables"
  by (simp_all add: runs_to_def field_run_def lua_limits)

lemma field_sources:
  "\<exists>s. from_source strict_casts field_run ''coolant_run'' = Inr s"
  "\<exists>s. from_source strict_casts field_run ''meridian_survey'' = Inr s"
  "\<exists>s. from_source strict_casts field_run ''meridian_return'' = Inr s"
  using from_source_excursion [OF field_runs(1) static_tables(1) coolant_parses [OF documented_strict]]
    from_source_excursion [OF field_runs(2) static_tables(2) survey_parses [OF documented_strict]]
    from_source_excursion [OF field_runs(3) static_tables(3) return_parses [OF documented_strict]]
  by blast+

text \<open>The coolant chain is an authored activity, so everything proved of those holds of it.\<close>

interpretation coolant_chain: authored_activity "area_objectives coolant_areas" "area_triggers coolant_areas"
proof -
  from coolant_parses [OF documented_strict, of 0] obtain a where
    "parse_definition strict_casts (script_heap coolant_tables) 0 0 = Inr a" "excursion ''coolant_run'' coolant_areas a"
    by blast
  then show "authored_activity (area_objectives coolant_areas) (area_triggers coolant_areas)"
    using parse_definition_facts(1) [of strict_casts "script_heap coolant_tables" 0 0 a] by (simp add: excursion_def)
qed

theorem authored_activity_completable_witness:
  "\<exists>a ds evs s. parse_definition strict_casts (script_heap coolant_tables) 0 0 = Inr a \<and>
    mset ds = mset (area_triggers coolant_areas) \<and>
    play (map fire ds) (from_parsed a) = (evs @ [ActivityCompleted ''coolant_run''], s)"
proof -
  from coolant_parses [OF documented_strict, of 0] obtain a where
    a: "parse_definition strict_casts (script_heap coolant_tables) 0 0 = Inr a" "excursion ''coolant_run'' coolant_areas a"
    by blast
  then have n: "parsed_triggers a = area_triggers coolant_areas" "parsed_id a = ''coolant_run''"
    by (simp_all add: excursion_def)
  from authored_activity_completable [OF a(1)] obtain ds evs s where
    "mset ds = mset (parsed_triggers a)" "play (map fire ds) (from_parsed a) = (evs, s)"
    "\<exists>es. evs = es @ [ActivityCompleted (parsed_id a)]" by blast
  then show ?thesis using a(1) unfolding n by blast
qed

theorem authored_activity_typed_witness:
  "\<exists>a evs s. parse_definition strict_casts (script_heap coolant_tables) 0 0 = Inr a \<and>
    play [AreaReached ''coolant_intake''] (from_parsed a) = (evs, s) \<and>
    all_evolved (area_objectives coolant_areas) (script_objectives s)"
proof -
  from coolant_parses [OF documented_strict, of 0] obtain a where
    a: "parse_definition strict_casts (script_heap coolant_tables) 0 0 = Inr a" "excursion ''coolant_run'' coolant_areas a"
    by blast
  obtain evs s where p: "play [AreaReached ''coolant_intake''] (from_parsed a) = (evs, s)" by fastforce
  from authored_activity_typed [OF a(1) p] a p show ?thesis by (auto simp: excursion_def)
qed


section \<open>Progress of a chain\<close>

text \<open>The objectives of a chain whose first \<open>k\<close> areas have been reached.\<close>

definition area_at :: "nat \<Rightarrow> string list \<Rightarrow> objectives" where
  "area_at k areas = map (\<lambda>(n, i). (i, \<lparr> objective_id = i, objective_kind = ReachArea,
     objective_state = (if n < k then CompletedState else if n = k then ActiveState else PendingState),
     objective_progress = (if n < k then 1 else 0), objective_target = 1 \<rparr>)) (enumerate 0 areas)"

definition chain_at :: "string list \<Rightarrow> nat \<Rightarrow> scripted_activity \<Rightarrow> bool" where
  "chain_at areas k s \<longleftrightarrow> k \<le> length areas \<and> script_objectives s = area_at k areas \<and>
     script_triggers s = area_triggers areas"

lemma area_at_0:
  "area_objectives coolant_areas = area_at 0 coolant_areas"
  "area_objectives survey_areas = area_at 0 survey_areas"
  "area_objectives return_areas = area_at 0 return_areas"
  by (simp_all add: area_at_def area_defs area_def)

lemma less_3_cases: "k < (3::nat) \<longleftrightarrow> k = 0 \<or> k = 1 \<or> k = 2"
  by auto

lemma less_2_cases: "k < (2::nat) \<longleftrightarrow> k = 0 \<or> k = 1"
  by auto

lemma chain_advance:
  "chain_at survey_areas k s \<Longrightarrow> k < 3 \<Longrightarrow>
     chain_at survey_areas (k + 1) (snd (apply_trigger (AreaReached (survey_areas ! k)) s))"
  "chain_at return_areas j s \<Longrightarrow> j < 2 \<Longrightarrow>
     chain_at return_areas (j + 1) (snd (apply_trigger (AreaReached (return_areas ! j)) s))"
  "chain_at coolant_areas k s \<Longrightarrow> k < 3 \<Longrightarrow>
     chain_at coolant_areas (k + 1) (snd (apply_trigger (AreaReached (coolant_areas ! k)) s))"
  unfolding less_3_cases less_2_cases
  by (auto simp: chain_at_def apply_trigger_def definition_key_def trigger_key_def area_at_def area_defs
      complete_objective_def activate_objective_def)

lemma objective_active_iff:
  assumes "distinct (map fst (script_objectives s))"
  shows "objective_active i s \<longleftrightarrow> (\<exists>x. (i, x) \<in> set (script_objectives s) \<and> objective_state x = ActiveState)"
  unfolding objective_active_def map_of_eq_Some_iff [OF assms, symmetric]
  by (cases "map_of (script_objectives s) i") simp_all

lemma chain_keys: "chain_at areas k s \<Longrightarrow> map fst (script_objectives s) = areas"
  by (simp add: chain_at_def area_at_def case_prod_beta comp_def)

lemma chain_active:
  assumes "chain_at areas k s" and "distinct areas"
  shows "objective_active i s \<longleftrightarrow> k < length areas \<and> i = areas ! k"
proof -
  have "objective_active i s \<longleftrightarrow> (\<exists>x. (i, x) \<in> set (script_objectives s) \<and> objective_state x = ActiveState)"
    using assms chain_keys by (intro objective_active_iff) auto
  also have "\<dots> \<longleftrightarrow> k < length areas \<and> i = areas ! k"
    using assms(1) by (force simp: chain_at_def area_at_def enumerate_eq_zip set_zip split: if_splits)
  finally show ?thesis .
qed

lemma area_lists [simp]:
  "distinct survey_areas" "distinct return_areas" "distinct coolant_areas"
  "length survey_areas = 3" "length return_areas = 2" "length coolant_areas = 3"
  by (simp_all add: area_defs)

lemma chain_names: "chain_at areas k s \<Longrightarrow> fst ` set (script_objectives s) = set areas"
  using chain_keys by (metis list.set_map)

end
