(* ===== verification/Coolant.thy ===== *)
theory Coolant
  imports Field_Scripts Holding
begin

text \<open>
  The coolant run (\<open>runtime/activities/src/coolant.rs\<close>): a field activity with a dwell at two
  stations and a deadline, which answers with the objective updates of its script.
\<close>

section \<open>Coolant\<close>

definition coolant_intake :: pos where "coolant_intake = (- 1, 0, - 5)"
definition coolant_transfer :: pos where "coolant_transfer = (4, 0, - 5)"
definition coolant_delivery :: pos where "coolant_delivery = (4, 0, - 1)"
definition coolant_dwell_ms :: u64 where "coolant_dwell_ms = 1200"
definition coolant_deadline_ms :: u64 where "coolant_deadline_ms = 8000"

datatype coolant_phase = CoolantTransfer | CoolantDelivery | CoolantCompleted | CoolantExpired

record coolant_run =
  coolant_script :: scripted_activity
  coolant_phase :: coolant_phase
  coolant_dwell :: "u64 option"

definition coolant_start ::
  "lua_casts \<Rightarrow> (string \<Rightarrow> activity_error + lua_heap \<times> lua_value) \<Rightarrow> string \<Rightarrow>
   activity_error + coolant_run \<times> activity_event list" where
  "coolant_start c run source =
    and_then (from_source c run source) (\<lambda>script.
    let script = snd (apply_trigger (AreaReached ''coolant_intake'') script)
    in Inr (\<lparr> coolant_script = script, coolant_phase = CoolantTransfer, coolant_dwell = None \<rparr>,
            ordered_objectives script))"

definition coolant_update :: "pos \<Rightarrow> u64 \<Rightarrow> coolant_run \<Rightarrow> activity_event list \<times> coolant_run" where
  "coolant_update position elapsed run =
    (case (case coolant_phase run of
             CoolantTransfer \<Rightarrow> Some (coolant_transfer, ''coolant_transfer'')
           | CoolantDelivery \<Rightarrow> Some (coolant_delivery, ''coolant_delivery'')
           | _ \<Rightarrow> None) of
       None \<Rightarrow> ([], run)
     | Some (station, objective) \<Rightarrow>
         if elapsed \<ge> coolant_deadline_ms
         then ([ObjectiveUpdated \<lparr> objective_id = objective, objective_kind = ReachArea,
                 objective_state = FailedState, objective_progress = 0, objective_target = 1 \<rparr>],
               run\<lparr> coolant_phase := CoolantExpired \<rparr>)
         else if position \<noteq> station then ([], run\<lparr> coolant_dwell := None \<rparr>)
         else
           let started = (case coolant_dwell run of Some t \<Rightarrow> t | None \<Rightarrow> elapsed);
               run = run\<lparr> coolant_dwell := Some started \<rparr> in
           if sat_sub elapsed started < coolant_dwell_ms then ([], run)
           else
             let run = run\<lparr> coolant_dwell := None,
                   coolant_phase := (if coolant_phase run = CoolantTransfer then CoolantDelivery else CoolantCompleted) \<rparr>;
                 (events, script) = apply_trigger (AreaReached objective) (coolant_script run)
             in (filter is_objective_update events, run\<lparr> coolant_script := script \<rparr>))"


section \<open>Holding the coolant stations\<close>

text \<open>A history of updates keeps the run, the time of the last update and the position it saw.\<close>

type_synonym coolant_history = "coolant_run \<times> u64 \<times> pos"

fun coolant_step :: "pos \<times> u64 \<Rightarrow> coolant_history \<Rightarrow> coolant_history" where
  "coolant_step (p, now) (run, _) = (snd (coolant_update p now run), now, p)"

fun coolant_station :: "coolant_phase \<Rightarrow> pos option" where
  "coolant_station CoolantTransfer = Some coolant_transfer"
| "coolant_station CoolantDelivery = Some coolant_delivery"
| "coolant_station _ = None"

definition coolant_good :: "coolant_history \<Rightarrow> bool" where
  "coolant_good s = (case s of (run, now, p) \<Rightarrow>
     coolant_dwell run = None \<or> coolant_station (coolant_phase run) \<in> {None, Some p})"

definition coolant_started :: "coolant_history \<Rightarrow> u64 option" where
  "coolant_started s = (case s of (run, _) \<Rightarrow>
     if coolant_station (coolant_phase run) = None then None else coolant_dwell run)"

definition coolant_place :: "coolant_history \<Rightarrow> pos \<times> coolant_phase" where
  "coolant_place s = (case s of (run, _, p) \<Rightarrow> (p, coolant_phase run))"

definition coolant_reaches :: "pos \<times> u64 \<Rightarrow> coolant_history \<Rightarrow> bool" where
  "coolant_reaches c s \<longleftrightarrow>
     coolant_phase (fst (coolant_step c s)) \<noteq> coolant_phase (fst s) \<and>
     coolant_phase (fst (coolant_step c s)) \<noteq> CoolantExpired"

text \<open>The ways an update can end.\<close>

lemma coolant_update_cases:
  obtains (over) "coolant_station (coolant_phase run) = None" "coolant_update p now run = ([], run)"
  | (late) evs where "coolant_station (coolant_phase run) \<noteq> None" "8000 \<le> now"
      "coolant_update p now run = (evs, run\<lparr> coolant_phase := CoolantExpired \<rparr>)"
  | (away) q where "coolant_station (coolant_phase run) = Some q" "p \<noteq> q" "now < 8000"
      "coolant_update p now run = ([], run\<lparr> coolant_dwell := None \<rparr>)"
  | (waits) t where "coolant_station (coolant_phase run) = Some p" "now < 8000"
      "coolant_dwell run = Some t \<or> coolant_dwell run = None \<and> t = now"
      "coolant_update p now run = ([], run\<lparr> coolant_dwell := Some t \<rparr>)"
  | (reaches) t evs s where "coolant_station (coolant_phase run) = Some p" "now < 8000"
      "coolant_dwell run = Some t" "unat t + 1200 \<le> unat now"
      "apply_trigger (AreaReached (if coolant_phase run = CoolantTransfer then ''coolant_transfer'' else ''coolant_delivery''))
         (coolant_script run) = (evs, s)"
      "coolant_update p now run = (filter is_objective_update evs,
         run\<lparr> coolant_dwell := None, coolant_script := s,
           coolant_phase := (if coolant_phase run = CoolantTransfer then CoolantDelivery else CoolantCompleted) \<rparr>)"
proof -
  obtain script phase dwell where run: "run = \<lparr> coolant_script = script, coolant_phase = phase, coolant_dwell = dwell \<rparr>"
    by (cases run)
  let ?i = "if phase = CoolantTransfer then ''coolant_transfer'' else ''coolant_delivery''"
  obtain evs s where t: "apply_trigger (AreaReached ?i) script = (evs, s)" by fastforce
  have wait: "sat_sub now (case dwell of Some t \<Rightarrow> t | None \<Rightarrow> now) < coolant_dwell_ms \<longleftrightarrow>
      \<not> (\<exists>t. dwell = Some t \<and> unat t + 1200 \<le> unat now)"
    by (cases dwell) (auto simp: machine_arith coolant_dwell_ms_def)
  show thesis
  proof (cases "coolant_station phase")
    case None
    then have "coolant_update p now run = ([], run)" by (cases phase) (simp_all add: run coolant_update_def)
    then show ?thesis using over None by (simp add: run)
  next
    case (Some q)
    show ?thesis
    proof (cases "8000 \<le> now")
      case True
      then have "\<exists>evs. coolant_update p now run = (evs, run\<lparr> coolant_phase := CoolantExpired \<rparr>)"
        using Some by (cases phase) (simp_all add: run coolant_update_def coolant_deadline_ms_def)
      then show ?thesis using late Some True by (auto simp: run)
    next
      case early: False
      show ?thesis
      proof (cases "p = q")
        case False
        then have "coolant_update p now run = ([], run\<lparr> coolant_dwell := None \<rparr>)"
          using Some early by (cases phase) (simp_all add: run coolant_update_def coolant_deadline_ms_def)
        then show ?thesis using away [of q] Some early False by (simp add: run not_le)
      next
        case here: True
        show ?thesis
        proof (cases "\<exists>t. dwell = Some t \<and> unat t + 1200 \<le> unat now")
          case True
          then obtain u where u: "dwell = Some u" "unat u + 1200 \<le> unat now" by blast
          with wait have w: "\<not> sat_sub now u < coolant_dwell_ms" by simp
          have "coolant_update p now run = (filter is_objective_update evs,
              run\<lparr> coolant_dwell := None, coolant_script := s,
                coolant_phase := (if phase = CoolantTransfer then CoolantDelivery else CoolantCompleted) \<rparr>)"
            using Some early here u w t
            by (cases phase) (simp_all add: run coolant_update_def coolant_deadline_ms_def)
          then show ?thesis using reaches [of u evs s] Some early here u t by (simp add: run not_le)
        next
          case False
          with wait have w: "sat_sub now (case dwell of Some t \<Rightarrow> t | None \<Rightarrow> now) < coolant_dwell_ms" by simp
          let ?t = "case dwell of Some t \<Rightarrow> t | None \<Rightarrow> now"
          have "coolant_update p now run = ([], run\<lparr> coolant_dwell := Some ?t \<rparr>)"
            using Some early here w
            by (cases phase) (simp_all add: run coolant_update_def coolant_deadline_ms_def)
          then show ?thesis using waits [of ?t] Some early here by (cases dwell) (simp_all add: run not_le)
        qed
      qed
    qed
  qed
qed

lemma coolant_good_step: "coolant_good s \<Longrightarrow> coolant_good (coolant_step c s)"
proof -
  assume good: "coolant_good s"
  obtain run last p q now where s: "s = (run, last, p)" "c = (q, now)" by (metis prod_cases3 surj_pair)
  show ?thesis using good unfolding s
    by (cases rule: coolant_update_cases [of run q now]) (auto simp: coolant_good_def)
qed

interpretation coolant_hold: hold coolant_step coolant_good "\<lambda>s. fst (snd s)" coolant_place coolant_started
  coolant_reaches 1200
proof
  fix c :: "pos \<times> u64" and s :: coolant_history and t
  assume good: "coolant_good s"
  then show "coolant_good (coolant_step c s)" by (rule coolant_good_step)
  obtain run last p q now where s: "s = (run, last, p)" "c = (q, now)" by (metis prod_cases3 surj_pair)
  show "coolant_started (coolant_step c s) = Some t \<Longrightarrow>
      t = fst (snd (coolant_step c s)) \<or> coolant_started s = Some t \<and> coolant_place s = coolant_place (coolant_step c s)"
    using good unfolding s
    by (cases rule: coolant_update_cases [of run q now])
      (auto simp: coolant_started_def coolant_place_def coolant_good_def split: if_splits)
  show "coolant_reaches c s \<Longrightarrow>
      \<exists>t. coolant_started s = Some t \<and> unat t + 1200 \<le> unat (fst (snd (coolant_step c s)))"
    unfolding s
    by (cases rule: coolant_update_cases [of run q now]) (auto simp: coolant_started_def coolant_reaches_def)
qed

text \<open>How many areas of the script a phase stands for.\<close>

fun coolant_areas_done :: "coolant_phase \<Rightarrow> nat" where
  "coolant_areas_done CoolantTransfer = 1"
| "coolant_areas_done CoolantDelivery = 2"
| "coolant_areas_done _ = 3"

lemma coolant_step_chain:
  assumes "coolant_phase (fst s) \<noteq> CoolantExpired \<longrightarrow>
      chain_at coolant_areas (coolant_areas_done (coolant_phase (fst s))) (coolant_script (fst s))"
    and "coolant_phase (fst (coolant_step c s)) \<noteq> CoolantExpired"
  shows "chain_at coolant_areas (coolant_areas_done (coolant_phase (fst (coolant_step c s))))
    (coolant_script (fst (coolant_step c s)))"
proof -
  obtain run last p q now where s: "s = (run, last, p)" "c = (q, now)" by (metis prod_cases3 surj_pair)
  have ch: "chain_at coolant_areas 1 (coolant_script run) \<Longrightarrow>
      chain_at coolant_areas 2 (snd (apply_trigger (AreaReached ''coolant_transfer'') (coolant_script run)))"
    "chain_at coolant_areas 2 (coolant_script run) \<Longrightarrow>
      chain_at coolant_areas 3 (snd (apply_trigger (AreaReached ''coolant_delivery'') (coolant_script run)))"
    using chain_advance(3) [of 1 "coolant_script run"] chain_advance(3) [of 2 "coolant_script run"]
    by (simp_all add: area_defs eval_nat_numeral)
  show ?thesis
    using assms ch unfolding s
    by (cases rule: coolant_update_cases [of run q now]; cases "coolant_phase run") auto
qed

lemma coolant_started_script:
  assumes "documented_casts c" and "runs_to run source coolant_tables" and "coolant_start c run source = Inr (r, evs)"
  shows "coolant_phase r = CoolantTransfer \<and> coolant_dwell r = None \<and> chain_at coolant_areas 1 (coolant_script r)"
proof -
  from from_source_excursion [OF assms(2) static_tables(1) coolant_parses [OF assms(1)]]
  obtain s where s: "from_source c run source = Inr s" "chain_at coolant_areas 0 s"
    by (auto simp: chain_at_def area_at_0)
  have "chain_at coolant_areas 1 (snd (apply_trigger (AreaReached ''coolant_intake'') s))"
    using chain_advance(3) [OF s(2)] by (simp add: area_defs)
  with assms(3) s(1) show ?thesis by (auto simp: coolant_start_def Let_def)
qed

text \<open>C38 (safety): over any history of updates of a started coolant run, the objectives of its script
  follow its phase until it expires; an update at or after the deadline leaves the run completed or expired; and a station is only
  completed before the deadline, by a player who was there in every update since one at least 1200 ms
  before.\<close>

theorem coolant_stations_held:
  assumes "documented_casts c" and "runs_to run source coolant_tables" and "coolant_start c run source = Inr (r, evs)"
  defines "after cs \<equiv> fold coolant_step cs (r, 0, coolant_intake)"
  shows "(coolant_phase (fst (after cs)) \<noteq> CoolantExpired \<longrightarrow>
      script_objectives (coolant_script (fst (after cs))) =
        area_at (coolant_areas_done (coolant_phase (fst (after cs)))) coolant_areas) \<and>
    (\<forall>p now. 8000 \<le> now \<longrightarrow>
      coolant_phase (fst (coolant_step (p, now) (after cs))) \<in> {CoolantCompleted, CoolantExpired}) \<and>
    (\<forall>p now. coolant_reaches (p, now) (after cs) \<longrightarrow>
      now < 8000 \<and> coolant_station (coolant_phase (fst (after cs))) = Some p \<and>
      (\<exists>m \<le> length cs. unat (fst (snd (after (take m cs)))) + 1200 \<le> unat now \<and>
        (\<forall>k. m \<le> k \<and> k \<le> length cs \<longrightarrow> snd (snd (after (take k cs))) = p)))"
proof (intro conjI allI impI)
  note r = coolant_started_script [OF assms(1-3)]
  have start: "coolant_good (r, 0, coolant_intake)" "coolant_started (r, 0, coolant_intake) = None"
    using r by (simp_all add: coolant_good_def coolant_started_def)
  have chain: "coolant_phase (fst (after cs)) \<noteq> CoolantExpired \<longrightarrow>
      chain_at coolant_areas (coolant_areas_done (coolant_phase (fst (after cs)))) (coolant_script (fst (after cs)))" for cs
    unfolding after_def
    by (induction cs rule: rev_induct) (use r in \<open>auto intro!: coolant_step_chain\<close>)
  then show "script_objectives (coolant_script (fst (after cs))) =
      area_at (coolant_areas_done (coolant_phase (fst (after cs)))) coolant_areas"
    if "coolant_phase (fst (after cs)) \<noteq> CoolantExpired" using that by (simp add: chain_at_def)
  fix p now
  obtain run last q where s: "after cs = (run, last, q)" by (metis prod_cases3)
  show "coolant_phase (fst (coolant_step (p, now) (after cs))) \<in> {CoolantCompleted, CoolantExpired}" if "8000 \<le> now"
    unfolding s using that
    by (cases rule: coolant_update_cases [of run p now]) (cases "coolant_phase run"; auto)+
  assume reaches: "coolant_reaches (p, now) (after cs)"
  then have here: "now < 8000 \<and> coolant_station (coolant_phase run) = Some p"
    unfolding s by (cases rule: coolant_update_cases [of run p now]) (auto simp: coolant_reaches_def)
  then show "now < 8000" "coolant_station (coolant_phase (fst (after cs))) = Some p" by (simp_all add: s)
  obtain m where m: "m \<le> length cs" "unat (fst (snd (after (take m cs)))) + 1200 \<le> unat now"
    "\<And>k. m \<le> k \<Longrightarrow> k \<le> length cs \<Longrightarrow> coolant_place (after (take k cs)) = coolant_place (after cs)"
    using coolant_hold.fired_held [OF start reaches [unfolded after_def]]
    by (auto simp: after_def [symmetric] s)
  obtain t where "coolant_started (after cs) = Some t"
    using coolant_hold.fired [OF coolant_hold.good_history [OF start(1)] reaches [unfolded after_def]]
    by (auto simp: after_def)
  moreover have "coolant_good (after cs)" unfolding after_def by (rule coolant_hold.good_history [OF start(1)])
  ultimately have "q = p" using here by (auto simp: s coolant_started_def coolant_good_def split: if_splits)
  then have "snd (snd (after (take k cs))) = p" if "m \<le> k" "k \<le> length cs" for k
    using m(3) [OF that] by (auto simp: s coolant_place_def split: prod.splits)
  with m(1,2) show "\<exists>m \<le> length cs. unat (fst (snd (after (take m cs)))) + 1200 \<le> unat now \<and>
        (\<forall>k. m \<le> k \<and> k \<le> length cs \<longrightarrow> snd (snd (after (take k cs))) = p)" by blast
qed

theorem coolant_stations_held_witness:
  "\<exists>r evs. coolant_start strict_casts field_run ''coolant_run'' = Inr (r, evs) \<and>
    coolant_phase (fst (coolant_step ((0, 0, 0), 9000) (fold coolant_step [((4, 0, - 5), 100)] (r, 0, coolant_intake))))
      \<in> {CoolantCompleted, CoolantExpired}"
proof -
  obtain r evs where r: "coolant_start strict_casts field_run ''coolant_run'' = Inr (r, evs)"
    using field_sources(1) by (auto simp: coolant_start_def Let_def)
  have "(8000 :: u64) \<le> 9000" by simp
  then show ?thesis
    using coolant_stations_held [OF documented_strict field_runs(1) r, of "[((4, 0, - 5), 100)]"] r by blast
qed

end
