(* ===== verification/Meridian.thy ===== *)
theory Meridian
  imports Field_Scripts
begin

text \<open>
  The Meridian expedition (\<open>runtime/activities/src/meridian.rs\<close>): the walkable sector, the stations
  of its two scripts, and the restoration of an interrupted visit at a checkpoint.
\<close>

section \<open>Meridian\<close>

definition meridian_entrance :: pos where "meridian_entrance = (- 12, 0, 0)"
definition meridian_revision :: string where "meridian_revision = ''meridian-v1''"

datatype meridian_checkpoint = AtEntrance | Arrival | SurveyComplete

fun checkpoint_position :: "meridian_checkpoint \<Rightarrow> pos" where
  "checkpoint_position AtEntrance = meridian_entrance"
| "checkpoint_position Arrival = (- 16, 0, 0)"
| "checkpoint_position SurveyComplete = (- 28, 0, 7)"

record station =
  station_id :: string
  station_position :: pos

record sector =
  sector_revision :: string
  sector_floors :: "(int \<times> int \<times> int \<times> int) list"
  sector_stations :: "station list"

text \<open>The embedded \<open>client/game/world/meridian.json\<close>.\<close>

definition meridian_sector :: sector where
  "meridian_sector =
    \<lparr> sector_revision = ''meridian-v1'',
      sector_floors = [(- 14, - 12, - 1, 1), (- 20, - 14, - 3, 3), (- 25, - 19, - 1, 1), (- 25, - 23, - 6, 6),
        (- 32, - 24, - 10, - 2), (- 32, - 24, 2, 10), (- 31, - 29, - 6, 6)],
      sector_stations =
        [\<lparr> station_id = ''meridian_arrival'', station_position = (- 16, 0, 0) \<rparr>,
         \<lparr> station_id = ''meridian_lens'', station_position = (- 28, 0, - 7) \<rparr>,
         \<lparr> station_id = ''meridian_gallery'', station_position = (- 28, 0, 7) \<rparr>,
         \<lparr> station_id = ''meridian_log'', station_position = (- 30, 0, 0) \<rparr>,
         \<lparr> station_id = ''meridian_return'', station_position = (- 16, 0, 0) \<rparr>,
         \<lparr> station_id = ''meridian_memory'', station_position = (- 31, 0, 8) \<rparr>] \<rparr>"

definition walkable :: "pos \<Rightarrow> bool" where
  "walkable p = (case p of (x, y, z) \<Rightarrow>
     y = 0 \<and> list_ex (\<lambda>(x0, x1, z0, z1). x0 \<le> x \<and> x \<le> x1 \<and> z0 \<le> z \<and> z \<le> z1) (sector_floors meridian_sector))"

definition navigable :: "pos \<Rightarrow> bool" where
  "navigable p = (case p of (x, y, z) \<Rightarrow>
     walkable p \<or> y = 0 \<and> - 12 \<le> x \<and> x \<le> 12 \<and> - 12 \<le> z \<and> z \<le> 12)"

text \<open>The differences of \<open>i32\<close> coordinates are taken in \<open>i64\<close> and cannot overflow.\<close>

definition valid_step :: "pos \<Rightarrow> pos \<Rightarrow> bool" where
  "valid_step from to = (case (from, to) of ((x, y, z), (x', y', z')) \<Rightarrow>
     \<bar>x - x'\<bar> \<le> 1 \<and> \<bar>z - z'\<bar> \<le> 1 \<and> y = 0 \<and>
     navigable to \<and> navigable (x', 0, z) \<and> navigable (x, 0, z'))"

record expedition =
  survey :: scripted_activity
  recovery :: scripted_activity
  memory :: bool

definition expedition_start ::
  "lua_casts \<Rightarrow> (string \<Rightarrow> activity_error + lua_heap \<times> lua_value) \<Rightarrow> string \<Rightarrow> string \<Rightarrow> activity_error + expedition" where
  "expedition_start c run survey_source recovery_source =
    and_then (from_source c run survey_source) (\<lambda>s.
    and_then (from_source c run recovery_source) (\<lambda>r.
    Inr \<lparr> survey = s, recovery = r, memory = False \<rparr>))"

fun checkpoint_completed :: "meridian_checkpoint \<Rightarrow> string list" where
  "checkpoint_completed AtEntrance = []"
| "checkpoint_completed Arrival = [''meridian_arrival'']"
| "checkpoint_completed SurveyComplete = [''meridian_arrival'', ''meridian_lens'', ''meridian_gallery'']"

definition expedition_restore ::
  "lua_casts \<Rightarrow> (string \<Rightarrow> activity_error + lua_heap \<times> lua_value) \<Rightarrow> string \<Rightarrow> string \<Rightarrow> meridian_checkpoint \<Rightarrow>
   activity_error + expedition" where
  "expedition_restore c run survey_source recovery_source checkpoint =
    and_then (expedition_start c run survey_source recovery_source) (\<lambda>e.
    Inr (e\<lparr> survey := fold (\<lambda>i s. snd (apply_trigger (AreaReached i) s)) (checkpoint_completed checkpoint) (survey e) \<rparr>))"

definition expedition_objectives :: "expedition \<Rightarrow> activity_event list" where
  "expedition_objectives e = ordered_objectives (survey e) @ ordered_objectives (recovery e)"

definition visit_script :: "string \<Rightarrow> scripted_activity \<Rightarrow> activity_event list \<times> scripted_activity" where
  "visit_script i s =
    (if i \<in> fst ` set (script_objectives s) then apply_trigger (AreaReached i) s else ([], s))"

definition visit :: "pos \<Rightarrow> expedition \<Rightarrow> (string \<times> activity_event list) option \<times> expedition" where
  "visit position e =
    (case find (\<lambda>t. station_position t = position \<and>
              (station_id t = ''meridian_memory'' \<and> \<not> memory e \<or>
               objective_active (station_id t) (survey e) \<or> objective_active (station_id t) (recovery e)))
            (sector_stations meridian_sector) of
       None \<Rightarrow> (None, e)
     | Some t \<Rightarrow>
         let (events, e) =
           (if station_id t = ''meridian_memory''
            then ([ObjectiveUpdated \<lparr> objective_id = station_id t, objective_kind = ReachArea,
                     objective_state = CompletedState, objective_progress = 1, objective_target = 1 \<rparr>],
                  e\<lparr> memory := True \<rparr>)
            else
              let (a, s) = visit_script (station_id t) (survey e);
                  (b, r) = visit_script (station_id t) (recovery e)
              in (a @ b, e\<lparr> survey := s, recovery := r \<rparr>))
         in (Some (meridian_revision @ '':'' @ station_id t, filter is_objective_update events), e))"

section \<open>The expedition\<close>

definition expedition_at :: "nat \<Rightarrow> nat \<Rightarrow> bool \<Rightarrow> expedition \<Rightarrow> bool" where
  "expedition_at k j m e \<longleftrightarrow> chain_at survey_areas k (survey e) \<and> chain_at return_areas j (recovery e) \<and> memory e = m"

text \<open>A visit in terms of the progress of both chains and the memory.\<close>

definition next_visit :: "pos \<Rightarrow> nat \<times> nat \<times> bool \<Rightarrow> nat \<times> nat \<times> bool" where
  "next_visit p c =
    (case c of (k, j, m) \<Rightarrow>
       case find (\<lambda>t. station_position t = p \<and> (station_id t = ''meridian_memory'' \<and> \<not> m \<or>
                k < 3 \<and> station_id t = survey_areas ! k \<or> j < 2 \<and> station_id t = return_areas ! j))
              (sector_stations meridian_sector) of
         None \<Rightarrow> (k, j, m)
       | Some t \<Rightarrow>
           if station_id t = ''meridian_memory'' then (k, j, True)
           else if station_id t \<in> set survey_areas then (k + 1, j, m)
           else (k, j + 1, m))"

lemma visit_cases:
  assumes e: "expedition_at k j m e" and v: "visit p e = (r, e')"
  obtains (nothing) "r = None" "e' = e" "next_visit p (k, j, m) = (k, j, m)"
  | (survey) evs where "k < 3" "r = Some (meridian_revision @ '':'' @ survey_areas ! k, evs)" "expedition_at (k + 1) j m e'"
      "next_visit p (k, j, m) = (k + 1, j, m)"
  | (recovery) evs where "j < 2" "r = Some (meridian_revision @ '':'' @ return_areas ! j, evs)" "expedition_at k (j + 1) m e'"
      "next_visit p (k, j, m) = (k, j + 1, m)"
  | (memory) evs where "\<not> m" "r = Some (meridian_revision @ '':meridian_memory'', evs)" "expedition_at k j True e'"
      "next_visit p (k, j, m) = (k, j, True)"
proof -
  note s = e [unfolded expedition_at_def, THEN conjunct1]
    and t = e [unfolded expedition_at_def, THEN conjunct2, THEN conjunct1]
    and m = e [unfolded expedition_at_def, THEN conjunct2, THEN conjunct2]
  note names = chain_names [OF s] chain_names [OF t] and active = chain_active [OF s area_lists(1)] chain_active [OF t area_lists(2)]
  let ?f = "find (\<lambda>t. station_position t = p \<and> (station_id t = ''meridian_memory'' \<and> \<not> memory e \<or>
      objective_active (station_id t) (survey e) \<or> objective_active (station_id t) (recovery e)))
    (sector_stations meridian_sector)"
  have f: "find (\<lambda>t. station_position t = p \<and> (station_id t = ''meridian_memory'' \<and> \<not> m \<or>
      k < 3 \<and> station_id t = survey_areas ! k \<or> j < 2 \<and> station_id t = return_areas ! j))
    (sector_stations meridian_sector) = ?f"
    using active m by simp
  show thesis
  proof (cases ?f)
    case None
    then have "r = None" "e' = e" using v by (simp_all add: visit_def)
    then show ?thesis by (rule nothing) (simp add: next_visit_def f None)
  next
    case (Some x)
    from find_Some_set [OF this] have x: "station_id x = ''meridian_memory'' \<and> \<not> memory e \<or>
      objective_active (station_id x) (survey e) \<or> objective_active (station_id x) (recovery e)" by blast
    have step: "next_visit p (k, j, m) = (if station_id x = ''meridian_memory'' then (k, j, True)
        else if station_id x \<in> set survey_areas then (k + 1, j, m) else (k, j + 1, m))"
      by (simp only: next_visit_def prod.case f Some option.case)
    have not_memory: "''meridian_memory'' \<notin> set survey_areas" "''meridian_memory'' \<notin> set return_areas"
      and disjoint: "set survey_areas \<inter> set return_areas = {}" by (simp_all add: area_defs)
    have mem: "k < 3 \<Longrightarrow> survey_areas ! k \<in> set survey_areas" "j < 2 \<Longrightarrow> return_areas ! j \<in> set return_areas"
      using nth_mem [of k survey_areas] nth_mem [of j return_areas] by simp_all
    consider "station_id x = ''meridian_memory''" "\<not> m"
      | "k < 3" "station_id x = survey_areas ! k" | "j < 2" "station_id x = return_areas ! j"
      using x active m by fastforce
    then show ?thesis
    proof cases
      case 1
      have n: "next_visit p (k, j, m) = (k, j, True)" using step 1(1) by simp
      show ?thesis using v Some e 1 by (intro memory [OF 1(2) _ _ n]) (auto simp: visit_def expedition_at_def)
    next
      case 2
      then have in_s: "station_id x \<in> set survey_areas" using mem by simp
      then have "station_id x \<noteq> ''meridian_memory''" "station_id x \<notin> set return_areas"
        using not_memory disjoint by auto
      moreover from this have n: "next_visit p (k, j, m) = (k + 1, j, m)" using step in_s by simp
      ultimately show ?thesis
        using v Some e 2 in_s names chain_advance(1) [OF s 2(1)]
        by (intro survey [OF 2(1) _ _ n]) (auto simp: visit_def visit_script_def expedition_at_def case_prod_beta)
    next
      case 3
      then have in_r: "station_id x \<in> set return_areas" using mem by simp
      then have "station_id x \<noteq> ''meridian_memory''" "station_id x \<notin> set survey_areas"
        using not_memory disjoint by auto
      moreover from this have n: "next_visit p (k, j, m) = (k, j + 1, m)" using step by simp
      ultimately show ?thesis
        using v Some e 3 in_r names chain_advance(2) [OF t 3(1)]
        by (intro recovery [OF 3(1) _ _ n]) (auto simp: visit_def visit_script_def expedition_at_def case_prod_beta)
    qed
  qed
qed

text \<open>A sequence of positions, with the evidence that the session records.\<close>

fun visits :: "pos list \<Rightarrow> expedition \<Rightarrow> string list \<times> expedition" where
  "visits [] e = ([], e)"
| "visits (p # ps) e =
    (case visit p e of (r, e) \<Rightarrow>
     case visits ps e of (ids, e) \<Rightarrow>
       (case r of None \<Rightarrow> ids | Some (payload, _) \<Rightarrow> payload # ids, e))"

definition evidence :: "string \<Rightarrow> string" where
  "evidence i = ''meridian-v1:'' @ i"

lemma inj_evidence: "evidence i = evidence j \<longleftrightarrow> i = j"
  by (simp add: evidence_def)

definition recorded :: "string list \<Rightarrow> string list \<Rightarrow> string list" where
  "recorded areas ids = filter (\<lambda>x. x \<in> evidence ` set areas) ids"

lemma recorded_Cons:
  "recorded areas (evidence i # ids) = (if i \<in> set areas then [evidence i] else []) @ recorded areas ids"
  by (auto simp: recorded_def inj_evidence)

lemma drop_take_step: "k < length xs \<Longrightarrow> k < k' \<Longrightarrow> drop k (take k' xs) = xs ! k # drop (Suc k) (take k' xs)"
  by (metis Cons_nth_drop_Suc length_take min_less_iff_conj nth_take)

lemma visit_memory: "memory e \<Longrightarrow> memory (snd (visit p e))"
  by (simp add: visit_def Let_def case_prod_beta split: option.split)

lemma visits_memory: "memory e \<Longrightarrow> memory (snd (visits ps e))"
proof (induction ps arbitrary: e)
  case (Cons p ps)
  then have "memory (snd (visits ps (snd (visit p e))))" by (simp add: visit_memory)
  then show ?case by (simp add: case_prod_beta)
qed simp

lemma visits_progress:
  assumes "expedition_at k j m e" and "visits ps e = (ids, e')"
  shows "\<exists>k' j' m'. k \<le> k' \<and> k' \<le> 3 \<and> j \<le> j' \<and> j' \<le> 2 \<and> expedition_at k' j' m' e' \<and>
    recorded survey_areas ids = map evidence (drop k (take k' survey_areas)) \<and>
    recorded return_areas ids = map evidence (drop j (take j' return_areas)) \<and>
    recorded [''meridian_memory''] ids = (if m' \<and> \<not> m then [evidence ''meridian_memory''] else [])"
  using assms
proof (induction ps arbitrary: k j m e ids)
  case Nil
  then have "k \<le> 3" "j \<le> 2" by (auto simp: expedition_at_def chain_at_def)
  with Nil show ?case by - (rule exI [of _ k], rule exI [of _ j], rule exI [of _ m], auto simp: recorded_def)
next
  case (Cons p ps)
  obtain r e1 ids1 where 1: "visit p e = (r, e1)" "visits ps e1 = (ids1, e')"
    and ids: "ids = (case r of None \<Rightarrow> ids1 | Some (payload, _) \<Rightarrow> payload # ids1)"
    using Cons(3) by (auto split: prod.splits)
  have names: "''meridian_memory'' \<notin> set survey_areas" "''meridian_memory'' \<notin> set return_areas"
    "set survey_areas \<inter> set return_areas = {}" by (simp_all add: area_defs)
  from Cons(2) 1(1) show ?case
  proof (cases rule: visit_cases)
    case nothing
    then show ?thesis using Cons(1) [OF Cons(2)] 1(2) ids by simp
  next
    case (survey evs)
    from Cons(1) [OF survey(3) 1(2)] obtain k' j' m' where IH: "k + 1 \<le> k'" "k' \<le> 3" "j \<le> j'" "j' \<le> 2"
      "expedition_at k' j' m' e'" "recorded survey_areas ids1 = map evidence (drop (k + 1) (take k' survey_areas))"
      "recorded return_areas ids1 = map evidence (drop j (take j' return_areas))"
      "recorded [''meridian_memory''] ids1 = (if m' \<and> \<not> m then [evidence ''meridian_memory''] else [])" by blast
    have r: "r = Some (evidence (survey_areas ! k), evs)"
      using survey(2) by (simp add: evidence_def meridian_revision_def)
    have a: "survey_areas ! k \<in> set survey_areas" using survey(1) by simp
    then have "survey_areas ! k \<notin> set return_areas" "survey_areas ! k \<noteq> ''meridian_memory''" using names by auto
    then show ?thesis
      using IH a survey(1) ids drop_take_step [of k survey_areas k']
      by - (rule exI [of _ k'], rule exI [of _ j'], rule exI [of _ m'], simp add: r recorded_Cons)
  next
    case (recovery evs)
    from Cons(1) [OF recovery(3) 1(2)] obtain k' j' m' where IH: "k \<le> k'" "k' \<le> 3" "j + 1 \<le> j'" "j' \<le> 2"
      "expedition_at k' j' m' e'" "recorded survey_areas ids1 = map evidence (drop k (take k' survey_areas))"
      "recorded return_areas ids1 = map evidence (drop (j + 1) (take j' return_areas))"
      "recorded [''meridian_memory''] ids1 = (if m' \<and> \<not> m then [evidence ''meridian_memory''] else [])" by blast
    have r: "r = Some (evidence (return_areas ! j), evs)"
      using recovery(2) by (simp add: evidence_def meridian_revision_def)
    have a: "return_areas ! j \<in> set return_areas" using recovery(1) by simp
    then have "return_areas ! j \<notin> set survey_areas" "return_areas ! j \<noteq> ''meridian_memory''" using names by auto
    then show ?thesis
      using IH a recovery(1) ids drop_take_step [of j return_areas j']
      by - (rule exI [of _ k'], rule exI [of _ j'], rule exI [of _ m'], simp add: r recorded_Cons)
  next
    case (memory evs)
    have r: "r = Some (evidence ''meridian_memory'', evs)"
      using memory(2) by (simp add: evidence_def meridian_revision_def)
    from Cons(1) [OF memory(3) 1(2)] obtain k' j' m' where IH: "k \<le> k'" "k' \<le> 3" "j \<le> j'" "j' \<le> 2"
      "expedition_at k' j' m' e'" "recorded survey_areas ids1 = map evidence (drop k (take k' survey_areas))"
      "recorded return_areas ids1 = map evidence (drop j (take j' return_areas))"
      "recorded [''meridian_memory''] ids1 = []" by auto
    have "m'" using visits_memory [of e1 ps] 1(2) memory(3) IH(5) by (simp add: expedition_at_def)
    then show ?thesis
      using IH memory(1) names
      by - (rule exI [of _ k'], rule exI [of _ j'], rule exI [of _ m'], simp add: ids r recorded_Cons)
  qed
qed

lemma restored:
  assumes "documented_casts c" and "runs_to run s1 survey_tables" and "runs_to run s2 return_tables"
    and "expedition_restore c run s1 s2 cp = Inr e"
  shows "expedition_at (length (checkpoint_completed cp)) 0 False e"
proof -
  from from_source_excursion [OF assms(2) static_tables(2) survey_parses [OF assms(1)]]
  obtain s where s: "from_source c run s1 = Inr s" "chain_at survey_areas 0 s"
    by (auto simp: chain_at_def area_at_0)
  from from_source_excursion [OF assms(3) static_tables(3) return_parses [OF assms(1)]]
  obtain r where r: "from_source c run s2 = Inr r" "chain_at return_areas 0 r"
    by (auto simp: chain_at_def area_at_0)
  have c1: "chain_at survey_areas 1 (snd (apply_trigger (AreaReached ''meridian_arrival'') s))"
    using chain_advance(1) [OF s(2)] by (simp add: area_defs)
  have c2: "chain_at survey_areas 2 (snd (apply_trigger (AreaReached ''meridian_lens'')
      (snd (apply_trigger (AreaReached ''meridian_arrival'') s))))"
    using chain_advance(1) [OF c1] by (simp add: area_defs eval_nat_numeral)
  have c3: "chain_at survey_areas 3 (snd (apply_trigger (AreaReached ''meridian_gallery'')
      (snd (apply_trigger (AreaReached ''meridian_lens'')
      (snd (apply_trigger (AreaReached ''meridian_arrival'') s))))))"
    using chain_advance(1) [OF c2] by (simp add: area_defs eval_nat_numeral)
  have e: "e = \<lparr> survey = fold (\<lambda>i s. snd (apply_trigger (AreaReached i) s)) (checkpoint_completed cp) s,
      recovery = r, memory = False \<rparr>"
    using assms(4) s(1) r(1) by (simp add: expedition_restore_def expedition_start_def)
  show ?thesis
    using s(2) r(2) c1 c3 by (cases cp) (simp_all add: e expedition_at_def numeral_3_eq_3)
qed

text \<open>C37 (invariant): an expedition restored at any checkpoint and walked through any positions
  records every station of the two scripts at most once and in the authored order, beginning after the
  stations of the checkpoint, and the memory at most once; its objectives are exactly the completed
  prefix, one active area and pending rest that the record says.\<close>

theorem meridian_visits_in_order:
  assumes "documented_casts c" and "runs_to run s1 survey_tables" and "runs_to run s2 return_tables"
    and "expedition_restore c run s1 s2 cp = Inr e0" and "visits ps e0 = (ids, e)"
  shows "\<exists>k j. length (checkpoint_completed cp) \<le> k \<and> k \<le> 3 \<and> j \<le> 2 \<and>
    recorded survey_areas ids = map evidence (drop (length (checkpoint_completed cp)) (take k survey_areas)) \<and>
    recorded return_areas ids = map evidence (take j return_areas) \<and>
    recorded [''meridian_memory''] ids = (if memory e then [evidence ''meridian_memory''] else []) \<and>
    script_objectives (survey e) = area_at k survey_areas \<and>
    script_objectives (recovery e) = area_at j return_areas"
proof -
  let ?n = "length (checkpoint_completed cp)"
  from visits_progress [OF restored [OF assms(1-4)] assms(5)] obtain k j m where
    k: "?n \<le> k" "k \<le> 3" "j \<le> 2" and e: "expedition_at k j m e"
    and ids: "recorded survey_areas ids = map evidence (drop ?n (take k survey_areas))"
      "recorded return_areas ids = map evidence (take j return_areas)"
      "recorded [''meridian_memory''] ids = (if m then [evidence ''meridian_memory''] else [])" by auto
  show ?thesis
    by (rule exI [of _ k], rule exI [of _ j]) (use k ids e in \<open>simp add: expedition_at_def chain_at_def\<close>)
qed

lemma field_restore:
  "\<exists>e. expedition_restore strict_casts field_run ''meridian_survey'' ''meridian_return'' cp = Inr e"
  using field_sources(2,3) by (auto simp: expedition_restore_def expedition_start_def)

theorem meridian_visits_in_order_witness:
  "\<exists>e0 ids e j. expedition_restore strict_casts field_run ''meridian_survey'' ''meridian_return'' Arrival = Inr e0 \<and>
    visits [(- 28, 0, - 7), (- 31, 0, 8)] e0 = (ids, e) \<and> script_objectives (recovery e) = area_at j return_areas"
proof -
  obtain e0 where e0: "expedition_restore strict_casts field_run ''meridian_survey'' ''meridian_return'' Arrival = Inr e0"
    using field_restore by blast
  obtain ids e where v: "visits [(- 28, 0, - 7), (- 31, 0, 8)] e0 = (ids, e)" by fastforce
  from meridian_visits_in_order [OF documented_strict field_runs(2,3) e0 v] e0 v show ?thesis by blast
qed

definition walk :: "pos \<Rightarrow> pos list \<Rightarrow> bool" where
  "walk p ps \<longleftrightarrow> successively valid_step (p # ps)"

lemma visits_next:
  "expedition_at k j m e \<Longrightarrow> fold next_visit ps (k, j, m) = (k', j', m') \<Longrightarrow>
     expedition_at k' j' m' (snd (visits ps e))"
proof (induction ps arbitrary: k j m e)
  case (Cons p ps)
  obtain r e1 where v: "visit p e = (r, e1)" by fastforce
  obtain k1 j1 m1 where n: "next_visit p (k, j, m) = (k1, j1, m1)" by (metis prod_cases3)
  from Cons(2) v have "expedition_at k1 j1 m1 e1"
    by (cases rule: visit_cases) (use Cons(2) n in auto)
  moreover have "fold next_visit ps (k1, j1, m1) = (k', j', m')" using Cons(3) n by simp
  ultimately have "expedition_at k' j' m' (snd (visits ps e1))" by (rule Cons(1))
  then show ?case by (simp add: v case_prod_beta)
qed simp

text \<open>From the entrance through all stations and back.\<close>

definition meridian_walk :: "pos list" where
  "meridian_walk = [(- 13, 0, - 1), (- 14, 0, - 1), (- 15, 0, - 1), (- 16, 0, 0), (- 17, 0, - 1), (- 18, 0, - 2), (- 19, 0, - 2), (- 20, 0, - 1), (- 21, 0, - 1), (- 22, 0, - 1), (- 23, 0, - 1), (- 24, 0, - 2), (- 25, 0, - 3), (- 26, 0, - 4), (- 27, 0, - 5), (- 28, 0, - 6), (- 28, 0, - 7), (- 29, 0, - 6), (- 30, 0, - 5), (- 31, 0, - 4), (- 32, 0, - 3), (- 31, 0, - 2), (- 31, 0, - 1), (- 31, 0, 0), (- 31, 0, 1), (- 31, 0, 2), (- 32, 0, 3), (- 31, 0, 4), (- 30, 0, 5), (- 29, 0, 6), (- 28, 0, 7), (- 29, 0, 6), (- 30, 0, 7), (- 31, 0, 8), (- 32, 0, 7), (- 32, 0, 6), (- 32, 0, 5), (- 32, 0, 4), (- 32, 0, 3), (- 31, 0, 2), (- 31, 0, 1), (- 30, 0, 0), (- 30, 0, - 1), (- 29, 0, - 2), (- 28, 0, - 3), (- 27, 0, - 4), (- 26, 0, - 4), (- 25, 0, - 3), (- 24, 0, - 2), (- 23, 0, - 1), (- 22, 0, - 1), (- 21, 0, - 1), (- 20, 0, - 1), (- 19, 0, - 2), (- 18, 0, - 2), (- 17, 0, - 1), (- 16, 0, 0)]"

fun checkpoint_walk :: "meridian_checkpoint \<Rightarrow> pos list" where
  "checkpoint_walk AtEntrance = meridian_walk"
| "checkpoint_walk Arrival = drop 4 meridian_walk"
| "checkpoint_walk SurveyComplete = drop 31 meridian_walk"

lemma checkpoint_walks:
  "walk (checkpoint_position cp) (checkpoint_walk cp) \<and>
   fold next_visit (checkpoint_walk cp) (length (checkpoint_completed cp), 0, False) = (3, 2, True)"
  by (cases cp) (simp_all only:, code_simp+)

lemma area_at_all: "x \<in> snd ` set (area_at (length areas) areas) \<Longrightarrow> objective_state x = CompletedState"
  by (auto simp: area_at_def enumerate_eq_zip set_zip)

text \<open>From the position of every checkpoint a walk of valid steps exists that completes
  all stations of both scripts and recovers the memory, from the state the checkpoint restores.\<close>

theorem meridian_can_be_completed:
  assumes "documented_casts c" and "runs_to run s1 survey_tables" and "runs_to run s2 return_tables"
    and "expedition_restore c run s1 s2 cp = Inr e0"
  shows "\<exists>ps e ids. walk (checkpoint_position cp) ps \<and> visits ps e0 = (ids, e) \<and> memory e \<and>
    (\<forall>x \<in> snd ` set (script_objectives (survey e)) \<union> snd ` set (script_objectives (recovery e)).
       objective_state x = CompletedState)"
proof -
  let ?ps = "checkpoint_walk cp"
  have "expedition_at 3 2 True (snd (visits ?ps e0))"
    using visits_next [OF restored [OF assms]] checkpoint_walks by blast
  then have "memory (snd (visits ?ps e0))"
    "\<forall>x \<in> snd ` set (script_objectives (survey (snd (visits ?ps e0)))) \<union>
        snd ` set (script_objectives (recovery (snd (visits ?ps e0)))). objective_state x = CompletedState"
    using area_at_all [of _ survey_areas] area_at_all [of _ return_areas]
    by (auto simp: expedition_at_def chain_at_def)
  then show ?thesis using checkpoint_walks prod.collapse by metis
qed

theorem meridian_can_be_completed_witness:
  "\<exists>e0 ps ids e. expedition_restore strict_casts field_run ''meridian_survey'' ''meridian_return'' SurveyComplete = Inr e0 \<and>
    walk (- 28, 0, 7) ps \<and> visits ps e0 = (ids, e) \<and> memory e"
proof -
  obtain e0 where e0: "expedition_restore strict_casts field_run ''meridian_survey'' ''meridian_return'' SurveyComplete = Inr e0"
    using field_restore by blast
  from meridian_can_be_completed [OF documented_strict field_runs(2,3) e0] e0 show ?thesis by auto
qed

end
