(* ===== verification/Module_Evidence.thy ===== *)
theory Module_Evidence
  imports Module_State Arsenal Replay_Events
begin

text \<open>
  The evidence a recorded session keeps of the modules of its players
  (\<open>src/runtime/replay/src/lib.rs\<close>): complete snapshots of a module state with the arithmetic of
  every weapon, and the checks of the three payloads that carry them. The main lemmas say that a
  payload which passes its check is one accepted operation of the module policy.
\<close>

section \<open>Texts\<close>

definition module_fault_text :: "module_error \<Rightarrow> string" where
  "module_fault_text e =
    (case e of
       UnknownModule v \<Rightarrow> ''unknown module: '' @ v
     | UnknownCatalogRevision v \<Rightarrow> ''unknown module catalog revision: '' @ v
     | TooManyModules n \<Rightarrow> ''module loadout exceeds three entries: '' @ show_nat n
     | DuplicateModule m \<Rightarrow> ''module loadout repeats '' @ module_as_str m
     | InvalidCatalog m \<Rightarrow> ''invalid module catalog: '' @ m
     | ModuleOverflow \<Rightarrow> ''module arithmetic overflowed''
     | EffectiveOutOfBounds f \<Rightarrow> ''effective module '' @ f @ '' is outside M26 bounds'')"

fun activity_phase_text :: "activity_phase \<Rightarrow> string" where
  "activity_phase_text Waiting = ''Waiting''"
| "activity_phase_text Active = ''Active''"
| "activity_phase_text Complete = ''Complete''"

definition mutation_text :: "mutation_error \<Rightarrow> string" where
  "mutation_text e =
    (case e of
       ModuleFault f \<Rightarrow> module_fault_text f
     | InvalidOperationId \<Rightarrow> ''operation identifier must contain 1-32 ASCII alphanumeric/hyphen characters''
     | MutationLocked p \<Rightarrow> ''module mutation is locked during '' @ activity_phase_text p
     | AlreadyOwned m \<Rightarrow> ''module is already owned: '' @ module_as_str m
     | InsufficientFragments r a \<Rightarrow>
         ''module recipe requires '' @ show_nat (unat r) @ '' fragments but only '' @ show_nat (unat a) @ '' are available''
     | UnownedModule m \<Rightarrow> ''module loadout contains unowned item: '' @ module_as_str m
     | StaleRevision x a \<Rightarrow>
         ''module loadout revision is stale: expected '' @ show_nat (unat x) @ '', actual '' @ show_nat (unat a)
     | UnchangedLoadout \<Rightarrow> ''module loadout is unchanged''
     | IdempotencyConflict \<Rightarrow> ''operation identifier was already used with different input''
     | OperationLimitReached \<Rightarrow> ''module operation ledger reached its bounded limit''
     | MutationOverflow \<Rightarrow> ''module mutation arithmetic overflowed'')"

definition invalid_module :: "string \<Rightarrow> replay_error + 'a" where
  "invalid_module text = Inl (InvalidModuleEvidence text)"

lemma invalid_module_Inr [simp]: "invalid_module t \<noteq> Inr x" "Inr x \<noteq> invalid_module t"
  by (simp_all add: invalid_module_def)

section \<open>Evidence\<close>

datatype protocol_generation = ProtocolV1 | ProtocolV2

record weapon_evidence =
  weapon_id :: string
  weapon_base :: base_profile
  weapon_effective :: effective_profile

record module_evidence =
  ev_catalog_revision :: string
  ev_catalog :: "module_entry list"
  ev_fragments :: u32
  ev_owned :: "module_id list"
  ev_loadout_revision :: u64
  ev_persisted :: "module_id list"
  ev_applied :: "module_id list"
  ev_effects_active :: bool
  ev_modifiers :: aggregate_modifiers
  ev_weapons :: "weapon_evidence list"

definition weapon_base_profile :: "weapon_stats \<Rightarrow> base_profile" where
  "weapon_base_profile w =
    \<lparr> base_damage = weapon_damage w, base_range = weapon_range w,
      base_cooldown_ms = weapon_cooldown_ms w, base_max_health = 100 \<rparr>"

definition catalog_weapons :: "string \<Rightarrow> weapon_stats list" where
  "catalog_weapons catalog_rev =
    [pulse_rifle_profile, arc_sidearm_profile]
    @ (if catalog_rev \<in> {''m31-v1'', ''m35-v1'', ''m35-v2''} then [coil_lance_profile] else [])
    @ (if catalog_rev \<in> {''m35-v1'', ''m35-v2''} then [scatter_caster_profile, rail_driver_profile] else [])"

fun resolve_weapons ::
  "string \<Rightarrow> module_id list \<Rightarrow> weapon_stats list \<Rightarrow> aggregate_modifiers option \<Rightarrow> weapon_evidence list \<Rightarrow>
   replay_error + aggregate_modifiers option \<times> weapon_evidence list" where
  "resolve_weapons catalog_rev applied [] modifiers rows = Inr (modifiers, rows)"
| "resolve_weapons catalog_rev applied (w # ws) modifiers rows =
    and_then (map_err (\<lambda>e. InvalidModuleEvidence (module_fault_text e))
      (resolve_build catalog_rev (weapon_base_profile w) applied)) (\<lambda>resolved.
    if (case modifiers of None \<Rightarrow> False | Some prior \<Rightarrow> prior \<noteq> build_modifiers resolved)
    then invalid_module ''weapon builds resolved different aggregate modifiers''
    else resolve_weapons catalog_rev applied ws (Some (build_modifiers resolved))
      (rows @ [\<lparr> weapon_id = weapon_item w, weapon_base = weapon_base_profile w,
                 weapon_effective = build_profile resolved \<rparr>]))"

definition evidence_catalog :: "string \<Rightarrow> module_entry list" where
  "evidence_catalog catalog_rev =
    (if catalog_rev = ''m35-v2'' then build_module_catalog
     else if catalog_rev \<in> {''m31-v1'', ''m35-v1''} then content_module_catalog
     else module_catalog)"

definition module_state_evidence_for_catalog ::
  "string \<Rightarrow> u32 \<Rightarrow> module_id list \<Rightarrow> module_id list \<Rightarrow> u64 \<Rightarrow> protocol_generation \<Rightarrow>
   replay_error + module_evidence" where
  "module_state_evidence_for_catalog catalog_rev frags owned_modules persisted rev0 generation =
    (if rev0 > max_loadout_revision
     then invalid_module ''loadout revision exceeds the signed persistence bound''
     else if catalog_rev = ''m26-v1'' \<and> list_ex (\<lambda>m. m \<notin> set legacy_ids) owned_modules
     then invalid_module ''legacy ownership contains a content module''
     else if catalog_rev \<noteq> ''m35-v2'' \<and> list_ex (\<lambda>m. m \<notin> set content_ids) owned_modules
     then invalid_module ''ownership requires the build catalog''
     else
     and_then (map_err (\<lambda>e. InvalidModuleEvidence (mutation_text e))
       (new_module_state frags owned_modules persisted rev0)) (\<lambda>domain.
     let owned_modules = sorted_list_of_set (owned domain);
         persisted = loadout domain;
         active = (generation = ProtocolV2);
         applied = (if active then persisted else []) in
     and_then (resolve_weapons catalog_rev applied (catalog_weapons catalog_rev) None []) (\<lambda>(modifiers, weapons).
     Inr \<lparr> ev_catalog_revision = catalog_rev, ev_catalog = evidence_catalog catalog_rev,
           ev_fragments = frags, ev_owned = owned_modules, ev_loadout_revision = rev0,
           ev_persisted = persisted, ev_applied = applied, ev_effects_active = active,
           ev_modifiers = (case modifiers of None \<Rightarrow> no_modifiers | Some m \<Rightarrow> m), ev_weapons = weapons \<rparr>)))"

definition module_state_evidence ::
  "u32 \<Rightarrow> module_id list \<Rightarrow> module_id list \<Rightarrow> u64 \<Rightarrow> protocol_generation \<Rightarrow> replay_error + module_evidence" where
  "module_state_evidence frags owned_modules persisted rev0 generation =
    module_state_evidence_for_catalog
      (if list_ex (\<lambda>m. m \<notin> set content_ids) owned_modules then ''m35-v2''
       else if generation = ProtocolV2 \<or> list_ex (\<lambda>m. m \<notin> set legacy_ids) owned_modules then ''m31-v1''
       else ''m26-v1'')
      frags owned_modules persisted rev0 generation"

section \<open>Payloads\<close>

record snapshot_payload =
  snap_schema :: "8 word"
  snap_character :: string
  snap_generation :: protocol_generation
  snap_state :: module_evidence

record combined_payload =
  comb_schema :: "8 word"
  comb_character :: string
  comb_operation :: string
  comb_module_id :: module_id
  comb_recipe_fragments :: u32
  comb_before :: module_evidence
  comb_after :: module_evidence

record loadout_payload =
  load_schema :: "8 word"
  load_character :: string
  load_operation :: string
  load_before :: module_evidence
  load_after :: module_evidence

datatype module_payload =
  SnapshotPayload snapshot_payload
| CombinedPayload combined_payload
| LoadoutPayload loadout_payload

definition module_replay_schema_version :: "8 word" where "module_replay_schema_version = 1"
definition max_module_payload_bytes :: nat where "max_module_payload_bytes = 8192"

definition validate_module_schema :: "8 word \<Rightarrow> replay_error + unit" where
  "validate_module_schema v =
    (if v \<noteq> module_replay_schema_version then invalid_module ''unknown module replay payload schema version''
     else Inr ())"

definition validate_mutation_identity :: "string \<Rightarrow> string \<Rightarrow> replay_error + unit" where
  "validate_mutation_identity character operation =
    (if character = [] \<or> length character > 128
     then invalid_module ''mutation character identifier is outside bounds''
     else map_err (\<lambda>e. InvalidModuleEvidence (mutation_text e)) (validate_operation_id operation))"

definition validate_module_state :: "module_evidence \<Rightarrow> replay_error + unit" where
  "validate_module_state s =
    and_then (module_state_evidence_for_catalog (ev_catalog_revision s) (ev_fragments s) (ev_owned s)
      (ev_persisted s) (ev_loadout_revision s) (if ev_effects_active s then ProtocolV2 else ProtocolV1))
    (\<lambda>expected.
    if s \<noteq> expected
    then invalid_module ''module state catalog, order, activation, modifiers, or arithmetic disagrees''
    else Inr ())"

definition validate_snapshot_payload :: "snapshot_payload \<Rightarrow> replay_error + unit" where
  "validate_snapshot_payload p =
    and_then (validate_module_schema (snap_schema p)) (\<lambda>_.
    if snap_character p = [] \<or> length (snap_character p) > 128
    then invalid_module ''snapshot character identifier is outside bounds''
    else if ev_effects_active (snap_state p) \<noteq> (snap_generation p = ProtocolV2)
    then invalid_module ''protocol generation and module activation disagree''
    else validate_module_state (snap_state p))"

definition validate_combination_payload :: "combined_payload \<Rightarrow> replay_error + unit" where
  "validate_combination_payload p =
    (let before = comb_before p; after = comb_after p; m = comb_module_id p in
     and_then (validate_module_schema (comb_schema p)) (\<lambda>_.
     and_then (validate_mutation_identity (comb_character p) (comb_operation p)) (\<lambda>_.
     and_then (validate_module_state before) (\<lambda>_.
     and_then (validate_module_state after) (\<lambda>_.
     if \<not> ev_effects_active before \<or> \<not> ev_effects_active after
     then invalid_module ''module mutation evidence must use active V2 arithmetic''
     else if comb_recipe_fragments p \<noteq> recipe_fragments (module_definition m) \<or>
             ev_fragments before < comb_recipe_fragments p
     then invalid_module ''module combination recipe evidence is impossible''
     else if m \<in> set (ev_owned before)
     then invalid_module ''module combination starts with an owned module''
     else
     and_then (module_state_evidence_for_catalog (ev_catalog_revision before)
       (ev_fragments before - comb_recipe_fragments p) (ev_owned before @ [m])
       (ev_persisted before) (ev_loadout_revision before) ProtocolV2) (\<lambda>expected.
     if after \<noteq> expected then invalid_module ''module combination after-state is impossible''
     else Inr ()))))))"

definition validate_loadout_payload :: "loadout_payload \<Rightarrow> replay_error + unit" where
  "validate_loadout_payload p =
    (let before = load_before p; after = load_after p in
     and_then (validate_module_schema (load_schema p)) (\<lambda>_.
     and_then (validate_mutation_identity (load_character p) (load_operation p)) (\<lambda>_.
     and_then (validate_module_state before) (\<lambda>_.
     and_then (validate_module_state after) (\<lambda>_.
     if \<not> ev_effects_active before \<or> \<not> ev_effects_active after
     then invalid_module ''module mutation evidence must use active V2 arithmetic''
     else
     and_then (ok_or (InvalidModuleEvidence ''module loadout revision overflowed'')
       (checked_add (ev_loadout_revision before) 1)) (\<lambda>resulting.
     if ev_persisted after = ev_persisted before
     then invalid_module ''module loadout event records no change''
     else
     and_then (module_state_evidence_for_catalog (ev_catalog_revision before) (ev_fragments before)
       (ev_owned before) (ev_persisted after) resulting ProtocolV2) (\<lambda>expected.
     if after \<noteq> expected then invalid_module ''module loadout after-state is impossible''
     else Inr ())))))))"

text \<open>\<open>serde_json\<close> is not part of the repository: each kind of payload is read by a function that
  gives the payload or the text of the error.\<close>

record module_codec =
  decode_snapshot :: "string \<Rightarrow> string + snapshot_payload"
  decode_combined :: "string \<Rightarrow> string + combined_payload"
  decode_loadout :: "string \<Rightarrow> string + loadout_payload"

definition decode_module_json :: "(string \<Rightarrow> string + 'a) \<Rightarrow> string \<Rightarrow> replay_error + 'a" where
  "decode_module_json decode payload =
    map_err (\<lambda>e. InvalidModuleEvidence (''invalid module replay JSON: '' @ e)) (decode payload)"

definition validate_payload_size :: "string \<Rightarrow> replay_error + unit" where
  "validate_payload_size payload =
    (if length payload > max_module_payload_bytes
     then invalid_module ''module replay payload exceeds 8192 UTF-8 bytes'' else Inr ())"

definition decode_module_payload ::
  "module_codec \<Rightarrow> replay_event_kind \<Rightarrow> string \<Rightarrow> replay_error + module_payload option" where
  "decode_module_payload codec kind payload =
    (if \<not> is_module_event kind then Inr None
     else
     and_then (validate_payload_size payload) (\<lambda>_.
     case kind of
       ModuleStateSnapshotKind \<Rightarrow>
         and_then (decode_module_json (decode_snapshot codec) payload) (\<lambda>v.
         and_then (validate_snapshot_payload v) (\<lambda>_. Inr (Some (SnapshotPayload v))))
     | ModuleCombinedKind \<Rightarrow>
         and_then (decode_module_json (decode_combined codec) payload) (\<lambda>v.
         and_then (validate_combination_payload v) (\<lambda>_. Inr (Some (CombinedPayload v))))
     | ModuleLoadoutChangedKind \<Rightarrow>
         and_then (decode_module_json (decode_loadout codec) payload) (\<lambda>v.
         and_then (validate_loadout_payload v) (\<lambda>_. Inr (Some (LoadoutPayload v))))
     | _ \<Rightarrow> Inr None))"

text \<open>Writing a payload: the bound holds for the text that is stored.\<close>

definition encode_module_payload :: "('a \<Rightarrow> string + string) \<Rightarrow> 'a \<Rightarrow> replay_error + string" where
  "encode_module_payload encode payload =
    and_then (map_err (\<lambda>e. InvalidModuleEvidence (''module replay JSON serialization failed: '' @ e)) (encode payload))
      (\<lambda>encoded. and_then (validate_payload_size encoded) (\<lambda>_. Inr encoded))"

section \<open>Evidence and the module policy\<close>

text \<open>What evidence says of a module state; the ledgers are not recorded.\<close>

definition evidence_view :: "module_evidence \<Rightarrow> module_state" where
  "evidence_view e =
    \<lparr> fragments = ev_fragments e, owned = set (ev_owned e), loadout = ev_persisted e,
      revision = ev_loadout_revision e, combinations = [], loadouts = [] \<rparr>"

definition forget_ledgers :: "module_state \<Rightarrow> module_state" where
  "forget_ledgers s = s\<lparr> combinations := [], loadouts := [] \<rparr>"

definition evidence_ok :: "module_evidence \<Rightarrow> bool" where
  "evidence_ok e \<longleftrightarrow> validate_module_state e = Inr ()"

lemma evidence_Inr:
  assumes "module_state_evidence_for_catalog c f ms ls r g = Inr e"
  shows "r \<le> max_loadout_revision \<and> distinct ms \<and> length ls \<le> 3 \<and> distinct ls \<and> set ls \<subseteq> set ms \<and>
    ev_catalog_revision e = c \<and> ev_fragments e = f \<and> ev_owned e = sorted_list_of_set (set ms) \<and>
    ev_loadout_revision e = r \<and> ev_persisted e = sort ls \<and> ev_effects_active e = (g = ProtocolV2)"
  using assms
  by (auto simp: module_state_evidence_for_catalog_def and_then_Inr map_err_Inr new_module_state_Inr Let_def
      split: if_splits)

lemma evidence_view_of:
  assumes "module_state_evidence_for_catalog c f ms ls r g = Inr e"
  shows "evidence_view e = \<lparr> fragments = f, owned = set ms, loadout = sort ls, revision = r,
    combinations = [], loadouts = [] \<rparr>"
  using evidence_Inr [OF assms] by (simp add: evidence_view_def)

text \<open>The balance plays no part in the arithmetic.\<close>

lemma evidence_fragments:
  assumes "module_state_evidence_for_catalog c f ms ls r g = Inr e"
  shows "module_state_evidence_for_catalog c f' ms ls r g = Inr (e\<lparr> ev_fragments := f' \<rparr>)"
  using assms
  by (auto simp: module_state_evidence_for_catalog_def and_then_Inr map_err_Inr new_module_state_Inr Let_def
      split: if_splits)

lemma evidence_okD:
  assumes "evidence_ok e"
  shows "module_state_evidence_for_catalog (ev_catalog_revision e) (ev_fragments e) (ev_owned e) (ev_persisted e)
      (ev_loadout_revision e) (if ev_effects_active e then ProtocolV2 else ProtocolV1) = Inr e"
    and "distinct (ev_owned e)" and "length (ev_persisted e) \<le> 3" and "distinct (ev_persisted e)"
    and "sorted (ev_persisted e)" and "set (ev_persisted e) \<subseteq> set (ev_owned e)"
    and "ev_loadout_revision e \<le> max_loadout_revision"
proof -
  show *: "module_state_evidence_for_catalog (ev_catalog_revision e) (ev_fragments e) (ev_owned e) (ev_persisted e)
      (ev_loadout_revision e) (if ev_effects_active e then ProtocolV2 else ProtocolV1) = Inr e"
    using assms by (auto simp: evidence_ok_def validate_module_state_def and_then_Inr simp del: if_split split: if_split_asm)
  note f = evidence_Inr [OF *]
  then show "distinct (ev_owned e)" "length (ev_persisted e) \<le> 3" "distinct (ev_persisted e)"
    "set (ev_persisted e) \<subseteq> set (ev_owned e)" "ev_loadout_revision e \<le> max_loadout_revision" by blast+
  show "sorted (ev_persisted e)" using f by (metis sorted_sort)
qed

lemma evidence_ok_fragments: "evidence_ok e \<Longrightarrow> evidence_ok (e\<lparr> ev_fragments := f \<rparr>)"
  using evidence_fragments [OF evidence_okD(1), of e f]
  by (simp add: evidence_ok_def validate_module_state_def)

lemma combination_is_combine:
  assumes "validate_combination_payload p = Inr ()"
  shows "evidence_ok (comb_before p) \<and> evidence_ok (comb_after p) \<and>
    (\<exists>out s. combine Complete \<lparr> creq_operation_id = comb_operation p, creq_module = comb_module_id p \<rparr>
        (evidence_view (comb_before p)) = (Inr \<lparr> disposition = Applied, outcome = out \<rparr>, s) \<and>
      forget_ledgers s = evidence_view (comb_after p))"
proof -
  let ?b = "comb_before p" and ?a = "comb_after p" and ?m = "comb_module_id p"
  let ?q = "\<lparr> creq_operation_id = comb_operation p, creq_module = ?m \<rparr>"
  have p: "validate_mutation_identity (comb_character p) (comb_operation p) = Inr ()"
      "evidence_ok ?b" "evidence_ok ?a" "comb_recipe_fragments p = recipe_fragments (module_definition ?m)"
      "comb_recipe_fragments p \<le> ev_fragments ?b" "?m \<notin> set (ev_owned ?b)"
    and e: "module_state_evidence_for_catalog (ev_catalog_revision ?b) (ev_fragments ?b - comb_recipe_fragments p)
       (ev_owned ?b @ [?m]) (ev_persisted ?b) (ev_loadout_revision ?b) ProtocolV2 = Inr ?a"
    using assms
    by (auto simp: validate_combination_payload_def Let_def and_then_Inr evidence_ok_def split: if_splits)
  from p(1) have op: "validate_operation_id (creq_operation_id ?q) = Inr ()"
    by (auto simp: validate_mutation_identity_def map_err_Inr split: if_splits)
  have new: "map_of (combinations (evidence_view ?b)) (creq_operation_id ?q) = None"
    by (simp add: evidence_view_def)
  have ok: "combinable Complete ?q (evidence_view ?b)"
    using p by (simp add: combinable_def evidence_view_def)
  have "forget_ledgers (snd (combined ?q (evidence_view ?b))) = evidence_view ?a"
    using p evidence_okD(5) [OF p(2)]
    unfolding evidence_view_of [OF e]
    by (simp add: forget_ledgers_def combined_def evidence_view_def Let_def sorted_sort_id)
  with p combine_fresh(1) [OF op new ok] show ?thesis by blast
qed

lemma loadout_is_set_loadout:
  assumes "validate_loadout_payload p = Inr ()"
  shows "evidence_ok (load_before p) \<and> evidence_ok (load_after p) \<and>
    (\<exists>out s. set_loadout Complete \<lparr> lreq_operation_id = load_operation p,
          expected_revision = ev_loadout_revision (load_before p), lreq_modules = ev_persisted (load_after p) \<rparr>
        (evidence_view (load_before p)) = (Inr \<lparr> disposition = Applied, outcome = out \<rparr>, s) \<and>
      forget_ledgers s = evidence_view (load_after p))"
proof -
  let ?b = "load_before p" and ?a = "load_after p"
  let ?q = "\<lparr> lreq_operation_id = load_operation p, expected_revision = ev_loadout_revision ?b,
      lreq_modules = ev_persisted ?a \<rparr>"
  obtain r where p: "validate_mutation_identity (load_character p) (load_operation p) = Inr ()"
      "evidence_ok ?b" "evidence_ok ?a" "checked_add (ev_loadout_revision ?b) 1 = Some r"
      "ev_persisted ?a \<noteq> ev_persisted ?b"
    and e: "module_state_evidence_for_catalog (ev_catalog_revision ?b) (ev_fragments ?b)
       (ev_owned ?b) (ev_persisted ?a) r ProtocolV2 = Inr ?a"
    using assms
    by (auto simp: validate_loadout_payload_def Let_def and_then_Inr ok_or_Inr evidence_ok_def split: if_splits)
  from p(1) have op: "validate_operation_id (lreq_operation_id ?q) = Inr ()"
    by (auto simp: validate_mutation_identity_def map_err_Inr split: if_splits)
  have can: "canonicalize_loadout (lreq_modules ?q) = Inr (ev_persisted ?a)"
    using evidence_okD(3-5) [OF p(3)] by (simp add: canonical_fixed)
  have new: "map_of (loadouts (evidence_view ?b)) (lreq_operation_id ?q) = None"
    by (simp add: evidence_view_def)
  have r: "r = ev_loadout_revision ?b + 1" using p(4) by (simp add: checked_add_def split: if_splits)
  have f: "r \<le> max_loadout_revision" "set (ev_persisted ?a) \<subseteq> set (ev_owned ?b)"
    using evidence_Inr [OF e] by blast+
  have "ev_loadout_revision ?b < max_loadout_revision"
    using f(1) p(4) by (simp add: checked_add_Some word_le_nat_alt word_less_nat_alt)
  then have ok: "settable Complete ?q (ev_persisted ?a) (evidence_view ?b)"
    using p(5) f by (simp add: settable_def evidence_view_def)
  have "forget_ledgers (snd (equipped ?q (ev_persisted ?a) (evidence_view ?b))) = evidence_view ?a"
    using evidence_okD(5) [OF p(3)]
    unfolding evidence_view_of [OF e]
    by (simp add: forget_ledgers_def equipped_def evidence_view_def Let_def r sorted_sort_id)
  with p set_loadout_fresh(1) [OF op can new ok] show ?thesis by blast
qed

text \<open>With the build catalog there is evidence of every well-formed state.\<close>

lemma resolve_weapons_build:
  assumes "length ms \<le> 3" and "distinct ms"
    and "\<forall>w \<in> set ws. weapon_profile (weapon_item w) = Some w"
    and "m = None \<or> m = Some (totals ms)"
  shows "\<exists>r. resolve_weapons ''m35-v2'' ms ws m rows = Inr r"
  using assms(3,4)
proof (induction ws arbitrary: m rows)
  case (Cons w ws)
  have w: "weapon_profile (weapon_item w) = Some w" using Cons(2) by simp
  from weapon_envelope [OF this] obtain b where
    "resolve_build ''m35-v2'' (weapon_base_profile w) ms = Inr b" "build_modifiers b = totals ms"
    using arsenal_resolves [of "weapon_base_profile w" ms] assms(1,2) by (auto simp: weapon_base_profile_def)
  then show ?case using Cons by auto
qed simp

lemma build_evidence:
  assumes "distinct ms" and "length ls \<le> 3" and "distinct ls" and "set ls \<subseteq> set ms" and "r \<le> max_loadout_revision"
  shows "\<exists>e. module_state_evidence_for_catalog ''m35-v2'' f ms ls r g = Inr e"
proof -
  let ?s = "\<lparr> fragments = f, owned = set ms, loadout = sort ls, revision = r, combinations = [], loadouts = [] \<rparr>"
  have s: "new_module_state f ms ls r = Inr ?s" using assms by (simp add: new_module_state_Inr)
  let ?a = "if g = ProtocolV2 then sort ls else []"
  have "\<exists>x. resolve_weapons ''m35-v2'' ?a (catalog_weapons ''m35-v2'') None [] = Inr x"
    by (rule resolve_weapons_build)
      (use assms in \<open>auto simp: catalog_weapons_def weapon_profile_def weapon_stats_values item_names\<close>)
  then show ?thesis
    using assms(5) s by (auto simp: module_state_evidence_for_catalog_def Let_def)
qed

end
