(* ===== verification/Acquisition.thy ===== *)
theory Acquisition
  imports Prelude
begin

text \<open>
  The commissions of the workshop (\<open>runtime/modules/src/acquisition.rs\<close>): milestones a character has
  proved, the arcs they open and the one grant each arc pays. The B-tree sets are finite sets. The
  lemmas give the exact effect of a claim; the property sums the grants of a whole history.
\<close>

section \<open>Policy\<close>

definition acquisition_revision :: string where "acquisition_revision = ''m35-acquisition-v1''"
definition commission_fragments :: u32 where "commission_fragments = 2"
definition max_fragments :: u32 where "max_fragments = 2147483647"

datatype acquisition_milestone = MeridianRecovered | BreachCompleted | StabilizeCompleted | PrismCompleted

definition all_acquisition_milestones :: "acquisition_milestone list" where
  "all_acquisition_milestones = [MeridianRecovered, BreachCompleted, StabilizeCompleted, PrismCompleted]"

fun acquisition_milestone_str :: "acquisition_milestone \<Rightarrow> string" where
  "acquisition_milestone_str MeridianRecovered = ''meridian_recovered''"
| "acquisition_milestone_str BreachCompleted = ''breach_completed''"
| "acquisition_milestone_str StabilizeCompleted = ''stabilize_completed''"
| "acquisition_milestone_str PrismCompleted = ''prism_completed''"

datatype arc_id = MeridianArc | RoutesArc | PrismArc

definition all_arcs :: "arc_id list" where
  "all_arcs = [MeridianArc, RoutesArc, PrismArc]"

fun arc_str :: "arc_id \<Rightarrow> string" where
  "arc_str MeridianArc = ''meridian''"
| "arc_str RoutesArc = ''routes''"
| "arc_str PrismArc = ''prism''"

fun arc_requirements :: "arc_id \<Rightarrow> acquisition_milestone list" where
  "arc_requirements MeridianArc = [MeridianRecovered]"
| "arc_requirements RoutesArc = [BreachCompleted, StabilizeCompleted]"
| "arc_requirements PrismArc = [PrismCompleted]"

datatype arc_status = LockedArc | ReadyArc | ClaimedArc

record acquisition_state =
  proved :: "acquisition_milestone set"
  claimed :: "arc_id set"

record acquisition_grant =
  grant_arc :: arc_id
  grant_replayed :: bool
  granted_fragments :: u32
  balance_after :: u32

datatype acquisition_error = MissingRequirement | InvalidClaimedState | FragmentOverflow

definition arc_eligible :: "acquisition_state \<Rightarrow> arc_id \<Rightarrow> bool" where
  "arc_eligible s a = list_all (\<lambda>m. m \<in> proved s) (arc_requirements a)"

definition new_acquisition ::
  "acquisition_milestone list \<Rightarrow> arc_id list \<Rightarrow> acquisition_error + acquisition_state" where
  "new_acquisition milestones arcs =
    (let s = \<lparr> proved = set milestones, claimed = set arcs \<rparr> in
     if \<exists>a \<in> claimed s. \<not> arc_eligible s a then Inl InvalidClaimedState else Inr s)"

definition record_milestone :: "acquisition_milestone \<Rightarrow> acquisition_state \<Rightarrow> bool \<times> acquisition_state" where
  "record_milestone m s = (m \<notin> proved s, s\<lparr> proved := insert m (proved s) \<rparr>)"

definition arc_status_of :: "acquisition_state \<Rightarrow> arc_id \<Rightarrow> arc_status" where
  "arc_status_of s a =
    (if a \<in> claimed s then ClaimedArc else if arc_eligible s a then ReadyArc else LockedArc)"

definition claim_arc ::
  "arc_id \<Rightarrow> u32 \<Rightarrow> acquisition_state \<Rightarrow> (acquisition_error, acquisition_grant, acquisition_state) outcome" where
  "claim_arc a fragments s =
    (if fragments > max_fragments then (Inl FragmentOverflow, s)
     else if \<not> arc_eligible s a then (Inl MissingRequirement, s)
     else
       let replayed = a \<in> claimed s;
           granted = (if replayed then 0 else commission_fragments) in
       require (ok_or FragmentOverflow
         (case checked_add fragments granted of
            None \<Rightarrow> None
          | Some v \<Rightarrow> if v \<le> max_fragments then Some v else None)) s (\<lambda>resulting.
       (Inr \<lparr> grant_arc = a, grant_replayed = replayed, granted_fragments = granted,
              balance_after = resulting \<rparr>,
        s\<lparr> claimed := insert a (claimed s) \<rparr>)))"

section \<open>The effect of a claim\<close>

lemma claim_arc_accepted:
  assumes "claim_arc a f s = (Inr g, s')"
  shows "arc_eligible s a \<and> s' = s\<lparr> claimed := insert a (claimed s) \<rparr> \<and> grant_arc g = a \<and>
    grant_replayed g = (a \<in> claimed s) \<and> granted_fragments g = (if a \<in> claimed s then 0 else 2) \<and>
    unat (balance_after g) = unat f + unat (granted_fragments g) \<and> unat (balance_after g) \<le> 2147483647"
  using assms
  by (auto simp: claim_arc_def Let_def require_eq ok_or_Inr checked_add_Some commission_fragments_def
      max_fragments_def word_le_nat_alt split: if_splits option.splits)

lemma claim_arc_rejected: "claim_arc a f s = (Inl e, s') \<Longrightarrow> s' = s"
  by (auto simp: claim_arc_def Let_def require_eq split: if_splits)

section \<open>Histories\<close>

datatype acquisition_call = RecordMilestone acquisition_milestone | ClaimArc arc_id u32

fun acquisition_call_step :: "acquisition_call \<Rightarrow> acquisition_state \<Rightarrow> acquisition_grant list \<times> acquisition_state" where
  "acquisition_call_step (RecordMilestone m) s = ([], snd (record_milestone m s))"
| "acquisition_call_step (ClaimArc a f) s =
    (case claim_arc a f s of (Inr g, s') \<Rightarrow> ([g], s') | (Inl _, s') \<Rightarrow> ([], s'))"

fun acquisition_run ::
  "acquisition_call list \<Rightarrow> acquisition_state \<Rightarrow> acquisition_grant list \<times> acquisition_state" where
  "acquisition_run [] s = ([], s)"
| "acquisition_run (c # cs) s =
    (case acquisition_call_step c s of (gs, s1) \<Rightarrow> case acquisition_run cs s1 of (hs, s2) \<Rightarrow> (gs @ hs, s2))"

definition recorded_milestones :: "acquisition_call list \<Rightarrow> acquisition_milestone set" where
  "recorded_milestones cs = {m. RecordMilestone m \<in> set cs}"

definition paid_for :: "arc_id \<Rightarrow> acquisition_grant list \<Rightarrow> nat" where
  "paid_for a gs = (\<Sum>g\<leftarrow>gs. if grant_arc g = a then unat (granted_fragments g) else 0)"

lemma paid_for_simps [simp]:
  "paid_for a [] = 0"
  "paid_for a (g # gs) = (if grant_arc g = a then unat (granted_fragments g) else 0) + paid_for a gs"
  "paid_for a (gs @ hs) = paid_for a gs + paid_for a hs"
  by (simp_all add: paid_for_def)

text \<open>A grant answers one of the claims and adds what it grants to the balance of that claim.\<close>

definition grant_accounted :: "acquisition_call list \<Rightarrow> acquisition_grant \<Rightarrow> bool" where
  "grant_accounted cs g \<longleftrightarrow> (\<exists>f. ClaimArc (grant_arc g) f \<in> set cs \<and>
     unat (balance_after g) = unat f + unat (granted_fragments g) \<and> unat (balance_after g) \<le> 2147483647)"

lemma acquisition_call_effect:
  assumes "acquisition_call_step c s = (gs, s')"
  shows "proved s' = proved s \<union> recorded_milestones [c] \<and> claimed s \<subseteq> claimed s' \<and>
    (\<forall>a. a \<in> claimed s' \<longrightarrow> a \<in> claimed s \<or> arc_eligible s a) \<and>
    (\<forall>a. paid_for a gs = (if a \<in> claimed s' - claimed s then 2 else 0)) \<and>
    (\<forall>g \<in> set gs. grant_accounted [c] g)"
proof (cases c)
  case (RecordMilestone m)
  then show ?thesis using assms by (auto simp: record_milestone_def recorded_milestones_def)
next
  case (ClaimArc a f)
  obtain r t where r: "claim_arc a f s = (r, t)" by fastforce
  show ?thesis
  proof (cases r)
    case (Inl e)
    then show ?thesis using assms r claim_arc_rejected [of a f s e t] ClaimArc by (auto simp: recorded_milestones_def)
  next
    case (Inr g)
    then show ?thesis using assms r claim_arc_accepted [of a f s g t] ClaimArc
      by (auto simp: recorded_milestones_def grant_accounted_def)
  qed
qed

lemma arc_eligible_mono: "proved s \<subseteq> proved t \<Longrightarrow> arc_eligible s a \<Longrightarrow> arc_eligible t a"
  by (auto simp: arc_eligible_def list_all_iff)

lemma acquisition_run_effect:
  assumes "acquisition_run cs s = (gs, s')" and "\<forall>a \<in> claimed s. arc_eligible s a"
  shows "proved s' = proved s \<union> recorded_milestones cs \<and> claimed s \<subseteq> claimed s' \<and>
    (\<forall>a \<in> claimed s'. arc_eligible s' a) \<and>
    (\<forall>a. paid_for a gs = (if a \<in> claimed s' - claimed s then 2 else 0)) \<and>
    (\<forall>g \<in> set gs. grant_accounted cs g)"
  using assms
proof (induction cs arbitrary: s gs)
  case (Cons c cs)
  obtain gs1 s1 where 1: "acquisition_call_step c s = (gs1, s1)" by fastforce
  obtain gs2 where 2: "acquisition_run cs s1 = (gs2, s')" "gs = gs1 @ gs2"
    using Cons(2) 1 by (auto split: prod.splits)
  note e = acquisition_call_effect [OF 1]
  have "\<forall>a \<in> claimed s1. arc_eligible s1 a"
    using e Cons(3) arc_eligible_mono [of s s1] by blast
  note IH = Cons(1) [OF 2(1) this]
  have "recorded_milestones (c # cs) = recorded_milestones [c] \<union> recorded_milestones cs"
    by (auto simp: recorded_milestones_def)
  then show ?case using e IH 2(2) by (auto simp: grant_accounted_def)
qed (simp add: recorded_milestones_def)

text \<open>C39 (invariant): over any history of milestones and claims from a restored state, an arc pays its
  two fragments exactly once, in the call that claims it first, and never when it was claimed before;
  only arcs whose milestones are all proved are claimed, milestones are the restored and the recorded
  ones; and the balance after a grant is that of the claim it answers and the granted fragments, within
  the bound of the stored integer.\<close>

theorem commissions_paid_once:
  assumes "new_acquisition milestones arcs = Inr s" and "acquisition_run cs s = (gs, s')"
  shows "proved s' = set milestones \<union> recorded_milestones cs \<and>
    (\<forall>a \<in> claimed s'. set (arc_requirements a) \<subseteq> proved s') \<and>
    (\<forall>a. paid_for a gs = (if a \<in> claimed s' \<and> a \<notin> set arcs then 2 else 0)) \<and>
    (\<forall>g \<in> set gs. \<exists>f. ClaimArc (grant_arc g) f \<in> set cs \<and>
       unat (balance_after g) = unat f + unat (granted_fragments g) \<and> unat (balance_after g) \<le> 2147483647)"
proof -
  have s: "\<forall>a \<in> claimed s. arc_eligible s a" "proved s = set milestones" "claimed s = set arcs"
    using assms(1) by (auto simp: new_acquisition_def Let_def split: if_splits)
  from acquisition_run_effect [OF assms(2) s(1)] show ?thesis
    by (auto simp: s arc_eligible_def list_all_iff grant_accounted_def)
qed

theorem commissions_paid_once_witness:
  "\<exists>s gs s'. new_acquisition [BreachCompleted] [] = Inr s \<and>
    acquisition_run [ClaimArc RoutesArc 3, RecordMilestone StabilizeCompleted, ClaimArc RoutesArc 3,
      ClaimArc RoutesArc 1] s = (gs, s') \<and> paid_for RoutesArc gs = 2"
proof -
  let ?cs = "[ClaimArc RoutesArc 3, RecordMilestone StabilizeCompleted, ClaimArc RoutesArc 3, ClaimArc RoutesArc 1]"
  obtain s where s: "new_acquisition [BreachCompleted] [] = Inr s" "s = \<lparr> proved = {BreachCompleted}, claimed = {} \<rparr>"
    by (simp add: new_acquisition_def)
  obtain gs s' where r: "acquisition_run ?cs s = (gs, s')" by fastforce
  then have "RoutesArc \<in> claimed s'"
    by (auto simp: s(2) claim_arc_def record_milestone_def arc_eligible_def max_fragments_def
        commission_fragments_def checked_add_def)
  then show ?thesis using commissions_paid_once [OF s(1) r] s(1) r by auto
qed

end
