(* ===== verification/Replay_Modules.thy ===== *)
theory Replay_Modules
  imports Module_Evidence Acquisition "HOL-Library.List_Lexorder" "HOL-Library.Char_ord"
begin

text \<open>
  The reconstruction of a recorded session (\<open>src/runtime/replay/src/lib.rs\<close>): the reducer over its
  events with the module participants, their mutations and rewards, and the commission claims of
  \<open>src/runtime/replay/src/acquisition.rs\<close>. The main theorem: what it accepts is, for every
  participant, a run of the module policy from the recorded snapshot over the recorded events.
\<close>

section \<open>Commission claims\<close>

record milestone_proof =
  proof_milestone :: acquisition_milestone
  proof_session :: string
  proof_through :: int

record claim_payload =
  claim_schema :: "8 word"
  claim_revision :: string
  claim_character :: string
  claim_arc_id :: arc_id
  claim_proofs :: "milestone_proof list"
  claim_previous :: u32
  claim_granted :: u32
  claim_resulting :: u32

definition validate_claim :: "claim_payload \<Rightarrow> replay_error + unit" where
  "validate_claim p =
    (let required = set (arc_requirements (claim_arc_id p));
         supplied = proof_milestone ` set (claim_proofs p) in
     if claim_schema p \<noteq> 1 \<or> claim_revision p \<noteq> acquisition_revision \<or>
        claim_character p = [] \<or> length (claim_character p) > 256 \<or>
        supplied \<noteq> required \<or> card supplied \<noteq> length (claim_proofs p) \<or>
        list_ex (\<lambda>q. proof_through q \<le> 0 \<or> proof_session q = [] \<or> length (proof_session q) > 128 \<or>
          \<not> list_all (\<lambda>b. is_ascii_alphanumeric b \<or> b = CHR ''-'') (proof_session q)) (claim_proofs p) \<or>
        claim_granted p \<noteq> commission_fragments \<or>
        checked_add (claim_previous p) commission_fragments \<noteq> Some (claim_resulting p) \<or>
        claim_resulting p > max_fragments
     then invalid_module ''invalid acquisition claim policy, proofs or balance''
     else Inr ())"

definition encode_acquisition_claimed ::
  "(claim_payload \<Rightarrow> string + string) \<Rightarrow> claim_payload \<Rightarrow> replay_error + string" where
  "encode_acquisition_claimed encode p =
    and_then (validate_claim p) (\<lambda>_. map_err InvalidModuleEvidence (encode p))"

definition decode_acquisition_claimed ::
  "(string \<Rightarrow> string + claim_payload) \<Rightarrow> string \<Rightarrow> replay_error + claim_payload" where
  "decode_acquisition_claimed decode payload =
    (if length payload > 4096 then invalid_module ''acquisition claim payload exceeds its bound''
     else
     and_then (map_err InvalidModuleEvidence (decode payload)) (\<lambda>p.
     and_then (validate_claim p) (\<lambda>_. Inr p)))"

section \<open>Participants\<close>

record module_participant =
  part_character :: string
  part_actor :: u64
  part_generation :: protocol_generation
  part_state :: module_evidence

text \<open>A B-tree map as an association list in the order of its keys.\<close>

fun tree_insert :: "'k::linorder \<Rightarrow> 'v \<Rightarrow> ('k \<times> 'v) list \<Rightarrow> ('k \<times> 'v) list" where
  "tree_insert k v [] = [(k, v)]"
| "tree_insert k v ((j, w) # m) =
    (if k < j then (k, v) # (j, w) # m else if k = j then (k, v) # m else (j, w) # tree_insert k v m)"

type_synonym participants = "(string \<times> module_participant) list"

record reconstructed_session =
  rec_session :: string
  rec_activity :: "string option"
  rec_player_actor :: "u64 option"
  rec_spawned :: nat
  rec_defeated :: nat
  rec_boss_spawned :: bool
  rec_completed :: bool
  rec_loot :: nat
  rec_progression :: nat
  rec_equipment :: nat
  rec_legacy :: bool
  rec_snapshots :: nat
  rec_combinations :: nat
  rec_loadout_changes :: nat
  rec_claims :: "claim_payload list"
  rec_timeline :: "string list"

definition initial_session :: "replay_event \<Rightarrow> reconstructed_session" where
  "initial_session first =
    \<lparr> rec_session = event_session first, rec_activity = None, rec_player_actor = None, rec_spawned = 0,
      rec_defeated = 0, rec_boss_spawned = False, rec_completed = False, rec_loot = 0, rec_progression = 0,
      rec_equipment = 0, rec_legacy = True, rec_snapshots = 0, rec_combinations = 0,
      rec_loadout_changes = 0, rec_claims = [], rec_timeline = [] \<rparr>"

definition matching_participant ::
  "replay_event \<Rightarrow> string \<Rightarrow> participants \<Rightarrow> replay_error + module_participant" where
  "matching_participant e character ps =
    (case map_of ps character of
       None \<Rightarrow> invalid_module ''module mutation has no participant snapshot''
     | Some p \<Rightarrow>
         if event_actor e \<noteq> Some (part_actor p)
         then invalid_module ''module mutation actor disagrees with snapshot''
         else if part_generation p \<noteq> ProtocolV2
         then invalid_module ''frozen V1 participant cannot mutate modules''
         else Inr p)"

definition apply_snapshot ::
  "module_codec \<Rightarrow> replay_event option \<Rightarrow> replay_event \<Rightarrow> reconstructed_session \<times> participants \<Rightarrow>
   replay_error + reconstructed_session \<times> participants" where
  "apply_snapshot codec prior_event e state = (case state of (session, ps) \<Rightarrow>
    and_then (decode_module_payload codec (event_kind e) (event_payload e)) (\<lambda>decoded.
    case decoded of
      Some (SnapshotPayload payload) \<Rightarrow>
        and_then (ok_or (InvalidModuleEvidence ''module snapshot has no preceding player join'') prior_event) (\<lambda>prior.
        if event_kind prior \<noteq> PlayerJoinedKind \<or> event_actor prior \<noteq> event_actor e
        then invalid_module ''module snapshot is not adjacent to its matching player join''
        else
        and_then (ok_or (InvalidModuleEvidence ''module snapshot has no actor'') (event_actor e)) (\<lambda>actor.
        if snap_character payload \<in> fst ` set ps \<or> list_ex (\<lambda>(_, p). part_actor p = actor) ps
        then invalid_module ''participant module snapshot is duplicated''
        else Inr (session\<lparr> rec_snapshots := rec_snapshots session + 1 \<rparr>,
          tree_insert (snap_character payload)
            \<lparr> part_character = snap_character payload, part_actor = actor,
              part_generation = snap_generation payload, part_state = snap_state payload \<rparr> ps)))
    | _ \<Rightarrow> invalid_module ''snapshot event decoded as another payload''))"

definition apply_combination ::
  "module_codec \<Rightarrow> replay_event \<Rightarrow> reconstructed_session \<times> participants \<Rightarrow>
   replay_error + reconstructed_session \<times> participants" where
  "apply_combination codec e state = (case state of (session, ps) \<Rightarrow>
    if \<not> rec_completed session then invalid_module ''module combination precedes activity completion''
    else
    and_then (decode_module_payload codec (event_kind e) (event_payload e)) (\<lambda>decoded.
    case decoded of
      Some (CombinedPayload payload) \<Rightarrow>
        and_then (matching_participant e (comb_character payload) ps) (\<lambda>p.
        if part_state p \<noteq> comb_before payload
        then invalid_module ''module combination before-state does not match reconstructed state''
        else Inr (session\<lparr> rec_combinations := rec_combinations session + 1 \<rparr>,
          tree_insert (comb_character payload) (p\<lparr> part_state := comb_after payload \<rparr>) ps))
    | _ \<Rightarrow> invalid_module ''combination event decoded as another payload''))"

definition apply_loadout ::
  "module_codec \<Rightarrow> replay_event \<Rightarrow> reconstructed_session \<times> participants \<Rightarrow>
   replay_error + reconstructed_session \<times> participants" where
  "apply_loadout codec e state = (case state of (session, ps) \<Rightarrow>
    if \<not> rec_completed session then invalid_module ''module loadout change precedes activity completion''
    else
    and_then (decode_module_payload codec (event_kind e) (event_payload e)) (\<lambda>decoded.
    case decoded of
      Some (LoadoutPayload payload) \<Rightarrow>
        and_then (matching_participant e (load_character payload) ps) (\<lambda>p.
        if part_state p \<noteq> load_before payload
        then invalid_module ''module loadout before-state does not match reconstructed state''
        else Inr (session\<lparr> rec_loadout_changes := rec_loadout_changes session + 1 \<rparr>,
          tree_insert (load_character payload) (p\<lparr> part_state := load_after payload \<rparr>) ps))
    | _ \<Rightarrow> invalid_module ''loadout event decoded as another payload''))"

section \<open>Rewards\<close>

text \<open>\<open>str::rsplit_once\<close>, \<open>strip_prefix\<close>, \<open>strip_suffix\<close> and \<open>u32::from_str\<close>, which takes one
  leading plus sign.\<close>

definition strip_prefix :: "string \<Rightarrow> string \<Rightarrow> string option" where
  "strip_prefix s p = (if starts_with s p then Some (after_prefix s p) else None)"

definition rsplit_once :: "string \<Rightarrow> string \<Rightarrow> (string \<times> string) option" where
  "rsplit_once s p =
    map_option (\<lambda>i. (take i s, drop (i + length p) s))
      (find (\<lambda>i. starts_with (drop i s) p) (rev [0..<length s + 1]))"

definition strip_suffix :: "string \<Rightarrow> char \<Rightarrow> string option" where
  "strip_suffix s c = (if s \<noteq> [] \<and> last s = c then Some (butlast s) else None)"

definition is_digit :: "char \<Rightarrow> bool" where
  "is_digit c \<longleftrightarrow> 48 \<le> byte c \<and> byte c \<le> 57"

definition digits_value :: "string \<Rightarrow> nat" where
  "digits_value s = foldl (\<lambda>n c. 10 * n + (byte c - 48)) 0 s"

definition parse_u32 :: "string \<Rightarrow> u32 option" where
  "parse_u32 s =
    (let d = (case s of c # r \<Rightarrow> if c = CHR ''+'' then r else s | [] \<Rightarrow> []) in
     if d \<noteq> [] \<and> list_all is_digit d \<and> digits_value d < 2 ^ 32 then Some (of_nat (digits_value d)) else None)"

definition relay_fragment_total :: "string \<Rightarrow> u32 option" where
  "relay_fragment_total payload =
    Option.bind (strip_prefix payload ''loot granted: relay_core_fragment x'') (\<lambda>suffix.
    Option.bind (rsplit_once suffix '' (total '') (\<lambda>(_, total).
    Option.bind (strip_suffix total (CHR '')'')) parse_u32))"

definition apply_fragment_reward ::
  "replay_event \<Rightarrow> participants \<Rightarrow> replay_error + participants" where
  "apply_fragment_reward e ps =
    (case relay_fragment_total (event_payload e) of
       None \<Rightarrow> Inr ps
     | Some t \<Rightarrow>
         (case event_actor e of
            None \<Rightarrow> invalid_module ''fragment reward has no participant actor''
          | Some actor \<Rightarrow>
              (case find (\<lambda>(_, p). part_actor p = actor) ps of
                 None \<Rightarrow> Inr ps
               | Some (k, p) \<Rightarrow>
                   if t < ev_fragments (part_state p)
                   then invalid_module ''fragment reward reduces reconstructed balance''
                   else Inr (tree_insert k (p\<lparr> part_state := (part_state p)\<lparr> ev_fragments := t \<rparr> \<rparr>) ps))))"

definition apply_claim ::
  "(string \<Rightarrow> string + claim_payload) \<Rightarrow> replay_event \<Rightarrow> reconstructed_session \<times> participants \<Rightarrow>
   replay_error + reconstructed_session \<times> participants" where
  "apply_claim decode e state = (case state of (session, ps) \<Rightarrow>
    and_then (decode_acquisition_claimed decode (event_payload e)) (\<lambda>payload.
    if \<not> rec_completed session \<or> list_ex (\<lambda>q. proof_through q \<ge> event_id e) (claim_proofs payload) \<or>
       list_ex (\<lambda>c. claim_character c = claim_character payload \<and> claim_arc_id c = claim_arc_id payload)
         (rec_claims session)
    then invalid_module ''acquisition claim is premature or duplicated''
    else
    and_then (matching_participant e (claim_character payload) ps) (\<lambda>p.
    if ev_fragments (part_state p) \<noteq> claim_previous payload
    then invalid_module ''acquisition balance differs from reconstructed inventory''
    else Inr (session\<lparr> rec_claims := rec_claims session @ [payload] \<rparr>,
      tree_insert (claim_character payload)
        (p\<lparr> part_state := (part_state p)\<lparr> ev_fragments := claim_resulting payload \<rparr> \<rparr>) ps))))"

section \<open>The reducer\<close>

definition support_prefix :: string where "support_prefix = ''support-v1:''"
definition elite_prefix :: string where "elite_prefix = ''elite-v1:''"

text \<open>One event: the session with its participants, and whether a module event was seen. The
  decoders of both crates' payloads are arguments.\<close>

definition reduce_event ::
  "module_codec \<Rightarrow> (string \<Rightarrow> string + claim_payload) \<Rightarrow> replay_event option \<Rightarrow> replay_event \<Rightarrow>
   reconstructed_session \<times> participants \<Rightarrow> bool \<Rightarrow>
   replay_error + (reconstructed_session \<times> participants) \<times> bool" where
  "reduce_event codec claims prior e state saw = (case state of (s, ps) \<Rightarrow>
    case event_kind e of
      PlayerJoinedKind \<Rightarrow> Inr ((s\<lparr> rec_player_actor := event_actor e \<rparr>, ps), saw)
    | EnemySpawnedKind \<Rightarrow>
        Inr ((s\<lparr> rec_spawned := rec_spawned s +
          (if starts_with (event_payload e) support_prefix \<or> starts_with (event_payload e) elite_prefix
           then 2 else 1) \<rparr>, ps), saw)
    | EnemyDiedKind \<Rightarrow> Inr ((s\<lparr> rec_defeated := rec_defeated s + 1 \<rparr>, ps), saw)
    | BossSpawnedKind \<Rightarrow> Inr ((s\<lparr> rec_boss_spawned := True \<rparr>, ps), saw)
    | ActivityCompletedKind \<Rightarrow> Inr ((s\<lparr> rec_completed := True \<rparr>, ps), saw)
    | LootGrantedKind \<Rightarrow>
        and_then (apply_fragment_reward e ps) (\<lambda>ps. Inr ((s\<lparr> rec_loot := rec_loot s + 1 \<rparr>, ps), saw))
    | ProgressionGrantedKind \<Rightarrow> Inr ((s\<lparr> rec_progression := rec_progression s + 1 \<rparr>, ps), saw)
    | EquipmentChangedKind \<Rightarrow> Inr ((s\<lparr> rec_equipment := rec_equipment s + 1 \<rparr>, ps), saw)
    | ModuleStateSnapshotKind \<Rightarrow> and_then (apply_snapshot codec prior e (s, ps)) (\<lambda>r. Inr (r, True))
    | ModuleCombinedKind \<Rightarrow> and_then (apply_combination codec e (s, ps)) (\<lambda>r. Inr (r, True))
    | ModuleLoadoutChangedKind \<Rightarrow> and_then (apply_loadout codec e (s, ps)) (\<lambda>r. Inr (r, True))
    | AcquisitionClaimedKind \<Rightarrow> and_then (apply_claim claims e (s, ps)) (\<lambda>r. Inr (r, saw))
    | _ \<Rightarrow> Inr ((s, ps), saw))"

definition note_activity :: "replay_event \<Rightarrow> reconstructed_session \<Rightarrow> reconstructed_session" where
  "note_activity e s = (if event_activity e \<noteq> None then s\<lparr> rec_activity := event_activity e \<rparr> else s)"

definition note_timeline :: "replay_event \<Rightarrow> reconstructed_session \<Rightarrow> reconstructed_session" where
  "note_timeline e s = s\<lparr> rec_timeline := rec_timeline s @
     [event_timestamp e @ '' | '' @ kind_str (event_kind e) @ '' | '' @ event_payload e] \<rparr>"

definition reconstruct_event ::
  "module_codec \<Rightarrow> (string \<Rightarrow> string + claim_payload) \<Rightarrow> replay_event option \<Rightarrow> replay_event \<Rightarrow>
   (reconstructed_session \<times> participants) \<times> bool \<Rightarrow>
   replay_error + (reconstructed_session \<times> participants) \<times> bool" where
  "reconstruct_event codec claims prior e loop = (case loop of ((s, ps), saw) \<Rightarrow>
    and_then (reduce_event codec claims prior e (note_activity e s, ps) saw) (\<lambda>((s, ps), saw).
    Inr ((note_timeline e s, ps), saw)))"

fun reconstruct_events ::
  "module_codec \<Rightarrow> (string \<Rightarrow> string + claim_payload) \<Rightarrow> replay_event option \<Rightarrow> replay_event list \<Rightarrow>
   (reconstructed_session \<times> participants) \<times> bool \<Rightarrow>
   replay_error + (reconstructed_session \<times> participants) \<times> bool" where
  "reconstruct_events codec claims prior [] loop = Inr loop"
| "reconstruct_events codec claims prior (e # es) loop =
    and_then (reconstruct_event codec claims prior e loop) (reconstruct_events codec claims (Some e) es)"

fun validate_snapshot_adjacency :: "replay_event list \<Rightarrow> replay_error + unit" where
  "validate_snapshot_adjacency [] = Inr ()"
| "validate_snapshot_adjacency (e # es) =
    (if event_kind e = PlayerJoinedKind then
       (case es of
          [] \<Rightarrow> invalid_module ''M26 player join is missing module snapshot''
        | n # _ \<Rightarrow>
            if event_kind n \<noteq> ModuleStateSnapshotKind \<or> event_actor n \<noteq> event_actor e
            then invalid_module ''M26 player join is missing adjacent module snapshot''
            else validate_snapshot_adjacency es)
     else validate_snapshot_adjacency es)"

text \<open>\<open>reconstruct\<close> up to the validators of the other streams.\<close>

definition reconstruct_modules ::
  "module_codec \<Rightarrow> (string \<Rightarrow> string + claim_payload) \<Rightarrow> replay_event list \<Rightarrow>
   replay_error + reconstructed_session \<times> module_participant list" where
  "reconstruct_modules codec claims events =
    (case events of
       [] \<Rightarrow> Inl EmptySession
     | first # _ \<Rightarrow>
         and_then (validate_event_order events (event_session first)) (\<lambda>_.
         and_then (reconstruct_events codec claims None events ((initial_session first, []), False)) (\<lambda>((s, ps), saw).
         if saw then
           and_then (validate_snapshot_adjacency events) (\<lambda>_. Inr (s\<lparr> rec_legacy := False \<rparr>, map snd ps))
         else Inr (s, map snd ps))))"

section \<open>Trees\<close>

lemma find_SomeD: "find P xs = Some x \<Longrightarrow> x \<in> set xs \<and> P x"
  by (metis find_Some_iff nth_mem)

lemma map_of_tree_insert [simp]: "map_of (tree_insert k v m) = (map_of m)(k \<mapsto> v)"
  by (induction k v m rule: tree_insert.induct) (auto simp: fun_eq_iff)

definition tree :: "('k::linorder \<times> 'v) list \<Rightarrow> bool" where
  "tree m \<longleftrightarrow> sorted_wrt (<) (map fst m)"

lemma fst_tree_insert: "fst ` set (tree_insert k v m) = insert k (fst ` set m)"
  by (induction k v m rule: tree_insert.induct) auto

lemma tree_insert_tree: "tree m \<Longrightarrow> tree (tree_insert k v m)"
proof (induction k v m rule: tree_insert.induct)
  case (2 k v j w m)
  then show ?case
    using fst_tree_insert [of k v m] by (auto simp: tree_def image_iff)
qed (simp add: tree_def)

lemma tree_distinct: "tree m \<Longrightarrow> distinct (map fst m)"
  by (simp add: tree_def strict_sorted_iff)

lemma tree_set: "tree m \<Longrightarrow> (k, v) \<in> set m \<longleftrightarrow> map_of m k = Some v"
  using tree_distinct [of m] by simp

section \<open>Accepted sessions follow the module policy\<close>

text \<open>The entries of a character's book: what may change the state that evidence shows.\<close>

datatype booking =
  BookCombination string module_id
| BookLoadout string "module_id list"
| BookReward u32
| BookCommission arc_id

fun book :: "booking \<Rightarrow> module_state \<Rightarrow> module_state option" where
  "book (BookCombination op m) s =
    (case combine Complete \<lparr> creq_operation_id = op, creq_module = m \<rparr> s of
       (Inr r, t) \<Rightarrow> if disposition r = Applied then Some (forget_ledgers t) else None
     | _ \<Rightarrow> None)"
| "book (BookLoadout op ms) s =
    (case set_loadout Complete \<lparr> lreq_operation_id = op, expected_revision = revision s, lreq_modules = ms \<rparr> s of
       (Inr r, t) \<Rightarrow> if disposition r = Applied then Some (forget_ledgers t) else None
     | _ \<Rightarrow> None)"
| "book (BookReward t) s = (if fragments s \<le> t then Some (s\<lparr> fragments := t \<rparr>) else None)"
| "book (BookCommission a) s =
    (if unat (fragments s) + 2 \<le> 2147483647 then Some (s\<lparr> fragments := fragments s + 2 \<rparr>) else None)"

fun booked :: "booking list \<Rightarrow> module_state \<Rightarrow> module_state option" where
  "booked [] s = Some s"
| "booked (b # bs) s = Option.bind (book b s) (booked bs)"

lemma booked_append [simp]: "booked (bs @ cs) s = Option.bind (booked bs s) (booked cs)"
  by (induction bs arbitrary: s) (auto split: bind_splits)

fun is_reward :: "booking \<Rightarrow> bool" where
  "is_reward (BookReward _) = True"
| "is_reward _ = False"

definition commissions :: "booking list \<Rightarrow> arc_id list" where
  "commissions bs = List.map_filter (\<lambda>b. case b of BookCommission a \<Rightarrow> Some a | _ \<Rightarrow> None) bs"

lemma commissions_simps [simp]:
  "commissions [] = []"
  "commissions (bs @ cs) = commissions bs @ commissions cs"
  "commissions [BookReward t] = []" "commissions [BookCommission a] = [a]"
  "commissions [BookCombination op m] = []" "commissions [BookLoadout op ms] = []"
  by (simp_all add: commissions_def map_filter_def)

text \<open>What a recorded event enters into the book of a participant: a relay fragment total granted to
  their actor, or a mutation or claim of their character.\<close>

definition entry ::
  "module_codec \<Rightarrow> (string \<Rightarrow> string + claim_payload) \<Rightarrow> module_participant \<Rightarrow> replay_event \<Rightarrow> booking option" where
  "entry codec claims p e =
    (case event_kind e of
       LootGrantedKind \<Rightarrow>
         if event_actor e = Some (part_actor p)
         then map_option BookReward (relay_fragment_total (event_payload e)) else None
     | ModuleCombinedKind \<Rightarrow>
         (case decode_module_payload codec (event_kind e) (event_payload e) of
            Inr (Some (CombinedPayload v)) \<Rightarrow>
              if comb_character v = part_character p
              then Some (BookCombination (comb_operation v) (comb_module_id v)) else None
          | _ \<Rightarrow> None)
     | ModuleLoadoutChangedKind \<Rightarrow>
         (case decode_module_payload codec (event_kind e) (event_payload e) of
            Inr (Some (LoadoutPayload v)) \<Rightarrow>
              if load_character v = part_character p
              then Some (BookLoadout (load_operation v) (ev_persisted (load_after v))) else None
          | _ \<Rightarrow> None)
     | AcquisitionClaimedKind \<Rightarrow>
         (case decode_acquisition_claimed claims (event_payload e) of
            Inr v \<Rightarrow>
              if claim_character v = part_character p then Some (BookCommission (claim_arc_id v)) else None
          | Inl _ \<Rightarrow> None)
     | _ \<Rightarrow> None)"

definition entries ::
  "module_codec \<Rightarrow> (string \<Rightarrow> string + claim_payload) \<Rightarrow> module_participant \<Rightarrow> replay_event list \<Rightarrow> booking list" where
  "entries codec claims p es = List.map_filter (entry codec claims p) es"

lemma entry_cong:
  assumes "part_actor q = part_actor p" and "part_character q = part_character p"
  shows "entry codec claims q = entry codec claims p"
  unfolding entry_def assms ..

lemma entry_state [simp]: "entry codec claims (p\<lparr> part_state := ev \<rparr>) = entry codec claims p"
  by (rule entry_cong) simp_all

lemma entries_simps [simp]:
  "entries codec claims p [] = []"
  "entries codec claims p (es @ [e]) =
     entries codec claims p es @ (case entry codec claims p e of None \<Rightarrow> [] | Some b \<Rightarrow> [b])"
  "entries codec claims (p\<lparr> part_state := ev \<rparr>) es = entries codec claims p es"
  by (simp_all add: entries_def List.map_filter_def split: option.splits)

text \<open>The event that brought a participant's snapshot.\<close>

definition joined_by ::
  "module_codec \<Rightarrow> module_participant \<Rightarrow> snapshot_payload \<Rightarrow> replay_event \<Rightarrow> bool" where
  "joined_by codec p snap e \<longleftrightarrow>
     event_kind e = ModuleStateSnapshotKind \<and> event_actor e = Some (part_actor p) \<and>
     decode_module_payload codec (event_kind e) (event_payload e) = Inr (Some (SnapshotPayload snap)) \<and>
     snap_character snap = part_character p \<and> snap_generation snap = part_generation p"

lemma joined_by_state [simp]: "joined_by codec (p\<lparr> part_state := ev \<rparr>) snap e = joined_by codec p snap e"
proof -
  let ?q = "p\<lparr> part_state := ev \<rparr>"
  have q: "part_actor ?q = part_actor p" "part_character ?q = part_character p"
    "part_generation ?q = part_generation p" by simp_all
  show ?thesis unfolding joined_by_def q ..
qed

definition claimed_arcs :: "string \<Rightarrow> claim_payload list \<Rightarrow> arc_id list" where
  "claimed_arcs character cs = map claim_arc_id (filter (\<lambda>c. claim_character c = character) cs)"

lemma claimed_arcs_simps [simp]:
  "claimed_arcs character [] = []"
  "claimed_arcs character (cs @ [c]) =
     claimed_arcs character cs @ (if claim_character c = character then [claim_arc_id c] else [])"
  by (simp_all add: claimed_arcs_def)

definition follows_policy ::
  "module_codec \<Rightarrow> (string \<Rightarrow> string + claim_payload) \<Rightarrow> replay_event list \<Rightarrow> reconstructed_session \<Rightarrow>
   module_participant \<Rightarrow> bool" where
  "follows_policy codec claims es s p \<longleftrightarrow>
     evidence_ok (part_state p) \<and>
     (\<exists>before e snap after. es = before @ e # after \<and> joined_by codec p snap e \<and>
        booked (entries codec claims p after) (evidence_view (snap_state snap)) =
          Some (evidence_view (part_state p)) \<and>
        commissions (entries codec claims p after) = claimed_arcs (part_character p) (rec_claims s) \<and>
        (list_all is_reward (entries codec claims p after) \<or>
          part_generation p = ProtocolV2 \<and> rec_completed s))"

text \<open>One more event, and what it enters into the book.\<close>

lemma follows_policy_step:
  assumes "follows_policy codec claims es s p" and "evidence_ok ev"
    and "case entry codec claims p e of None \<Rightarrow> evidence_view ev = evidence_view (part_state p)
      | Some b \<Rightarrow> book b (evidence_view (part_state p)) = Some (evidence_view ev) \<and>
          (is_reward b \<or> part_generation p = ProtocolV2 \<and> rec_completed t)"
    and "claimed_arcs (part_character p) (rec_claims t) = claimed_arcs (part_character p) (rec_claims s) @
      (case entry codec claims p e of None \<Rightarrow> [] | Some b \<Rightarrow> commissions [b])"
    and "rec_completed s \<longrightarrow> rec_completed t"
  shows "follows_policy codec claims (es @ [e]) t (p\<lparr> part_state := ev \<rparr>)"
proof -
  from assms(1) obtain before j snap after where *: "es = before @ j # after" "joined_by codec p snap j"
    "booked (entries codec claims p after) (evidence_view (snap_state snap)) = Some (evidence_view (part_state p))"
    "commissions (entries codec claims p after) = claimed_arcs (part_character p) (rec_claims s)"
    "list_all is_reward (entries codec claims p after) \<or> part_generation p = ProtocolV2 \<and> rec_completed s"
    by (auto simp: follows_policy_def)
  have "es @ [e] = before @ j # after @ [e]" using *(1) by simp
  moreover have "joined_by codec (p\<lparr> part_state := ev \<rparr>) snap j"
    using *(2) by simp
  moreover have "booked (entries codec claims p (after @ [e])) (evidence_view (snap_state snap)) =
      Some (evidence_view ev)"
    using * assms(3) by (auto split: option.splits)
  moreover have "commissions (entries codec claims p (after @ [e])) =
      claimed_arcs (part_character p) (rec_claims t)"
    using * assms(4) by (auto split: option.splits)
  moreover have "list_all is_reward (entries codec claims p (after @ [e])) \<or>
      part_generation p = ProtocolV2 \<and> rec_completed t"
    using * assms(3,5) by (auto split: option.splits)
  ultimately show ?thesis using assms(2) unfolding follows_policy_def
    by (intro conjI exI [of _ before] exI [of _ j] exI [of _ snap] exI [of _ "after @ [e]"]) simp_all
qed

lemma follows_policy_idle:
  assumes "follows_policy codec claims es s p" and "entry codec claims p e = None"
    and "claimed_arcs (part_character p) (rec_claims t) = claimed_arcs (part_character p) (rec_claims s)"
    and "rec_completed s \<longrightarrow> rec_completed t"
  shows "follows_policy codec claims (es @ [e]) t p"
proof -
  have "evidence_ok (part_state p)" using assms(1) by (simp add: follows_policy_def)
  from follows_policy_step [OF assms(1) this, where e = e and t = t] assms(2-) show ?thesis by simp
qed

definition loop_ok ::
  "module_codec \<Rightarrow> (string \<Rightarrow> string + claim_payload) \<Rightarrow> replay_event list \<Rightarrow>
   reconstructed_session \<times> participants \<Rightarrow> bool" where
  "loop_ok codec claims es st \<longleftrightarrow> (case st of (s, ps) \<Rightarrow>
     tree ps \<and> (\<forall>k p. map_of ps k = Some p \<longrightarrow> part_character p = k \<and> follows_policy codec claims es s p) \<and>
     (\<forall>j k p q. map_of ps j = Some p \<and> map_of ps k = Some q \<and> part_actor p = part_actor q \<longrightarrow> j = k) \<and>
     (\<forall>c \<in> set (rec_claims s). claim_character c \<in> dom (map_of ps)) \<and>
     distinct (map (\<lambda>c. (claim_character c, claim_arc_id c)) (rec_claims s)))"

text \<open>The other fields of the session do not matter; an event that enters nothing changes nothing;
  and one participant at a time is updated.\<close>

lemma loop_ok_same:
  assumes "loop_ok codec claims es (s, ps)" and "rec_claims t = rec_claims s" and "rec_completed t = rec_completed s"
  shows "loop_ok codec claims es (t, ps)"
proof -
  have "follows_policy codec claims es t p = follows_policy codec claims es s p" for p
    by (simp add: follows_policy_def assms(2,3))
  then show ?thesis using assms(1,2) by (simp add: loop_ok_def)
qed

lemma loop_ok_idle:
  assumes "loop_ok codec claims es (s, ps)" and "\<And>k p. map_of ps k = Some p \<Longrightarrow> entry codec claims p e = None"
    and "rec_claims t = rec_claims s" and "rec_completed s \<longrightarrow> rec_completed t"
  shows "loop_ok codec claims (es @ [e]) (t, ps)"
proof -
  have "follows_policy codec claims (es @ [e]) t p" if "map_of ps k = Some p" for k p
    using assms(1) that by (intro follows_policy_idle [OF _ assms(2) [OF that] _ assms(4)])
      (auto simp: loop_ok_def assms(3))
  then show ?thesis using assms(1,3) by (simp add: loop_ok_def)
qed

lemma actors_update:
  assumes "\<forall>j k p q. map_of ps j = Some p \<and> map_of ps k = Some q \<and> part_actor p = part_actor q \<longrightarrow> j = k"
    and "map_of ps k = Some p" and "part_actor p' = part_actor p"
    and "map_of (tree_insert k p' ps) i = Some q" and "map_of (tree_insert k p' ps) j = Some r"
    and "part_actor q = part_actor r"
  shows "i = j"
proof -
  have was: "\<exists>q'. map_of ps i = Some q' \<and> part_actor q' = part_actor q"
    if "map_of (tree_insert k p' ps) i = Some q" for i q
    using that assms(2,3) by (cases "i = k") auto
  from was [OF assms(4)] was [OF assms(5)] assms(1,6) show ?thesis by metis
qed

lemma claims_distinct:
  assumes "distinct (map (\<lambda>c. (claim_character c, claim_arc_id c)) cs)"
    and "\<forall>d \<in> set cs. \<not> (claim_character d = claim_character c \<and> claim_arc_id d = claim_arc_id c)"
  shows "distinct (map (\<lambda>c. (claim_character c, claim_arc_id c)) (cs @ [c]))"
proof -
  have "(claim_character c, claim_arc_id c) \<notin> (\<lambda>c. (claim_character c, claim_arc_id c)) ` set cs"
    using assms(2) unfolding image_iff prod.inject by metis
  with assms(1) show ?thesis by simp
qed

lemma loop_ok_update:
  assumes ok: "loop_ok codec claims es (s, ps)" and k: "map_of ps k = Some p" and ev: "evidence_ok ev"
    and b: "entry codec claims p e = Some b" "book b (evidence_view (part_state p)) = Some (evidence_view ev)"
      "is_reward b \<or> part_generation p = ProtocolV2 \<and> rec_completed t"
    and others: "\<And>j q. map_of ps j = Some q \<Longrightarrow> j \<noteq> k \<Longrightarrow> entry codec claims q e = None"
    and cs: "rec_claims t = rec_claims s \<and> commissions [b] = [] \<or>
      (\<exists>c. rec_claims t = rec_claims s @ [c] \<and> claim_character c = k \<and> commissions [b] = [claim_arc_id c] \<and>
        (\<forall>d \<in> set (rec_claims s). \<not> (claim_character d = k \<and> claim_arc_id d = claim_arc_id c)))"
    and fin: "rec_completed s \<longrightarrow> rec_completed t"
  shows "loop_ok codec claims (es @ [e]) (t, tree_insert k (p\<lparr> part_state := ev \<rparr>) ps)"
proof -
  have inv: "tree ps" "map_of ps j = Some q \<Longrightarrow> part_character q = j \<and> follows_policy codec claims es s q"
    "\<forall>j k p q. map_of ps j = Some p \<and> map_of ps k = Some q \<and> part_actor p = part_actor q \<longrightarrow> j = k"
    "\<forall>c \<in> set (rec_claims s). claim_character c \<in> dom (map_of ps)"
    "distinct (map (\<lambda>c. (claim_character c, claim_arc_id c)) (rec_claims s))" for j q
    using ok unfolding loop_ok_def prod.case by blast+
  let ?qs = "tree_insert k (p\<lparr> part_state := ev \<rparr>) ps"
  note p = inv(2) [OF k]
  have arcs: "claimed_arcs j (rec_claims t) = claimed_arcs j (rec_claims s) @ (if j = k then commissions [b] else [])" for j
    using cs by auto
  have "follows_policy codec claims (es @ [e]) t (p\<lparr> part_state := ev \<rparr>)"
    using b p fin by (intro follows_policy_step [OF _ ev]) (simp_all add: arcs)
  moreover have "follows_policy codec claims (es @ [e]) t q" if q: "map_of ps j = Some q" "j \<noteq> k" for j q
    using inv(2) [OF q(1)] q(2) fin
    by (intro follows_policy_idle [OF _ others [OF q]]) (simp_all add: arcs)
  ultimately have "part_character q = j \<and> follows_policy codec claims (es @ [e]) t q"
    if "map_of ?qs j = Some q" for j q
    using that p inv(2) [of j q] by (cases "j = k") auto
  moreover have "i = j" if "map_of ?qs i = Some q" "map_of ?qs j = Some r" "part_actor q = part_actor r" for i j q r
    using that by (rule actors_update [OF inv(3) k, rotated 1]) simp
  moreover have "tree ?qs" using inv(1) by (rule tree_insert_tree)
  moreover have "claim_character c \<in> dom (map_of ?qs)" if "c \<in> set (rec_claims t)" for c
    using that cs inv(4) by auto
  moreover have "distinct (map (\<lambda>c. (claim_character c, claim_arc_id c)) (rec_claims t))"
    using cs inv(5) claims_distinct [OF inv(5)] by metis
  ultimately show ?thesis unfolding loop_ok_def prod.case by blast
qed

lemma matching_participant_Inr:
  "matching_participant e k ps = Inr p \<longleftrightarrow>
     map_of ps k = Some p \<and> event_actor e = Some (part_actor p) \<and> part_generation p = ProtocolV2"
  by (auto simp: matching_participant_def split: option.splits)

lemma decode_kinds:
  "decode_module_payload codec ModuleStateSnapshotKind t = Inr d \<Longrightarrow>
     \<exists>v. d = Some (SnapshotPayload v) \<and> validate_snapshot_payload v = Inr ()"
  "decode_module_payload codec ModuleCombinedKind t = Inr d \<Longrightarrow>
     \<exists>v. d = Some (CombinedPayload v) \<and> validate_combination_payload v = Inr ()"
  "decode_module_payload codec ModuleLoadoutChangedKind t = Inr d \<Longrightarrow>
     \<exists>v. d = Some (LoadoutPayload v) \<and> validate_loadout_payload v = Inr ()"
  by (auto simp: decode_module_payload_def and_then_Inr)

lemma apply_snapshot_ok:
  assumes "loop_ok codec claims es (s, ps)" and "event_kind e = ModuleStateSnapshotKind"
    and "apply_snapshot codec prior e (s, ps) = Inr (t, qs)"
  shows "loop_ok codec claims (es @ [e]) (t, qs)"
proof -
  obtain d where d: "decode_module_payload codec (event_kind e) (event_payload e) = Inr d"
    using assms(3) by (auto simp: apply_snapshot_def and_then_Inr)
  then obtain v where dv: "d = Some (SnapshotPayload v)" "validate_snapshot_payload v = Inr ()"
    using decode_kinds(1) assms(2) by metis
  obtain actor where v: "event_actor e = Some actor" "snap_character v \<notin> fst ` set ps"
      "\<forall>(_, p) \<in> set ps. part_actor p \<noteq> actor"
    and t: "t = s\<lparr> rec_snapshots := rec_snapshots s + 1 \<rparr>"
      "qs = tree_insert (snap_character v) \<lparr> part_character = snap_character v, part_actor = actor,
        part_generation = snap_generation v, part_state = snap_state v \<rparr> ps"
    using assms(3) d unfolding apply_snapshot_def dv
    by (clarsimp simp: and_then_Inr ok_or_Inr list_ex_iff split: if_split_asm) blast
  let ?p = "\<lparr> part_character = snap_character v, part_actor = actor, part_generation = snap_generation v,
      part_state = snap_state v \<rparr>"
  have new: "map_of ps (snap_character v) = None" using v(2) by (simp add: map_of_eq_None_iff)
  then have none: "claimed_arcs (snap_character v) (rec_claims t) = []"
    using assms(1) by (auto simp: loop_ok_def claimed_arcs_def filter_empty_conv t)
  have "evidence_ok (snap_state v)"
    using dv(2) by (auto simp: and_then_Inr validate_snapshot_payload_def evidence_ok_def split: if_splits)
  then have p: "follows_policy codec claims (es @ [e]) t ?p"
    using none v(1) d dv(1) assms(2) unfolding follows_policy_def joined_by_def
    by (intro conjI exI [of _ es] exI [of _ e] exI [of _ v] exI [of _ "[]"]) simp_all
  have old: "loop_ok codec claims (es @ [e]) (t, ps)"
    by (rule loop_ok_idle [OF assms(1)]) (simp_all add: entry_def assms(2) t)
  have "part_actor q \<noteq> actor" if "map_of ps k = Some q" for k q
    using v(3) map_of_SomeD [OF that] by auto
  with old p show ?thesis by (fastforce simp: loop_ok_def t(2) tree_insert_tree split: if_splits)
qed

lemma apply_combination_ok:
  assumes "loop_ok codec claims es (s, ps)" and "event_kind e = ModuleCombinedKind"
    and "apply_combination codec e (s, ps) = Inr (t, qs)"
  shows "loop_ok codec claims (es @ [e]) (t, qs)"
proof -
  obtain d where d: "decode_module_payload codec (event_kind e) (event_payload e) = Inr d"
    using assms(3) by (auto simp: apply_combination_def and_then_Inr split: if_splits)
  then obtain v where dv: "d = Some (CombinedPayload v)" "validate_combination_payload v = Inr ()"
    using decode_kinds(2) assms(2) by metis
  obtain p where v: "rec_completed s" "map_of ps (comb_character v) = Some p" "part_generation p = ProtocolV2"
      "part_state p = comb_before v"
    and t: "t = s\<lparr> rec_combinations := rec_combinations s + 1 \<rparr>"
      "qs = tree_insert (comb_character v) (p\<lparr> part_state := comb_after v \<rparr>) ps"
    using assms(3) d by (auto simp: apply_combination_def dv and_then_Inr matching_participant_Inr split: if_splits)
  have chars: "map_of ps k = Some q \<Longrightarrow> part_character q = k" for k q using assms(1) by (simp add: loop_ok_def)
  have entry: "entry codec claims q e = (if comb_character v = part_character q
      then Some (BookCombination (comb_operation v) (comb_module_id v)) else None)" for q
    using d by (simp add: entry_def assms(2) dv(1))
  have "evidence_ok (comb_after v)" "book (BookCombination (comb_operation v) (comb_module_id v))
      (evidence_view (part_state p)) = Some (evidence_view (comb_after v))"
    using combination_is_combine [OF dv(2)] by (auto simp: v(4))
  then show ?thesis
    unfolding t(2) by (intro loop_ok_update [OF assms(1) v(2)]) (auto simp: t v entry chars [OF v(2)] dest: chars)
qed

lemma apply_loadout_ok:
  assumes "loop_ok codec claims es (s, ps)" and "event_kind e = ModuleLoadoutChangedKind"
    and "apply_loadout codec e (s, ps) = Inr (t, qs)"
  shows "loop_ok codec claims (es @ [e]) (t, qs)"
proof -
  obtain d where d: "decode_module_payload codec (event_kind e) (event_payload e) = Inr d"
    using assms(3) by (auto simp: apply_loadout_def and_then_Inr split: if_splits)
  then obtain v where dv: "d = Some (LoadoutPayload v)" "validate_loadout_payload v = Inr ()"
    using decode_kinds(3) assms(2) by metis
  obtain p where v: "rec_completed s" "map_of ps (load_character v) = Some p" "part_generation p = ProtocolV2"
      "part_state p = load_before v"
    and t: "t = s\<lparr> rec_loadout_changes := rec_loadout_changes s + 1 \<rparr>"
      "qs = tree_insert (load_character v) (p\<lparr> part_state := load_after v \<rparr>) ps"
    using assms(3) d by (auto simp: apply_loadout_def dv and_then_Inr matching_participant_Inr split: if_splits)
  have chars: "map_of ps k = Some q \<Longrightarrow> part_character q = k" for k q using assms(1) by (simp add: loop_ok_def)
  have entry: "entry codec claims q e = (if load_character v = part_character q
      then Some (BookLoadout (load_operation v) (ev_persisted (load_after v))) else None)" for q
    using d by (simp add: entry_def assms(2) dv(1))
  have "evidence_ok (load_after v)" "book (BookLoadout (load_operation v) (ev_persisted (load_after v)))
      (evidence_view (part_state p)) = Some (evidence_view (load_after v))"
    using loadout_is_set_loadout [OF dv(2)] by (auto simp: v(4)) (auto simp: evidence_view_def)
  then show ?thesis
    unfolding t(2) by (intro loop_ok_update [OF assms(1) v(2)]) (auto simp: t v entry chars [OF v(2)] dest: chars)
qed

lemma view_fragments: "evidence_view (e\<lparr> ev_fragments := f \<rparr>) = (evidence_view e)\<lparr> fragments := f \<rparr>"
  by (simp add: evidence_view_def)

lemma apply_fragment_reward_ok:
  assumes "loop_ok codec claims es (s, ps)" and "event_kind e = LootGrantedKind"
    and "apply_fragment_reward e ps = Inr qs"
    and "rec_claims t = rec_claims s" and "rec_completed s \<longrightarrow> rec_completed t"
  shows "loop_ok codec claims (es @ [e]) (t, qs)"
proof -
  have tree: "tree ps" using assms(1) by (simp add: loop_ok_def)
  have entry: "entry codec claims q e = (if event_actor e = Some (part_actor q)
      then map_option BookReward (relay_fragment_total (event_payload e)) else None)" for q
    by (simp add: entry_def assms(2))
  have cases: "(qs = ps \<and> relay_fragment_total (event_payload e) = None) \<or>
    (\<exists>r actor. relay_fragment_total (event_payload e) = Some r \<and> event_actor e = Some actor \<and>
      (case find (\<lambda>(_, p). part_actor p = actor) ps of
         None \<Rightarrow> qs = ps
       | Some (k, p) \<Rightarrow> ev_fragments (part_state p) \<le> r \<and>
           qs = tree_insert k (p\<lparr> part_state := (part_state p)\<lparr> ev_fragments := r \<rparr> \<rparr>) ps))"
    using assms(3) unfolding apply_fragment_reward_def
    by (cases "relay_fragment_total (event_payload e)"; cases "event_actor e")
      (simp_all add: not_less split: option.splits prod.splits if_splits)
  then consider (idle) "qs = ps" "relay_fragment_total (event_payload e) = None"
    | (absent) actor where "qs = ps" "event_actor e = Some actor"
        "find (\<lambda>(_, p). part_actor p = actor) ps = None"
    | (reward) r k p actor where "relay_fragment_total (event_payload e) = Some r" "event_actor e = Some actor"
        "find (\<lambda>(_, p). part_actor p = actor) ps = Some (k, p)" "ev_fragments (part_state p) \<le> r"
        "qs = tree_insert k (p\<lparr> part_state := (part_state p)\<lparr> ev_fragments := r \<rparr> \<rparr>) ps"
    by (elim disjE conjE exE) (simp_all split: option.splits prod.splits)
  then show ?thesis
  proof cases
    case idle
    then show ?thesis using loop_ok_idle [OF assms(1) _ assms(4,5)] by (simp add: entry)
  next
    case absent
    have "part_actor q \<noteq> actor" if "map_of ps k = Some q" for k q
      using absent(3) map_of_SomeD [OF that] by (auto simp: find_None_iff)
    then have "entry codec claims q e = None" if "map_of ps k = Some q" for k q
      using that absent(2) by (auto simp: entry)
    from loop_ok_idle [OF assms(1) this assms(4,5)] show ?thesis using absent(1) by simp
  next
    case reward
    have k: "map_of ps k = Some p" "part_actor p = actor"
      using reward(3) tree tree_set [of ps k p] by (auto dest: find_SomeD)
    then have ok: "evidence_ok (part_state p)" using assms(1) by (auto simp: loop_ok_def follows_policy_def)
    have unique: "part_actor q \<noteq> actor" if "map_of ps j = Some q" "j \<noteq> k" for j q
      using assms(1) k that by (auto simp: loop_ok_def)
    have b: "book (BookReward r) (evidence_view (part_state p)) =
        Some (evidence_view ((part_state p)\<lparr> ev_fragments := r \<rparr>))"
      unfolding view_fragments using reward(4) by (simp add: evidence_view_def)
    have others: "entry codec claims q e = None" if "map_of ps j = Some q" "j \<noteq> k" for j q
      using unique [OF that] reward(2) by (simp add: entry)
    show ?thesis
      unfolding reward(5)
      by (rule loop_ok_update [OF assms(1) k(1) _ _ b _ others])
        (use ok k(2) reward(1,2) assms(4,5) in \<open>auto simp: entry evidence_ok_fragments\<close>)
  qed
qed

lemma validate_claim_balance:
  assumes "validate_claim v = Inr ()"
  shows "unat (claim_previous v) + 2 \<le> 2147483647 \<and> claim_resulting v = claim_previous v + 2"
proof -
  have v: "checked_add (claim_previous v) 2 = Some (claim_resulting v)" "claim_resulting v \<le> 2147483647"
    using assms by (auto simp: validate_claim_def Let_def commission_fragments_def max_fragments_def split: if_splits)
  from v(1) have "unat (claim_resulting v) = unat (claim_previous v) + 2" by (simp add: checked_add_Some)
  moreover have "unat (claim_resulting v) \<le> 2147483647" using v(2) by (simp add: word_le_nat_alt)
  ultimately show ?thesis using v(1) by (auto simp: checked_add_def split: if_splits)
qed

lemma apply_claim_ok:
  assumes "loop_ok codec claims es (s, ps)" and "event_kind e = AcquisitionClaimedKind"
    and "apply_claim claims e (s, ps) = Inr (t, qs)"
  shows "loop_ok codec claims (es @ [e]) (t, qs)"
proof -
  obtain v where dv: "decode_acquisition_claimed claims (event_payload e) = Inr v"
    using assms(3) by (auto simp: apply_claim_def and_then_Inr)
  then have vv: "validate_claim v = Inr ()"
    by (auto simp: decode_acquisition_claimed_def and_then_Inr split: if_split_asm)
  obtain p where v: "rec_completed s"
      "\<forall>c \<in> set (rec_claims s). \<not> (claim_character c = claim_character v \<and> claim_arc_id c = claim_arc_id v)"
      "map_of ps (claim_character v) = Some p" "part_generation p = ProtocolV2"
      "ev_fragments (part_state p) = claim_previous v"
    and t: "t = s\<lparr> rec_claims := rec_claims s @ [v] \<rparr>"
      "qs = tree_insert (claim_character v)
        (p\<lparr> part_state := (part_state p)\<lparr> ev_fragments := claim_resulting v \<rparr> \<rparr>) ps"
    using assms(3) unfolding apply_claim_def prod.case dv and_then_simps
    by (clarsimp simp: and_then_Inr matching_participant_Inr list_ex_iff split: if_split_asm)
  have p: "part_character p = claim_character v" "evidence_ok (part_state p)"
    using assms(1) v(3) by (auto simp: loop_ok_def follows_policy_def)
  have chars: "map_of ps k = Some q \<Longrightarrow> part_character q = k" for k q using assms(1) by (simp add: loop_ok_def)
  have entry: "entry codec claims q e = (if claim_character v = part_character q
      then Some (BookCommission (claim_arc_id v)) else None)" for q
    by (simp add: entry_def assms(2) dv)
  have b: "book (BookCommission (claim_arc_id v)) (evidence_view (part_state p)) =
      Some (evidence_view ((part_state p)\<lparr> ev_fragments := claim_resulting v \<rparr>))"
    unfolding view_fragments using validate_claim_balance [OF vv] v(5) by (simp add: evidence_view_def)
  show ?thesis
    unfolding t(2)
    by (rule loop_ok_update [OF assms(1) v(3) _ _ b])
      (use p v chars in \<open>auto simp: t entry evidence_ok_fragments\<close>)
qed

lemma reduce_event_ok:
  assumes "loop_ok codec claims es (s, ps)" and "reduce_event codec claims prior e (s, ps) saw = Inr (st', saw')"
  shows "loop_ok codec claims (es @ [e]) st'"
proof -
  obtain t qs where st': "st' = (t, qs)" by fastforce
  have idle: "loop_ok codec claims (es @ [e]) (t, ps)"
    if "\<And>q. entry codec claims q e = None" "rec_claims t = rec_claims s" "rec_completed s \<longrightarrow> rec_completed t" for t
    by (rule loop_ok_idle [OF assms(1)]) (use that in auto)
  show ?thesis
  proof (cases "event_kind e")
    case ModuleStateSnapshotKind
    then show ?thesis using assms(2) apply_snapshot_ok [OF assms(1), of e prior t qs]
      by (simp add: reduce_event_def and_then_Inr st')
  next
    case ModuleCombinedKind
    then show ?thesis using assms(2) apply_combination_ok [OF assms(1), of e t qs]
      by (simp add: reduce_event_def and_then_Inr st')
  next
    case ModuleLoadoutChangedKind
    then show ?thesis using assms(2) apply_loadout_ok [OF assms(1), of e t qs]
      by (simp add: reduce_event_def and_then_Inr st')
  next
    case AcquisitionClaimedKind
    then show ?thesis using assms(2) apply_claim_ok [OF assms(1), of e t qs]
      by (simp add: reduce_event_def and_then_Inr st')
  next
    case LootGrantedKind
    then show ?thesis using assms(2) apply_fragment_reward_ok [OF assms(1), of e qs t]
      by (auto simp: reduce_event_def and_then_Inr st')
  qed (use assms(2) idle in \<open>auto simp: reduce_event_def st' entry_def\<close>)
qed

lemma reconstruct_event_ok:
  assumes "loop_ok codec claims es st" and "reconstruct_event codec claims prior e (st, saw) = Inr (st', saw')"
  shows "loop_ok codec claims (es @ [e]) st'"
proof -
  obtain s ps where st: "st = (s, ps)" by fastforce
  obtain t qs where r: "reduce_event codec claims prior e (note_activity e s, ps) saw = Inr ((t, qs), saw')"
      "st' = (note_timeline e t, qs)"
    using assms(2) by (auto simp: st reconstruct_event_def and_then_Inr)
  have "loop_ok codec claims es (note_activity e s, ps)"
    by (rule loop_ok_same [OF assms(1) [unfolded st]]) (simp_all add: note_activity_def)
  then have "loop_ok codec claims (es @ [e]) (t, qs)" by (rule reduce_event_ok) (rule r(1))
  then show ?thesis unfolding r(2) by (rule loop_ok_same) (simp_all add: note_timeline_def)
qed

lemma reconstruct_events_ok:
  "loop_ok codec claims before st \<Longrightarrow> reconstruct_events codec claims prior es (st, saw) = Inr (st', saw') \<Longrightarrow>
   loop_ok codec claims (before @ es) st'"
proof (induction es arbitrary: before prior st saw)
  case (Cons e es)
  obtain st1 saw1 where 1: "reconstruct_event codec claims prior e (st, saw) = Inr (st1, saw1)"
    and 2: "reconstruct_events codec claims (Some e) es (st1, saw1) = Inr (st', saw')"
    using Cons(3) by (auto simp: and_then_Inr)
  from Cons(1) [OF reconstruct_event_ok [OF Cons(2) 1] 2] show ?case by simp
qed simp

lemma claimed_arcs_distinct:
  "distinct (map (\<lambda>c. (claim_character c, claim_arc_id c)) cs) \<Longrightarrow> distinct (claimed_arcs k cs)"
  by (auto simp: claimed_arcs_def distinct_map inj_on_def)

text \<open>C40 (refinement): whatever is recorded, a session is only accepted if the module state of each
  player is what the events after their join snapshot make of the snapshot's state: entered in order,
  each recorded combination and loadout change of the character is a call that the module policy
  applies, each relay fragment grant to the player's actor sets the balance to its recorded total,
  which is not lower, and each commission claim of the character adds two fragments. Nothing else
  changes the state. The commissions are the claims of the session for that character, one per arc.
  Players on the old protocol, and sessions that did not complete, have rewards only; the evidence of
  the final state is consistent.\<close>

theorem module_replay_follows_policy:
  assumes "reconstruct_modules codec claims events = Inr (s, ps)" and "p \<in> set ps"
  shows "evidence_ok (part_state p) \<and>
    (\<exists>before e snap after. events = before @ e # after \<and> joined_by codec p snap e \<and>
       booked (entries codec claims p after) (evidence_view (snap_state snap)) =
         Some (evidence_view (part_state p)) \<and>
       commissions (entries codec claims p after) =
         map claim_arc_id (filter (\<lambda>c. claim_character c = part_character p) (rec_claims s)) \<and>
       distinct (commissions (entries codec claims p after)) \<and>
       (list_all is_reward (entries codec claims p after) \<or>
         part_generation p = ProtocolV2 \<and> rec_completed s))"
proof -
  obtain first rest where events: "events = first # rest"
    using assms(1) by (cases events) (simp_all add: reconstruct_modules_def)
  obtain t qs saw where r: "reconstruct_events codec claims None events ((initial_session first, []), False) = Inr ((t, qs), saw)"
    and s: "rec_claims s = rec_claims t" "rec_completed s = rec_completed t" "ps = map snd qs"
    using assms(1) by (auto simp: reconstruct_modules_def events and_then_Inr split: if_splits)
  have "loop_ok codec claims [] (initial_session first, [])"
    by (simp add: loop_ok_def tree_def initial_session_def)
  from reconstruct_events_ok [OF this r] have ok: "loop_ok codec claims events (t, qs)" by simp
  obtain k where "(k, p) \<in> set qs" using assms(2) s(3) by auto
  then have "map_of qs k = Some p" using ok tree_set [of qs k p] by (simp add: loop_ok_def)
  with ok have f: "follows_policy codec claims events t p"
    and d: "distinct (claimed_arcs (part_character p) (rec_claims t))"
    by (auto simp: loop_ok_def claimed_arcs_distinct)
  then show ?thesis
    unfolding follows_policy_def s claimed_arcs_def [symmetric] by metis
qed

text \<open>A player who joins with three fragments, completes the activity and combines a module.\<close>

theorem module_replay_follows_policy_witness:
  "\<exists>codec claims events s p. reconstruct_modules codec claims events = Inr (s, [p]) \<and>
    rec_combinations s = 1 \<and> ev_owned (part_state p) = [ForceMatrix] \<and> evidence_ok (part_state p)"
proof -
  obtain b where b: "module_state_evidence_for_catalog ''m35-v2'' 3 [] [] 0 ProtocolV2 = Inr b"
    using build_evidence [of "[]" "[]" 0 3 ProtocolV2] by auto
  obtain a where a: "module_state_evidence_for_catalog ''m35-v2'' 1 [ForceMatrix] [] 0 ProtocolV2 = Inr a"
    using build_evidence [of "[ForceMatrix]" "[]" 0 1 ProtocolV2] by auto
  note fields = evidence_Inr [OF b] evidence_Inr [OF a]
  let ?snap = "\<lparr> snap_schema = 1, snap_character = ''c'', snap_generation = ProtocolV2, snap_state = b \<rparr>"
  let ?comb = "\<lparr> comb_schema = 1, comb_character = ''c'', comb_operation = ''op'', comb_module_id = ForceMatrix,
      comb_recipe_fragments = 2, comb_before = b, comb_after = a \<rparr>"
  let ?codec = "\<lparr> decode_snapshot = (\<lambda>_. Inr ?snap), decode_combined = (\<lambda>_. Inr ?comb),
      decode_loadout = (\<lambda>_. Inl ''none'') \<rparr>"
  let ?ev = "\<lambda>i k. \<lparr> event_id = i, event_kind = k, event_timestamp = [], event_session = [], event_account = [],
      event_activity = None, event_actor = Some 7, event_payload = [] \<rparr>"
  let ?events = "[?ev 1 PlayerJoinedKind, ?ev 2 ModuleStateSnapshotKind, ?ev 3 ActivityCompletedKind,
      ?ev 4 ModuleCombinedKind]"
  have states: "validate_module_state b = Inr ()" "validate_module_state a = Inr ()"
    using a b fields by (simp_all add: validate_module_state_def)
  have "recipe_fragments (module_definition ForceMatrix) = 2" by code_simp
  moreover have "validate_operation_id ''op'' = Inr ()"
    by (simp add: validate_operation_id_def is_ascii_alphanumeric_def byte_def)
  ultimately have payloads: "validate_snapshot_payload ?snap = Inr ()" "validate_combination_payload ?comb = Inr ()"
    using states fields a
    by (simp_all add: validate_snapshot_payload_def validate_combination_payload_def validate_module_schema_def
        validate_mutation_identity_def module_replay_schema_version_def)
  have "\<exists>s p. reconstruct_modules ?codec (\<lambda>_. Inl ''none'') ?events = Inr (s, [p]) \<and> rec_combinations s = 1 \<and>
      part_state p = a"
    using payloads
    by (simp add: reconstruct_modules_def validate_event_order_def reconstruct_event_def reduce_event_def
        note_activity_def note_timeline_def initial_session_def apply_snapshot_def apply_combination_def
        decode_module_payload_def validate_payload_size_def decode_module_json_def matching_participant_def)
  then obtain s p where r: "reconstruct_modules ?codec (\<lambda>_. Inl ''none'') ?events = Inr (s, [p])"
    "rec_combinations s = 1" "part_state p = a" by blast
  then have "evidence_ok (part_state p)" using module_replay_follows_policy [OF r(1)] by simp
  with r fields show ?thesis by fastforce
qed

end
