(* ===== verification/Spec2Isabelle.thy ===== *)
theory Spec2Isabelle
  imports Actors Combat Combat_Analysis Controller Lancer Bulwark Mender Prism Elite Sentinel
    Cooperation Routes Module_State Campaign Challenges Recovery Signal Survival Gauntlet Mastery
    Wire Live_Lancer Coolant Meridian Replay_Modules
begin

text \<open>
  \<^bold>\<open>A verification library for the authoritative core of Revenant.\<close>

  Revenant is a cooperative action game with an authoritative server. The crates under
  \<open>src/runtime\<close> hold its rules as plain state machines (actors, combat, the enemy brains, the
  module, campaign, route, cooperation and challenge policies); the gateway owns one session per
  thread and drives them; every accepted step is recorded, and the replay crate decides from the
  record alone whether a session could have happened. The theories follow this order.

  \<^bold>\<open>How the code is modelled.\<close> Unsigned integers are words (\<open>u8\<close>, \<open>u32\<close>, \<open>u64\<close>), with \<open>saturating_\<close>
  and \<open>checked_\<close> operations as functions of \<open>Prelude\<close>; signed integers are \<open>int\<close>, with the
  wrap-around written out where the code can leave the width. A struct is a record, an enum a
  datatype, \<open>Result\<close> a sum with the error on the left, a method on \<open>&mut self\<close> a function that
  also returns the new state, so that an error after a partial change is visible. Hash and tree
  maps are finite maps or association lists. Clocks (\<open>Instant\<close>), random seeds and the process-wide
  actor counter are arguments. Texts of \<open>Display\<close>, \<open>serde\<close> attributes and log output are left out.

  \<^bold>\<open>Foundations.\<close>
  \<^item> \<open>Prelude\<close>: machine integers, results with the \<open>?\<close> operator, handlers that keep their state on
    an error, byte strings. Every other theory rests on it.
  \<^item> \<open>Pacing\<close>: runs of a controller fed with stamped events; the interfaces \<open>paced\<close> (actions keep a
    distance) and \<open>telegraphed\<close> (a strike follows its own warning), proved once for whole runs and
    interpreted by every enemy brain and by the challenge runs with a cadence.
  \<^item> \<open>Holding\<close>: the interface \<open>hold\<close> of an action that needs a state held over time, interpreted by
    the recovery stations, the survival relays and the gauntlet transfers.
  \<^item> \<open>Lifecycle\<close>: the interface of an operation that reaches a terminal state once, interpreted by
    routes and cooperation; and the idempotent application of requests.
  \<^item> \<open>Double\<close>: rounding of exact rationals to 53 bits, for the one place that divides \<open>f64\<close>.

  \<^bold>\<open>Actors, combat and enemies\<close> (\<open>actors\<close>, \<open>world\<close>, \<open>combat\<close>, \<open>ai\<close>).
  \<^item> \<open>Actors\<close>: registry and world entry; identifiers stay unique and health within its maximum.
  \<^item> \<open>Combat\<close>, \<open>Combat_Analysis\<close>: the attack handler with its guards and cooldowns, and the balance
    analysis, whose verdicts are shown to be what repeated attacks do.
  \<^item> \<open>Controller\<close>: the chase and attack controller; its pressure is bounded by its profile, agrees
    with the analysis, and its chase of a standing player is known tick by tick.
  \<^item> \<open>Lancer\<close>, \<open>Bulwark\<close>, \<open>Mender\<close>, \<open>Sentinel\<close>, \<open>Prism\<close>, \<open>Elite\<close>: the brains, whose strikes are
    announced, spaced and exact; the line of sight of the sentinel is equivalent to its rational
    geometry; the boss has two phases and can always be defeated.

  \<^bold>\<open>Policies\<close> (\<open>cooperation\<close>, \<open>operations\<close>, \<open>modules\<close>, \<open>inventory\<close>, \<open>campaign\<close>, \<open>challenges\<close>).
  \<^item> \<open>Cooperation\<close>: the two-player operation against an abstract specification with refinement,
    final outcomes, bounded time and earned rewards.
  \<^item> \<open>Route_Catalog\<close>, \<open>Routes\<close>: seeded events, balanced over all seeds, and the route operation,
    which never rerolls a choice and reports what happened.
  \<^item> \<open>Module_Catalog\<close>, \<open>Arsenal\<close>, \<open>Module_Builds\<close>, \<open>Module_State\<close>: catalogs, exact arithmetic of
    builds, and the ledgers of combination and loadout requests.
  \<^item> \<open>Acquisition\<close>: milestones, arcs and the one grant each arc pays.
  \<^item> \<open>Campaign\<close>: saved runs and transitions; chapters are granted once, and only for complete runs.
  \<^item> \<open>Challenge_Catalog\<close>, \<open>Challenges\<close>: contracts, rules and presets, the commands of a character
    and its best records. \<open>Recovery\<close>, \<open>Signal\<close>, \<open>Survival\<close>, \<open>Gauntlet\<close>: the run controllers, with
    exact ledgers of health and the stations that must be held. \<open>Mastery\<close>: badges as a function of
    the set of attempts.

  \<^bold>\<open>Wire, sessions and replay\<close> (\<open>protocol\<close>, \<open>gateway\<close>, \<open>replay\<close>).
  \<^item> \<open>Wire\<close>: length-prefixed frames; messages written in sequence are read back. The MessagePack
    codec is an argument with the law \<open>decode (encode m) = m\<close>.
  \<^item> \<open>Replay_Events\<close>: kinds, events and their order. \<open>Replay_Lancer\<close>: the validation of a recorded
    encounter; what it accepts is a run of the brain. \<open>Module_Evidence\<close>, \<open>Replay_Modules\<close>: the evidence
    of module states with its checks, and the reducer of a whole session; what it accepts is, for
    every player, the run of the module policy over the events recorded for that player. Decoders of JSON are arguments.
  \<^item> \<open>Session\<close>: the part of the shared session that live encounters use, with the event store of
    the persistence service as an argument. \<open>Live_Lancer\<close>: the live encounter on top of the actor
    registry, combat, routes and the brain; whatever is fed to it and whatever the store refuses,
    its log is accepted by \<open>Replay_Lancer\<close>, with the state the players were told.

  \<^bold>\<open>Authored activities\<close> (\<open>activities\<close>, \<open>objectives\<close>, \<open>progression\<close>, \<open>scripts/activities\<close>).
  \<^item> \<open>Lua\<close>: values and heaps of the interpreter, and the first check of \<open>authoring.rs\<close>, which accepts
    exactly the values that unfold to a small finite tree of plain data, cyclic heaps included.
    \<open>Objectives\<close>: objectives, world triggers and experience.
  \<^item> \<open>Activity_Graph\<close>: the graph checks of \<open>authoring.rs\<close>; the cycle check is exact and the closure is
    reachability. \<open>Activities\<close>: the parser and the runtime of \<open>lib.rs\<close>; what the parser accepts keeps
    its objectives well typed and is played to its end by its own triggers, each fired once. The interface \<open>authored_activity\<close> is what
    the parser guarantees; \<open>Field_Scripts\<close> interprets it on the embedded scripts, as the tables they
    declare and what those parse to.
  \<^item> \<open>Coolant\<close>, \<open>Meridian\<close>: the field activities of \<open>coolant.rs\<close> and \<open>meridian.rs\<close>; stations are held
    and visited in the authored order, and every checkpoint can be continued to the end.

  \<^bold>\<open>Bounds and termination.\<close> The loops of the modelled code run over finite lists or words and are
  structural recursions, except three of the activity checks, which end by a measure: the walk over
  a heap that may be cyclic (what remains of its limits), the queue of the cycle check (open edges
  and queued names) and the closure (names not yet reached). So there is no fuel; where a property speaks of time it bounds it in
  milliseconds of the clocks fed in. Word bounds are explicit hypotheses: no clock reversal where
  the code relies on a monotonic clock, and fewer than \<open>2 ^ 64\<close> actor identifiers.

  \<^bold>\<open>Not modelled.\<close> The threads, sockets and TLS of the gateway and the dispatch of client messages;
  the SQL of the persistence crate; the validators of the other recorded streams; the files and the
  restricted Lua interpreter of the activities, an argument here; identity and the security lab; the
  command line tools, the archived client, the Godot client and the web panel. They are I/O around
  the modelled rules, or a repetition of modelled ones over another brain; \<open>mlua\<close>, \<open>serde_json\<close>,
  \<open>rmp_serde\<close> and PostgreSQL are not part of the repository and appear as arguments where the code
  relies on them.
\<close>

end
